(* ===== verification/Prelude.thy ===== *)
theory Prelude
  imports Main "HOL-Library.Word"
begin

unbundle bit_operations_syntax

text \<open>
  What the components of the development share: the machine types, errors as
  values of a sum type, byte strings and their slices, and the bit lemmas that
  the encoders and decoders rest on.

  The machine is the one the tools are built for by their makefiles: \<open>int\<close>,
  \<open>long\<close> and pointers of 32 bits, \<open>short\<close> of 16 bits, two's complement,
  signed \<open>char\<close>s, little-endian byte order (the default \<open>BYTE_ORDER\<close> of
  \<open>Ack-5.5/lib/obj.h\<close>). Arithmetic on these types wraps around, as word
  arithmetic does.
\<close>

section \<open>Machine types\<close>

type_synonym byte = "8 word"
type_synonym u16 = "16 word"
type_synonym u32 = "32 word"

text \<open>A file or a buffer is the list of its bytes.\<close>

type_synonym bytes = "byte list"

named_theorems codec_simps \<open>round trips of the byte encodings\<close>
named_theorems seg_simps \<open>slices and overwritten ranges of byte strings\<close>
named_theorems error_simps \<open>propagation of errors\<close>

text \<open>
  File positions and sizes are computed as \<open>long\<close>s. Where they are read as numbers
  the model keeps an \<open>int\<close> and writes the wrap-around to 32 bits out: \<open>long x\<close> is
  the value a \<open>long\<close> variable holds after \<open>x\<close> is stored in it.
\<close>

definition long :: "int \<Rightarrow> int" where
  "long x = signed_take_bit 31 x"

lemma long_id [simp]: "- (2 ^ 31) \<le> x \<Longrightarrow> x < 2 ^ 31 \<Longrightarrow> long x = x"
  by (simp add: long_def signed_take_bit_int_eq_self)

lemma long_bounds: "- (2 ^ 31) \<le> long x" "long x < 2 ^ 31"
  using signed_take_bit_int_greater_eq_minus_exp [of 31 x] signed_take_bit_int_less_exp [of 31 x]
  by (simp_all add: long_def)

lemma long_sint_add: "long (sint x + sint y) = sint (x + y)" for x y :: "32 word"
  by (simp add: long_def sint_word_add)

lemma nat_int_plus [simp]: "nat (int a + int b) = a + b"
  by (simp flip: of_nat_add)

section \<open>Errors as values\<close>

text \<open>
  A routine that may call one of the \<open>fatal\<close> routines (which do not return)
  yields \<open>Inl\<close> of the error or \<open>Inr\<close> of its result; \<open>bindE\<close> is the
  sequence of two such routines.
\<close>

fun bindE :: "'e + 'a \<Rightarrow> ('a \<Rightarrow> 'e + 'b) \<Rightarrow> 'e + 'b" where
  "bindE (Inl e) f = Inl e"
| "bindE (Inr x) f = f x"

definition checkE :: "bool \<Rightarrow> 'e \<Rightarrow> 'e + unit" where
  "checkE b e = (if b then Inr () else Inl e)"

lemma bindE_Inr_iff [error_simps]:
  "bindE m f = Inr y \<longleftrightarrow> (\<exists>x. m = Inr x \<and> f x = Inr y)"
  by (cases m) auto

lemma bindE_Inl_iff [error_simps]:
  "bindE m f = Inl e \<longleftrightarrow> m = Inl e \<or> (\<exists>x. m = Inr x \<and> f x = Inl e)"
  by (cases m) auto

text \<open>The continuation runs only on results: what the function package needs to know.\<close>

lemma bindE_cong [fundef_cong]:
  "m = m' \<Longrightarrow> (\<And>x. m' = Inr x \<Longrightarrow> f x = f' x) \<Longrightarrow> bindE m f = bindE m' f'"
  by (cases m') auto

lemma bindE_assoc: "bindE (bindE m f) g = bindE m (\<lambda>x. bindE (f x) g)"
  by (cases m) auto

lemma checkE_Inr_iff [error_simps]: "checkE b e = Inr u \<longleftrightarrow> b"
  by (simp add: checkE_def)

lemma checkE_Inl_iff [error_simps]: "checkE b e = Inl e' \<longleftrightarrow> \<not> b \<and> e' = e"
  by (auto simp: checkE_def)

lemma checkE_simps [simp]: "checkE True e = Inr ()" "checkE False e = Inl e"
  by (simp_all add: checkE_def)

section \<open>Slices of byte strings\<close>

text \<open>
  \<open>seg xs off n\<close>: the \<open>n\<close> bytes from offset \<open>off\<close>.
  \<open>blit xs off ys\<close>: the string with \<open>ys\<close> stored from offset \<open>off\<close>, the loop
  \<open>while (i--) *p++ = *q++\<close> of the sources. The stored range has to lie
  within \<open>xs\<close>; the invariants of the components say that it does.
\<close>

definition seg :: "'a list \<Rightarrow> nat \<Rightarrow> nat \<Rightarrow> 'a list" where
  "seg xs off n = take n (drop off xs)"

definition blit :: "'a list \<Rightarrow> nat \<Rightarrow> 'a list \<Rightarrow> 'a list" where
  "blit xs off ys = take off xs @ ys @ drop (off + length ys) xs"

lemma length_seg [seg_simps]: "length (seg xs off n) = min n (length xs - off)"
  by (simp add: seg_def)

lemma length_seg_le [seg_simps]: "off + n \<le> length xs \<Longrightarrow> length (seg xs off n) = n"
  by (simp add: seg_def)

lemma seg_0 [simp]: "seg xs off 0 = []"
  by (simp add: seg_def)

lemma seg_all: "seg xs 0 (length xs) = xs"
  by (simp add: seg_def)

lemma seg_append_left [seg_simps]:
  "off + n \<le> length xs \<Longrightarrow> seg (xs @ ys) off n = seg xs off n"
  by (simp add: seg_def)

lemma seg_append_right [seg_simps]:
  "length xs \<le> off \<Longrightarrow> seg (xs @ ys) off n = seg ys (off - length xs) n"
  by (simp add: seg_def)

lemma seg_append_exact: "length xs = off \<Longrightarrow> length ys = n \<Longrightarrow> seg (xs @ ys @ zs) off n = ys"
  by (simp add: seg_def)

lemma seg_split: "seg xs off (m + n) = seg xs off m @ seg xs (off + m) n"
  by (simp add: seg_def take_add add.commute)

lemma seg_join:
  "seg f a (length x) = x \<Longrightarrow> y = [] \<or> b = a + length x \<Longrightarrow> seg f b (length y) = y \<Longrightarrow>
    seg f a (length (x @ y)) = x @ y"
  by (auto simp: seg_split)

lemma seg_whole: "seg f 0 (length w) = w \<Longrightarrow> length f \<le> length w \<Longrightarrow> f = w"
  by (simp add: seg_def)

lemma seg_seg: "i + m \<le> n \<Longrightarrow> seg (seg xs off n) i m = seg xs (off + i) m"
  by (simp add: seg_def drop_take take_take min_def add.commute)

lemma nth_seg [seg_simps]: "i < n \<Longrightarrow> off + n \<le> length xs \<Longrightarrow> seg xs off n ! i = xs ! (off + i)"
  by (simp add: seg_def)

lemma seg_Cons_nth:
  "off < length xs \<Longrightarrow> seg xs off (Suc n) = xs ! off # seg xs (Suc off) n"
  by (simp add: seg_def Cons_nth_drop_Suc [symmetric])

lemma length_blit [seg_simps]:
  "off + length ys \<le> length xs \<Longrightarrow> length (blit xs off ys) = length xs"
  by (simp add: blit_def)

lemma blit_Nil [simp]: "blit xs off [] = xs"
  by (simp add: blit_def)

lemma seg_blit_same [seg_simps]:
  "off + length ys \<le> length xs \<Longrightarrow> seg (blit xs off ys) off (length ys) = ys"
  by (simp add: seg_def blit_def min_def)

lemma nth_blit:
  "off + length ys \<le> length xs \<Longrightarrow> i < length xs \<Longrightarrow>
    blit xs off ys ! i = (if off \<le> i \<and> i < off + length ys then ys ! (i - off) else xs ! i)"
  by (auto simp: blit_def nth_append min_def)

lemma seg_blit_before [seg_simps]:
  "i + n \<le> off \<Longrightarrow> off + length ys \<le> length xs \<Longrightarrow> seg (blit xs off ys) i n = seg xs i n"
  by (rule nth_equalityI) (auto simp: seg_simps nth_blit)

lemma seg_blit_after [seg_simps]:
  "off + length ys \<le> i \<Longrightarrow> off + length ys \<le> length xs \<Longrightarrow> seg (blit xs off ys) i n = seg xs i n"
  by (rule nth_equalityI) (auto simp: seg_def blit_def)

lemma blit_blit_append [seg_simps]:
  "off + length ys + length zs \<le> length xs \<Longrightarrow>
    blit (blit xs off ys) (off + length ys) zs = blit xs off (ys @ zs)"
  by (rule nth_equalityI) (auto simp: length_blit nth_blit nth_append)

lemma seg_concat_nth:
  "i < length xss \<Longrightarrow> seg (concat xss) (length (concat (take i xss))) (length (xss ! i)) = xss ! i"
  by (subst id_take_nth_drop [of i xss], assumption) (simp add: seg_def)

lemma seg_blit_append:
  "a \<le> k \<Longrightarrow> k + length ys \<le> length xs \<Longrightarrow>
    seg (blit xs k ys) a (k + length ys - a) = seg xs a (k - a) @ ys"
  using seg_split [of "blit xs k ys" a "k - a" "length ys"] by (simp add: seg_simps)

text \<open>
  \<open>put_at f k bs\<close>: the file \<open>f\<close> after \<open>bs\<close> is written at position \<open>k\<close>. A
  hole between the end of the file and \<open>k\<close> reads as zeros; writing nothing changes
  nothing.
\<close>

definition put_at :: "bytes \<Rightarrow> nat \<Rightarrow> bytes \<Rightarrow> bytes" where
  "put_at f k bs =
     (if bs = [] then f
      else take k (f @ replicate (k - length f) 0) @ bs @ drop (k + length bs) f)"

lemma put_at_Nil [simp]: "put_at f k [] = f"
  by (simp add: put_at_def)

lemma length_put_at: "length (put_at f k bs) = (if bs = [] then length f else max (length f) (k + length bs))"
  by (auto simp: put_at_def)

lemma nth_put_at:
  "i < length (put_at f k bs) \<Longrightarrow> put_at f k bs ! i =
    (if k \<le> i \<and> i < k + length bs then bs ! (i - k) else if i < length f then f ! i else 0)"
  by (auto simp: put_at_def length_put_at nth_append min_def max_def split: if_splits)

lemma seg_nth_eqI:
  "length (seg xs a n) = length (seg ys b n) \<Longrightarrow>
   (\<And>i. i < n \<Longrightarrow> a + i < length xs \<Longrightarrow> b + i < length ys \<Longrightarrow> xs ! (a + i) = ys ! (b + i)) \<Longrightarrow>
   seg xs a n = seg ys b n"
  by (rule nth_equalityI) (auto simp: seg_def)

lemma seg_put_at_same: "seg (put_at f k bs) k (length bs) = bs"
  by (auto simp: seg_def put_at_def)

lemma seg_put_at_before:
  "a + n \<le> k \<Longrightarrow> a + n \<le> length f \<or> n = 0 \<Longrightarrow> seg (put_at f k bs) a n = seg f a n"
  by (rule seg_nth_eqI) (auto simp: length_seg length_put_at nth_put_at)

lemma seg_put_at_after: "k + length bs \<le> a \<Longrightarrow> seg (put_at f k bs) a n = seg f a n"
  by (rule seg_nth_eqI) (auto simp: length_seg length_put_at nth_put_at)

lemma seg_put_at_append:
  assumes "a \<le> k" "k \<le> length f \<or> k = a"
  shows "seg (put_at f k bs) a (k - a + length bs) = seg f a (k - a) @ bs"
  using assms seg_split [of "put_at f k bs" a "k - a" "length bs"]
  by (auto simp: seg_put_at_same seg_put_at_before)

lemma put_at_put_at_append:
  "put_at (put_at f k xs) (k + length xs) ys = put_at f k (xs @ ys)"
  by (rule nth_equalityI) (auto simp: length_put_at nth_put_at nth_append max_def split: if_splits)

text \<open>A C string: the bytes up to, not including, the first zero.\<close>

definition c_str :: "bytes \<Rightarrow> bytes" where
  "c_str xs = takeWhile (\<lambda>b. b \<noteq> 0) xs"

lemma zero_notin_c_str: "0 \<notin> set (c_str xs)"
  by (auto simp: c_str_def dest: set_takeWhileD)

lemma c_str_append_0 [simp]: "0 \<notin> set s \<Longrightarrow> c_str (s @ 0 # rest) = s"
  unfolding c_str_def by (rule trans [OF takeWhile_append2]) auto

section \<open>Words\<close>

text \<open>
  Joining words from bytes and splitting them again. The equations are proved bit
  by bit and used by every encoder and decoder.
\<close>

lemma bit_byte_lt: "bit (b :: byte) n \<Longrightarrow> n < 8"
  using bit_imp_le_length [of b n] by simp

lemma bit_u16_lt: "bit (w :: u16) n \<Longrightarrow> n < 16"
  using bit_imp_le_length [of w n] by simp

lemma bit_u32_lt: "bit (w :: u32) n \<Longrightarrow> n < 32"
  using bit_imp_le_length [of w n] by simp

lemmas bit_lt = bit_byte_lt bit_u16_lt bit_u32_lt

text \<open>A \<open>long\<close> below the sign bit reads the same signed and unsigned.\<close>

lemma sint_u32_small:
  assumes "unat (w :: u32) < 2 ^ 31"
  shows "sint w = int (unat w)"
proof -
  from assms have "int (unat w) < int (2 ^ 31)"
    by (simp only: of_nat_less_iff)
  then have "uint w < 2 ^ 31" by simp
  then show ?thesis
    using signed_take_bit_int_eq_self [of 31 "uint w"] uint_ge_0 [of w]
    by (simp add: sint_uint)
qed

section \<open>Formatted output\<close>

definition TAB :: char where "TAB = CHR 0x09"
definition NL :: char where "NL = CHR 0x0A"

definition digit :: "nat \<Rightarrow> char" where
  "digit d = ''0123456789abcdef'' ! d"

text \<open>The digits of a number in base 10 or 16.\<close>

fun digits :: "nat \<Rightarrow> nat \<Rightarrow> string" where
  "digits base n =
     (if n < base \<or> base < 2 then [digit n] else digits base (n div base) @ [digit (n mod base)])"

declare digits.simps [simp del]

text \<open>The conversions \<open>%ld\<close> and \<open>%0p.plx\<close> of \<open>printf\<close>.\<close>

definition fmt_d :: "int \<Rightarrow> string" where
  "fmt_d x = (if x < 0 then ''-'' @ digits 10 (nat (- x)) else digits 10 (nat x))"

definition fmt_x :: "nat \<Rightarrow> nat \<Rightarrow> string" where
  "fmt_x p n = replicate (p - length (digits 16 n)) (CHR ''0'') @ digits 16 n"

end
