(* ===== verification/Out_Format.thy ===== *)
theory Out_Format
  imports Prelude
begin

text \<open>
  The ACK object format: the structures of \<open>Ack-5.5/include/out.h\<close>,
  \<open>arch.h\<close> and \<open>ranlib.h\<close> as records, the byte-order macros of
  \<open>Ack-5.5/lib/obj.h\<close>, and the conversion of every structure from and to its
  bytes on file, as \<open>rd.c\<close>, \<open>wr.c\<close>, \<open>rd_arhdr.c\<close>, \<open>wr_arhdr.c\<close>,
  \<open>rd_ranlib.c\<close> and \<open>wr_ranlib.c\<close> spell it out. The lemmas are the round
  trips, in both directions.
\<close>

section \<open>Byte-order macros\<close>

text \<open>
  \<open>Xchar\<close> makes a character unsigned, so the bytes of the model are unsigned
  already. \<open>uget2\<close> is an \<open>unsigned\<close>, \<open>get2\<close> a \<open>short\<close>, \<open>get4\<close> a
  \<open>long\<close>. The put macros yield the bytes they store; \<open>>>\<close> on an \<open>int\<close> is the
  arithmetic shift.
\<close>

definition uget2 :: "bytes \<Rightarrow> u32" where
  "uget2 c = (ucast (c ! 0) :: u32) OR push_bit 8 (ucast (c ! 1))"

definition get2 :: "bytes \<Rightarrow> u16" where
  "get2 c = ucast (uget2 c)"

definition get4 :: "bytes \<Rightarrow> u32" where
  "get4 c = uget2 c OR push_bit 16 (uget2 (drop 2 c))"

definition put2 :: "u32 \<Rightarrow> bytes" where
  "put2 i = [ucast i, ucast (signed_drop_bit 8 i)]"

definition put4 :: "u32 \<Rightarrow> bytes" where
  "put4 x = put2 x @ put2 (signed_drop_bit 16 x)"

lemma length_put2 [simp]: "length (put2 i) = 2"
  by (simp add: put2_def)

lemma length_put4 [simp]: "length (put4 x) = 4"
  by (simp add: put4_def)

lemma uget2_put2 [codec_simps]: "uget2 (put2 i @ rest) = ucast (ucast i :: u16)"
  by (rule bit_word_eqI)
    (auto simp: uget2_def put2_def bit_simps bit_signed_drop_bit_iff not_less
      dest: bit_lt intro: less_trans)

lemma get2_put2: "get2 (put2 i @ rest) = ucast i"
  by (rule bit_word_eqI) (auto simp: get2_def uget2_put2 bit_simps)

lemma get4_put4 [codec_simps]: "get4 (put4 x @ rest) = x"
proof (rule bit_word_eqI)
  fix n
  assume n: "n < LENGTH(32)"
  have "drop 2 (put4 x @ rest) = put2 (signed_drop_bit 16 x) @ rest"
    by (simp add: put4_def)
  then have "get4 (put4 x @ rest) = ucast (ucast x :: u16) OR
      push_bit 16 (ucast (ucast (signed_drop_bit 16 x :: u32) :: u16))"
    by (simp add: get4_def uget2_put2) (simp add: put4_def uget2_put2)
  with n show "bit (get4 (put4 x @ rest)) n = bit x n"
    by (cases "n < 16") (auto simp: bit_simps bit_signed_drop_bit_iff)
qed

lemma put2_uget2 [codec_simps]: "2 \<le> length c \<Longrightarrow> put2 (uget2 c) = take 2 c"
proof -
  assume "2 \<le> length c"
  then obtain a b rest where c: "c = a # b # rest"
    by (metis One_nat_def Suc_1 Suc_le_length_iff)
  have "ucast (uget2 c) = a"
    by (rule bit_word_eqI) (auto simp: c uget2_def bit_simps)
  moreover have "ucast (signed_drop_bit 8 (uget2 c)) = b"
    by (rule bit_word_eqI) (auto simp: c uget2_def bit_simps bit_signed_drop_bit_iff dest: bit_lt)
  ultimately show ?thesis
    by (simp add: c put2_def)
qed

lemma put4_get4 [codec_simps]: "4 \<le> length c \<Longrightarrow> put4 (get4 c) = take 4 c"
proof -
  assume len: "4 \<le> length c"
  have lo: "put2 (get4 c) = put2 (uget2 c)"
    by (auto simp: put2_def get4_def bit_eq_iff bit_simps bit_signed_drop_bit_iff uget2_def)
  have hi: "put2 (signed_drop_bit 16 (get4 c)) = put2 (uget2 (drop 2 c))"
    by (auto simp: put2_def get4_def bit_eq_iff bit_simps bit_signed_drop_bit_iff uget2_def
        dest: bit_lt)
  have "put4 (get4 c) = take 2 c @ take 2 (drop 2 c)"
    using len by (simp add: put4_def lo hi put2_uget2)
  also have "\<dots> = take 4 c"
    by (metis numeral_Bit0 take_add)
  finally show ?thesis .
qed

text \<open>The fields of type \<open>unsigned short\<close> and \<open>short\<close>.\<close>

lemma get2_put2_u16 [codec_simps]: "get2 (put2 (ucast (w :: u16)) @ rest) = w"
  by (rule bit_word_eqI) (auto simp: get2_put2 bit_simps)

lemma get2_put2_short [codec_simps]: "get2 (put2 (scast (w :: u16)) @ rest) = w"
  by (rule bit_word_eqI) (auto simp: get2_put2 bit_simps)

lemma put2_ucast_get2 [codec_simps]: "2 \<le> length c \<Longrightarrow> put2 (ucast (get2 c)) = take 2 c"
  by (subst put2_uget2 [symmetric])
    (auto simp: put2_def get2_def bit_eq_iff bit_simps bit_signed_drop_bit_iff dest: bit_lt)

lemma put2_scast_get2 [codec_simps]: "2 \<le> length c \<Longrightarrow> put2 (scast (get2 c)) = take 2 c"
  by (subst put2_uget2 [symmetric])
    (auto simp: put2_def get2_def bit_eq_iff bit_simps bit_signed_drop_bit_iff dest: bit_lt)

section \<open>The structures of out.h, ranlib.h and arch.h\<close>

record outhead =
  oh_magic :: u16
  oh_stamp :: u16
  oh_flags :: u16
  oh_nsect :: u16
  oh_nrelo :: u16
  oh_nname :: u16
  oh_nemit :: u32
  oh_nchar :: u32

record outsect =
  os_base :: u32
  os_size :: u32
  os_foff :: u32
  os_flen :: u32
  os_lign :: u32

record outrelo =
  or_type :: byte
  or_sect :: byte
  or_nami :: u16
  or_addr :: u32

text \<open>The union \<open>on_u\<close> is read and written on file as the offset \<open>on_off\<close>.\<close>

record outname =
  on_foff :: u32
  on_type :: u16
  on_desc :: u16
  on_valu :: u32

record ranlib =
  ran_off :: u32
  ran_pos :: u32

record ar_hdr =
  ar_name :: bytes
  ar_date :: u32
  ar_uid :: byte
  ar_gid :: byte
  ar_mode :: u16
  ar_size :: u32

definition O_MAGIC :: u16 where "O_MAGIC = 0x0201"
definition O_STAMP :: u16 where "O_STAMP = 0"
definition MAXSECT :: nat where "MAXSECT = 64"
definition HF_LINK :: u16 where "HF_LINK = 0x0004"

definition SZ_HEAD :: nat where "SZ_HEAD = 20"
definition SZ_SECT :: nat where "SZ_SECT = 20"
definition SZ_RELO :: nat where "SZ_RELO = 8"
definition SZ_NAME :: nat where "SZ_NAME = 12"
definition SZ_RAN :: nat where "SZ_RAN = 8"
definition AR_TOTAL :: nat where "AR_TOTAL = 26"

lemmas SZ_defs = SZ_HEAD_def SZ_SECT_def SZ_RELO_def SZ_NAME_def SZ_RAN_def AR_TOTAL_def

definition RELSZ :: byte where "RELSZ = 0x07"
definition RELPC :: byte where "RELPC = 0x08"
definition RELBR :: byte where "RELBR = 0x10"
definition RELWR :: byte where "RELWR = 0x20"

definition S_TYP :: u16 where "S_TYP = 0x007F"
definition S_EXT :: u16 where "S_EXT = 0x0080"
definition S_UND :: u16 where "S_UND = 0x0000"
definition S_ABS :: u16 where "S_ABS = 0x0001"
definition S_MIN :: u16 where "S_MIN = 0x0002"
definition S_CRS :: u16 where "S_CRS = 0x007F"
definition S_SCT :: u16 where "S_SCT = 0x0100"
definition S_COM :: u16 where "S_COM = 0x1000"

definition ARMAG :: u16 where "ARMAG = 0xff65"
definition AALMAG :: u16 where "AALMAG = 0xff2c"

text \<open>\<open>__.SYMDEF\<close>, the name of the table of contents of an archive.\<close>

definition SYMDEF :: bytes where
  "SYMDEF = map (of_char :: char \<Rightarrow> byte) ''__.SYMDEF''"

section \<open>Structures on file\<close>

definition enc_outhead :: "outhead \<Rightarrow> bytes" where
  "enc_outhead h =
     put2 (ucast (oh_magic h)) @ put2 (ucast (oh_stamp h)) @ put2 (ucast (oh_flags h)) @
     put2 (ucast (oh_nsect h)) @ put2 (ucast (oh_nrelo h)) @ put2 (ucast (oh_nname h)) @
     put4 (oh_nemit h) @ put4 (oh_nchar h)"

definition dec_outhead :: "bytes \<Rightarrow> outhead" where
  "dec_outhead c =
     \<lparr>oh_magic = get2 c, oh_stamp = get2 (drop 2 c), oh_flags = get2 (drop 4 c),
      oh_nsect = get2 (drop 6 c), oh_nrelo = get2 (drop 8 c), oh_nname = get2 (drop 10 c),
      oh_nemit = get4 (drop 12 c), oh_nchar = get4 (drop 16 c)\<rparr>"

definition enc_outsect :: "outsect \<Rightarrow> bytes" where
  "enc_outsect s =
     put4 (os_base s) @ put4 (os_size s) @ put4 (os_foff s) @ put4 (os_flen s) @ put4 (os_lign s)"

definition dec_outsect :: "bytes \<Rightarrow> outsect" where
  "dec_outsect c =
     \<lparr>os_base = get4 c, os_size = get4 (drop 4 c), os_foff = get4 (drop 8 c),
      os_flen = get4 (drop 12 c), os_lign = get4 (drop 16 c)\<rparr>"

definition enc_outrelo :: "outrelo \<Rightarrow> bytes" where
  "enc_outrelo r = [or_type r, or_sect r] @ put2 (ucast (or_nami r)) @ put4 (or_addr r)"

definition dec_outrelo :: "bytes \<Rightarrow> outrelo" where
  "dec_outrelo c =
     \<lparr>or_type = c ! 0, or_sect = c ! 1, or_nami = get2 (drop 2 c), or_addr = get4 (drop 4 c)\<rparr>"

definition enc_outname :: "outname \<Rightarrow> bytes" where
  "enc_outname n =
     put4 (on_foff n) @ put2 (ucast (on_type n)) @ put2 (ucast (on_desc n)) @ put4 (on_valu n)"

definition dec_outname :: "bytes \<Rightarrow> outname" where
  "dec_outname c =
     \<lparr>on_foff = get4 c, on_type = get2 (drop 4 c), on_desc = get2 (drop 6 c),
      on_valu = get4 (drop 8 c)\<rparr>"

definition enc_ranlib :: "ranlib \<Rightarrow> bytes" where
  "enc_ranlib r = put4 (ran_off r) @ put4 (ran_pos r)"

definition dec_ranlib :: "bytes \<Rightarrow> ranlib" where
  "dec_ranlib c = \<lparr>ran_off = get4 c, ran_pos = get4 (drop 4 c)\<rparr>"

text \<open>
  The longs of an archive header are stored as two shorts, the high one first, each
  short low byte first.
\<close>

definition enc_ar_hdr :: "ar_hdr \<Rightarrow> bytes" where
  "enc_ar_hdr a =
     take 14 (ar_name a) @
     put2 (signed_drop_bit 16 (ar_date a)) @ put2 (ar_date a) @
     [ar_uid a, ar_gid a] @ put2 (scast (ar_mode a)) @
     put2 (signed_drop_bit 16 (ar_size a)) @ put2 (ar_size a)"

definition ar_long :: "bytes \<Rightarrow> u32" where
  "ar_long c = push_bit 16 (scast (get2 c)) OR (scast (get2 (drop 2 c)) AND 0xffff)"

definition dec_ar_hdr :: "bytes \<Rightarrow> ar_hdr" where
  "dec_ar_hdr c =
     \<lparr>ar_name = take 14 c, ar_date = ar_long (drop 14 c), ar_uid = c ! 18, ar_gid = c ! 19,
      ar_mode = get2 (drop 20 c), ar_size = ar_long (drop 22 c)\<rparr>"

section \<open>Arrays of structures on file\<close>

text \<open>
  \<open>enc_array\<close> is the loop of \<open>wr_sect\<close>, \<open>wr_relo\<close>, \<open>wr_name\<close> and
  \<open>wr_ranlib\<close>: structure after structure. \<open>dec_array\<close> is the loop of their
  readers, which start with the last structure and work down, so that the conversion
  can be made in place.
\<close>

definition enc_array :: "('a \<Rightarrow> bytes) \<Rightarrow> 'a list \<Rightarrow> bytes" where
  "enc_array enc xs = concat (map enc xs)"

fun dec_array :: "nat \<Rightarrow> (bytes \<Rightarrow> 'a) \<Rightarrow> nat \<Rightarrow> bytes \<Rightarrow> 'a list" where
  "dec_array sz dec 0 c = []"
| "dec_array sz dec (Suc cnt) c = dec_array sz dec cnt c @ [dec (seg c (cnt * sz) sz)]"

lemma enc_array_simps [simp]:
  "enc_array enc [] = []"
  "enc_array enc (x # xs) = enc x @ enc_array enc xs"
  "enc_array enc (xs @ ys) = enc_array enc xs @ enc_array enc ys"
  by (simp_all add: enc_array_def)

lemma length_dec_array [simp]: "length (dec_array sz dec cnt c) = cnt"
  by (induction cnt) auto

text \<open>
  A codec of structures of a fixed size: what the reader and the writer of every
  structure promise each other.
\<close>

locale struct_codec =
  fixes enc :: "'a \<Rightarrow> bytes" and dec :: "bytes \<Rightarrow> 'a" and sz :: nat and valid :: "'a \<Rightarrow> bool"
  assumes length_enc: "valid x \<Longrightarrow> length (enc x) = sz"
    and dec_enc: "valid x \<Longrightarrow> dec (enc x) = x"
    and enc_dec: "length c = sz \<Longrightarrow> enc (dec c) = c"
    and valid_dec: "length c = sz \<Longrightarrow> valid (dec c)"
begin

lemma length_enc_array: "\<forall>x \<in> set xs. valid x \<Longrightarrow> length (enc_array enc xs) = length xs * sz"
  by (induction xs) (auto simp: length_enc)

lemma dec_array_enc_array:
  "\<forall>x \<in> set xs. valid x \<Longrightarrow> dec_array sz dec (length xs) (enc_array enc xs @ rest) = xs"
proof (induction xs arbitrary: rest rule: rev_induct)
  case Nil
  then show ?case by simp
next
  case (snoc x xs)
  have "dec_array sz dec (length xs) (enc_array enc (xs @ [x]) @ rest) = xs"
    using snoc by simp
  moreover have "seg (enc_array enc (xs @ [x]) @ rest) (length xs * sz) sz = enc x"
    using snoc.prems by (simp add: seg_append_exact length_enc_array length_enc)
  ultimately show ?case
    using snoc.prems by (simp add: dec_enc del: enc_array_simps append_assoc)
qed

lemma enc_array_dec_array:
  "cnt * sz \<le> length c \<Longrightarrow> enc_array enc (dec_array sz dec cnt c) = take (cnt * sz) c"
proof (induction cnt)
  case 0
  then show ?case by simp
next
  case (Suc cnt)
  then have "enc (dec (seg c (cnt * sz) sz)) = seg c (cnt * sz) sz"
    by (intro enc_dec) (simp add: seg_simps)
  with Suc show ?case
    by (simp add: seg_def take_add add.commute [of sz])
qed

lemma valid_dec_array:
  "cnt * sz \<le> length c \<Longrightarrow> \<forall>x \<in> set (dec_array sz dec cnt c). valid x"
  by (induction cnt) (auto intro!: valid_dec simp: seg_simps)

end

text \<open>The codecs of the six structures.\<close>

lemma drop_put2: "n = m + 2 \<Longrightarrow> drop n (put2 x @ c) = drop m c"
  by simp

lemma drop_put4: "n = m + 4 \<Longrightarrow> drop n (put4 x @ c) = drop m c"
  by simp

lemma codec_put2_nil [codec_simps]:
  "get2 (put2 (ucast (w :: u16))) = w" "get2 (put2 (scast w)) = w" "get4 (put4 x) = x"
  using get2_put2_u16 [of w "[]"] get2_put2_short [of w "[]"] get4_put4 [of x "[]"] by simp_all

lemma take_drop_join:
  "m = k + n \<Longrightarrow> take n (drop k c) @ drop m c = drop k c"
  "take n c @ drop n c = c"
  using append_take_drop_id [of n "drop k c"] by (simp_all add: add.commute)

interpretation outhead: struct_codec enc_outhead dec_outhead SZ_HEAD "\<lambda>_. True"
  by unfold_locales
    (simp_all add: enc_outhead_def dec_outhead_def SZ_defs codec_simps take_drop_join)

interpretation outsect: struct_codec enc_outsect dec_outsect SZ_SECT "\<lambda>_. True"
  by unfold_locales
    (simp_all add: enc_outsect_def dec_outsect_def SZ_defs codec_simps take_drop_join)

interpretation outname: struct_codec enc_outname dec_outname SZ_NAME "\<lambda>_. True"
  by unfold_locales
    (simp_all add: enc_outname_def dec_outname_def SZ_defs codec_simps take_drop_join)

interpretation ranlib: struct_codec enc_ranlib dec_ranlib SZ_RAN "\<lambda>_. True"
  by unfold_locales
    (simp_all add: enc_ranlib_def dec_ranlib_def SZ_defs codec_simps take_drop_join)

lemma nth_drop_join: "k < length c \<Longrightarrow> m = Suc k \<Longrightarrow> c ! k # drop m c = drop k c"
  by (simp add: Cons_nth_drop_Suc)

lemma nth_0_1_drop_2: "2 \<le> length c \<Longrightarrow> c ! 0 # c ! Suc 0 # drop 2 c = c"
  by (cases c; cases "tl c") auto

interpretation outrelo: struct_codec enc_outrelo dec_outrelo SZ_RELO "\<lambda>_. True"
  by unfold_locales
    (simp_all add: enc_outrelo_def dec_outrelo_def SZ_defs codec_simps take_drop_join nth_0_1_drop_2)

lemma ar_long_put [codec_simps]: "ar_long (put2 (signed_drop_bit 16 x) @ put2 x @ rest) = x"
proof (rule bit_word_eqI)
  fix n
  assume n: "n < LENGTH(32)"
  have mask: "(0xffff :: u32) = mask 16"
    by (simp add: mask_numeral)
  from n show "bit (ar_long (put2 (signed_drop_bit 16 x) @ put2 x @ rest)) n = bit x n"
    by (cases "n < 16")
      (auto simp: ar_long_def mask get2_put2 bit_simps bit_signed_drop_bit_iff)
qed

lemma ar_long_put_nil [codec_simps]: "ar_long (put2 (signed_drop_bit 16 x) @ put2 x) = x"
  using ar_long_put [of x "[]"] by simp

lemma put_ar_long [codec_simps]:
  "4 \<le> length c \<Longrightarrow> put2 (signed_drop_bit 16 (ar_long c)) @ put2 (ar_long c) = take 4 c"
proof -
  assume len: "4 \<le> length c"
  have mask: "(0xffff :: u32) = mask 16"
    by (simp add: mask_numeral)
  have hi: "put2 (signed_drop_bit 16 (ar_long c)) = put2 (ucast (get2 c))"
    by (auto simp: put2_def ar_long_def mask bit_eq_iff bit_simps bit_signed_drop_bit_iff)
  have lo: "put2 (ar_long c) = put2 (ucast (get2 (drop 2 c)))"
    by (auto simp: put2_def ar_long_def mask bit_eq_iff bit_simps bit_signed_drop_bit_iff)
  have "take 2 c @ take 2 (drop 2 c) = take 4 c"
    by (metis numeral_Bit0 take_add)
  with len show ?thesis
    by (simp add: hi lo codec_simps)
qed

lemma put_ar_long_join:
  "k + 4 \<le> length c \<Longrightarrow> m = k + 4 \<Longrightarrow>
    put2 (signed_drop_bit 16 (ar_long (drop k c))) @ put2 (ar_long (drop k c)) @ drop m c = drop k c"
  using put_ar_long [of "drop k c"] take_drop_join(1) [of m k 4 c]
  by (simp flip: append_assoc)

definition valid_ar_hdr :: "ar_hdr \<Rightarrow> bool" where
  "valid_ar_hdr a \<longleftrightarrow> length (ar_name a) = 14"

interpretation ar_hdr: struct_codec enc_ar_hdr dec_ar_hdr AR_TOTAL valid_ar_hdr
  by unfold_locales
    (simp_all add: enc_ar_hdr_def dec_ar_hdr_def SZ_defs valid_ar_hdr_def codec_simps nth_append
      take_drop_join nth_drop_join put_ar_long_join)

end
