(* ===== verification/Obj_Read.thy ===== *)
theory Obj_Read
  imports Out_Format
begin

text \<open>
  The reading half of the object library (\<open>Ack-5.5/lib\<close>): \<open>rd_bytes.c\<close>,
  \<open>rd_int2.c\<close>, \<open>rd_unsig2.c\<close>, \<open>rd_long.c\<close>, \<open>rd_arhdr.c\<close>,
  \<open>rd_ranlib.c\<close> and \<open>rd.c\<close>. A file descriptor is the file's bytes and a position;
  the static variables of \<open>rd.c\<close> are the record \<open>rd\<close>. The lemmas show that the
  four cursors of \<open>rd.c\<close> are independent and that reading yields the bytes the header
  promises.
\<close>

section \<open>File descriptors\<close>

text \<open>
  The calls that reach the system: a file that is not open is \<open>None\<close>. \<open>read\<close> returns
  the bytes that are left when they are fewer than asked for, and \<open>-1\<close> for a closed
  file or a negative count; \<open>lseek\<close> refuses a negative target.
\<close>

record fdesc =
  fd_bytes :: bytes
  fd_pos :: int

type_synonym fd = "fdesc option"

datatype obj_error = Rd_fatal | Wr_fatal | Out_of_bounds

definition lseek :: "fd \<Rightarrow> int \<Rightarrow> nat \<Rightarrow> int \<times> fd" where
  "lseek fd off whence =
     (case fd of
        None \<Rightarrow> (-1, None)
      | Some f \<Rightarrow>
          let t = (if whence = 0 then off else if whence = 1 then fd_pos f + off
                   else int (length (fd_bytes f)) + off)
          in if t < 0 then (-1, fd) else (t, Some (f\<lparr>fd_pos := t\<rparr>)))"

definition read_fd :: "int \<Rightarrow> fd \<Rightarrow> int \<times> bytes \<times> fd" where
  "read_fd n fd =
     (case fd of
        None \<Rightarrow> (-1, [], None)
      | Some f \<Rightarrow>
          if n < 0 then (-1, [], fd)
          else let bs = seg (fd_bytes f) (nat (fd_pos f)) (nat n)
               in (int (length bs), bs, Some (f\<lparr>fd_pos := fd_pos f + int (length bs)\<rparr>)))"

section \<open>rd_bytes.c and the scalar readers\<close>

definition maxchunk :: int where
  "maxchunk = 2 ^ 31 - 1"

function rd_bytes :: "int \<Rightarrow> fd \<Rightarrow> obj_error + (bytes \<times> fd)" where
  "rd_bytes cnt fd =
     (if cnt = 0 then Inr ([], fd)
      else
        let n = (if maxchunk \<le> cnt then maxchunk else cnt);
            (r, bs, fd') = read_fd n fd
        in if r \<noteq> n then Inl Rd_fatal
           else bindE (rd_bytes (cnt - n) fd') (\<lambda>(bs', fd''). Inr (bs @ bs', fd'')))"
  by pat_completeness auto
termination
  by (relation "measure (\<lambda>(cnt, fd). nat \<bar>cnt\<bar>)") (auto simp: maxchunk_def)

declare rd_bytes.simps [simp del]

definition rd_int2 :: "fd \<Rightarrow> obj_error + (u32 \<times> fd)" where
  "rd_int2 fd = bindE (rd_bytes 2 fd) (\<lambda>(buf, fd'). Inr (scast (get2 buf), fd'))"

definition rd_unsigned2 :: "fd \<Rightarrow> obj_error + (u32 \<times> fd)" where
  "rd_unsigned2 fd = bindE (rd_bytes 2 fd) (\<lambda>(buf, fd'). Inr (uget2 buf, fd'))"

definition rd_long :: "fd \<Rightarrow> obj_error + (u32 \<times> fd)" where
  "rd_long fd = bindE (rd_bytes 4 fd) (\<lambda>(buf, fd'). Inr (get4 buf, fd'))"

text \<open>\<open>None\<close> is the return value 0: no header is left.\<close>

definition rd_arhdr :: "fd \<Rightarrow> obj_error + (ar_hdr option \<times> fd)" where
  "rd_arhdr fd =
     (let (i, buf, fd') = read_fd (int AR_TOTAL) fd
      in if i = 0 then Inr (None, fd')
         else if i \<noteq> int AR_TOTAL then Inl Rd_fatal
         else Inr (Some (dec_ar_hdr buf), fd'))"

definition rd_ranlib :: "nat \<Rightarrow> fd \<Rightarrow> obj_error + (ranlib list \<times> fd)" where
  "rd_ranlib cnt fd =
     bindE (rd_bytes (int (cnt * SZ_RAN)) fd)
       (\<lambda>(c, fd'). Inr (dec_array SZ_RAN dec_ranlib cnt c, fd'))"

section \<open>Offsets of the parts of an object file\<close>

definition OFF_SECT :: "outhead \<Rightarrow> int" where
  "OFF_SECT h = int SZ_HEAD"

definition OFF_EMIT :: "outhead \<Rightarrow> int" where
  "OFF_EMIT h = long (OFF_SECT h + uint (oh_nsect h) * int SZ_SECT)"

definition OFF_RELO :: "outhead \<Rightarrow> int" where
  "OFF_RELO h = long (OFF_EMIT h + sint (oh_nemit h))"

definition OFF_NAME :: "outhead \<Rightarrow> int" where
  "OFF_NAME h = long (OFF_RELO h + uint (oh_nrelo h) * int SZ_RELO)"

definition OFF_CHAR :: "outhead \<Rightarrow> int" where
  "OFF_CHAR h = long (OFF_NAME h + uint (oh_nname h) * int SZ_NAME)"

definition BADMAGIC :: "outhead \<Rightarrow> bool" where
  "BADMAGIC h \<longleftrightarrow> oh_magic h \<noteq> O_MAGIC"

section \<open>rd.c\<close>

definition RD_PARTEMIT :: nat where "RD_PARTEMIT = 0"
definition RD_PARTRELO :: nat where "RD_PARTRELO = 1"
definition RD_PARTNAME :: nat where "RD_PARTNAME = 2"
definition RD_PARTCHAR :: nat where "RD_PARTCHAR = 3"
definition RD_NPARTS :: nat where "RD_NPARTS = 4"

lemmas RD_PART_defs =
  RD_PARTEMIT_def RD_PARTRELO_def RD_PARTNAME_def RD_PARTCHAR_def RD_NPARTS_def

record rd =
  rd_offset :: "int list"
  rd_outfile :: fd
  rd_outseek :: "int list"
  rd_currpos :: int
  rd_base :: int
  rd_sectionnr :: nat
  rd_offcnt :: nat

definition rd_init :: rd where
  "rd_init =
     \<lparr>rd_offset = replicate MAXSECT 0, rd_outfile = None, rd_outseek = replicate RD_NPARTS 0,
      rd_currpos = 0, rd_base = 0, rd_sectionnr = 0, rd_offcnt = 0\<rparr>"

definition rd_BEGINSEEK :: "nat \<Rightarrow> int \<Rightarrow> rd \<Rightarrow> rd" where
  "rd_BEGINSEEK p off s = s\<lparr>rd_outseek := (rd_outseek s)[p := off]\<rparr>"

definition OUTREAD :: "nat \<Rightarrow> int \<Rightarrow> rd \<Rightarrow> obj_error + (bytes \<times> rd)" where
  "OUTREAD p n s =
     (let l = rd_outseek s ! p;
          fd = (if rd_currpos s \<noteq> l then snd (lseek (rd_outfile s) l 0) else rd_outfile s)
      in bindE (rd_bytes n fd)
           (\<lambda>(b, fd').
              let l' = long (l + n)
              in Inr (b, s\<lparr>rd_outfile := fd', rd_currpos := l',
                          rd_outseek := (rd_outseek s)[p := l']\<rparr>)))"

definition rd_fdopen :: "fd \<Rightarrow> rd \<Rightarrow> int \<times> rd" where
  "rd_fdopen fd s =
     (let s = s\<lparr>rd_outseek := replicate RD_NPARTS 0, rd_offcnt := 0\<rparr>;
          (base, fd') = lseek fd 0 1;
          s = s\<lparr>rd_base := long base\<rparr>
      in if rd_base s < 0 then (0, s)
         else (1, s\<lparr>rd_currpos := rd_base s,
                    rd_outseek := (rd_outseek s)[RD_PARTEMIT := rd_base s],
                    rd_outfile := fd', rd_sectionnr := 0\<rparr>))"

text \<open>The result of \<open>open\<close> is the argument: the bytes of the file, or no such file.\<close>

definition rd_open :: "bytes option \<Rightarrow> rd \<Rightarrow> int \<times> rd" where
  "rd_open f s =
     (let s = s\<lparr>rd_outfile := map_option (\<lambda>bs. \<lparr>fd_bytes = bs, fd_pos = 0\<rparr>) f\<rparr>
      in if rd_outfile s = None then (0, s) else rd_fdopen (rd_outfile s) s)"

definition rd_close :: "rd \<Rightarrow> rd" where
  "rd_close s = s\<lparr>rd_outfile := None\<rparr>"

definition rd_ohead :: "rd \<Rightarrow> obj_error + (outhead \<times> rd)" where
  "rd_ohead s =
     bindE (OUTREAD RD_PARTEMIT (int SZ_HEAD) s)
       (\<lambda>(c, s).
          let head = dec_outhead c;
              off = long (OFF_RELO head + rd_base s);
              s = rd_BEGINSEEK RD_PARTRELO off s;
              off = long (off + uint (oh_nrelo head) * int SZ_RELO);
              s = rd_BEGINSEEK RD_PARTNAME off s;
              off = long (off + uint (oh_nname head) * int SZ_NAME);
              s = rd_BEGINSEEK RD_PARTCHAR off s
          in Inr (head, s))"

definition rd_rew_relos :: "outhead \<Rightarrow> rd \<Rightarrow> rd" where
  "rd_rew_relos head s = rd_BEGINSEEK RD_PARTRELO (long (OFF_RELO head + rd_base s)) s"

text \<open>
  The array \<open>offset\<close> has \<open>MAXSECT\<close> elements and the code does not check its index:
  where it would write or read outside the array the model stops with
  \<open>Out_of_bounds\<close>.
\<close>

fun rd_sect_loop :: "nat \<Rightarrow> outsect list \<Rightarrow> rd \<Rightarrow> obj_error + rd" where
  "rd_sect_loop 0 sect s = Inr s"
| "rd_sect_loop (Suc cnt) sect s =
     (let k = rd_offcnt s - 1
      in if k < MAXSECT then
           rd_sect_loop cnt sect
             (s\<lparr>rd_offcnt := k,
                rd_offset := (rd_offset s)[k := long (sint (os_foff (sect ! cnt)) + rd_base s)]\<rparr>)
         else Inl Out_of_bounds)"

definition rd_sect :: "nat \<Rightarrow> rd \<Rightarrow> obj_error + (outsect list \<times> rd)" where
  "rd_sect cnt s =
     bindE (OUTREAD RD_PARTEMIT (int (cnt * SZ_SECT)) s)
       (\<lambda>(c, s).
          let sect = dec_array SZ_SECT dec_outsect cnt c
          in bindE (rd_sect_loop cnt sect (s\<lparr>rd_offcnt := rd_offcnt s + cnt\<rparr>))
               (\<lambda>s. Inr (sect, s)))"

definition rd_outsect :: "nat \<Rightarrow> rd \<Rightarrow> obj_error + rd" where
  "rd_outsect sno s =
     (if sno < MAXSECT then
        Inr (s\<lparr>rd_outseek := (rd_outseek s)[RD_PARTEMIT := rd_offset s ! sno],
               rd_sectionnr := sno\<rparr>)
      else Inl Out_of_bounds)"

definition rd_emit :: "int \<Rightarrow> rd \<Rightarrow> obj_error + (bytes \<times> rd)" where
  "rd_emit cnt s =
     bindE (OUTREAD RD_PARTEMIT cnt s)
       (\<lambda>(emit, s).
          let k = rd_sectionnr s
          in Inr (emit, s\<lparr>rd_offset := (rd_offset s)[k := long (rd_offset s ! k + cnt)]\<rparr>))"

definition rd_relo :: "nat \<Rightarrow> rd \<Rightarrow> obj_error + (outrelo list \<times> rd)" where
  "rd_relo cnt s =
     bindE (OUTREAD RD_PARTRELO (int (cnt * SZ_RELO)) s)
       (\<lambda>(c, s). Inr (dec_array SZ_RELO dec_outrelo cnt c, s))"

definition rd_name :: "nat \<Rightarrow> rd \<Rightarrow> obj_error + (outname list \<times> rd)" where
  "rd_name cnt s =
     bindE (OUTREAD RD_PARTNAME (int (cnt * SZ_NAME)) s)
       (\<lambda>(c, s). Inr (dec_array SZ_NAME dec_outname cnt c, s))"

definition rd_string :: "int \<Rightarrow> rd \<Rightarrow> obj_error + (bytes \<times> rd)" where
  "rd_string len s = OUTREAD RD_PARTCHAR len s"

section \<open>Reading bytes\<close>

abbreviation open_at :: "bytes \<Rightarrow> nat \<Rightarrow> fd" where
  "open_at bs k \<equiv> Some \<lparr>fd_bytes = bs, fd_pos = int k\<rparr>"

lemma lseek_open_at [simp]: "lseek (open_at bs k) (int l) 0 = (int l, open_at bs l)"
  by (simp add: lseek_def Let_def)

lemma lseek_tell [simp]: "lseek (open_at bs k) 0 (Suc 0) = (int k, open_at bs k)"
  by (simp add: lseek_def Let_def)

lemma read_fd_open_at:
  "read_fd (int n) (open_at bs k) =
     (int (length (seg bs k n)), seg bs k n, open_at bs (k + length (seg bs k n)))"
  by (simp add: read_fd_def Let_def)

text \<open>
  \<open>rd_bytes\<close> reads in chunks; the result is the one of a single read that must not be
  short.
\<close>

lemma rd_bytes_open_at:
  "rd_bytes (int n) (open_at bs k) =
     (if n = 0 \<or> k + n \<le> length bs then Inr (seg bs k n, open_at bs (k + n)) else Inl Rd_fatal)"
proof (induction n arbitrary: k rule: less_induct)
  case (less n)
  show ?case
  proof (cases "n = 0")
    case True
    then show ?thesis by (simp add: rd_bytes.simps)
  next
    case False
    define m where "m = (if maxchunk \<le> int n then nat maxchunk else n)"
    have m: "0 < m" "m \<le> n" "int m = (if maxchunk \<le> int n then maxchunk else int n)"
      using False by (auto simp: m_def maxchunk_def)
    have step: "rd_bytes (int n) (open_at bs k) =
        (if length (seg bs k m) \<noteq> m then Inl Rd_fatal
         else bindE (rd_bytes (int (n - m)) (open_at bs (k + m)))
                (\<lambda>(bs', fd''). Inr (seg bs k m @ bs', fd'')))"
      using False m(2) by (subst rd_bytes.simps) (simp add: read_fd_open_at of_nat_diff flip: m(3))
    show ?thesis
    proof (cases "k + m \<le> length bs")
      case True
      have "rd_bytes (int (n - m)) (open_at bs (k + m)) =
          (if n - m = 0 \<or> k + m + (n - m) \<le> length bs
           then Inr (seg bs (k + m) (n - m), open_at bs (k + m + (n - m))) else Inl Rd_fatal)"
        using m False by (intro less.IH) simp
      with True m show ?thesis
        using seg_split [of bs k m "n - m"] by (auto simp: step seg_simps)
    next
      case short: False
      with m have "length (seg bs k m) \<noteq> m" "\<not> k + n \<le> length bs"
        by (auto simp: seg_simps)
      with False show ?thesis by (simp add: step)
    qed
  qed
qed

lemma rd_bytes_ok [seg_simps]:
  "k + n \<le> length bs \<Longrightarrow> rd_bytes (int n) (open_at bs k) = Inr (seg bs k n, open_at bs (k + n))"
  by (simp add: rd_bytes_open_at)

section \<open>The cursors of the parts\<close>

text \<open>
  What the clients of \<open>rd.c\<close> rely on: each part of the object file has a cursor of its
  own, and a read of one part neither disturbs nor depends on the cursors of the others.
\<close>

locale part_reader =
  fixes read :: "nat \<Rightarrow> nat \<Rightarrow> 's \<Rightarrow> 'e + (bytes \<times> 's)"
    and cur :: "'s \<Rightarrow> nat \<Rightarrow> nat"
    and content :: "'s \<Rightarrow> bytes"
    and inv :: "'s \<Rightarrow> bool"
    and nparts :: nat
  assumes read_ok: "inv s \<Longrightarrow> p < nparts \<Longrightarrow> cur s p + n \<le> length (content s) \<Longrightarrow>
      \<exists>s'. read p n s = Inr (seg (content s) (cur s p) n, s') \<and> inv s' \<and>
           content s' = content s \<and> cur s' = (cur s)(p := cur s p + n)"
    and read_short: "inv s \<Longrightarrow> p < nparts \<Longrightarrow> 0 < n \<Longrightarrow> length (content s) < cur s p + n \<Longrightarrow>
      \<exists>e. read p n s = Inl e"
begin

lemma read_Inr_iff:
  "inv s \<Longrightarrow> p < nparts \<Longrightarrow> 0 < n \<Longrightarrow>
    (\<exists>r. read p n s = Inr r) \<longleftrightarrow> cur s p + n \<le> length (content s)"
  using read_ok [of s p n] read_short [of s p n] by fastforce

text \<open>Two reads of one part join to one read.\<close>

lemma read_read_same:
  assumes "inv s" "p < nparts" "cur s p + (m + n) \<le> length (content s)"
  shows "\<exists>b c s1 s2. read p m s = Inr (b, s1) \<and> read p n s1 = Inr (c, s2) \<and>
    b @ c = seg (content s) (cur s p) (m + n) \<and> cur s2 = (cur s)(p := cur s p + (m + n)) \<and>
    inv s2 \<and> content s2 = content s"
proof -
  from assms obtain s1 where 1: "read p m s = Inr (seg (content s) (cur s p) m, s1)"
    "inv s1" "content s1 = content s" "cur s1 = (cur s)(p := cur s p + m)"
    using read_ok [of s p m] by auto
  with assms obtain s2 where 2: "read p n s1 = Inr (seg (content s) (cur s p + m) n, s2)"
    "inv s2" "content s2 = content s" "cur s2 = (cur s1)(p := cur s p + m + n)"
    using read_ok [of s1 p n] by (auto simp: add.assoc)
  from 1 2 show ?thesis
    by (auto simp: seg_split add.assoc)
qed

text \<open>Reads of two parts may be done in either order.\<close>

lemma read_read_commute:
  assumes "inv s" "p < nparts" "q < nparts" "p \<noteq> q"
    and "cur s p + m \<le> length (content s)" "cur s q + n \<le> length (content s)"
  shows "\<exists>b c s1 s2 t1 t2.
    read p m s = Inr (b, s1) \<and> read q n s1 = Inr (c, s2) \<and>
    read q n s = Inr (c, t1) \<and> read p m t1 = Inr (b, t2) \<and> cur s2 = cur t2 \<and>
    content s2 = content t2"
proof -
  from assms obtain s1 where 1: "read p m s = Inr (seg (content s) (cur s p) m, s1)"
    "inv s1" "content s1 = content s" "cur s1 = (cur s)(p := cur s p + m)"
    using read_ok [of s p m] by auto
  with assms obtain s2 where 2: "read q n s1 = Inr (seg (content s) (cur s q) n, s2)"
    "content s2 = content s" "cur s2 = (cur s1)(q := cur s q + n)"
    using read_ok [of s1 q n] by auto
  from assms obtain t1 where 3: "read q n s = Inr (seg (content s) (cur s q) n, t1)"
    "inv t1" "content t1 = content s" "cur t1 = (cur s)(q := cur s q + n)"
    using read_ok [of s q n] by auto
  with assms obtain t2 where 4: "read p m t1 = Inr (seg (content s) (cur s p) m, t2)"
    "content t2 = content s" "cur t2 = (cur t1)(p := cur s p + m)"
    using read_ok [of t1 p m] by auto
  from 1 2 3 4 assms(4) show ?thesis
    by (auto simp: fun_upd_twist)
qed

end

definition rd_cur :: "rd \<Rightarrow> nat \<Rightarrow> nat" where
  "rd_cur s p = nat (rd_outseek s ! p)"

definition rd_content :: "rd \<Rightarrow> bytes" where
  "rd_content s = (case rd_outfile s of None \<Rightarrow> [] | Some f \<Rightarrow> fd_bytes f)"

text \<open>
  The state between two calls: the file is open, its position is \<open>currpos\<close>, the arrays
  have their declared lengths, and the file is short enough for \<open>long\<close> positions.
\<close>

definition rd_inv :: "rd \<Rightarrow> bool" where
  "rd_inv s \<longleftrightarrow> (\<exists>bs k. rd_outfile s = open_at bs k \<and> rd_currpos s = int k \<and> length bs < 2 ^ 31) \<and>
     length (rd_outseek s) = RD_NPARTS \<and> (\<forall>p < RD_NPARTS. 0 \<le> rd_outseek s ! p) \<and>
     length (rd_offset s) = MAXSECT"

lemma OUTREAD_eq:
  assumes "rd_outfile s = open_at bs k" "rd_currpos s = int k" "rd_outseek s ! p = int l"
    "l + n \<le> length bs" "length bs < 2 ^ 31"
  shows "OUTREAD p (int n) s = Inr (seg bs l n,
    s\<lparr>rd_outfile := open_at bs (l + n), rd_currpos := int (l + n),
      rd_outseek := (rd_outseek s)[p := int (l + n)]\<rparr>)"
  using assms by (simp add: OUTREAD_def Let_def rd_bytes_ok flip: of_nat_add)

lemma rd_inv_outseek: "rd_inv s \<Longrightarrow> p < RD_NPARTS \<Longrightarrow> rd_outseek s ! p = int (rd_cur s p)"
  by (simp add: rd_inv_def rd_cur_def)

lemma rd_inv_open:
  "rd_inv s \<Longrightarrow> \<exists>k. rd_outfile s = open_at (rd_content s) k \<and> rd_currpos s = int k \<and>
    length (rd_content s) < 2 ^ 31"
  by (auto simp: rd_inv_def rd_content_def)

text \<open>The variables a read leaves alone.\<close>

definition rd_frame :: "rd \<Rightarrow> rd \<Rightarrow> bool" where
  "rd_frame s s' \<longleftrightarrow> rd_inv s' \<and> rd_content s' = rd_content s \<and> rd_base s' = rd_base s"

lemma rd_frame_refl: "rd_inv s \<Longrightarrow> rd_frame s s"
  by (simp add: rd_frame_def)

lemma rd_frame_trans: "rd_frame s t \<Longrightarrow> rd_frame t u \<Longrightarrow> rd_frame s u"
  by (simp add: rd_frame_def)

lemma rd_cur_seek:
  assumes "rd_inv s" "p < RD_NPARTS" "0 \<le> l"
  shows "rd_cur (s\<lparr>rd_outseek := (rd_outseek s)[p := l]\<rparr>) = (rd_cur s)(p := nat l)"
    and "rd_frame s (s\<lparr>rd_outseek := (rd_outseek s)[p := l]\<rparr>)"
  using assms
  by (simp_all add: rd_cur_def rd_frame_def rd_inv_def rd_content_def fun_eq_iff nth_list_update)

lemma OUTREAD_ok:
  assumes s: "rd_inv s" "p < RD_NPARTS" and n: "rd_cur s p + n \<le> length (rd_content s)"
  shows "\<exists>s'. OUTREAD p (int n) s = Inr (seg (rd_content s) (rd_cur s p) n, s') \<and> rd_frame s s' \<and>
    rd_cur s' = (rd_cur s)(p := rd_cur s p + n) \<and> rd_offset s' = rd_offset s \<and>
    rd_sectionnr s' = rd_sectionnr s \<and> rd_offcnt s' = rd_offcnt s"
proof -
  obtain bs k where k: "rd_outfile s = open_at bs k" "rd_currpos s = int k"
    "length bs < 2 ^ 31" and bs: "rd_content s = bs"
    using rd_inv_open [OF s(1)] by blast
  define t where "t = s\<lparr>rd_outseek := (rd_outseek s)[p := int (rd_cur s p + n)]\<rparr>"
  define u where "u = t\<lparr>rd_outfile := open_at bs (rd_cur s p + n),
    rd_currpos := int (rd_cur s p + n)\<rparr>"
  have t: "rd_cur t = (rd_cur s)(p := rd_cur s p + n)" "rd_frame s t"
    using rd_cur_seek [OF s, of "int (rd_cur s p + n)"] unfolding t_def
    by (simp_all only: nat_int of_nat_0_le_iff simp_thms)
  have "OUTREAD p (int n) s = Inr (seg bs (rd_cur s p) n, u)"
    using OUTREAD_eq [OF k(1,2) rd_inv_outseek [OF s] n [unfolded bs] k(3)]
    by (simp add: u_def t_def)
  moreover have "rd_cur u = rd_cur t"
    by (simp add: rd_cur_def u_def fun_eq_iff)
  moreover have "rd_content t = bs"
    using t(2) bs by (simp add: rd_frame_def)
  then have "rd_frame t u"
    using t(2) k(3) unfolding rd_frame_def rd_inv_def u_def by (simp add: rd_content_def flip: of_nat_add)
  moreover have "rd_offset u = rd_offset s" "rd_sectionnr u = rd_sectionnr s"
    "rd_offcnt u = rd_offcnt s"
    by (simp_all add: u_def t_def)
  ultimately show ?thesis
    unfolding bs using t rd_frame_trans [OF t(2), of u] by (intro exI [of _ u]) simp
qed

interpretation rdp: part_reader "\<lambda>p n. OUTREAD p (int n)" rd_cur rd_content rd_inv RD_NPARTS
proof unfold_locales
  fix s p n
  assume s: "rd_inv s" "p < RD_NPARTS"
  show "rd_cur s p + n \<le> length (rd_content s) \<Longrightarrow>
      \<exists>s'. OUTREAD p (int n) s = Inr (seg (rd_content s) (rd_cur s p) n, s') \<and>
        rd_inv s' \<and> rd_content s' = rd_content s \<and> rd_cur s' = (rd_cur s)(p := rd_cur s p + n)"
    using OUTREAD_ok [OF s] by (auto simp: rd_frame_def)
  from s(1) obtain k where "rd_outfile s = open_at (rd_content s) k" "rd_currpos s = int k"
    using rd_inv_open by blast
  then show "0 < n \<Longrightarrow> length (rd_content s) < rd_cur s p + n \<Longrightarrow> \<exists>e. OUTREAD p (int n) s = Inl e"
    using s by (simp add: OUTREAD_def Let_def rd_inv_outseek rd_bytes_open_at)
qed

section \<open>Reading a whole object\<close>

text \<open>
  An object module as a value, its image on file, and what makes the counts and offsets of
  its header and section table agree with its contents.
\<close>

record obj =
  ob_head :: outhead
  ob_sects :: "outsect list"
  ob_emits :: "bytes list"
  ob_relos :: "outrelo list"
  ob_names :: "outname list"
  ob_chars :: bytes

definition obj_bytes :: "obj \<Rightarrow> bytes" where
  "obj_bytes ob =
     enc_outhead (ob_head ob) @ enc_array enc_outsect (ob_sects ob) @ concat (ob_emits ob) @
     enc_array enc_outrelo (ob_relos ob) @ enc_array enc_outname (ob_names ob) @ ob_chars ob"

definition emit_off :: "obj \<Rightarrow> nat \<Rightarrow> nat" where
  "emit_off ob i = SZ_HEAD + length (ob_sects ob) * SZ_SECT + length (concat (take i (ob_emits ob)))"

definition wf_obj :: "obj \<Rightarrow> bool" where
  "wf_obj ob \<longleftrightarrow>
     length (ob_sects ob) = unat (oh_nsect (ob_head ob)) \<and> length (ob_sects ob) \<le> MAXSECT \<and>
     length (ob_emits ob) = length (ob_sects ob) \<and>
     (\<forall>i < length (ob_sects ob).
        unat (os_flen (ob_sects ob ! i)) = length (ob_emits ob ! i) \<and>
        unat (os_foff (ob_sects ob ! i)) = emit_off ob i) \<and>
     unat (oh_nemit (ob_head ob)) = length (concat (ob_emits ob)) \<and>
     unat (oh_nrelo (ob_head ob)) = length (ob_relos ob) \<and>
     unat (oh_nname (ob_head ob)) = length (ob_names ob) \<and>
     unat (oh_nchar (ob_head ob)) = length (ob_chars ob)"

text \<open>
  The order in which the linker reads a module (\<open>scan_modul\<close> and
  \<open>get_indirect\<close> of \<open>ld/scan.c\<close>): header, section table, the contents of
  every section, the relocation table, the names, the strings.
\<close>

fun rd_emits :: "nat \<Rightarrow> outsect list \<Rightarrow> rd \<Rightarrow> obj_error + (bytes list \<times> rd)" where
  "rd_emits i [] s = Inr ([], s)"
| "rd_emits i (sect # sects) s =
     bindE (rd_outsect i s) (\<lambda>s.
     bindE (rd_emit (sint (os_flen sect)) s) (\<lambda>(b, s).
     bindE (rd_emits (Suc i) sects s) (\<lambda>(bs, s). Inr (b # bs, s))))"

definition rd_object :: "rd \<Rightarrow> obj_error + (obj \<times> rd)" where
  "rd_object s =
     bindE (rd_ohead s) (\<lambda>(head, s).
     bindE (rd_sect (unat (oh_nsect head)) s) (\<lambda>(sects, s).
     bindE (rd_emits 0 sects s) (\<lambda>(emits, s).
     bindE (rd_relo (unat (oh_nrelo head)) s) (\<lambda>(relos, s).
     bindE (rd_name (unat (oh_nname head)) s) (\<lambda>(names, s).
     bindE (rd_string (sint (oh_nchar head)) s) (\<lambda>(chars, s).
       Inr (\<lparr>ob_head = head, ob_sects = sects, ob_emits = emits, ob_relos = relos,
             ob_names = names, ob_chars = chars\<rparr>, s)))))))"

text \<open>What each reader does to the cursors.\<close>

lemma rd_BEGINSEEK_cur:
  assumes "rd_inv s" "p < RD_NPARTS" "0 \<le> l"
  shows "rd_cur (rd_BEGINSEEK p l s) = (rd_cur s)(p := nat l)" "rd_frame s (rd_BEGINSEEK p l s)"
    "rd_base (rd_BEGINSEEK p l s) = rd_base s" "rd_offcnt (rd_BEGINSEEK p l s) = rd_offcnt s"
  using rd_cur_seek [OF assms] by (simp_all add: rd_BEGINSEEK_def)

lemma rd_frameD:
  "rd_frame s t \<Longrightarrow> rd_inv t" "rd_frame s t \<Longrightarrow> rd_content t = rd_content s"
  "rd_frame s t \<Longrightarrow> rd_base t = rd_base s"
  by (simp_all add: rd_frame_def)

lemma rd_ohead_ok:
  assumes s: "rd_inv s" and h: "head = dec_outhead (seg (rd_content s) (rd_cur s RD_PARTEMIT) SZ_HEAD)"
    and len: "rd_cur s RD_PARTEMIT + SZ_HEAD \<le> length (rd_content s)"
    and off: "0 \<le> rd_base s" "0 \<le> OFF_RELO head" "0 \<le> OFF_NAME head" "0 \<le> OFF_CHAR head"
      "rd_base s + OFF_RELO head + uint (oh_nrelo head) * 8 + uint (oh_nname head) * 12 < 2 ^ 31"
  shows "\<exists>s'. rd_ohead s = Inr (head, s') \<and> rd_frame s s' \<and> rd_offcnt s' = rd_offcnt s \<and>
    rd_cur s' = (rd_cur s)
      (RD_PARTEMIT := rd_cur s RD_PARTEMIT + SZ_HEAD,
       RD_PARTRELO := nat (rd_base s + OFF_RELO head),
       RD_PARTNAME := nat (rd_base s + OFF_RELO head + uint (oh_nrelo head) * 8),
       RD_PARTCHAR := nat (rd_base s + OFF_RELO head + uint (oh_nrelo head) * 8
                            + uint (oh_nname head) * 12))"
proof -
  have "RD_PARTEMIT < RD_NPARTS" by (simp add: RD_PART_defs)
  from OUTREAD_ok [OF s this len] obtain t where
    t: "OUTREAD RD_PARTEMIT (int SZ_HEAD) s = Inr (seg (rd_content s) (rd_cur s RD_PARTEMIT) SZ_HEAD, t)"
      "rd_frame s t" "rd_cur t = (rd_cur s)(RD_PARTEMIT := rd_cur s RD_PARTEMIT + SZ_HEAD)"
      "rd_offcnt t = rd_offcnt s"
    by blast
  define a where "a = uint (oh_nrelo head) * 8"
  define b where "b = uint (oh_nname head) * 12"
  have nn: "0 \<le> a" "0 \<le> b"
    by (simp_all add: a_def b_def)
  let ?r = "rd_base s + OFF_RELO head"
  let ?n = "?r + a"
  let ?c = "?n + b"
  have l: "long (OFF_RELO head + rd_base t) = ?r" "long (?r + uint (oh_nrelo head) * int SZ_RELO) = ?n"
    "long (?n + uint (oh_nname head) * int SZ_NAME) = ?c"
    using off nn rd_frameD(3) [OF t(2)]
    by (simp_all add: SZ_defs add.commute flip: a_def b_def)
  define t1 where "t1 = rd_BEGINSEEK RD_PARTRELO ?r t"
  define t2 where "t2 = rd_BEGINSEEK RD_PARTNAME ?n t1"
  define t3 where "t3 = rd_BEGINSEEK RD_PARTCHAR ?c t2"
  have "0 \<le> ?r" "0 \<le> ?n" "0 \<le> ?c"
    using off nn by simp_all
  moreover have p: "RD_PARTRELO < RD_NPARTS" "RD_PARTNAME < RD_NPARTS" "RD_PARTCHAR < RD_NPARTS"
    by (simp_all add: RD_PART_defs)
  ultimately have
    1: "rd_cur t1 = (rd_cur t)(RD_PARTRELO := nat ?r)" "rd_frame t t1" "rd_offcnt t1 = rd_offcnt t" and
    2: "rd_cur t2 = (rd_cur t1)(RD_PARTNAME := nat ?n)" "rd_frame t1 t2" "rd_offcnt t2 = rd_offcnt t1" and
    3: "rd_cur t3 = (rd_cur t2)(RD_PARTCHAR := nat ?c)" "rd_frame t2 t3" "rd_offcnt t3 = rd_offcnt t2"
    using rd_BEGINSEEK_cur [of t RD_PARTRELO ?r] rd_BEGINSEEK_cur [of t1 RD_PARTNAME ?n]
      rd_BEGINSEEK_cur [of t2 RD_PARTCHAR ?c] rd_frameD(1) [OF t(2)] rd_frameD(1)
    unfolding t1_def t2_def t3_def by blast+
  have "rd_ohead s = Inr (head, t3)"
    using l rd_frameD(3) [OF t(2)]
    by (simp add: rd_ohead_def t(1) h [symmetric] Let_def t1_def t2_def t3_def rd_BEGINSEEK_def)
  moreover have "rd_frame s t3"
    using t(2) 1(2) 2(2) 3(2) rd_frame_trans by blast
  ultimately show ?thesis
    using t(3,4) 1 2 3 by (intro exI [of _ t3]) (simp add: a_def b_def)
qed

lemma rd_sect_loop_ok:
  assumes "rd_inv s" "rd_offcnt s = k + cnt" "k + cnt \<le> MAXSECT"
  shows "\<exists>s'. rd_sect_loop cnt sect s = Inr s' \<and> rd_frame s s' \<and> rd_cur s' = rd_cur s \<and>
    rd_offcnt s' = k \<and>
    (\<forall>i < cnt. rd_offset s' ! (k + i) = long (sint (os_foff (sect ! i)) + rd_base s)) \<and>
    (\<forall>j. \<not> (k \<le> j \<and> j < k + cnt) \<longrightarrow> rd_offset s' ! j = rd_offset s ! j)"
  using assms
proof (induction cnt arbitrary: s)
  case 0
  then show ?case by (simp add: rd_frame_refl)
next
  case (Suc cnt)
  let ?v = "long (sint (os_foff (sect ! cnt)) + rd_base s)"
  define t where "t = s\<lparr>rd_offcnt := k + cnt, rd_offset := (rd_offset s)[k + cnt := ?v]\<rparr>"
  have t: "rd_frame s t" "rd_cur t = rd_cur s" "rd_offcnt t = k + cnt" "k + cnt \<le> MAXSECT"
    using Suc.prems by (simp_all add: t_def rd_frame_def rd_inv_def rd_content_def rd_cur_def fun_eq_iff)
  then obtain u where u: "rd_sect_loop cnt sect t = Inr u" "rd_frame t u" "rd_cur u = rd_cur t"
    "rd_offcnt u = k" "\<forall>i < cnt. rd_offset u ! (k + i) = long (sint (os_foff (sect ! i)) + rd_base t)"
    "\<forall>j. \<not> (k \<le> j \<and> j < k + cnt) \<longrightarrow> rd_offset u ! j = rd_offset t ! j"
    using Suc.IH [of t] rd_frameD(1) by blast
  have "rd_sect_loop (Suc cnt) sect s = Inr u"
    using Suc.prems u(1) by (simp add: Let_def t_def)
  moreover have "rd_offset u ! (k + cnt) = ?v"
    using u(6) Suc.prems by (simp add: t_def rd_inv_def)
  moreover have "\<forall>j. \<not> (k \<le> j \<and> j < k + Suc cnt) \<longrightarrow> rd_offset u ! j = rd_offset s ! j"
    using u(6) by (auto simp: t_def)
  ultimately show ?case
    using t u rd_frame_trans [OF t(1) u(2)] rd_frameD(3) [OF t(1)]
    by (intro exI [of _ u]) (auto simp: less_Suc_eq)
qed

lemma rd_sect_ok:
  assumes s: "rd_inv s" "rd_offcnt s = 0" and cnt: "cnt \<le> MAXSECT"
    and len: "rd_cur s RD_PARTEMIT + cnt * SZ_SECT \<le> length (rd_content s)"
    and c: "sect = dec_array SZ_SECT dec_outsect cnt
              (seg (rd_content s) (rd_cur s RD_PARTEMIT) (cnt * SZ_SECT))"
  shows "\<exists>s'. rd_sect cnt s = Inr (sect, s') \<and> rd_frame s s' \<and>
    rd_cur s' = (rd_cur s)(RD_PARTEMIT := rd_cur s RD_PARTEMIT + cnt * SZ_SECT) \<and>
    (\<forall>i < cnt. rd_offset s' ! i = long (sint (os_foff (sect ! i)) + rd_base s))"
proof -
  have "RD_PARTEMIT < RD_NPARTS" by (simp add: RD_PART_defs)
  from OUTREAD_ok [OF s(1) this len] obtain t where t:
    "OUTREAD RD_PARTEMIT (int (cnt * SZ_SECT)) s =
       Inr (seg (rd_content s) (rd_cur s RD_PARTEMIT) (cnt * SZ_SECT), t)"
    "rd_frame s t" "rd_cur t = (rd_cur s)(RD_PARTEMIT := rd_cur s RD_PARTEMIT + cnt * SZ_SECT)"
    "rd_offcnt t = 0"
    unfolding s(2) by blast
  define v where "v = t\<lparr>rd_offcnt := cnt\<rparr>"
  have v: "rd_frame t v" "rd_cur v = rd_cur t" "rd_offcnt v = 0 + cnt"
    using rd_frameD(1) [OF t(2)]
    by (simp_all add: v_def rd_frame_def rd_inv_def rd_content_def rd_cur_def fun_eq_iff)
  obtain u where u: "rd_sect_loop cnt sect v = Inr u" "rd_frame v u" "rd_cur u = rd_cur v"
    "\<forall>i < cnt. rd_offset u ! i = long (sint (os_foff (sect ! i)) + rd_base v)"
    using rd_sect_loop_ok [OF rd_frameD(1) [OF v(1)] v(3), of sect] cnt by auto
  have "rd_sect cnt s = Inr (sect, u)"
    using u(1) t(4) by (simp add: rd_sect_def t(1) c [symmetric] Let_def v_def del: of_nat_mult)
  moreover have "rd_frame s u"
    using t(2) v(1) u(2) rd_frame_trans by blast
  moreover have "rd_base v = rd_base s"
    using rd_frameD(3) [OF t(2)] rd_frameD(3) [OF v(1)] by simp
  ultimately show ?thesis
    using u(3,4) v(2) t(3) by (intro exI [of _ u]) simp
qed

text \<open>
  The contents of the sections: each is read at the offset its entry of \<open>offset\<close>
  holds, whatever was read before it.
\<close>

lemma rd_emits_ok:
  assumes "rd_inv s" "i + length sects \<le> MAXSECT"
    "\<forall>j < length sects. sint (os_flen (sects ! j)) = int (n (i + j)) \<and>
       rd_offset s ! (i + j) = int (off (i + j)) \<and>
       off (i + j) + n (i + j) \<le> length (rd_content s)"
  shows "\<exists>s'. rd_emits i sects s =
      Inr (map (\<lambda>j. seg (rd_content s) (off j) (n j)) [i..<i + length sects], s') \<and>
    rd_frame s s' \<and> (\<forall>p. p \<noteq> RD_PARTEMIT \<longrightarrow> rd_cur s' p = rd_cur s p)"
  using assms
proof (induction sects arbitrary: i s)
  case Nil
  then show ?case by (simp add: rd_frame_refl)
next
  case (Cons sect sects)
  from Cons.prems(3) have 0: "sint (os_flen sect) = int (n i)" "rd_offset s ! i = int (off i)"
    "off i + n i \<le> length (rd_content s)"
    by (metis (no_types, lifting) add.right_neutral length_Cons nth_Cons_0 zero_less_Suc)+
  define t where "t = s\<lparr>rd_outseek := (rd_outseek s)[RD_PARTEMIT := rd_offset s ! i],
    rd_sectionnr := i\<rparr>"
  have EMIT: "RD_PARTEMIT < RD_NPARTS" by (simp add: RD_PART_defs)
  have t: "rd_outsect i s = Inr t" "rd_frame s t" "rd_cur t = (rd_cur s)(RD_PARTEMIT := off i)"
    "rd_offset t = rd_offset s"
    using Cons.prems(1,2) 0(2) rd_cur_seek [OF Cons.prems(1) EMIT, of "int (off i)"]
    by (simp_all add: t_def rd_outsect_def rd_frame_def rd_inv_def rd_content_def rd_cur_def fun_eq_iff)
  have "rd_cur t RD_PARTEMIT + n i \<le> length (rd_content t)"
    using t(3) 0(3) rd_frameD(2) [OF t(2)] by simp
  from OUTREAD_ok [OF rd_frameD(1) [OF t(2)] EMIT this] obtain u where
    u: "OUTREAD RD_PARTEMIT (int (n i)) t = Inr (seg (rd_content s) (off i) (n i), u)"
      "rd_frame t u" "rd_cur u = (rd_cur t)(RD_PARTEMIT := off i + n i)"
      "rd_offset u = rd_offset t" "rd_sectionnr u = i"
    using t(3) rd_frameD(2) [OF t(2)] by (auto simp: t_def)
  define w where "w = u\<lparr>rd_offset := (rd_offset u)[i := long (rd_offset u ! i + int (n i))]\<rparr>"
  have w: "rd_emit (sint (os_flen sect)) t = Inr (seg (rd_content s) (off i) (n i), w)"
    "rd_frame u w" "rd_cur w = rd_cur u"
    using u(1,5) rd_frameD(1) [OF u(2)]
    by (simp_all add: rd_emit_def 0(1) w_def Let_def rd_frame_def rd_inv_def rd_content_def
        rd_cur_def fun_eq_iff)
  have sw: "rd_frame s w"
    using t(2) u(2) w(2) rd_frame_trans by blast
  have nxt: "\<forall>j < length sects. sint (os_flen (sects ! j)) = int (n (Suc i + j)) \<and>
       rd_offset w ! (Suc i + j) = int (off (Suc i + j)) \<and>
       off (Suc i + j) + n (Suc i + j) \<le> length (rd_content w)"
  proof (intro allI impI)
    fix j assume "j < length sects"
    with Cons.prems(3) [rule_format, of "Suc j"]
    show "sint (os_flen (sects ! j)) = int (n (Suc i + j)) \<and>
       rd_offset w ! (Suc i + j) = int (off (Suc i + j)) \<and>
       off (Suc i + j) + n (Suc i + j) \<le> length (rd_content w)"
      using u(4) t(4) rd_frameD(2) [OF sw] by (simp add: w_def)
  qed
  from Cons.IH [OF rd_frameD(1) [OF sw] _ nxt] Cons.prems(2) obtain x where
    x: "rd_emits (Suc i) sects w =
      Inr (map (\<lambda>j. seg (rd_content s) (off j) (n j)) [Suc i..<Suc i + length sects], x)"
      "rd_frame w x" "\<forall>p. p \<noteq> RD_PARTEMIT \<longrightarrow> rd_cur x p = rd_cur w p"
    using rd_frameD(2) [OF sw] by auto
  have "rd_emits i (sect # sects) s =
      Inr (map (\<lambda>j. seg (rd_content s) (off j) (n j)) [i..<i + length (sect # sects)], x)"
    using x(1) by (simp add: t(1) w(1) upt_conv_Cons del: upt_Suc)
  moreover have "rd_frame s x"
    using sw x(2) rd_frame_trans by blast
  ultimately show ?case
    using x(3) w(3) u(3) t(3) by auto
qed

text \<open>Where the parts of a well-formed object lie in a file that holds it from \<open>length pre\<close>.\<close>

lemma wf_obj_offsets:
  assumes wf: "wf_obj ob" and len: "b + length (obj_bytes ob) < 2 ^ 31"
  shows "OFF_RELO (ob_head ob) = int (emit_off ob (length (ob_sects ob)))"
    and "OFF_NAME (ob_head ob) = int (emit_off ob (length (ob_sects ob)) + length (ob_relos ob) * SZ_RELO)"
    and "OFF_CHAR (ob_head ob) = int (emit_off ob (length (ob_sects ob)) + length (ob_relos ob) * SZ_RELO
      + length (ob_names ob) * SZ_NAME)"
    and "length (obj_bytes ob) = emit_off ob (length (ob_sects ob)) + length (ob_relos ob) * SZ_RELO
      + length (ob_names ob) * SZ_NAME + length (ob_chars ob)"
proof -
  let ?h = "ob_head ob"
  have l: "length (obj_bytes ob) = SZ_HEAD + length (ob_sects ob) * SZ_SECT +
      length (concat (ob_emits ob)) + length (ob_relos ob) * SZ_RELO +
      length (ob_names ob) * SZ_NAME + length (ob_chars ob)"
    by (simp add: obj_bytes_def outhead.length_enc outsect.length_enc_array
        outrelo.length_enc_array outname.length_enc_array)
  have e: "emit_off ob (length (ob_sects ob)) =
      SZ_HEAD + length (ob_sects ob) * SZ_SECT + length (concat (ob_emits ob))"
    using wf by (simp add: emit_off_def wf_obj_def)
  have c: "uint (oh_nsect ?h) = int (length (ob_sects ob))"
    "uint (oh_nrelo ?h) = int (length (ob_relos ob))"
    "uint (oh_nname ?h) = int (length (ob_names ob))"
    and c': "unat (oh_nemit ?h) = length (concat (ob_emits ob))"
    using wf unfolding wf_obj_def by (metis of_nat_unat)+
  then have n: "sint (oh_nemit ?h) = int (length (concat (ob_emits ob)))"
    using sint_u32_small [of "oh_nemit ?h"] c' l len by simp
  define S where "S = int (length (ob_sects ob) * SZ_SECT)"
  define E where "E = int (length (concat (ob_emits ob)))"
  define R where "R = int (length (ob_relos ob) * SZ_RELO)"
  define N where "N = int (length (ob_names ob) * SZ_NAME)"
  have "int (b + length (obj_bytes ob)) < int (2 ^ 31)"
    using len by (simp only: of_nat_less_iff)
  then have nn: "0 \<le> S" "0 \<le> E" "0 \<le> R" "0 \<le> N" "int SZ_HEAD + S + E + R + N < 2 ^ 31"
    unfolding l S_def E_def R_def N_def by simp_all
  have SE: "OFF_EMIT ?h = int SZ_HEAD + S"
    using nn by (simp add: OFF_EMIT_def OFF_SECT_def c flip: S_def of_nat_mult)
  have RE: "OFF_RELO ?h = int SZ_HEAD + S + E"
    using nn by (simp add: OFF_RELO_def SE n flip: E_def)
  have NE: "OFF_NAME ?h = int SZ_HEAD + S + E + R"
    using nn by (simp add: OFF_NAME_def RE c flip: R_def of_nat_mult)
  have CE: "OFF_CHAR ?h = int SZ_HEAD + S + E + R + N"
    using nn by (simp add: OFF_CHAR_def NE c flip: N_def of_nat_mult)
  show "OFF_RELO ?h = int (emit_off ob (length (ob_sects ob)))"
    unfolding RE e S_def E_def by simp
  show "OFF_NAME ?h = int (emit_off ob (length (ob_sects ob)) + length (ob_relos ob) * SZ_RELO)"
    unfolding NE e S_def E_def R_def by simp
  show "OFF_CHAR ?h = int (emit_off ob (length (ob_sects ob)) + length (ob_relos ob) * SZ_RELO
      + length (ob_names ob) * SZ_NAME)"
    unfolding CE e S_def E_def R_def N_def by simp
  show "length (obj_bytes ob) = emit_off ob (length (ob_sects ob)) + length (ob_relos ob) * SZ_RELO
      + length (ob_names ob) * SZ_NAME + length (ob_chars ob)"
    using l e by simp
qed

lemma emit_off_ge: "SZ_HEAD + length (ob_sects ob) * SZ_SECT \<le> emit_off ob i"
  by (simp add: emit_off_def)

lemma obj_parts:
  fixes ob :: obj and pre post :: bytes
  assumes wf: "wf_obj ob" and b: "length pre = b"
  defines "file \<equiv> pre @ obj_bytes ob @ post"
  defines "r \<equiv> emit_off ob (length (ob_sects ob))"
  shows "seg file b SZ_HEAD = enc_outhead (ob_head ob)"
    and "seg file (b + SZ_HEAD) (length (ob_sects ob) * SZ_SECT) = enc_array enc_outsect (ob_sects ob)"
    and "i < length (ob_sects ob) \<Longrightarrow>
      seg file (b + emit_off ob i) (length (ob_emits ob ! i)) = ob_emits ob ! i"
    and "seg file (b + r) (length (ob_relos ob) * SZ_RELO) = enc_array enc_outrelo (ob_relos ob)"
    and "seg file (b + r + length (ob_relos ob) * SZ_RELO) (length (ob_names ob) * SZ_NAME) =
      enc_array enc_outname (ob_names ob)"
    and "seg file (b + r + length (ob_relos ob) * SZ_RELO + length (ob_names ob) * SZ_NAME)
      (length (ob_chars ob)) = ob_chars ob"
proof -
  have r: "r = SZ_HEAD + length (ob_sects ob) * SZ_SECT + length (concat (ob_emits ob))"
    using wf by (simp add: r_def emit_off_def wf_obj_def)
  note lens = outhead.length_enc outsect.length_enc_array outrelo.length_enc_array
    outname.length_enc_array
  have skip: "seg (xs @ ys) (length xs + k) n = seg ys k n" for xs ys :: bytes and k n
    by (simp add: seg_def)
  have part: "seg (xs @ ys @ zs) (length xs) n = ys" if "length ys = n" for xs ys zs :: bytes and n
    using that by (simp add: seg_def)
  show "seg file b SZ_HEAD = enc_outhead (ob_head ob)"
    using part [of "enc_outhead (ob_head ob)" SZ_HEAD pre] b
    by (simp add: file_def obj_bytes_def lens)
  show "seg file (b + SZ_HEAD) (length (ob_sects ob) * SZ_SECT) = enc_array enc_outsect (ob_sects ob)"
    using part [of "enc_array enc_outsect (ob_sects ob)" _ "pre @ enc_outhead (ob_head ob)"] b
    by (simp add: file_def obj_bytes_def lens)
  show "seg file (b + r) (length (ob_relos ob) * SZ_RELO) = enc_array enc_outrelo (ob_relos ob)"
    using part [of "enc_array enc_outrelo (ob_relos ob)" _ "pre @ enc_outhead (ob_head ob) @
        enc_array enc_outsect (ob_sects ob) @ concat (ob_emits ob)"] b
    by (simp add: file_def obj_bytes_def lens r add.assoc)
  show "seg file (b + r + length (ob_relos ob) * SZ_RELO) (length (ob_names ob) * SZ_NAME) =
      enc_array enc_outname (ob_names ob)"
    using part [of "enc_array enc_outname (ob_names ob)" _ "pre @ enc_outhead (ob_head ob) @
        enc_array enc_outsect (ob_sects ob) @ concat (ob_emits ob) @
        enc_array enc_outrelo (ob_relos ob)"] b
    by (simp add: file_def obj_bytes_def lens r add.assoc)
  show "seg file (b + r + length (ob_relos ob) * SZ_RELO + length (ob_names ob) * SZ_NAME)
      (length (ob_chars ob)) = ob_chars ob"
    using part [of "ob_chars ob" _ "pre @ enc_outhead (ob_head ob) @
        enc_array enc_outsect (ob_sects ob) @ concat (ob_emits ob) @
        enc_array enc_outrelo (ob_relos ob) @ enc_array enc_outname (ob_names ob)"] b
    by (simp add: file_def obj_bytes_def lens r add.assoc)
  show "seg file (b + emit_off ob i) (length (ob_emits ob ! i)) = ob_emits ob ! i"
    if i: "i < length (ob_sects ob)"
  proof -
    let ?hs = "pre @ enc_outhead (ob_head ob) @ enc_array enc_outsect (ob_sects ob)"
    have li: "i < length (ob_emits ob)" using wf i by (simp add: wf_obj_def)
    define k where "k = length (concat (take i (ob_emits ob)))"
    define n where "n = length (ob_emits ob ! i)"
    have kn: "seg (concat (ob_emits ob)) k n = ob_emits ob ! i"
      using seg_concat_nth [OF li] by (simp add: k_def n_def)
    have "length (concat (ob_emits ob)) = k + n + length (concat (drop (Suc i) (ob_emits ob)))"
      by (subst id_take_nth_drop [OF li]) (simp add: k_def n_def)
    then have "k + n \<le> length (concat (ob_emits ob))" by simp
    then have "seg (concat (ob_emits ob) @ rest) k n = ob_emits ob ! i" for rest
      using kn by (simp add: seg_append_left)
    then show ?thesis
      using skip [of ?hs _ k n] b
      by (simp add: file_def obj_bytes_def lens emit_off_def add.assoc flip: k_def n_def)
  qed
qed

lemma rd_fdopen_ok:
  assumes "length bs < 2 ^ 31" "b \<le> length bs" "length (rd_offset s) = MAXSECT"
  shows "\<exists>s'. rd_fdopen (open_at bs b) s = (1, s') \<and> rd_inv s' \<and> rd_content s' = bs \<and>
    rd_base s' = int b \<and> rd_offcnt s' = 0 \<and> rd_cur s' RD_PARTEMIT = b"
  using assms
  by (auto simp: rd_fdopen_def rd_inv_def rd_content_def rd_cur_def Let_def RD_PART_defs
      nth_list_update)

text \<open>The state while a module at position \<open>b\<close> of the file is being read.\<close>

definition obj_at :: "obj \<Rightarrow> nat \<Rightarrow> rd \<Rightarrow> bool" where
  "obj_at ob b s \<longleftrightarrow> wf_obj ob \<and> rd_inv s \<and> rd_base s = int b \<and>
     take (length (obj_bytes ob)) (drop b (rd_content s)) = obj_bytes ob \<and>
     b + length (obj_bytes ob) \<le> length (rd_content s)"

definition relo_off :: "obj \<Rightarrow> nat" where
  "relo_off ob = emit_off ob (length (ob_sects ob))"

definition name_off :: "obj \<Rightarrow> nat" where
  "name_off ob = relo_off ob + length (ob_relos ob) * SZ_RELO"

definition char_off :: "obj \<Rightarrow> nat" where
  "char_off ob = name_off ob + length (ob_names ob) * SZ_NAME"

lemma obj_at_frame: "obj_at ob b s \<Longrightarrow> rd_frame s t \<Longrightarrow> obj_at ob b t"
  by (simp add: obj_at_def rd_frame_def)

lemma obj_at_wf: "obj_at ob b s \<Longrightarrow> wf_obj ob" "obj_at ob b s \<Longrightarrow> rd_inv s"
  by (simp_all add: obj_at_def)

lemma obj_at_segs:
  assumes "obj_at ob b s"
  shows "seg (rd_content s) b SZ_HEAD = enc_outhead (ob_head ob)"
    and "seg (rd_content s) (b + SZ_HEAD) (length (ob_sects ob) * SZ_SECT) =
      enc_array enc_outsect (ob_sects ob)"
    and "i < length (ob_sects ob) \<Longrightarrow>
      seg (rd_content s) (b + emit_off ob i) (length (ob_emits ob ! i)) = ob_emits ob ! i"
    and "seg (rd_content s) (b + relo_off ob) (length (ob_relos ob) * SZ_RELO) =
      enc_array enc_outrelo (ob_relos ob)"
    and "seg (rd_content s) (b + name_off ob) (length (ob_names ob) * SZ_NAME) =
      enc_array enc_outname (ob_names ob)"
    and "seg (rd_content s) (b + char_off ob) (length (ob_chars ob)) = ob_chars ob"
proof -
  let ?c = "rd_content s"
  have c: "?c = take b ?c @ obj_bytes ob @ drop (b + length (obj_bytes ob)) ?c" (is "_ = ?pre @ _ @ ?post")
  proof -
    let ?d = "drop b ?c" and ?n = "length (obj_bytes ob)"
    have "?d = take ?n ?d @ drop ?n ?d" by (rule append_take_drop_id [symmetric])
    then have "?d = obj_bytes ob @ drop (b + ?n) ?c"
      using assms by (simp only: obj_at_def drop_drop add.commute)
    then show ?thesis by (metis append_take_drop_id)
  qed
  have "length ?pre = b" using assms by (simp add: obj_at_def)
  from obj_parts [OF obj_at_wf(1) [OF assms] this, where post = ?post, folded c]
  show "seg ?c b SZ_HEAD = enc_outhead (ob_head ob)"
    "seg ?c (b + SZ_HEAD) (length (ob_sects ob) * SZ_SECT) = enc_array enc_outsect (ob_sects ob)"
    "i < length (ob_sects ob) \<Longrightarrow>
      seg ?c (b + emit_off ob i) (length (ob_emits ob ! i)) = ob_emits ob ! i"
    "seg ?c (b + relo_off ob) (length (ob_relos ob) * SZ_RELO) = enc_array enc_outrelo (ob_relos ob)"
    "seg ?c (b + name_off ob) (length (ob_names ob) * SZ_NAME) = enc_array enc_outname (ob_names ob)"
    "seg ?c (b + char_off ob) (length (ob_chars ob)) = ob_chars ob"
    by (simp_all add: relo_off_def name_off_def char_off_def add.assoc)
qed

lemma obj_at_bounds:
  assumes "obj_at ob b s"
  shows "b + char_off ob + length (ob_chars ob) \<le> length (rd_content s)"
    and "length (rd_content s) < 2 ^ 31"
    and "SZ_HEAD + length (ob_sects ob) * SZ_SECT \<le> relo_off ob"
    and "OFF_RELO (ob_head ob) = int (relo_off ob)"
    and "OFF_NAME (ob_head ob) = int (name_off ob)"
    and "OFF_CHAR (ob_head ob) = int (char_off ob)"
    and "i < length (ob_sects ob) \<Longrightarrow> emit_off ob i + length (ob_emits ob ! i) \<le> relo_off ob"
proof -
  show lim: "length (rd_content s) < 2 ^ 31"
    using assms rd_inv_open [of s] by (auto simp: obj_at_def)
  with assms have "b + length (obj_bytes ob) < 2 ^ 31"
    by (simp add: obj_at_def)
  note offs = wf_obj_offsets [OF obj_at_wf(1) [OF assms] this, folded relo_off_def]
  from offs(1-3) show "OFF_RELO (ob_head ob) = int (relo_off ob)"
    "OFF_NAME (ob_head ob) = int (name_off ob)" "OFF_CHAR (ob_head ob) = int (char_off ob)"
    by (simp_all only: name_off_def char_off_def)
  from offs(4) assms show "b + char_off ob + length (ob_chars ob) \<le> length (rd_content s)"
    by (simp add: obj_at_def name_off_def char_off_def)
  show "SZ_HEAD + length (ob_sects ob) * SZ_SECT \<le> relo_off ob"
    using emit_off_ge by (simp add: relo_off_def)
  show "emit_off ob i + length (ob_emits ob ! i) \<le> relo_off ob" if "i < length (ob_sects ob)"
  proof -
    have n: "length (ob_emits ob) = length (ob_sects ob)"
      using obj_at_wf(1) [OF assms] by (simp add: wf_obj_def)
    with that have "i < length (ob_emits ob)" by simp
    from arg_cong [OF id_take_nth_drop [OF this], of "\<lambda>x. length (concat x)"] n
    show ?thesis by (simp add: relo_off_def emit_off_def)
  qed
qed

lemma obj_at_counts:
  assumes "obj_at ob b s"
  shows "unat (oh_nsect (ob_head ob)) = length (ob_sects ob)" "length (ob_sects ob) \<le> MAXSECT"
    "unat (oh_nrelo (ob_head ob)) = length (ob_relos ob)"
    "unat (oh_nname (ob_head ob)) = length (ob_names ob)"
    "uint (oh_nrelo (ob_head ob)) = int (length (ob_relos ob))"
    "uint (oh_nname (ob_head ob)) = int (length (ob_names ob))"
    "sint (oh_nchar (ob_head ob)) = int (length (ob_chars ob))"
proof -
  have wf: "wf_obj ob" using assms by (rule obj_at_wf)
  from wf show 1: "unat (oh_nsect (ob_head ob)) = length (ob_sects ob)"
    "length (ob_sects ob) \<le> MAXSECT" and
    2: "unat (oh_nrelo (ob_head ob)) = length (ob_relos ob)"
    "unat (oh_nname (ob_head ob)) = length (ob_names ob)"
    by (simp_all add: wf_obj_def)
  from 2 show "uint (oh_nrelo (ob_head ob)) = int (length (ob_relos ob))"
    "uint (oh_nname (ob_head ob)) = int (length (ob_names ob))"
    by (metis of_nat_unat)+
  have "unat (oh_nchar (ob_head ob)) = length (ob_chars ob)"
    using wf by (simp add: wf_obj_def)
  then show "sint (oh_nchar (ob_head ob)) = int (length (ob_chars ob))"
    using obj_at_bounds(1,2) [OF assms] by (simp add: sint_u32_small)
qed

lemma RD_PART_lt [simp]:
  "RD_PARTEMIT < RD_NPARTS" "RD_PARTRELO < RD_NPARTS" "RD_PARTNAME < RD_NPARTS"
  "RD_PARTCHAR < RD_NPARTS"
  by (simp_all add: RD_PART_defs)

lemma RD_PART_neq [simp]:
  "RD_PARTRELO \<noteq> RD_PARTEMIT" "RD_PARTNAME \<noteq> RD_PARTEMIT" "RD_PARTCHAR \<noteq> RD_PARTEMIT"
  "RD_PARTNAME \<noteq> RD_PARTRELO" "RD_PARTCHAR \<noteq> RD_PARTRELO" "RD_PARTCHAR \<noteq> RD_PARTNAME"
  "RD_PARTEMIT \<noteq> RD_PARTRELO" "RD_PARTEMIT \<noteq> RD_PARTNAME" "RD_PARTEMIT \<noteq> RD_PARTCHAR"
  "RD_PARTRELO \<noteq> RD_PARTNAME" "RD_PARTRELO \<noteq> RD_PARTCHAR" "RD_PARTNAME \<noteq> RD_PARTCHAR"
  by (simp_all add: RD_PART_defs)

lemma obj_at_ohead:
  assumes ob: "obj_at ob b s" and s: "rd_cur s RD_PARTEMIT = b" "rd_offcnt s = 0"
  shows "\<exists>s'. rd_ohead s = Inr (ob_head ob, s') \<and> rd_frame s s' \<and> rd_offcnt s' = 0 \<and>
    rd_cur s' RD_PARTEMIT = b + SZ_HEAD \<and> rd_cur s' RD_PARTRELO = b + relo_off ob \<and>
    rd_cur s' RD_PARTNAME = b + name_off ob \<and> rd_cur s' RD_PARTCHAR = b + char_off ob"
proof -
  let ?h = "ob_head ob"
  note bnd = obj_at_bounds [OF ob]
  have base: "rd_base s = int b" using ob by (simp add: obj_at_def)
  have head: "?h = dec_outhead (seg (rd_content s) (rd_cur s RD_PARTEMIT) SZ_HEAD)"
    by (simp add: s obj_at_segs(1) [OF ob] outhead.dec_enc)
  have le: "rd_cur s RD_PARTEMIT + SZ_HEAD \<le> length (rd_content s)"
    using bnd(1,3) by (simp add: s char_off_def name_off_def)
  have nonneg: "0 \<le> rd_base s" "0 \<le> OFF_RELO ?h" "0 \<le> OFF_NAME ?h" "0 \<le> OFF_CHAR ?h"
    by (simp_all add: base bnd)
  have pos: "rd_base s + OFF_RELO ?h = int (b + relo_off ob)"
    "int (b + relo_off ob) + uint (oh_nrelo ?h) * 8 = int (b + name_off ob)"
    "int (b + name_off ob) + uint (oh_nname ?h) * 12 = int (b + char_off ob)"
    by (simp_all add: base bnd(4) obj_at_counts [OF ob] name_off_def char_off_def SZ_defs)
  have "int (b + char_off ob) < int (2 ^ 31)"
    using bnd(1,2) by (simp only: of_nat_less_iff)
  then have "rd_base s + OFF_RELO ?h + uint (oh_nrelo ?h) * 8 + uint (oh_nname ?h) * 12 < 2 ^ 31"
    unfolding pos by simp
  from rd_ohead_ok [OF obj_at_wf(2) [OF ob] head le nonneg this]
  show ?thesis
    unfolding pos nat_int by (auto simp: s)
qed

lemma obj_at_sect:
  assumes ob: "obj_at ob b s" and s: "rd_cur s RD_PARTEMIT = b + SZ_HEAD" "rd_offcnt s = 0"
  shows "\<exists>s'. rd_sect (length (ob_sects ob)) s = Inr (ob_sects ob, s') \<and> rd_frame s s' \<and>
    (\<forall>p. p \<noteq> RD_PARTEMIT \<longrightarrow> rd_cur s' p = rd_cur s p) \<and>
    (\<forall>i < length (ob_sects ob). rd_offset s' ! i = int (b + emit_off ob i))"
proof -
  let ?n = "length (ob_sects ob)"
  note bnd = obj_at_bounds [OF ob]
  have le: "rd_cur s RD_PARTEMIT + ?n * SZ_SECT \<le> length (rd_content s)"
    using bnd(1,3) by (simp add: s char_off_def name_off_def)
  have "ob_sects ob = dec_array SZ_SECT dec_outsect ?n
      (seg (rd_content s) (rd_cur s RD_PARTEMIT) (?n * SZ_SECT))"
    using outsect.dec_array_enc_array [of "ob_sects ob" "[]"]
    by (simp add: s obj_at_segs(2) [OF ob])
  from rd_sect_ok [OF obj_at_wf(2) [OF ob] s(2) obj_at_counts(2) [OF ob] le this]
  obtain s' where s': "rd_sect ?n s = Inr (ob_sects ob, s')" "rd_frame s s'"
    "\<forall>p. p \<noteq> RD_PARTEMIT \<longrightarrow> rd_cur s' p = rd_cur s p"
    "\<forall>i < ?n. rd_offset s' ! i = long (sint (os_foff (ob_sects ob ! i)) + rd_base s)"
    by auto
  have "long (sint (os_foff (ob_sects ob ! i)) + rd_base s) = int (b + emit_off ob i)" if "i < ?n" for i
  proof -
    have u: "unat (os_foff (ob_sects ob ! i)) = emit_off ob i"
      using that obj_at_wf(1) [OF ob] by (simp add: wf_obj_def)
    have l: "b + emit_off ob i < 2 ^ 31"
      using bnd(7) [OF that] bnd(1,2) by (simp add: char_off_def name_off_def)
    then have "int (b + emit_off ob i) < int (2 ^ 31)" by (simp only: of_nat_less_iff)
    with u l ob show ?thesis by (simp add: sint_u32_small obj_at_def add.commute)
  qed
  with s' show ?thesis by auto
qed

lemma obj_at_emits:
  assumes ob: "obj_at ob b s"
    and s: "\<forall>i < length (ob_sects ob). rd_offset s ! i = int (b + emit_off ob i)"
  shows "\<exists>s'. rd_emits 0 (ob_sects ob) s = Inr (ob_emits ob, s') \<and> rd_frame s s' \<and>
    (\<forall>p. p \<noteq> RD_PARTEMIT \<longrightarrow> rd_cur s' p = rd_cur s p)"
proof -
  let ?n = "length (ob_sects ob)"
  note bnd = obj_at_bounds [OF ob]
  have wf: "\<forall>j < ?n. unat (os_flen (ob_sects ob ! j)) = length (ob_emits ob ! j)"
    "length (ob_emits ob) = ?n"
    using obj_at_wf(1) [OF ob] by (simp_all add: wf_obj_def)
  have "sint (os_flen (ob_sects ob ! j)) = int (length (ob_emits ob ! j)) \<and>
      rd_offset s ! j = int (b + emit_off ob j) \<and>
      b + emit_off ob j + length (ob_emits ob ! j) \<le> length (rd_content s)" if j: "j < ?n" for j
    using wf(1) j s bnd(7) [OF j] bnd(1,2)
    by (simp add: sint_u32_small char_off_def name_off_def)
  then obtain s' where "rd_emits 0 (ob_sects ob) s =
      Inr (map (\<lambda>j. seg (rd_content s) (b + emit_off ob j) (length (ob_emits ob ! j))) [0..<?n], s')"
    "rd_frame s s'" "\<forall>p. p \<noteq> RD_PARTEMIT \<longrightarrow> rd_cur s' p = rd_cur s p"
    using rd_emits_ok [OF obj_at_wf(2) [OF ob], of 0 "ob_sects ob" "\<lambda>j. length (ob_emits ob ! j)"
        "\<lambda>j. b + emit_off ob j"] obj_at_counts(2) [OF ob] by auto
  moreover have "map (\<lambda>j. seg (rd_content s) (b + emit_off ob j) (length (ob_emits ob ! j))) [0..<?n]
      = ob_emits ob"
    using obj_at_segs(3) [OF ob] wf(2) by (intro nth_equalityI) simp_all
  ultimately show ?thesis by auto
qed

lemma obj_at_tables:
  assumes ob: "obj_at ob b s"
    and s: "rd_cur s RD_PARTRELO = b + relo_off ob" "rd_cur s RD_PARTNAME = b + name_off ob"
      "rd_cur s RD_PARTCHAR = b + char_off ob"
  shows "\<exists>s1 s2 s3. rd_relo (length (ob_relos ob)) s = Inr (ob_relos ob, s1) \<and>
    rd_name (length (ob_names ob)) s1 = Inr (ob_names ob, s2) \<and>
    rd_string (int (length (ob_chars ob))) s2 = Inr (ob_chars ob, s3)"
proof -
  note total = obj_at_bounds(1) [OF ob]
  have read: "\<exists>t. OUTREAD p (int n) s = Inr (seg (rd_content s) (rd_cur s p) n, t) \<and> rd_frame s t \<and>
      (\<forall>q. q \<noteq> p \<longrightarrow> rd_cur t q = rd_cur s q) \<and> obj_at ob b t"
    if "obj_at ob b s" "p < RD_NPARTS" "rd_cur s p + n \<le> length (rd_content s)" for s p n
    using OUTREAD_ok [OF obj_at_wf(2) [OF that(1)] that(2,3)] obj_at_frame [OF that(1)] by auto
  obtain s1 where s1: "OUTREAD RD_PARTRELO (int (length (ob_relos ob) * SZ_RELO)) s =
      Inr (enc_array enc_outrelo (ob_relos ob), s1)" "rd_frame s s1"
    "\<forall>q. q \<noteq> RD_PARTRELO \<longrightarrow> rd_cur s1 q = rd_cur s q" "obj_at ob b s1"
    using read [OF ob RD_PART_lt(2), of "length (ob_relos ob) * SZ_RELO"] total
    unfolding s obj_at_segs(4) [OF ob] by (auto simp: char_off_def name_off_def)
  have c1: "rd_cur s1 RD_PARTNAME = b + name_off ob" "rd_cur s1 RD_PARTCHAR = b + char_off ob"
    using s1(3) s(2,3) by simp_all
  obtain s2 where s2: "OUTREAD RD_PARTNAME (int (length (ob_names ob) * SZ_NAME)) s1 =
      Inr (enc_array enc_outname (ob_names ob), s2)" "rd_frame s1 s2"
    "\<forall>q. q \<noteq> RD_PARTNAME \<longrightarrow> rd_cur s2 q = rd_cur s1 q" "obj_at ob b s2"
    using read [OF s1(4) RD_PART_lt(3), of "length (ob_names ob) * SZ_NAME"] total rd_frameD(2) [OF s1(2)]
    unfolding c1 obj_at_segs(5) [OF s1(4)] by (auto simp: char_off_def)
  have c2: "rd_cur s2 RD_PARTCHAR = b + char_off ob"
    using s2(3) c1(2) by simp
  obtain s3 where s3: "OUTREAD RD_PARTCHAR (int (length (ob_chars ob))) s2 = Inr (ob_chars ob, s3)"
    using read [OF s2(4) RD_PART_lt(4), of "length (ob_chars ob)"] obj_at_bounds(1) [OF s2(4)]
    unfolding c2 obj_at_segs(6) [OF s2(4)] by auto
  show ?thesis
    using s1(1) s2(1) s3 outrelo.dec_array_enc_array [of "ob_relos ob" "[]"]
      outname.dec_array_enc_array [of "ob_names ob" "[]"]
    by (simp add: rd_relo_def rd_name_def rd_string_def del: of_nat_mult)
qed

lemma rd_object_ok:
  assumes ob: "obj_at ob b s" and s: "rd_cur s RD_PARTEMIT = b" "rd_offcnt s = 0"
  shows "\<exists>s'. rd_object s = Inr (ob, s')"
proof -
  obtain s1 where s1: "rd_ohead s = Inr (ob_head ob, s1)" "rd_frame s s1" "rd_offcnt s1 = 0"
    "rd_cur s1 RD_PARTEMIT = b + SZ_HEAD" "rd_cur s1 RD_PARTRELO = b + relo_off ob"
    "rd_cur s1 RD_PARTNAME = b + name_off ob" "rd_cur s1 RD_PARTCHAR = b + char_off ob"
    using obj_at_ohead [OF ob s] by blast
  note ob1 = obj_at_frame [OF ob s1(2)]
  obtain s2 where s2: "rd_sect (length (ob_sects ob)) s1 = Inr (ob_sects ob, s2)" "rd_frame s1 s2"
    "\<forall>p. p \<noteq> RD_PARTEMIT \<longrightarrow> rd_cur s2 p = rd_cur s1 p"
    "\<forall>i < length (ob_sects ob). rd_offset s2 ! i = int (b + emit_off ob i)"
    using obj_at_sect [OF ob1 s1(4,3)] by blast
  note ob2 = obj_at_frame [OF ob1 s2(2)]
  obtain s3 where s3: "rd_emits 0 (ob_sects ob) s2 = Inr (ob_emits ob, s3)" "rd_frame s2 s3"
    "\<forall>p. p \<noteq> RD_PARTEMIT \<longrightarrow> rd_cur s3 p = rd_cur s2 p"
    using obj_at_emits [OF ob2 s2(4)] by blast
  note ob3 = obj_at_frame [OF ob2 s3(2)]
  obtain s4 s5 s6 where "rd_relo (length (ob_relos ob)) s3 = Inr (ob_relos ob, s4)"
    "rd_name (length (ob_names ob)) s4 = Inr (ob_names ob, s5)"
    "rd_string (int (length (ob_chars ob))) s5 = Inr (ob_chars ob, s6)"
    using obj_at_tables [OF ob3] s3(3) s2(3) s1(5-7) by auto
  then have "rd_object s = Inr (ob, s6)"
    using s1(1) s2(1) s3(1) by (simp add: rd_object_def obj_at_counts [OF ob])
  then show ?thesis by blast
qed

lemma rd_fdopen_run:
  assumes "wf_obj ob" "length (pre @ obj_bytes ob @ post) < 2 ^ 31" "length (rd_offset s) = MAXSECT"
  shows "\<exists>s' s''. rd_fdopen (open_at (pre @ obj_bytes ob @ post) (length pre)) s = (1, s') \<and>
    rd_object s' = Inr (ob, s'')"
proof -
  obtain s' where s': "rd_fdopen (open_at (pre @ obj_bytes ob @ post) (length pre)) s = (1, s')"
    "rd_inv s'" "rd_content s' = pre @ obj_bytes ob @ post" "rd_base s' = int (length pre)"
    "rd_offcnt s' = 0" "rd_cur s' RD_PARTEMIT = length pre"
    using rd_fdopen_ok [OF assms(2) _ assms(3), of "length pre"] by auto
  then have "obj_at ob (length pre) s'"
    using assms(1) by (simp add: obj_at_def)
  from rd_object_ok [OF this s'(6,5)] s'(1) show ?thesis by blast
qed

section \<open>Properties of the reader\<close>

text \<open>
  C1. A module that lies anywhere in a file (as in an archive) is read back as the object it
  encodes: opening the file at the module and reading header, section table, contents,
  relocations, names and strings yields exactly the parts of the object, whatever precedes
  and follows it in the file.
\<close>

theorem rd_fdopen_object:
  assumes "wf_obj ob" "length (pre @ obj_bytes ob @ post) < 2 ^ 31" "length (rd_offset s) = MAXSECT"
  shows "\<exists>s' s''. rd_fdopen (open_at (pre @ obj_bytes ob @ post) (length pre)) s = (1, s') \<and>
    rd_object s' = Inr (ob, s'')"
  using assms by (rule rd_fdopen_run)

text \<open>A module with two sections, a relocation, a name and its string.\<close>

definition sample_obj :: obj where
  "sample_obj =
     \<lparr>ob_head = \<lparr>oh_magic = O_MAGIC, oh_stamp = O_STAMP, oh_flags = HF_LINK, oh_nsect = 2,
        oh_nrelo = 1, oh_nname = 1, oh_nemit = 5, oh_nchar = 3\<rparr>,
      ob_sects =
        [\<lparr>os_base = 0, os_size = 3, os_foff = 60, os_flen = 3, os_lign = 1\<rparr>,
         \<lparr>os_base = 0, os_size = 2, os_foff = 63, os_flen = 2, os_lign = 1\<rparr>],
      ob_emits = [[1, 2, 3], [4, 5]],
      ob_relos = [\<lparr>or_type = 2, or_sect = 2, or_nami = 0, or_addr = 1\<rparr>],
      ob_names = [\<lparr>on_foff = 85, on_type = 0x82, on_desc = 0, on_valu = 2\<rparr>],
      ob_chars = [95, 102, 0]\<rparr>"

lemma wf_sample_obj: "wf_obj sample_obj"
  by code_simp

lemma length_sample_obj: "length (obj_bytes sample_obj) = 88"
  by (simp add: obj_bytes_def sample_obj_def outhead.length_enc outsect.length_enc
      outrelo.length_enc outname.length_enc SZ_defs)

theorem rd_fdopen_object_witness:
  "\<exists>s' s''. rd_fdopen (open_at ([7, 7] @ obj_bytes sample_obj @ [9]) (length [7 :: byte, 7])) rd_init = (1, s') \<and>
    rd_object s' = Inr (sample_obj, s'')"
  by (rule rd_fdopen_object [OF wf_sample_obj]) (simp_all add: length_sample_obj rd_init_def)

end
