(* ===== verification/Obj_Write.thy ===== *)
theory Obj_Write
  imports Obj_Read
begin

text \<open>
  The writing half of the object library (\<open>Ack-5.5/lib\<close>): \<open>wr_bytes.c\<close>,
  \<open>wr_int2.c\<close>, \<open>wr_long.c\<close>, \<open>wr_arhdr.c\<close>, \<open>wr_ranlib.c\<close>,
  \<open>wr_putc.c\<close> and \<open>wr.c\<close>. The output file is open six times, once for each part,
  and each part has a buffer of \<open>WBUFSIZ\<close> bytes; the record \<open>wr\<close> holds the file, the
  structs \<open>__parts\<close> and the other static variables. The lemmas show that each part is a
  stream of its own: whatever the buffering and the interleaving, closing the file leaves
  every stream at the place the header assigned to it.
\<close>

section \<open>Writing to a descriptor\<close>

text \<open>
  The file, and the position of the descriptor in it (\<open>None\<close>: not open). A file cannot
  grow beyond \<open>limit\<close> bytes: there \<open>write\<close> writes fewer bytes than asked for.
\<close>

definition write_fd :: "nat \<Rightarrow> bytes \<Rightarrow> bytes \<times> int option \<Rightarrow> int \<times> bytes \<times> int option" where
  "write_fd limit bs ff =
     (case ff of
        (f, None) \<Rightarrow> (-1, f, None)
      | (f, Some k) \<Rightarrow>
          let m = min (length bs) (limit - nat k)
          in (int m, put_at f (nat k) (take m bs), Some (k + int m)))"

function wr_bytes :: "nat \<Rightarrow> bytes \<Rightarrow> bytes \<times> int option \<Rightarrow> obj_error + (bytes \<times> int option)" where
  "wr_bytes limit str ff =
     (if str = [] then Inr ff
      else
        let n = (if maxchunk \<le> int (length str) then nat maxchunk else length str);
            (r, ff') = write_fd limit (take n str) ff
        in if r \<noteq> int n then Inl Wr_fatal else wr_bytes limit (drop n str) ff')"
  by pat_completeness auto
termination
  by (relation "measure (\<lambda>(limit, str, ff). length str)") (auto simp: maxchunk_def)

declare wr_bytes.simps [simp del]

definition wr_int2 :: "nat \<Rightarrow> u32 \<Rightarrow> bytes \<times> int option \<Rightarrow> obj_error + (bytes \<times> int option)" where
  "wr_int2 limit i ff = wr_bytes limit (put2 i) ff"

definition wr_long :: "nat \<Rightarrow> u32 \<Rightarrow> bytes \<times> int option \<Rightarrow> obj_error + (bytes \<times> int option)" where
  "wr_long limit l ff = wr_bytes limit (put4 l) ff"

definition wr_arhdr :: "nat \<Rightarrow> ar_hdr \<Rightarrow> bytes \<times> int option \<Rightarrow> obj_error + (bytes \<times> int option)" where
  "wr_arhdr limit arhdr ff = wr_bytes limit (enc_ar_hdr arhdr) ff"

definition wr_ranlib ::
    "nat \<Rightarrow> ranlib list \<Rightarrow> bytes \<times> int option \<Rightarrow> obj_error + (bytes \<times> int option)" where
  "wr_ranlib limit rans ff = wr_bytes limit (enc_array enc_ranlib rans) ff"

section \<open>wr.c\<close>

text \<open>\<open>BUFSIZ\<close> of the V7 system the tools run on, \<open>BIGMACHINE\<close> not set.\<close>

definition WBUFSIZ :: nat where "WBUFSIZ = 512"
definition SECTCNT :: nat where "SECTCNT = 3"
definition PARTEMIT :: nat where "PARTEMIT = 0"
definition PARTRELO :: nat where "PARTRELO = PARTEMIT + SECTCNT"
definition PARTNAME :: nat where "PARTNAME = PARTRELO + 1"
definition PARTCHAR :: nat where "PARTCHAR = PARTNAME + 1"
definition NPARTS :: nat where "NPARTS = PARTCHAR + 1"

lemmas PART_defs = SECTCNT_def PARTEMIT_def PARTRELO_def PARTNAME_def PARTCHAR_def NPARTS_def

definition getsect :: "nat \<Rightarrow> nat" where
  "getsect s = PARTEMIT + (if s \<ge> SECTCNT - 1 then SECTCNT - 1 else s)"

text \<open>\<open>pnow\<close> and \<open>pbegin\<close> point into \<open>pbuf\<close>: they are offsets in it.\<close>

record fil =
  fl_cnt :: nat
  fl_pnow :: nat
  fl_pbegin :: nat
  fl_currpos :: int
  fl_fd :: "int option"
  fl_pbuf :: bytes

record wr =
  wr_file :: bytes
  wr_limit :: nat
  wr_parts :: "nat \<Rightarrow> fil"
  wr_offset :: "int list"
  wr_sectionnr :: nat
  wr_offcnt :: nat

text \<open>Static storage is zero when the program starts; no part has a descriptor of the file yet.\<close>

definition wr_init :: "nat \<Rightarrow> wr" where
  "wr_init limit =
     \<lparr>wr_file = [], wr_limit = limit,
      wr_parts = (\<lambda>p. \<lparr>fl_cnt = 0, fl_pnow = 0, fl_pbegin = 0, fl_currpos = 0, fl_fd = None,
                        fl_pbuf = replicate WBUFSIZ 0\<rparr>),
      wr_offset = replicate MAXSECT 0, wr_sectionnr = 0, wr_offcnt = 0\<rparr>"

definition upd_part :: "nat \<Rightarrow> (fil \<Rightarrow> fil) \<Rightarrow> wr \<Rightarrow> wr" where
  "upd_part p f s = s\<lparr>wr_parts := (wr_parts s)(p := f (wr_parts s p))\<rparr>"

text \<open>\<open>wr_bytes\<close> on the descriptor of a part.\<close>

definition part_bytes :: "nat \<Rightarrow> bytes \<Rightarrow> wr \<Rightarrow> obj_error + wr" where
  "part_bytes p bs s =
     bindE (wr_bytes (wr_limit s) bs (wr_file s, fl_fd (wr_parts s p)))
       (\<lambda>(f, k). Inr (upd_part p (\<lambda>q. q\<lparr>fl_fd := k\<rparr>) (s\<lparr>wr_file := f\<rparr>)))"

text \<open>\<open>offset[sectionnr] = v\<close>, unchecked in the code.\<close>

definition set_offset :: "int \<Rightarrow> wr \<Rightarrow> obj_error + wr" where
  "set_offset v s =
     (if wr_sectionnr s < MAXSECT then Inr (s\<lparr>wr_offset := (wr_offset s)[wr_sectionnr s := v]\<rparr>)
      else Inl Out_of_bounds)"

text \<open>
  The statements \<open>ptr->currpos += n; if (ptr < &__parts[PARTEMIT+SECTCNT])
  offset[sectionnr] = ptr->currpos\<close>.
\<close>

definition advance :: "nat \<Rightarrow> nat \<Rightarrow> wr \<Rightarrow> obj_error + wr" where
  "advance p n s =
     (let c = long (fl_currpos (wr_parts s p) + int n);
          s = upd_part p (\<lambda>q. q\<lparr>fl_currpos := c\<rparr>) s
      in if p < PARTEMIT + SECTCNT then set_offset c s else Inr s)"

definition pending :: "fil \<Rightarrow> bytes" where
  "pending q = seg (fl_pbuf q) (fl_pbegin q) (fl_pnow q - fl_pbegin q)"

definition wr_flush :: "nat \<Rightarrow> wr \<Rightarrow> obj_error + wr" where
  "wr_flush p s =
     (let q = wr_parts s p
      in bindE
           (if fl_pnow q > fl_pbegin q then
              bindE (part_bytes p (pending q) s) (advance p (fl_pnow q - fl_pbegin q))
            else Inr s)
           (\<lambda>s. Inr (upd_part p (\<lambda>q. q\<lparr>fl_cnt := WBUFSIZ, fl_pnow := 0, fl_pbegin := 0\<rparr>) s)))"

text \<open>The copy loops \<open>*pn++ = *b++\<close> with the update of \<open>cnt\<close> and \<open>pnow\<close>.\<close>

definition wr_store :: "nat \<Rightarrow> bytes \<Rightarrow> wr \<Rightarrow> wr" where
  "wr_store p b s =
     upd_part p (\<lambda>q. q\<lparr>fl_cnt := fl_cnt q - length b, fl_pbuf := blit (fl_pbuf q) (fl_pnow q) b,
                       fl_pnow := fl_pnow q + length b\<rparr>) s"

text \<open>
  The first half of \<open>OUTWRITE\<close> fills up the buffer, or writes it out with as much of \<open>b\<close> as
  ends on a block of the file; it leaves the rest of \<open>b\<close>. The second half writes whole
  blocks directly and stores what remains.
\<close>

definition OUTWRITE_fill :: "nat \<Rightarrow> bytes \<Rightarrow> wr \<Rightarrow> obj_error + bytes \<times> wr" where
  "OUTWRITE_fill p b s =
     (let i = fl_cnt (wr_parts s p)
      in if i < WBUFSIZ then
           if length b > i then
             bindE (wr_flush p s) (\<lambda>s.
             bindE (part_bytes p (take i b) s) (\<lambda>s.
             bindE (advance p i s) (\<lambda>s. Inr (drop i b, s))))
           else Inr ([], wr_store p b s)
         else Inr (b, s))"

definition OUTWRITE_blocks :: "nat \<Rightarrow> bytes \<Rightarrow> wr \<Rightarrow> obj_error + bytes \<times> wr" where
  "OUTWRITE_blocks p b s =
     (let m = length b - length b mod WBUFSIZ
      in if m \<noteq> 0 then
           bindE (part_bytes p (take m b) s) (\<lambda>s.
           bindE (advance p m s) (\<lambda>s. Inr (drop m b, s)))
         else Inr (b, s))"

definition OUTWRITE_rest :: "nat \<Rightarrow> bytes \<Rightarrow> wr \<Rightarrow> obj_error + wr" where
  "OUTWRITE_rest p b s =
     (if fl_cnt (wr_parts s p) = 0 \<or> fl_cnt (wr_parts s p) = WBUFSIZ then
        bindE (wr_flush p s) (\<lambda>s.
        bindE (OUTWRITE_blocks p b s) (\<lambda>(b, s). Inr (if b \<noteq> [] then wr_store p b s else s)))
      else Inr s)"

definition OUTWRITE :: "nat \<Rightarrow> bytes \<Rightarrow> wr \<Rightarrow> obj_error + wr" where
  "OUTWRITE p b s = bindE (OUTWRITE_fill p b s) (\<lambda>(b, s). OUTWRITE_rest p b s)"

definition wr_BEGINSEEK :: "nat \<Rightarrow> int \<Rightarrow> wr \<Rightarrow> wr" where
  "wr_BEGINSEEK p off s =
     (let q = wr_parts s p;
          (c, fd) = (if fl_fd q = None \<or> off < 0 then (-1, fl_fd q) else (off, Some off));
          k = (if p \<ge> PARTRELO then 0 else nat (off mod int WBUFSIZ))
      in s\<lparr>wr_parts := (wr_parts s)
             (p := q\<lparr>fl_currpos := c, fl_fd := fd, fl_cnt := WBUFSIZ - k, fl_pbegin := k,
                     fl_pnow := k\<rparr>)\<rparr>)"

text \<open>
  The file is created or emptied and opened once for each part; \<open>avail\<close> is the number of
  descriptors the system grants.
\<close>

definition wr_open :: "nat \<Rightarrow> wr \<Rightarrow> int \<times> wr" where
  "wr_open avail s =
     (let s = s\<lparr>wr_file := [],
                wr_parts := (\<lambda>p. if p < min avail NPARTS then (wr_parts s p)\<lparr>fl_fd := Some 0\<rparr>
                                 else if p = avail then (wr_parts s p)\<lparr>fl_fd := None\<rparr>
                                 else wr_parts s p)\<rparr>
      in if avail < NPARTS then (0, s) else (1, s\<lparr>wr_offcnt := 0\<rparr>))"

fun wr_close_parts :: "nat list \<Rightarrow> wr \<Rightarrow> obj_error + wr" where
  "wr_close_parts [] s = Inr s"
| "wr_close_parts (p # ps) s =
     bindE (wr_flush p s) (\<lambda>s. wr_close_parts ps (upd_part p (\<lambda>q. q\<lparr>fl_fd := None\<rparr>) s))"

definition wr_close :: "wr \<Rightarrow> obj_error + wr" where
  "wr_close s = wr_close_parts [0..<NPARTS] s"

definition wr_ohead :: "outhead \<Rightarrow> wr \<Rightarrow> obj_error + wr" where
  "wr_ohead head s =
     (let off = OFF_RELO head;
          s = wr_BEGINSEEK PARTEMIT 0 s;
          s = wr_BEGINSEEK PARTRELO off s;
          off = long (off + uint (oh_nrelo head) * int SZ_RELO);
          s = wr_BEGINSEEK PARTNAME off s;
          off = long (off + uint (oh_nname head) * int SZ_NAME);
          s = wr_BEGINSEEK PARTCHAR off s
      in OUTWRITE PARTEMIT (enc_outhead head) s)"

text \<open>
  The loop that \<open>wr_sect\<close>, \<open>wr_relo\<close> and \<open>wr_name\<close> share: as many whole
  structs of \<open>sz\<close> bytes as the buffer has room for are stored in it, then it is flushed.
  Structs larger than the buffer would make it run for ever; there are none, and the model
  stops.
\<close>

lemma wr_flush_cnt: "wr_flush p s = Inr s' \<Longrightarrow> fl_cnt (wr_parts s' p) = WBUFSIZ"
  by (auto simp: wr_flush_def Let_def bindE_Inr_iff upd_part_def)

function wr_table :: "nat \<Rightarrow> nat \<Rightarrow> ('a \<Rightarrow> bytes) \<Rightarrow> 'a list \<Rightarrow> wr \<Rightarrow> obj_error + wr" where
  "wr_table p sz enc xs s =
     (if xs = [] then Inr s
      else if WBUFSIZ div sz = 0 then Inl Out_of_bounds
      else
        let i = min (fl_cnt (wr_parts s p) div sz) (length xs);
            s = wr_store p (enc_array enc (take i xs)) s;
            rest = drop i xs
        in if rest \<noteq> [] then bindE (wr_flush p s) (wr_table p sz enc rest) else Inr s)"
  by pat_completeness auto
termination
proof (relation "measures [\<lambda>(p, sz, enc, xs, s). length xs,
    \<lambda>(p, sz, enc, xs, s). if fl_cnt (wr_parts s p) div sz = 0 then 1 else 0]", goal_cases)
  case 1
  then show ?case by simp
next
  case (2 p sz enc xs s i t rest u)
  then have "fl_cnt (wr_parts u p) = WBUFSIZ" by (simp add: wr_flush_cnt)
  with 2 show ?case by (auto simp: min_def split: if_splits)
qed

declare wr_table.simps [simp del]

fun wr_sect_seek :: "outsect list \<Rightarrow> wr \<Rightarrow> obj_error + wr" where
  "wr_sect_seek [] s = Inr s"
| "wr_sect_seek (sect # sects) s =
     (let s = (if 1 \<le> wr_offcnt s \<and> wr_offcnt s < SECTCNT
               then wr_BEGINSEEK (PARTEMIT + wr_offcnt s) (sint (os_foff sect)) s else s)
      in if wr_offcnt s < MAXSECT then
           wr_sect_seek sects
             (s\<lparr>wr_offset := (wr_offset s)[wr_offcnt s := sint (os_foff sect)],
                wr_offcnt := wr_offcnt s + 1\<rparr>)
         else Inl Out_of_bounds)"

definition wr_sect :: "outsect list \<Rightarrow> wr \<Rightarrow> obj_error + wr" where
  "wr_sect sects s = bindE (wr_sect_seek sects s) (wr_table PARTEMIT SZ_SECT enc_outsect sects)"

definition wr_outsect :: "nat \<Rightarrow> wr \<Rightarrow> obj_error + wr" where
  "wr_outsect sno s =
     (let p = PARTEMIT + getsect (wr_sectionnr s)
      in bindE
           (if sno \<noteq> wr_sectionnr s \<and> sno \<ge> SECTCNT - 1 \<and> wr_sectionnr s \<ge> SECTCNT - 1 then
              bindE (part_bytes p (pending (wr_parts s p)) s) (\<lambda>s.
              let q = wr_parts s p;
                  c = long (fl_currpos q + int (fl_pnow q - fl_pbegin q))
              in bindE (set_offset c (upd_part p (\<lambda>q. q\<lparr>fl_currpos := c\<rparr>) s)) (\<lambda>s.
              if sno < MAXSECT then
                let off = wr_offset s ! sno;
                    (c', fd) = (if off = c then (c, fl_fd q)
                                else if fl_fd q = None \<or> off < 0 then (-1, fl_fd q)
                                else (off, Some off));
                    k = nat (off mod int WBUFSIZ)
                in Inr (upd_part p (\<lambda>q. q\<lparr>fl_currpos := c', fl_fd := fd, fl_cnt := WBUFSIZ - k,
                                         fl_pbegin := k, fl_pnow := k\<rparr>) s)
              else Inl Out_of_bounds))
            else Inr s)
           (\<lambda>s. Inr (s\<lparr>wr_sectionnr := sno\<rparr>)))"

definition wr_emit :: "bytes \<Rightarrow> wr \<Rightarrow> obj_error + wr" where
  "wr_emit emit s = OUTWRITE (PARTEMIT + getsect (wr_sectionnr s)) emit s"

definition wr_putc :: "byte \<Rightarrow> wr \<Rightarrow> obj_error + wr" where
  "wr_putc ch s =
     (let p = PARTEMIT + getsect (wr_sectionnr s)
      in bindE (if fl_cnt (wr_parts s p) = 0 then wr_flush p s else Inr s)
           (\<lambda>s. Inr (wr_store p [ch] s)))"

definition wr_relo :: "outrelo list \<Rightarrow> wr \<Rightarrow> obj_error + wr" where
  "wr_relo relos s = wr_table PARTRELO SZ_RELO enc_outrelo relos s"

definition wr_name :: "outname list \<Rightarrow> wr \<Rightarrow> obj_error + wr" where
  "wr_name names s = wr_table PARTNAME SZ_NAME enc_outname names s"

definition wr_string :: "bytes \<Rightarrow> wr \<Rightarrow> obj_error + wr" where
  "wr_string addr s = OUTWRITE PARTCHAR addr s"

section \<open>Streams\<close>

lemma write_fd_open:
  "write_fd limit bs (f, Some (int k)) =
     (int (min (length bs) (limit - k)), put_at f k (take (limit - k) bs),
      Some (int (k + min (length bs) (limit - k))))"
proof -
  have "take (min (length bs) (limit - k)) bs = take (limit - k) bs"
    by (simp add: min_def)
  then show ?thesis by (simp add: write_fd_def Let_def)
qed

lemma wr_bytes_ok:
  "str = [] \<or> k + length str \<le> limit \<Longrightarrow>
    wr_bytes limit str (f, Some (int k)) = Inr (put_at f k str, Some (int (k + length str)))"
proof (induction "length str" arbitrary: str f k rule: less_induct)
  case less
  show ?case
  proof (cases "str = []")
    case True
    then show ?thesis by (simp add: wr_bytes.simps)
  next
    case False
    define n where "n = (if maxchunk \<le> int (length str) then nat maxchunk else length str)"
    have n: "0 < n" "n \<le> length str"
      using False by (auto simp: n_def maxchunk_def)
    have room: "k + length str \<le> limit"
      using less.prems False by simp
    have nl: "n \<le> limit - k"
      using n room by simp
    have "wr_bytes limit str (f, Some (int k)) =
        wr_bytes limit (drop n str) (put_at f k (take n str), Some (int (k + n)))"
      using False n nl
      by (subst wr_bytes.simps) (simp add: write_fd_open min_absorb1 flip: n_def)
    also have "\<dots> = Inr (put_at (put_at f k (take n str)) (k + n) (drop n str),
        Some (int (k + n + length (drop n str))))"
      using n room by (intro less.hyps) auto
    also have "put_at (put_at f k (take n str)) (k + n) (drop n str) = put_at f k str"
      using put_at_put_at_append [of f k "take n str" "drop n str"] n by simp
    finally show ?thesis using n by simp
  qed
qed

text \<open>
  What has been given to part \<open>p\<close>: what its descriptor has written to the file since its
  start \<open>st\<close>, and what is still in its buffer.
\<close>

definition fl_pos :: "fil \<Rightarrow> nat" where
  "fl_pos q = nat (fl_currpos q)"

lemma fl_pos_upd [simp]:
  "fl_pos (q\<lparr>fl_currpos := c\<rparr>) = nat c" "fl_pos (q\<lparr>fl_fd := d\<rparr>) = fl_pos q"
  "fl_pos (q\<lparr>fl_cnt := n\<rparr>) = fl_pos q" "fl_pos (q\<lparr>fl_pnow := n\<rparr>) = fl_pos q"
  "fl_pos (q\<lparr>fl_pbegin := n\<rparr>) = fl_pos q" "fl_pos (q\<lparr>fl_pbuf := b\<rparr>) = fl_pos q"
  by (simp_all add: fl_pos_def)

lemma pending_upd [simp]:
  "pending (q\<lparr>fl_currpos := c\<rparr>) = pending q" "pending (q\<lparr>fl_fd := d\<rparr>) = pending q"
  "pending (q\<lparr>fl_cnt := n\<rparr>) = pending q" "pending (q\<lparr>fl_pnow := k, fl_pbegin := k\<rparr>) = []"
  "pending (q\<lparr>fl_pbegin := k, fl_pnow := k\<rparr>) = []"
  by (simp_all add: pending_def)

definition wr_stream :: "(nat \<Rightarrow> nat) \<Rightarrow> wr \<Rightarrow> nat \<Rightarrow> bytes" where
  "wr_stream st s p =
     (if p < NPARTS
      then seg (wr_file s) (st p) (fl_pos (wr_parts s p) - st p) @ pending (wr_parts s p) else [])"

text \<open>
  The state of a part whose region of the file is \<open>[st, st + rm)\<close>: the descriptor stands
  at \<open>currpos\<close>, within the region; the buffer has room for \<open>cnt\<close> bytes at
  \<open>pnow\<close>, and what is pending fits in the rest of the region.
\<close>

definition part_ok :: "nat \<Rightarrow> nat \<Rightarrow> nat \<Rightarrow> fil \<Rightarrow> bool" where
  "part_ok len st rm q \<longleftrightarrow>
     fl_cnt q + fl_pnow q \<le> WBUFSIZ \<and> fl_pbegin q \<le> fl_pnow q \<and> length (fl_pbuf q) = WBUFSIZ \<and>
     fl_currpos q = int (fl_pos q) \<and> fl_fd q = Some (int (fl_pos q)) \<and>
     st \<le> fl_pos q \<and> (fl_pos q \<le> len \<or> fl_pos q = st) \<and>
     fl_pos q + (fl_pnow q - fl_pbegin q) \<le> st + rm"

definition disjoint_regions :: "(nat \<Rightarrow> nat) \<Rightarrow> (nat \<Rightarrow> nat) \<Rightarrow> bool" where
  "disjoint_regions st rm \<longleftrightarrow>
     (\<forall>p < NPARTS. \<forall>q < NPARTS. p \<noteq> q \<longrightarrow> st p + rm p \<le> st q \<or> st q + rm q \<le> st p)"

text \<open>All regions lie in the first \<open>L\<close> bytes of the file, and so does what has been written.\<close>

definition wr_inv :: "nat \<Rightarrow> (nat \<Rightarrow> nat) \<Rightarrow> (nat \<Rightarrow> nat) \<Rightarrow> wr \<Rightarrow> bool" where
  "wr_inv L st rm s \<longleftrightarrow>
     (\<forall>p < NPARTS. part_ok (length (wr_file s)) (st p) (rm p) (wr_parts s p)) \<and>
     (\<forall>p < NPARTS. st p + rm p \<le> L) \<and> L \<le> wr_limit s \<and> wr_limit s < 2 ^ 31 \<and>
     length (wr_file s) \<le> L \<and>
     wr_sectionnr s < MAXSECT \<and> length (wr_offset s) = MAXSECT"

lemma length_pending: "part_ok len st rm q \<Longrightarrow> length (pending q) = fl_pnow q - fl_pbegin q"
  by (auto simp: part_ok_def pending_def seg_simps)

lemma part_ok_longer: "part_ok len st rm q \<Longrightarrow> len \<le> len' \<Longrightarrow> part_ok len' st rm q"
  by (auto simp: part_ok_def)

text \<open>The variables that only the operations on sections and the limits touch.\<close>

definition wr_frame :: "wr \<Rightarrow> wr \<Rightarrow> bool" where
  "wr_frame s t \<longleftrightarrow> wr_limit t = wr_limit s \<and> wr_sectionnr t = wr_sectionnr s \<and>
     wr_offcnt t = wr_offcnt s \<and>
     (\<forall>j. j \<noteq> wr_sectionnr s \<longrightarrow> wr_offset t ! j = wr_offset s ! j)"

lemma wr_frame_refl: "wr_frame s s"
  by (simp add: wr_frame_def)

lemma wr_frame_trans: "wr_frame s t \<Longrightarrow> wr_frame t u \<Longrightarrow> wr_frame s u"
  by (simp add: wr_frame_def)

text \<open>Writing \<open>bs\<close> through the descriptor of a part and advancing \<open>currpos\<close>.\<close>

lemma part_write_ok:
  assumes inv: "wr_inv L st rm s" and p: "p < NPARTS"
    and room: "fl_pos (wr_parts s p) + length bs \<le> st p + rm p"
  shows "\<exists>s'. bindE (part_bytes p bs s) (advance p (length bs)) = Inr s' \<and> wr_frame s s' \<and>
    wr_file s' = put_at (wr_file s) (fl_pos (wr_parts s p)) bs \<and>
    wr_parts s' = (wr_parts s)(p := (wr_parts s p)
      \<lparr>fl_fd := Some (int (fl_pos (wr_parts s p) + length bs)),
       fl_currpos := int (fl_pos (wr_parts s p) + length bs)\<rparr>) \<and>
    length (wr_offset s') = MAXSECT"
proof -
  define k where "k = fl_pos (wr_parts s p)"
  have q: "fl_currpos (wr_parts s p) = int k" "fl_fd (wr_parts s p) = Some (int k)"
    and lim: "k + length bs \<le> wr_limit s" "wr_limit s < 2 ^ 31"
    and sn: "wr_sectionnr s < MAXSECT" "length (wr_offset s) = MAXSECT"
    using inv p room unfolding wr_inv_def part_ok_def k_def by (meson le_trans)+
  have "part_bytes p bs s = Inr (upd_part p (\<lambda>q. q\<lparr>fl_fd := Some (int (k + length bs))\<rparr>)
      (s\<lparr>wr_file := put_at (wr_file s) k bs\<rparr>))"
    using lim wr_bytes_ok [of bs k "wr_limit s" "wr_file s"] by (simp add: part_bytes_def q)
  moreover have "int (k + length bs) < int (2 ^ 31)"
    using lim by (simp only: of_nat_less_iff)
  then have "long (int k + int (length bs)) = int (k + length bs)" by simp
  ultimately show ?thesis
    using q sn by (simp add: advance_def upd_part_def Let_def set_offset_def wr_frame_def k_def)
qed

lemma seg_put_at_region:
  assumes "disjoint_regions st rm" "p < NPARTS" "q < NPARTS" "q \<noteq> p"
    and "st p \<le> k" "k + length bs \<le> st p + rm p" "part_ok (length f) (st q) (rm q) Q"
  shows "seg (put_at f k bs) (st q) (fl_pos Q - st q) = seg f (st q) (fl_pos Q - st q)"
proof -
  consider "st p + rm p \<le> st q" | "st q + rm q \<le> st p"
    using assms(1-4) by (metis disjoint_regions_def)
  then show ?thesis
  proof cases
    case 1
    with assms(6) show ?thesis by (simp add: seg_put_at_after)
  next
    case 2
    with assms(5,7) show ?thesis
      by (intro seg_put_at_before) (auto simp: part_ok_def)
  qed
qed

text \<open>
  A step that writes within the region of part \<open>p\<close> and changes only the struct of that
  part changes no other stream.
\<close>

lemma part_step:
  assumes inv: "wr_inv L st rm s" "disjoint_regions st rm" "p < NPARTS"
    and bs: "fl_pos (wr_parts s p) + length bs \<le> st p + rm p"
    and s': "wr_file s' = put_at (wr_file s) (fl_pos (wr_parts s p)) bs"
      "wr_parts s' = (wr_parts s)(p := q)" "wr_frame s s'" "length (wr_offset s') = MAXSECT"
    and q: "part_ok (length (wr_file s')) (st p) (rm p) q"
    and w: "seg (wr_file s') (st p) (fl_pos q - st p) @ pending q = w"
  shows "wr_inv L st rm s'" "wr_stream st s' = (wr_stream st s)(p := w)"
proof -
  have ok: "part_ok (length (wr_file s)) (st r) (rm r) (wr_parts s r)" if "r < NPARTS" for r
    using inv(1) that by (simp add: wr_inv_def)
  have len: "length (wr_file s) \<le> length (wr_file s')"
    by (simp add: s'(1) length_put_at)
  have "length (wr_file s) \<le> L" "st p + rm p \<le> L"
    using inv by (simp_all add: wr_inv_def)
  then have "length (wr_file s') \<le> L"
    using bs by (auto simp: s'(1) length_put_at)
  with len show "wr_inv L st rm s'"
    using inv(1) q s' part_ok_longer by (auto simp: wr_inv_def wr_frame_def)
  show "wr_stream st s' = (wr_stream st s)(p := w)"
  proof
    fix r
    show "wr_stream st s' r = ((wr_stream st s)(p := w)) r"
    proof (cases "r = p")
      case True
      then show ?thesis using w inv(3) by (simp add: wr_stream_def s'(2))
    next
      case False
      show ?thesis
      proof (cases "r < NPARTS")
        case True
        have "st p \<le> fl_pos (wr_parts s p)" using ok [OF inv(3)] by (simp add: part_ok_def)
        from seg_put_at_region [OF inv(2,3) True False this bs ok [OF True]] False
        show ?thesis by (simp add: wr_stream_def s'(1,2))
      next
        case out: False
        then show ?thesis using inv(3) by (auto simp: wr_stream_def)
      qed
    qed
  qed
qed

lemma wr_stream_upd [simp]:
  "wr_stream st (s\<lparr>wr_offset := x\<rparr>) = wr_stream st s" "wr_stream st (s\<lparr>wr_offcnt := n\<rparr>) = wr_stream st s"
  "wr_stream st (s\<lparr>wr_sectionnr := n\<rparr>) = wr_stream st s"
  by (simp_all add: wr_stream_def fun_eq_iff)

lemma wr_inv_part:
  "wr_inv L st rm s \<Longrightarrow> p < NPARTS \<Longrightarrow> part_ok (length (wr_file s)) (st p) (rm p) (wr_parts s p)"
  by (simp add: wr_inv_def)

lemma wr_stream_eq:
  "p < NPARTS \<Longrightarrow> wr_stream st s p =
    seg (wr_file s) (st p) (fl_pos (wr_parts s p) - st p) @ pending (wr_parts s p)"
  by (simp add: wr_stream_def)

lemma wr_stream_length:
  assumes "wr_inv L st rm s" "p < NPARTS"
  shows "length (wr_stream st s p) = fl_pos (wr_parts s p) - st p
    + (fl_pnow (wr_parts s p) - fl_pbegin (wr_parts s p))"
  using wr_inv_part [OF assms] assms(2) length_pending [OF wr_inv_part [OF assms]]
  by (auto simp: wr_stream_def length_seg part_ok_def)

text \<open>The three ways a part is written: flushing, writing through, and storing in the buffer.\<close>

lemma wr_flush_ok:
  assumes inv: "wr_inv L st rm s" "disjoint_regions st rm" "p < NPARTS"
  shows "\<exists>s'. wr_flush p s = Inr s' \<and> wr_frame s s' \<and> wr_inv L st rm s' \<and>
    wr_stream st s' = wr_stream st s \<and>
    fl_cnt (wr_parts s' p) = WBUFSIZ \<and> fl_pnow (wr_parts s' p) = 0 \<and> fl_pbegin (wr_parts s' p) = 0"
proof -
  let ?q = "wr_parts s p" and ?b = "pending (wr_parts s p)"
  let ?k = "fl_pos (wr_parts s p)"
  note ok = wr_inv_part [OF inv(1,3)]
  have len: "length ?b = fl_pnow ?q - fl_pbegin ?q"
    using ok by (rule length_pending)
  have room: "?k + length ?b \<le> st p + rm p"
    unfolding len using ok unfolding part_ok_def by blast
  let ?r = "?q\<lparr>fl_fd := Some (int (?k + length ?b)), fl_currpos := int (?k + length ?b)\<rparr>"
  have "\<exists>t. (if fl_pnow ?q > fl_pbegin ?q
        then bindE (part_bytes p ?b s) (advance p (fl_pnow ?q - fl_pbegin ?q)) else Inr s) = Inr t \<and>
      wr_frame s t \<and> wr_file t = put_at (wr_file s) ?k ?b \<and> wr_parts t = (wr_parts s)(p := ?r) \<and>
      length (wr_offset t) = MAXSECT"
  proof (cases "fl_pnow ?q > fl_pbegin ?q")
    case True
    with part_write_ok [OF inv(1,3) room] show ?thesis
      unfolding len [symmetric] by auto
  next
    case False
    then have "?b = []" using len by simp
    moreover from this have "?r = ?q" using ok by (simp add: part_ok_def)
    ultimately show ?thesis using False inv(1) by (simp add: wr_frame_refl wr_inv_def)
  qed
  then obtain t where t: "(if fl_pnow ?q > fl_pbegin ?q
        then bindE (part_bytes p ?b s) (advance p (fl_pnow ?q - fl_pbegin ?q)) else Inr s) = Inr t"
      "wr_frame s t" "wr_file t = put_at (wr_file s) ?k ?b" "wr_parts t = (wr_parts s)(p := ?r)"
      "length (wr_offset t) = MAXSECT"
    by blast
  let ?u = "?r\<lparr>fl_cnt := WBUFSIZ, fl_pnow := 0, fl_pbegin := 0\<rparr>"
  define u where "u = upd_part p (\<lambda>q. q\<lparr>fl_cnt := WBUFSIZ, fl_pnow := 0, fl_pbegin := 0\<rparr>) t"
  have run: "wr_flush p s = Inr u"
    using t(1) by (simp add: wr_flush_def Let_def u_def)
  have u: "wr_file u = put_at (wr_file s) ?k ?b" "wr_parts u = (wr_parts s)(p := ?u)" "wr_frame s u"
    "length (wr_offset u) = MAXSECT"
    using t by (simp_all add: u_def upd_part_def wr_frame_def)
  have pos: "fl_pos ?u = ?k + length ?b" "pending ?u = []"
    by (simp_all add: pending_def nat_add_distrib)
  have le: "st p \<le> ?k" "?k \<le> length (wr_file s) \<or> ?k = st p"
    using ok by (simp_all add: part_ok_def)
  have "part_ok (length (wr_file u)) (st p) (rm p) ?u"
    using ok room le by (auto simp: part_ok_def pos u(1) length_put_at)
  moreover have "seg (wr_file u) (st p) (fl_pos ?u - st p) @ pending ?u = wr_stream st s p"
    using seg_put_at_append [OF le, of ?b] le(1) inv(3) by (simp add: pos u(1) wr_stream_eq)
  ultimately show ?thesis
    using part_step [OF inv room u(1,2,3,4)] run u(2,3) by auto
qed

lemma wr_through_ok:
  assumes inv: "wr_inv L st rm s" "disjoint_regions st rm" "p < NPARTS"
    and empty: "fl_pnow (wr_parts s p) = fl_pbegin (wr_parts s p)"
    and room: "length (wr_stream st s p) + length b \<le> rm p"
  shows "\<exists>s'. bindE (part_bytes p b s) (advance p (length b)) = Inr s' \<and> wr_frame s s' \<and>
    wr_inv L st rm s' \<and> wr_stream st s' = (wr_stream st s)(p := wr_stream st s p @ b) \<and>
    fl_cnt (wr_parts s' p) = fl_cnt (wr_parts s p) \<and>
    fl_pnow (wr_parts s' p) = fl_pnow (wr_parts s p) \<and>
    fl_pbegin (wr_parts s' p) = fl_pbegin (wr_parts s p)"
proof -
  let ?q = "wr_parts s p"
  let ?k = "fl_pos (wr_parts s p)"
  note ok = wr_inv_part [OF inv(1,3)]
  have le: "st p \<le> ?k" "?k \<le> length (wr_file s) \<or> ?k = st p"
    using ok by (simp_all add: part_ok_def)
  have room': "?k + length b \<le> st p + rm p"
    using room le(1) by (simp add: wr_stream_length [OF inv(1,3)] empty)
  let ?r = "?q\<lparr>fl_fd := Some (int (?k + length b)), fl_currpos := int (?k + length b)\<rparr>"
  from part_write_ok [OF inv(1,3) room'] obtain u where
    run: "bindE (part_bytes p b s) (advance p (length b)) = Inr u" and
    u: "wr_file u = put_at (wr_file s) ?k b" "wr_parts u = (wr_parts s)(p := ?r)" "wr_frame s u"
      "length (wr_offset u) = MAXSECT"
    by blast
  have pos: "fl_pos ?r = ?k + length b" "pending ?r = []" "pending ?q = []"
    by (simp_all add: pending_def empty nat_add_distrib)
  have "part_ok (length (wr_file u)) (st p) (rm p) ?r"
    using ok room' le by (auto simp: part_ok_def pos u(1) length_put_at empty)
  moreover have "seg (wr_file u) (st p) (fl_pos ?r - st p) @ pending ?r = wr_stream st s p @ b"
    using seg_put_at_append [OF le, of b] le(1) inv(3) by (simp add: pos u(1) wr_stream_eq)
  ultimately show ?thesis
    using part_step [OF inv room' u(1,2,3,4)] run u(2,3) by auto
qed

lemma wr_store_ok:
  assumes inv: "wr_inv L st rm s" "disjoint_regions st rm" "p < NPARTS"
    and cnt: "length b \<le> fl_cnt (wr_parts s p)"
    and room: "length (wr_stream st s p) + length b \<le> rm p"
  shows "wr_frame s (wr_store p b s) \<and> wr_inv L st rm (wr_store p b s) \<and>
    wr_stream st (wr_store p b s) = (wr_stream st s)(p := wr_stream st s p @ b) \<and>
    fl_cnt (wr_parts (wr_store p b s) p) = fl_cnt (wr_parts s p) - length b"
proof -
  let ?q = "wr_parts s p"
  let ?r = "?q\<lparr>fl_cnt := fl_cnt ?q - length b, fl_pbuf := blit (fl_pbuf ?q) (fl_pnow ?q) b,
    fl_pnow := fl_pnow ?q + length b\<rparr>"
  define u where "u = wr_store p b s"
  note ok = wr_inv_part [OF inv(1,3)]
  have u: "wr_file u = put_at (wr_file s) (fl_pos ?q) []" "wr_parts u = (wr_parts s)(p := ?r)"
    "wr_frame s u" "length (wr_offset u) = MAXSECT"
    using inv(1) by (simp_all add: u_def wr_store_def upd_part_def wr_frame_def wr_inv_def)
  have pos: "fl_pos ?r = fl_pos ?q" by simp
  have fit: "fl_pbegin ?q \<le> fl_pnow ?q" "fl_pnow ?q + length b \<le> length (fl_pbuf ?q)"
    using ok cnt by (simp_all add: part_ok_def)
  have pend: "pending ?r = pending ?q @ b"
    using seg_blit_append [OF fit] by (simp add: pending_def)
  have le: "st p \<le> fl_pos ?q" using ok by (simp add: part_ok_def)
  have old: "fl_pos ?q + length ([] :: bytes) \<le> st p + rm p"
    using ok by (simp add: part_ok_def)
  have "part_ok (length (wr_file u)) (st p) (rm p) ?r"
    using ok cnt room le fit
    by (auto simp: part_ok_def pos u(1) length_blit wr_stream_length [OF inv(1,3)])
  moreover have "seg (wr_file u) (st p) (fl_pos ?r - st p) @ pending ?r = wr_stream st s p @ b"
    using inv(3) by (simp add: pos pend u(1) wr_stream_eq)
  ultimately show ?thesis
    using part_step [OF inv old u(1,2,3,4)] u(2,3) by (auto simp flip: u_def)
qed

text \<open>The outcome of a call that appends \<open>b\<close> to the stream of part \<open>p\<close>.\<close>

definition wr_result ::
    "nat \<Rightarrow> (nat \<Rightarrow> nat) \<Rightarrow> (nat \<Rightarrow> nat) \<Rightarrow> nat \<Rightarrow> bytes \<Rightarrow> wr \<Rightarrow> wr \<Rightarrow> bool" where
  "wr_result L st rm p b s s' \<longleftrightarrow> wr_frame s s' \<and> wr_inv L st rm s' \<and>
     wr_stream st s' = (wr_stream st s)(p := wr_stream st s p @ b)"

lemma wr_result_refl: "wr_inv L st rm s \<Longrightarrow> wr_result L st rm p [] s s"
  by (simp add: wr_result_def wr_frame_refl)

lemma wr_result_trans:
  "wr_result L st rm p b s t \<Longrightarrow> wr_result L st rm p c t u \<Longrightarrow> wr_result L st rm p (b @ c) s u"
  using wr_frame_trans by (auto simp: wr_result_def)

lemma wr_resultD:
  assumes "wr_result L st rm p b s t"
  shows "wr_frame s t" "wr_inv L st rm t" "wr_stream st t = (wr_stream st s)(p := wr_stream st s p @ b)"
    "length (wr_stream st t p) = length (wr_stream st s p) + length b"
  using assms by (simp_all add: wr_result_def)

lemma wr_flush_result:
  assumes inv: "wr_inv L st rm s" "disjoint_regions st rm" "p < NPARTS"
  shows "\<exists>s'. wr_flush p s = Inr s' \<and> wr_result L st rm p [] s s' \<and>
    fl_cnt (wr_parts s' p) = WBUFSIZ \<and> fl_pnow (wr_parts s' p) = fl_pbegin (wr_parts s' p)"
  using wr_flush_ok [OF assms] by (auto simp: wr_result_def)

lemma wr_through_result:
  assumes "wr_inv L st rm s" "disjoint_regions st rm" "p < NPARTS"
    "fl_pnow (wr_parts s p) = fl_pbegin (wr_parts s p)" "n = length b"
    "length (wr_stream st s p) + n \<le> rm p"
  shows "\<exists>s'. bindE (part_bytes p b s) (\<lambda>s. bindE (advance p n s) (\<lambda>s. Inr (r, s))) = Inr (r, s') \<and>
    wr_result L st rm p b s s' \<and> fl_cnt (wr_parts s' p) = fl_cnt (wr_parts s p) \<and>
    fl_pnow (wr_parts s' p) = fl_pbegin (wr_parts s' p)"
proof -
  obtain s' where s': "bindE (part_bytes p b s) (advance p (length b)) = Inr s'"
    "wr_result L st rm p b s s'" "fl_cnt (wr_parts s' p) = fl_cnt (wr_parts s p)"
    "fl_pnow (wr_parts s' p) = fl_pbegin (wr_parts s' p)"
    using wr_through_ok [OF assms(1-4)] assms(4-6) unfolding wr_result_def by metis
  from s'(1) obtain t where "part_bytes p b s = Inr t" "advance p n t = Inr s'"
    using assms(5) by (auto simp: bindE_Inr_iff)
  with s'(2-4) show ?thesis by simp
qed

lemma OUTWRITE_rest_ok:
  assumes inv: "wr_inv L st rm s" "disjoint_regions st rm" "p < NPARTS"
    and room: "length (wr_stream st s p) + length b \<le> rm p"
    and cnt: "b = [] \<or> fl_cnt (wr_parts s p) = WBUFSIZ"
  shows "\<exists>s'. OUTWRITE_rest p b s = Inr s' \<and> wr_result L st rm p b s s'"
proof (cases "fl_cnt (wr_parts s p) = 0 \<or> fl_cnt (wr_parts s p) = WBUFSIZ")
  case False
  with cnt wr_result_refl [OF inv(1)] show ?thesis by (auto simp: OUTWRITE_rest_def)
next
  case True
  define m where "m = length b - length b mod WBUFSIZ"
  have m: "m \<le> length b" "length (drop m b) < WBUFSIZ"
    by (simp_all add: m_def WBUFSIZ_def)
  obtain t where t: "wr_flush p s = Inr t" "wr_result L st rm p [] s t"
    "fl_cnt (wr_parts t p) = WBUFSIZ" "fl_pnow (wr_parts t p) = fl_pbegin (wr_parts t p)"
    using wr_flush_result [OF inv] by blast
  note tD = wr_resultD [OF t(2)]
  have "length (wr_stream st t p) + m \<le> rm p" "m = length (take m b)"
    using tD(4) room m(1) by simp_all
  then obtain u where u: "OUTWRITE_blocks p b t = Inr (drop m b, u)"
    "wr_result L st rm p (take m b) t u" "fl_cnt (wr_parts u p) = WBUFSIZ"
    using wr_through_result [OF tD(2) inv(2,3) t(4)] wr_result_refl [OF tD(2)] t(3)
    unfolding OUTWRITE_blocks_def Let_def m_def [symmetric] by (cases "m = 0") fastforce+
  note uD = wr_resultD [OF u(2)]
  define v where "v = (if drop m b \<noteq> [] then wr_store p (drop m b) u else u)"
  have "wr_result L st rm p (drop m b) u v"
  proof (cases "drop m b = []")
    case True
    then show ?thesis using wr_result_refl [OF uD(2)] by (simp add: v_def)
  next
    case False
    have "length (wr_stream st u p) + length (drop m b) \<le> rm p"
      using uD(4) tD(4) room m(1) by simp
    with wr_store_ok [OF uD(2) inv(2,3), of "drop m b"] m(2) u(3) False show ?thesis
      by (simp add: v_def wr_result_def)
  qed
  from wr_result_trans [OF t(2) wr_result_trans [OF u(2) this]]
  have "wr_result L st rm p b s v" by simp
  then show ?thesis
    using True t(1) u(1) by (simp add: OUTWRITE_rest_def v_def)
qed

lemma OUTWRITE_fill_ok:
  assumes inv: "wr_inv L st rm s" "disjoint_regions st rm" "p < NPARTS"
    and room: "length (wr_stream st s p) + length b \<le> rm p"
  shows "\<exists>c r t. OUTWRITE_fill p b s = Inr (r, t) \<and> wr_result L st rm p c s t \<and> c @ r = b \<and>
      (r = [] \<or> fl_cnt (wr_parts t p) = WBUFSIZ)"
proof -
  let ?i = "fl_cnt (wr_parts s p)"
  have le: "?i \<le> WBUFSIZ"
    using wr_inv_part [OF inv(1,3)] by (simp add: part_ok_def)
  consider "?i = WBUFSIZ" | "?i < WBUFSIZ" "length b \<le> ?i" | "?i < WBUFSIZ" "length b > ?i"
    using le by linarith
  then show ?thesis
  proof cases
    case 1
    then show ?thesis using wr_result_refl [OF inv(1)] by (auto simp: OUTWRITE_fill_def)
  next
    case 2
    with wr_store_ok [OF inv 2(2) room] show ?thesis by (auto simp: OUTWRITE_fill_def wr_result_def)
  next
    case 3
    obtain t where t: "wr_flush p s = Inr t" "wr_result L st rm p [] s t"
      "fl_cnt (wr_parts t p) = WBUFSIZ" "fl_pnow (wr_parts t p) = fl_pbegin (wr_parts t p)"
      using wr_flush_result [OF inv] by blast
    note tD = wr_resultD [OF t(2)]
    have "?i = length (take ?i b)" "length (wr_stream st t p) + ?i \<le> rm p"
      using 3 tD(4) room by simp_all
    from wr_through_result [OF tD(2) inv(2,3) t(4) this, of "drop ?i b"] t(3)
    obtain u where u: "bindE (part_bytes p (take ?i b) t)
        (\<lambda>s. bindE (advance p ?i s) (\<lambda>s. Inr (drop ?i b, s))) = Inr (drop ?i b, u)"
      "wr_result L st rm p (take ?i b) t u" "fl_cnt (wr_parts u p) = WBUFSIZ"
      by auto
    have "OUTWRITE_fill p b s = Inr (drop ?i b, u)"
      using 3 t(1) u(1) by (simp add: OUTWRITE_fill_def Let_def)
    with wr_result_trans [OF t(2) u(2)] u(3) show ?thesis by force
  qed
qed

lemma OUTWRITE_ok:
  assumes inv: "wr_inv L st rm s" "disjoint_regions st rm" "p < NPARTS"
    and room: "length (wr_stream st s p) + length b \<le> rm p"
  shows "\<exists>s'. OUTWRITE p b s = Inr s' \<and> wr_result L st rm p b s s'"
proof -
  obtain c r t where t: "OUTWRITE_fill p b s = Inr (r, t)" "wr_result L st rm p c s t" "c @ r = b"
    "r = [] \<or> fl_cnt (wr_parts t p) = WBUFSIZ"
    using OUTWRITE_fill_ok [OF assms] by blast
  note tD = wr_resultD [OF t(2)]
  have "length (wr_stream st t p) + length r \<le> rm p"
    using tD(4) room t(3) by auto
  from OUTWRITE_rest_ok [OF tD(2) inv(2,3) this t(4)] obtain u where
    u: "OUTWRITE_rest p r t = Inr u" "wr_result L st rm p r t u"
    by blast
  from wr_result_trans [OF t(2) u(2)] t(1,3) u(1) show ?thesis by (auto simp: OUTWRITE_def)
qed

section \<open>Parts as independent writers\<close>

text \<open>
  What the clients of \<open>wr.c\<close> rely on: data given to a part is appended to the stream of
  that part and to no other, as long as it fits in the part's region.
\<close>

fun write_all ::
    "(nat \<Rightarrow> bytes \<Rightarrow> 's \<Rightarrow> 'e + 's) \<Rightarrow> (nat \<times> bytes) list \<Rightarrow> 's \<Rightarrow> 'e + 's" where
  "write_all put [] s = Inr s"
| "write_all put ((p, b) # ops) s = bindE (put p b s) (write_all put ops)"

definition to_part :: "(nat \<times> bytes) list \<Rightarrow> nat \<Rightarrow> bytes" where
  "to_part ops p = concat (map snd (filter (\<lambda>(q, b). q = p) ops))"

lemma to_part_simps [simp]:
  "to_part [] p = []"
  "to_part ((q, b) # ops) p = (if q = p then b else []) @ to_part ops p"
  by (simp_all add: to_part_def)

locale part_writer =
  fixes put :: "nat \<Rightarrow> bytes \<Rightarrow> 's \<Rightarrow> 'e + 's"
    and stream :: "'s \<Rightarrow> nat \<Rightarrow> bytes"
    and inv :: "'s \<Rightarrow> bool"
    and room :: "nat \<Rightarrow> nat"
    and nparts :: nat
  assumes write_ok: "inv s \<Longrightarrow> p < nparts \<Longrightarrow> length (stream s p) + length b \<le> room p \<Longrightarrow>
    \<exists>s'. put p b s = Inr s' \<and> inv s' \<and> stream s' = (stream s)(p := stream s p @ b)"
begin

text \<open>Any sequence of writes: each stream gets its data in the order of the writes.\<close>

lemma write_all_ok:
  assumes "inv s" "\<forall>(p, b) \<in> set ops. p < nparts"
    "\<forall>p < nparts. length (stream s p) + length (to_part ops p) \<le> room p"
  shows "\<exists>s'. write_all put ops s = Inr s' \<and> inv s' \<and>
    stream s' = (\<lambda>p. stream s p @ to_part ops p)"
  using assms
proof (induction ops arbitrary: s)
  case Nil
  then show ?case by simp
next
  case (Cons op ops)
  obtain p b where op: "op = (p, b)" by (cases op)
  then have p: "p < nparts" using Cons.prems(2) by simp
  have "length (stream s p) + length b \<le> room p"
    using Cons.prems(3) p op by fastforce
  from write_ok [OF Cons.prems(1) p this] obtain t where
    t: "put p b s = Inr t" "inv t" "stream t = (stream s)(p := stream s p @ b)"
    by blast
  have "\<forall>r < nparts. length (stream t r) + length (to_part ops r) \<le> room r"
    using Cons.prems(3) op t(3) by (auto simp: add.assoc)
  with Cons.IH [OF t(2)] Cons.prems(2) obtain u where
    u: "write_all put ops t = Inr u" "inv u" "stream u = (\<lambda>p. stream t p @ to_part ops p)"
    by auto
  have "stream u = (\<lambda>r. stream s r @ to_part (op # ops) r)"
    by (auto simp: u(3) t(3) op)
  with t(1) u(1,2) show ?case by (simp add: op)
qed

text \<open>Only the order within each part matters, not the interleaving of the parts.\<close>

lemma write_all_interleaving:
  assumes "inv s" "\<forall>(p, b) \<in> set ops. p < nparts" "\<forall>(p, b) \<in> set ops'. p < nparts"
    "\<forall>p < nparts. length (stream s p) + length (to_part ops p) \<le> room p"
    "to_part ops = to_part ops'"
  shows "\<exists>s' s''. write_all put ops s = Inr s' \<and> write_all put ops' s = Inr s'' \<and>
    stream s' = stream s''"
  using write_all_ok [OF assms(1,2,4)] write_all_ok [OF assms(1,3)] assms(4,5) by auto

end

interpretation wrp: part_writer OUTWRITE "wr_stream st"
    "\<lambda>s. wr_inv L st rm s \<and> disjoint_regions st rm" rm NPARTS for L st rm
  by unfold_locales (use OUTWRITE_ok in \<open>fastforce simp: wr_result_def\<close>)

section \<open>The operations on streams\<close>

lemma wr_table_ok:
  assumes "wr_inv L st rm s" "disjoint_regions st rm" "p < NPARTS"
    "0 < sz" "sz \<le> WBUFSIZ" "\<forall>x. length (enc x) = sz"
    "length (wr_stream st s p) + length xs * sz \<le> rm p"
  shows "\<exists>s'. wr_table p sz enc xs s = Inr s' \<and> wr_result L st rm p (enc_array enc xs) s s'"
  using assms
proof (induction p sz enc xs s rule: wr_table.induct)
  case (1 p sz enc xs s)
  note inv = "1.prems"(1-3) and enc = "1.prems"(6)
  show ?case
  proof (cases "xs = []")
    case True
    then show ?thesis using wr_result_refl [OF inv(1)] by (simp add: wr_table.simps)
  next
    case False
    have fits: "WBUFSIZ div sz \<noteq> 0"
      using "1.prems"(4,5) by (simp add: div_eq_0_iff)
    define i where "i = min (fl_cnt (wr_parts s p) div sz) (length xs)"
    define t where "t = wr_store p (enc_array enc (take i xs)) s"
    define rest where "rest = drop i xs"
    have step: "wr_table p sz enc xs s =
        (if rest \<noteq> [] then bindE (wr_flush p t) (wr_table p sz enc rest) else Inr t)"
      unfolding i_def t_def rest_def by (subst wr_table.simps) (simp only: Let_def False fits if_False)
    have len: "length (enc_array enc ys) = length ys * sz" for ys
      using enc by (induction ys) simp_all
    have "i * sz \<le> fl_cnt (wr_parts s p) div sz * sz"
      by (simp add: i_def)
    then have i: "i * sz \<le> fl_cnt (wr_parts s p)" "i \<le> length xs"
      using div_times_less_eq_dividend [of "fl_cnt (wr_parts s p)" sz] by (linarith, simp add: i_def)
    have total: "length xs * sz = i * sz + length rest * sz"
      using i(2) by (simp add: rest_def flip: add_mult_distrib)
    have t: "wr_result L st rm p (enc_array enc (take i xs)) s t"
      using wr_store_ok [OF inv, of "enc_array enc (take i xs)"] i "1.prems"(7) total
      by (simp add: len t_def wr_result_def)
    have enc_xs: "enc_array enc xs = enc_array enc (take i xs) @ enc_array enc rest"
      by (metis append_take_drop_id enc_array_simps(3) rest_def)
    show ?thesis
    proof (cases "rest = []")
      case True
      with t enc_xs show ?thesis by (simp add: step)
    next
      case more: False
      obtain u where u: "wr_flush p t = Inr u" "wr_result L st rm p [] t u"
        using wr_flush_result [OF wr_resultD(2) [OF t] inv(2,3)] by blast
      have su: "length (wr_stream st u p) + length rest * sz \<le> rm p"
        using wr_resultD(4) [OF u(2)] wr_resultD(4) [OF t] "1.prems"(7) total i(2) by (simp add: len)
      obtain v where v: "wr_table p sz enc rest u = Inr v"
        "wr_result L st rm p (enc_array enc rest) u v"
        using "1.IH" [OF False fits i_def t_def rest_def more u(1) wr_resultD(2) [OF u(2)]
            inv(2,3) "1.prems"(4,5) enc su] by blast
      have "wr_table p sz enc xs s = Inr v"
        using more u(1) v(1) by (simp add: step)
      with wr_result_trans [OF t wr_result_trans [OF u(2) v(2)]] enc_xs show ?thesis by simp
    qed
  qed
qed

text \<open>\<open>BEGINSEEK\<close> gives a part its region.\<close>

lemma wr_BEGINSEEK_ok:
  assumes "wr_inv L st rm s" "p < NPARTS" "a + r \<le> L"
  shows "wr_inv L (st(p := a)) (rm(p := r)) (wr_BEGINSEEK p (int a) s)"
    and "wr_stream (st(p := a)) (wr_BEGINSEEK p (int a) s) = (wr_stream st s)(p := [])"
    and "wr_frame s (wr_BEGINSEEK p (int a) s)"
    and "wr_parts (wr_BEGINSEEK p (int a) s) p =
      (wr_parts s p)\<lparr>fl_currpos := int a, fl_fd := Some (int a),
        fl_cnt := WBUFSIZ - (if p \<ge> PARTRELO then 0 else a mod WBUFSIZ),
        fl_pbegin := (if p \<ge> PARTRELO then 0 else a mod WBUFSIZ),
        fl_pnow := (if p \<ge> PARTRELO then 0 else a mod WBUFSIZ)\<rparr>"
proof -
  define k where "k = (if p \<ge> PARTRELO then 0 else a mod WBUFSIZ)"
  define q where "q = (wr_parts s p)\<lparr>fl_currpos := int a, fl_fd := Some (int a),
        fl_cnt := WBUFSIZ - k, fl_pbegin := k, fl_pnow := k\<rparr>"
  have k: "k \<le> WBUFSIZ" by (simp add: k_def WBUFSIZ_def)
  obtain d where "fl_fd (wr_parts s p) = Some d"
    using wr_inv_part [OF assms(1,2)] by (simp add: part_ok_def)
  moreover have "(if p \<ge> PARTRELO then 0 else nat (int a mod int WBUFSIZ)) = k"
    by (simp add: k_def flip: zmod_int)
  ultimately have run: "wr_BEGINSEEK p (int a) s = s\<lparr>wr_parts := (wr_parts s)(p := q)\<rparr>"
    by (simp add: wr_BEGINSEEK_def Let_def q_def)
  then show "wr_parts (wr_BEGINSEEK p (int a) s) p =
      (wr_parts s p)\<lparr>fl_currpos := int a, fl_fd := Some (int a),
        fl_cnt := WBUFSIZ - (if p \<ge> PARTRELO then 0 else a mod WBUFSIZ),
        fl_pbegin := (if p \<ge> PARTRELO then 0 else a mod WBUFSIZ),
        fl_pnow := (if p \<ge> PARTRELO then 0 else a mod WBUFSIZ)\<rparr>"
    by (simp add: q_def k_def)
  have "part_ok (length (wr_file s)) a r q"
    using wr_inv_part [OF assms(1,2)] k by (simp add: part_ok_def q_def)
  then show "wr_inv L (st(p := a)) (rm(p := r)) (wr_BEGINSEEK p (int a) s)"
    using assms by (auto simp: run wr_inv_def)
  show "wr_stream (st(p := a)) (wr_BEGINSEEK p (int a) s) = (wr_stream st s)(p := [])"
    by (auto simp: run wr_stream_def q_def pending_def)
  show "wr_frame s (wr_BEGINSEEK p (int a) s)"
    by (simp add: run wr_frame_def)
qed

text \<open>The regions of parts 1 and 2 are assigned when their section's entry is written.\<close>

definition own_part :: "nat \<Rightarrow> bool" where
  "own_part p \<longleftrightarrow> 1 \<le> p \<and> p < SECTCNT"

definition assigned :: "(nat \<Rightarrow> nat) \<Rightarrow> (nat \<Rightarrow> nat) \<Rightarrow> nat \<Rightarrow> nat \<Rightarrow> nat" where
  "assigned f g k p = (if own_part p then if p < k then g p else 0 else f p)"

lemma assigned_Suc:
  "assigned f g (Suc k) = (if own_part k then (assigned f g k)(k := g k) else assigned f g k)"
  by (auto simp: assigned_def own_part_def fun_eq_iff less_Suc_eq)

lemma wr_sect_seek_ok:
  assumes "wr_inv L (assigned st off k) (assigned rm r k) s" "wr_offcnt s = k" "k + length sects \<le> MAXSECT"
    "\<forall>p. own_part p \<longrightarrow> wr_stream (assigned st off k) s p = []"
    "\<forall>j < length sects. sint (os_foff (sects ! j)) = int (off (k + j))"
    "\<forall>p. own_part p \<longrightarrow> k \<le> p \<longrightarrow> p < k + length sects \<longrightarrow> off p + r p \<le> L"
  shows "\<exists>s'. wr_sect_seek sects s = Inr s' \<and>
    wr_inv L (assigned st off (k + length sects)) (assigned rm r (k + length sects)) s' \<and>
    wr_stream (assigned st off (k + length sects)) s' = wr_stream (assigned st off k) s \<and>
    wr_sectionnr s' = wr_sectionnr s \<and>
    (\<forall>j < length sects. wr_offset s' ! (k + j) = int (off (k + j))) \<and>
    (\<forall>j. j < k \<longrightarrow> wr_offset s' ! j = wr_offset s ! j)"
  using assms
proof (induction sects arbitrary: k s)
  case Nil
  then show ?case by simp
next
  case (Cons sect sects)
  note inv = Cons.prems(1) and cnt = Cons.prems(2) and empty = Cons.prems(4)
  have foff: "sint (os_foff sect) = int (off k)"
    using Cons.prems(5) [rule_format, of 0] by simp
  define t where "t = (if own_part k then wr_BEGINSEEK k (int (off k)) s else s)"
  define u where "u = t\<lparr>wr_offset := (wr_offset t)[k := int (off k)], wr_offcnt := Suc k\<rparr>"
  have t: "wr_inv L (assigned st off (Suc k)) (assigned rm r (Suc k)) t \<and>
      wr_stream (assigned st off (Suc k)) t = wr_stream (assigned st off k) s \<and> wr_frame s t \<and>
      wr_offset t = wr_offset s"
  proof (cases "own_part k")
    case True
    then have "k < NPARTS" "off k + r k \<le> L"
      using Cons.prems(6) by (simp_all add: own_part_def PART_defs)
    from wr_BEGINSEEK_ok [OF inv this] True empty
    show ?thesis by (auto simp: assigned_Suc t_def wr_BEGINSEEK_def Let_def split: prod.splits)
  next
    case False
    then show ?thesis using inv by (simp add: assigned_Suc t_def wr_frame_refl)
  qed
  then have tD: "wr_inv L (assigned st off (Suc k)) (assigned rm r (Suc k)) t"
    "wr_stream (assigned st off (Suc k)) t = wr_stream (assigned st off k) s" "wr_frame s t"
    "wr_offset t = wr_offset s"
    by blast+
  have u: "wr_inv L (assigned st off (Suc k)) (assigned rm r (Suc k)) u"
    "wr_stream (assigned st off (Suc k)) u = wr_stream (assigned st off k) s"
    "wr_sectionnr u = wr_sectionnr s" "wr_offcnt u = Suc k"
    "wr_offset u = (wr_offset s)[k := int (off k)]"
    using tD(1,3,4) by (simp_all add: u_def wr_inv_def wr_frame_def tD(2))
  have "k < length (wr_offset s)"
    using inv Cons.prems(3) by (simp add: wr_inv_def)
  have run: "wr_sect_seek (sect # sects) s = wr_sect_seek sects u"
  proof -
    have "(if 1 \<le> wr_offcnt s \<and> wr_offcnt s < SECTCNT
        then wr_BEGINSEEK (PARTEMIT + wr_offcnt s) (sint (os_foff sect)) s else s) = t"
      using cnt foff by (simp add: t_def own_part_def PARTEMIT_def)
    moreover have "wr_offcnt t = k"
      using tD(3) cnt by (simp add: wr_frame_def)
    ultimately show ?thesis
      using Cons.prems(3) foff by (simp add: Let_def u_def)
  qed
  have "\<forall>j < length sects. sint (os_foff (sects ! j)) = int (off (Suc k + j))"
    using Cons.prems(5) by auto
  from Cons.IH [OF u(1,4) _ _ this] Cons.prems(3,6) empty obtain v where
    v: "wr_sect_seek sects u = Inr v"
      "wr_inv L (assigned st off (Suc k + length sects)) (assigned rm r (Suc k + length sects)) v"
      "wr_stream (assigned st off (Suc k + length sects)) v = wr_stream (assigned st off (Suc k)) u"
      "wr_sectionnr v = wr_sectionnr u"
      "\<forall>j < length sects. wr_offset v ! (Suc k + j) = int (off (Suc k + j))"
      "\<forall>j. j < Suc k \<longrightarrow> wr_offset v ! j = wr_offset u ! j"
    by (auto simp: u(2))
  have "wr_offset v ! (k + j) = int (off (k + j))" if "j < length (sect # sects)" for j
    using v(5,6) u(5) that \<open>k < length (wr_offset s)\<close> by (cases j) auto
  moreover have "wr_offset v ! j = wr_offset s ! j" if "j < k" for j
    using v(6) u(5) that by simp
  ultimately show ?case
    using v u run by (intro exI [of _ v]) simp
qed

text \<open>
  Selecting the next section. Sections from \<open>SECTCNT - 1\<close> on share a part: its stream goes
  on without a gap when the section's data begin where the data so far end.
\<close>

lemma wr_outsect_ok:
  assumes inv: "wr_inv L st rm s" "disjoint_regions st rm" and sno: "sno < MAXSECT"
    and seq: "sno = wr_sectionnr s \<or> sno < SECTCNT - 1 \<or> wr_sectionnr s < SECTCNT - 1 \<or>
      wr_offset s ! sno = int (st (SECTCNT - 1) + length (wr_stream st s (SECTCNT - 1)))"
  shows "\<exists>s'. wr_outsect sno s = Inr s' \<and> wr_inv L st rm s' \<and> wr_stream st s' = wr_stream st s \<and>
    wr_sectionnr s' = sno \<and> wr_limit s' = wr_limit s \<and>
    (\<forall>j. j \<noteq> wr_sectionnr s \<longrightarrow> wr_offset s' ! j = wr_offset s ! j)"
proof (cases "sno \<noteq> wr_sectionnr s \<and> sno \<ge> SECTCNT - 1 \<and> wr_sectionnr s \<ge> SECTCNT - 1")
  case False
  have "wr_outsect sno s = Inr (s\<lparr>wr_sectionnr := sno\<rparr>)"
    using False by (auto simp: wr_outsect_def Let_def)
  then show ?thesis
    using inv sno by (simp add: wr_inv_def wr_stream_def fun_eq_iff)
next
  case True
  define p where "p = PARTEMIT + getsect (wr_sectionnr s)"
  have p: "p = SECTCNT - 1" "p < NPARTS" "p < PARTEMIT + SECTCNT"
    using True by (simp_all add: p_def getsect_def PART_defs)
  let ?q = "wr_parts s p" and ?b = "pending (wr_parts s p)"
  let ?k = "fl_pos (wr_parts s p)"
  note ok = wr_inv_part [OF inv(1) p(2)]
  have len: "length ?b = fl_pnow ?q - fl_pbegin ?q"
    using ok by (rule length_pending)
  have le: "st p \<le> ?k" "?k \<le> length (wr_file s) \<or> ?k = st p"
    using ok by (simp_all add: part_ok_def)
  have room: "?k + length ?b \<le> st p + rm p"
    unfolding len using ok unfolding part_ok_def by blast
  have off: "wr_offset s ! sno = int (?k + length ?b)"
  proof -
    from seq True have "wr_offset s ! sno = int (st p + length (wr_stream st s p))"
      unfolding p(1) by linarith
    then show ?thesis using le(1) by (simp add: len wr_stream_length [OF inv(1) p(2)])
  qed
  obtain t where t: "bindE (part_bytes p ?b s) (advance p (length ?b)) = Inr t" "wr_frame s t"
    "wr_file t = put_at (wr_file s) ?k ?b"
    "wr_parts t = (wr_parts s)(p := ?q\<lparr>fl_fd := Some (int (?k + length ?b)),
       fl_currpos := int (?k + length ?b)\<rparr>)"
    "length (wr_offset t) = MAXSECT"
    using part_write_ok [OF inv(1) p(2) room] by blast
  from t(1) obtain w where w: "part_bytes p ?b s = Inr w" "advance p (length ?b) w = Inr t"
    by (auto simp: bindE_Inr_iff)
  have pw: "fl_pnow (wr_parts w p) = fl_pnow ?q" "fl_pbegin (wr_parts w p) = fl_pbegin ?q"
    "fl_fd (wr_parts w p) = fl_fd (wr_parts t p)"
    "long (fl_currpos (wr_parts w p) + int (length ?b)) = fl_currpos (wr_parts t p)"
    using w p(3) by (auto simp: part_bytes_def bindE_Inr_iff upd_part_def advance_def Let_def
        set_offset_def split: if_splits)
  define m where "m = (?k + length ?b) mod WBUFSIZ"
  define u where "u = upd_part p (\<lambda>q. q\<lparr>fl_currpos := int (?k + length ?b),
    fl_fd := Some (int (?k + length ?b)), fl_cnt := WBUFSIZ - m, fl_pbegin := m, fl_pnow := m\<rparr>) t"
  have run: "wr_outsect sno s = Inr (u\<lparr>wr_sectionnr := sno\<rparr>)"
  proof -
    have "wr_offset t ! sno = int (?k + length ?b)"
      using t(2) True off by (simp add: wr_frame_def)
    moreover have "nat (int (?k + length ?b) mod int WBUFSIZ) = m"
      by (simp only: m_def nat_int flip: zmod_int)
    moreover have "advance p (length ?b) w =
        set_offset (fl_currpos (wr_parts t p)) (upd_part p (\<lambda>q. q\<lparr>fl_currpos := fl_currpos (wr_parts t p)\<rparr>) w)"
      using p(3) pw(4) by (simp add: advance_def Let_def)
    ultimately show ?thesis
      using True w sno pw(1-3) pw(4) [unfolded len] t(4)
      unfolding wr_outsect_def p_def [symmetric] Let_def
      by (simp add: len u_def upd_part_def)
  qed
  have u: "wr_file u = put_at (wr_file s) ?k ?b"
    "wr_parts u = (wr_parts s)(p := ?q\<lparr>fl_currpos := int (?k + length ?b),
       fl_fd := Some (int (?k + length ?b)), fl_cnt := WBUFSIZ - m, fl_pbegin := m, fl_pnow := m\<rparr>)"
    (is "_ = (wr_parts s)(p := ?r)")
    "wr_frame s u" "length (wr_offset u) = MAXSECT"
    using t by (simp_all add: u_def upd_part_def wr_frame_def)
  have pos: "fl_pos ?r = ?k + length ?b" "pending ?r = []"
    by (simp_all add: pending_def)
  have "m < WBUFSIZ" by (simp add: m_def WBUFSIZ_def)
  then have "part_ok (length (wr_file u)) (st p) (rm p) ?r"
    using ok room le by (auto simp: part_ok_def pos u(1) length_put_at)
  moreover have "seg (wr_file u) (st p) (fl_pos ?r - st p) @ pending ?r = wr_stream st s p"
    using seg_put_at_append [OF le, of ?b] le(1) p(2) by (simp add: pos u(1) wr_stream_eq)
  ultimately have "wr_inv L st rm u" "wr_stream st u = wr_stream st s"
    using part_step [OF inv p(2) room u(1,2,3,4)] by auto
  then have "wr_inv L st rm (u\<lparr>wr_sectionnr := sno\<rparr>)" "wr_stream st (u\<lparr>wr_sectionnr := sno\<rparr>) = wr_stream st s"
    using sno by (simp_all add: wr_inv_def wr_stream_def fun_eq_iff)
  with run u(3) show ?thesis by (simp add: wr_frame_def)
qed

section \<open>Writing a whole object\<close>

text \<open>
  The calls by which the linker writes an object it holds in core (\<open>write_bytes\<close> of
  \<open>ld/memory.c\<close>, \<open>wrt_emit\<close> of \<open>ld/write.c\<close>).
\<close>

fun wr_emits :: "nat \<Rightarrow> bytes list \<Rightarrow> wr \<Rightarrow> obj_error + wr" where
  "wr_emits i [] s = Inr s"
| "wr_emits i (e # es) s =
     bindE (wr_outsect i s) (\<lambda>s. bindE (wr_emit e s) (wr_emits (Suc i) es))"

definition wr_object :: "obj \<Rightarrow> wr \<Rightarrow> obj_error + wr" where
  "wr_object ob s =
     bindE (wr_ohead (ob_head ob) s) (\<lambda>s.
     bindE (wr_sect (ob_sects ob) s) (\<lambda>s.
     bindE (wr_emits 0 (ob_emits ob) s) (\<lambda>s.
     bindE (wr_relo (ob_relos ob) s) (\<lambda>s.
     bindE (wr_name (ob_names ob) s) (wr_string (ob_chars ob))))))"

text \<open>The part each section's data go to.\<close>

definition emit_ops :: "nat \<Rightarrow> bytes list \<Rightarrow> (nat \<times> bytes) list" where
  "emit_ops i es = map (\<lambda>(j, e). (PARTEMIT + getsect j, e)) (enumerate i es)"

lemma emit_ops_simps [simp]:
  "emit_ops i [] = []" "emit_ops i (e # es) = (PARTEMIT + getsect i, e) # emit_ops (Suc i) es"
  by (simp_all add: emit_ops_def)

lemma getsect_lt: "PARTEMIT + getsect i < NPARTS" "PARTEMIT + getsect i < PARTRELO"
  by (simp_all add: getsect_def PART_defs)

text \<open>The shared part continues where the data of the sections before \<open>i\<close> end.\<close>

definition emits_next :: "(nat \<Rightarrow> nat) \<Rightarrow> (nat \<Rightarrow> nat) \<Rightarrow> nat \<Rightarrow> wr \<Rightarrow> bool" where
  "emits_next st off i s \<longleftrightarrow>
     (if i \<le> SECTCNT - 1 then wr_stream st s (SECTCNT - 1) = [] \<and> st (SECTCNT - 1) = off (SECTCNT - 1)
      else st (SECTCNT - 1) + length (wr_stream st s (SECTCNT - 1)) = off i)"

lemma emits_next_at:
  "emits_next st off i s \<Longrightarrow> SECTCNT - 1 \<le> i \<Longrightarrow>
    st (SECTCNT - 1) + length (wr_stream st s (SECTCNT - 1)) = off i"
  by (cases "i = SECTCNT - 1") (auto simp: emits_next_def)

lemma wr_emits_ok:
  assumes "wr_inv L st rm s" "disjoint_regions st rm" "i + length es \<le> MAXSECT"
    and "wr_sectionnr s \<le> i"
    and "\<forall>p < NPARTS. length (wr_stream st s p) + length (to_part (emit_ops i es) p) \<le> rm p"
    and "\<forall>j < length es.
      (wr_sectionnr s < i + j \<longrightarrow> wr_offset s ! (i + j) = int (off (i + j))) \<and>
      off (Suc (i + j)) = off (i + j) + length (es ! j)"
    and "SECTCNT \<le> i + length es \<Longrightarrow> emits_next st off i s"
  shows "\<exists>s'. wr_emits i es s = Inr s' \<and> wr_inv L st rm s' \<and>
    wr_stream st s' = (\<lambda>p. wr_stream st s p @ to_part (emit_ops i es) p)"
  using assms
proof (induction es arbitrary: i s)
  case Nil
  then show ?case by simp
next
  case (Cons e es)
  note inv = Cons.prems(1,2) and room = Cons.prems(5) and offs = Cons.prems(6)
  let ?p = "PARTEMIT + getsect i" and ?c = "SECTCNT - 1"
  have i: "i < MAXSECT" using Cons.prems(3) by simp
  have off0: "wr_sectionnr s < i \<Longrightarrow> wr_offset s ! i = int (off i)" "off (Suc i) = off i + length e"
    using offs [rule_format, of 0] by simp_all
  have nxt: "emits_next st off i s" if "?c \<le> i + length es"
    using Cons.prems(7) that by (simp add: SECTCNT_def)
  have "i = wr_sectionnr s \<or> i < ?c \<or> wr_offset s ! i = int (st ?c + length (wr_stream st s ?c))"
    using emits_next_at [OF nxt] off0(1) Cons.prems(4) by (cases "wr_sectionnr s < i"; cases "i < ?c") auto
  then obtain t where t: "wr_outsect i s = Inr t" "wr_inv L st rm t" "wr_stream st t = wr_stream st s"
    "wr_sectionnr t = i" "\<forall>j. j \<noteq> wr_sectionnr s \<longrightarrow> wr_offset t ! j = wr_offset s ! j"
    using wr_outsect_ok [OF inv i] by blast
  have "length (wr_stream st t ?p) + length e \<le> rm ?p"
    using room [rule_format, OF getsect_lt(1), of i] by (simp add: t(3))
  from OUTWRITE_ok [OF t(2) inv(2) getsect_lt(1) this] obtain u where
    u: "wr_emit e t = Inr u" "wr_result L st rm ?p e t u"
    by (auto simp: wr_emit_def t(4))
  note uD = wr_resultD [OF u(2)]
  have su: "wr_stream st u = (\<lambda>p. wr_stream st s p @ (if ?p = p then e else []))"
    by (auto simp: uD(3) t(3))
  have frame: "wr_sectionnr u = i" "\<forall>j. j \<noteq> i \<longrightarrow> wr_offset u ! j = wr_offset t ! j"
    using uD(1) t(4) by (simp_all add: wr_frame_def)
  have room': "\<forall>p < NPARTS. length (wr_stream st u p) + length (to_part (emit_ops (Suc i) es) p) \<le> rm p"
    using room by (auto simp: su)
  have offs': "\<forall>j < length es.
      (wr_sectionnr u < Suc i + j \<longrightarrow> wr_offset u ! (Suc i + j) = int (off (Suc i + j))) \<and>
      off (Suc (Suc i + j)) = off (Suc i + j) + length (es ! j)"
  proof (intro allI impI)
    fix j assume "j < length es"
    with offs [rule_format, of "Suc j"] frame(2) t(5) Cons.prems(4)
    show "(wr_sectionnr u < Suc i + j \<longrightarrow> wr_offset u ! (Suc i + j) = int (off (Suc i + j))) \<and>
      off (Suc (Suc i + j)) = off (Suc i + j) + length (es ! j)" by simp
  qed
  have nxt': "emits_next st off (Suc i) u" if "SECTCNT \<le> Suc i + length es"
  proof -
    have n: "emits_next st off i s" using nxt that by simp
    have p: "?c \<le> i \<Longrightarrow> ?p = ?c" "i < ?c \<Longrightarrow> ?p \<noteq> ?c"
      by (auto simp: getsect_def PART_defs)
    show ?thesis
      by (cases i ?c rule: linorder_cases)
        (use n p off0(2) in \<open>simp_all add: emits_next_def su SECTCNT_def\<close>)
  qed
  obtain v where v: "wr_emits (Suc i) es u = Inr v" "wr_inv L st rm v"
    "wr_stream st v = (\<lambda>p. wr_stream st u p @ to_part (emit_ops (Suc i) es) p)"
    using Cons.IH [OF uD(2) inv(2) _ _ room' offs' nxt'] Cons.prems(3) frame(1) by auto
  then show ?case
    using t(1) u(1) by (auto simp: su)
qed

section \<open>Closing the file\<close>

text \<open>Flushing one part neither needs nor changes the descriptors of the others.\<close>

lemma part_bytes_other:
  "p \<noteq> q \<Longrightarrow> part_bytes p bs (upd_part q f s) = bindE (part_bytes p bs s) (\<lambda>s. Inr (upd_part q f s))"
  by (cases "wr_bytes (wr_limit s) bs (wr_file s, fl_fd (wr_parts s p))")
    (auto simp: part_bytes_def upd_part_def fun_upd_twist)

lemma advance_other:
  "p \<noteq> q \<Longrightarrow> advance p n (upd_part q f s) = bindE (advance p n s) (\<lambda>s. Inr (upd_part q f s))"
  by (auto simp: advance_def set_offset_def upd_part_def Let_def fun_upd_twist)

lemma wr_flush_other:
  assumes "p \<noteq> q"
  shows "wr_flush p (upd_part q f s) = bindE (wr_flush p s) (\<lambda>s. Inr (upd_part q f s))"
proof -
  have same: "wr_parts (upd_part q f s) p = wr_parts s p" for s
    using assms by (simp add: upd_part_def)
  have twist: "upd_part p g (upd_part q f s) = upd_part q f (upd_part p g s)" for g s
    using assms by (simp add: upd_part_def fun_upd_twist)
  show ?thesis
  proof (cases "fl_pnow (wr_parts s p) > fl_pbegin (wr_parts s p)")
    case True
    then show ?thesis
      by (simp add: wr_flush_def same twist Let_def part_bytes_other [OF assms] bindE_assoc
          advance_other [OF assms])
  next
    case False
    then show ?thesis by (simp add: wr_flush_def same twist)
  qed
qed

fun flush_parts :: "nat list \<Rightarrow> wr \<Rightarrow> obj_error + wr" where
  "flush_parts [] s = Inr s"
| "flush_parts (p # ps) s = bindE (wr_flush p s) (flush_parts ps)"

definition close_parts :: "nat list \<Rightarrow> wr \<Rightarrow> wr" where
  "close_parts ps s = foldl (\<lambda>s p. upd_part p (\<lambda>q. q\<lparr>fl_fd := None\<rparr>) s) s ps"

lemma flush_parts_other:
  "q \<notin> set ps \<Longrightarrow> flush_parts ps (upd_part q f s) = bindE (flush_parts ps s) (\<lambda>s. Inr (upd_part q f s))"
  by (induction ps arbitrary: s) (auto simp: wr_flush_other bindE_assoc)

lemma wr_close_parts_eq:
  "distinct ps \<Longrightarrow> wr_close_parts ps s = bindE (flush_parts ps s) (\<lambda>s. Inr (close_parts ps s))"
  by (induction ps arbitrary: s) (auto simp: bindE_assoc flush_parts_other close_parts_def)

lemma wr_file_close_parts: "wr_file (close_parts ps s) = wr_file s"
  by (induction ps arbitrary: s) (auto simp: close_parts_def upd_part_def)

lemma wr_flush_pending:
  assumes "wr_flush p s = Inr s'" "q \<noteq> p"
  shows "wr_parts s' q = wr_parts s q"
  using assms by (auto simp: wr_flush_def part_bytes_def advance_def set_offset_def upd_part_def
      Let_def bindE_Inr_iff split: if_splits)

lemma flush_parts_ok:
  assumes "wr_inv L st rm s" "disjoint_regions st rm" "set ps \<subseteq> {..<NPARTS}"
    "\<forall>q < NPARTS. q \<notin> set ps \<longrightarrow> pending (wr_parts s q) = []"
  shows "\<exists>s'. flush_parts ps s = Inr s' \<and> wr_inv L st rm s' \<and> wr_stream st s' = wr_stream st s \<and>
    (\<forall>q < NPARTS. pending (wr_parts s' q) = [])"
  using assms
proof (induction ps arbitrary: s)
  case Nil
  then show ?case by simp
next
  case (Cons p ps)
  obtain t where t: "wr_flush p s = Inr t" "wr_inv L st rm t" "wr_stream st t = wr_stream st s"
    "fl_pnow (wr_parts t p) = 0"
    using wr_flush_ok [OF Cons.prems(1,2), of p] Cons.prems(3) by auto
  have "pending (wr_parts t p) = []" using t(4) by (simp add: pending_def)
  then have "\<forall>q < NPARTS. q \<notin> set ps \<longrightarrow> pending (wr_parts t q) = []"
    using Cons.prems(4) wr_flush_pending [OF t(1)] by (metis set_ConsD)
  with Cons.IH [OF t(2) Cons.prems(2)] Cons.prems(3) t show ?case by auto
qed

text \<open>After closing, every stream lies in the file, at the start of its region.\<close>

lemma wr_close_ok:
  assumes "wr_inv L st rm s" "disjoint_regions st rm"
  shows "\<exists>s'. wr_close s = Inr s' \<and> length (wr_file s') \<le> L \<and>
    (\<forall>p < NPARTS. seg (wr_file s') (st p) (length (wr_stream st s p)) = wr_stream st s p)"
proof -
  have "set [0..<NPARTS] \<subseteq> {..<NPARTS}" by auto
  from flush_parts_ok [OF assms this] obtain t where
    t: "flush_parts [0..<NPARTS] s = Inr t" "wr_inv L st rm t" "wr_stream st t = wr_stream st s"
    "\<forall>q < NPARTS. pending (wr_parts t q) = []"
    by auto
  have run: "wr_close s = Inr (close_parts [0..<NPARTS] t)"
    using t(1) by (simp add: wr_close_def wr_close_parts_eq)
  have "seg (wr_file t) (st p) (length (wr_stream st s p)) = wr_stream st s p" if p: "p < NPARTS" for p
  proof -
    have w: "seg (wr_file t) (st p) (fl_pos (wr_parts t p) - st p) = wr_stream st s p"
      using t(3,4) p by (simp add: wr_stream_def fun_eq_iff) (metis append_Nil2)
    have "fl_pos (wr_parts t p) \<le> length (wr_file t) \<or> fl_pos (wr_parts t p) = st p"
      using wr_inv_part [OF t(2) p] by (simp add: part_ok_def)
    then have "length (seg (wr_file t) (st p) (fl_pos (wr_parts t p) - st p)) = fl_pos (wr_parts t p) - st p"
      by (auto simp: length_seg)
    with w show ?thesis by simp
  qed
  with run t(2) show ?thesis
    by (simp add: wr_file_close_parts wr_inv_def)
qed

section \<open>The layout of an object\<close>

definition obj_st :: "obj \<Rightarrow> nat \<Rightarrow> nat" where
  "obj_st ob p =
     (if p = PARTRELO then relo_off ob else if p = PARTNAME then name_off ob
      else if p = PARTCHAR then char_off ob else 0)"

definition obj_rm :: "obj \<Rightarrow> nat \<Rightarrow> nat" where
  "obj_rm ob p =
     (if p = PARTEMIT then emit_off ob 1
      else if p = PARTRELO then length (ob_relos ob) * SZ_RELO
      else if p = PARTNAME then length (ob_names ob) * SZ_NAME
      else if p = PARTCHAR then length (ob_chars ob) else 0)"

definition sect_rm :: "obj \<Rightarrow> nat \<Rightarrow> nat" where
  "sect_rm ob p = (if p = SECTCNT - 1 then relo_off ob - emit_off ob p else length (ob_emits ob ! p))"

definition lay_st :: "obj \<Rightarrow> nat \<Rightarrow> nat \<Rightarrow> nat" where
  "lay_st ob k = assigned (obj_st ob) (emit_off ob) k"

definition lay_rm :: "obj \<Rightarrow> nat \<Rightarrow> nat \<Rightarrow> nat" where
  "lay_rm ob k = assigned (obj_rm ob) (sect_rm ob) k"

lemma emit_off_mono: "i \<le> j \<Longrightarrow> emit_off ob i \<le> emit_off ob j"
proof -
  assume "i \<le> j"
  then have "take j (ob_emits ob) = take i (ob_emits ob) @ drop i (take j (ob_emits ob))"
    by (metis append_take_drop_id min.absorb1 take_take)
  then have "length (concat (take j (ob_emits ob))) =
      length (concat (take i (ob_emits ob))) + length (concat (drop i (take j (ob_emits ob))))"
    by (metis concat_append length_append)
  then show ?thesis by (simp add: emit_off_def)
qed

lemma emit_off_Suc:
  "i < length (ob_emits ob) \<Longrightarrow> emit_off ob (Suc i) = emit_off ob i + length (ob_emits ob ! i)"
  by (simp add: emit_off_def take_Suc_conv_app_nth)

lemma emit_off_beyond: "length (ob_emits ob) \<le> i \<Longrightarrow> emit_off ob i = emit_off ob (length (ob_emits ob))"
  by (simp add: emit_off_def)

lemma part_cases:
  assumes "p < NPARTS"
  obtains "p = PARTEMIT" | "p = 1" | "p = SECTCNT - 1" | "p = PARTRELO" | "p = PARTNAME" | "p = PARTCHAR"
  using assms unfolding PART_defs by linarith

lemma lay_at:
  "lay_st ob k PARTEMIT = 0" "lay_rm ob k PARTEMIT = emit_off ob 1"
  "lay_st ob k 1 = (if 1 < k then emit_off ob 1 else 0)"
  "lay_rm ob k 1 = (if 1 < k then length (ob_emits ob ! 1) else 0)"
  "lay_st ob k (SECTCNT - 1) = (if SECTCNT - 1 < k then emit_off ob (SECTCNT - 1) else 0)"
  "lay_rm ob k (SECTCNT - 1) = (if SECTCNT - 1 < k then relo_off ob - emit_off ob (SECTCNT - 1) else 0)"
  "lay_st ob k PARTRELO = relo_off ob" "lay_rm ob k PARTRELO = length (ob_relos ob) * SZ_RELO"
  "lay_st ob k PARTNAME = name_off ob" "lay_rm ob k PARTNAME = length (ob_names ob) * SZ_NAME"
  "lay_st ob k PARTCHAR = char_off ob" "lay_rm ob k PARTCHAR = length (ob_chars ob)"
  by (simp_all add: lay_st_def lay_rm_def assigned_def own_part_def obj_st_def obj_rm_def sect_rm_def PART_defs)

lemma lay_order:
  assumes "k \<le> length (ob_emits ob)" "wf_obj ob"
  shows "emit_off ob 1 \<le> relo_off ob" "SECTCNT - 1 < k \<Longrightarrow> emit_off ob (SECTCNT - 1) \<le> relo_off ob"
    "1 < k \<Longrightarrow> emit_off ob 1 + length (ob_emits ob ! 1) = emit_off ob (SECTCNT - 1)"
    "1 < k \<Longrightarrow> emit_off ob (SECTCNT - 1) \<le> relo_off ob"
proof -
  have r: "relo_off ob = emit_off ob (length (ob_emits ob))"
    using assms(2) by (simp add: relo_off_def wf_obj_def)
  show "emit_off ob 1 \<le> relo_off ob"
    using emit_off_mono [of 1 "length (ob_emits ob)" ob] emit_off_beyond [of ob 1]
    by (cases "1 \<le> length (ob_emits ob)") (simp_all add: r)
  show "SECTCNT - 1 < k \<Longrightarrow> emit_off ob (SECTCNT - 1) \<le> relo_off ob"
    using assms(1) by (simp add: r emit_off_mono)
  show "1 < k \<Longrightarrow> emit_off ob (SECTCNT - 1) \<le> relo_off ob"
    using assms(1) by (simp add: r emit_off_mono SECTCNT_def)
  show "1 < k \<Longrightarrow> emit_off ob 1 + length (ob_emits ob ! 1) = emit_off ob (SECTCNT - 1)"
    using assms(1) emit_off_Suc [of 1 ob] by (simp add: SECTCNT_def numeral_2_eq_2)
qed

lemma lay_disjoint:
  assumes "k \<le> length (ob_emits ob)" "wf_obj ob"
  shows "disjoint_regions (lay_st ob k) (lay_rm ob k)"
  unfolding disjoint_regions_def
proof (intro allI impI)
  fix p q :: nat
  assume p: "p < NPARTS" and q: "q < NPARTS" and "p \<noteq> q"
  note ord = lay_order [OF assms, unfolded SECTCNT_def, simplified]
  note v = lay_at [unfolded PART_defs, simplified] name_off_def char_off_def
  have pq: "p \<in> {0, 1, 2, 3, 4, 5}" "q \<in> {0, 1, 2, 3, 4, 5}"
    using p q by (auto simp: PART_defs)
  consider "k \<le> 1" | "k = 2" | "2 < k" by linarith
  then show "lay_st ob k p + lay_rm ob k p \<le> lay_st ob k q \<or> lay_st ob k q + lay_rm ob k q \<le> lay_st ob k p"
  proof cases
    case 1
    with pq ord(1) \<open>p \<noteq> q\<close> show ?thesis by (elim insertE emptyE; simp add: v)
  next
    case 2
    with pq ord(1,3,4) \<open>p \<noteq> q\<close> show ?thesis by (elim insertE emptyE; simp add: v)
  next
    case 3
    with pq ord \<open>p \<noteq> q\<close> show ?thesis by (elim insertE emptyE; simp add: v)
  qed
qed

lemma to_part_emit_ops_shared:
  "SECTCNT - 1 \<le> i \<Longrightarrow> to_part (emit_ops i es) p = (if p = SECTCNT - 1 then concat es else [])"
  by (induction es arbitrary: i) (auto simp: getsect_def PART_defs)

lemma to_part_emit_ops:
  "to_part (emit_ops 0 es) p =
     (if p = PARTEMIT then concat (take 1 es) else if p = 1 then concat (take 1 (drop 1 es))
      else if p = SECTCNT - 1 then concat (drop (SECTCNT - 1) es) else [])"
proof -
  consider "es = []" | a where "es = [a]" | a b cs where "es = a # b # cs"
    by (metis list.exhaust)
  then show ?thesis
    by cases (auto simp: getsect_def PART_defs to_part_emit_ops_shared [unfolded SECTCNT_def] numeral_2_eq_2)
qed

text \<open>The steps of \<open>wr_object\<close>, for an object that fits in \<open>L\<close> bytes.\<close>

definition fits :: "obj \<Rightarrow> nat \<Rightarrow> bool" where
  "fits ob L \<longleftrightarrow> wf_obj ob \<and> length (obj_bytes ob) = L \<and> L < 2 ^ 31"

lemma fitsD:
  assumes "fits ob L"
  shows "OFF_RELO (ob_head ob) = int (relo_off ob)" "L = char_off ob + length (ob_chars ob)"
    "long (int (relo_off ob) + uint (oh_nrelo (ob_head ob)) * int SZ_RELO) = int (name_off ob)"
    "long (int (name_off ob) + uint (oh_nname (ob_head ob)) * int SZ_NAME) = int (char_off ob)"
    "length (ob_emits ob) = length (ob_sects ob)" "length (ob_sects ob) \<le> MAXSECT"
proof -
  have wf: "wf_obj ob" and L: "0 + length (obj_bytes ob) < 2 ^ 31" "length (obj_bytes ob) = L"
    using assms by (simp_all add: fits_def)
  note offs = wf_obj_offsets [OF wf L(1), folded relo_off_def]
  from offs(1) show "OFF_RELO (ob_head ob) = int (relo_off ob)" .
  from offs(4) L(2) show tot: "L = char_off ob + length (ob_chars ob)"
    by (simp add: name_off_def char_off_def)
  have c: "uint (oh_nrelo (ob_head ob)) = int (length (ob_relos ob))"
    "uint (oh_nname (ob_head ob)) = int (length (ob_names ob))"
    using wf unfolding wf_obj_def by (metis of_nat_unat)+
  have "name_off ob \<le> char_off ob" "char_off ob < 2 ^ 31"
    using L tot by (simp_all add: char_off_def)
  then have lim: "int (name_off ob) < 2 ^ 31" "int (char_off ob) < 2 ^ 31"
    by simp_all
  have n: "int (relo_off ob) + uint (oh_nrelo (ob_head ob)) * int SZ_RELO = int (name_off ob)"
    "int (name_off ob) + uint (oh_nname (ob_head ob)) * int SZ_NAME = int (char_off ob)"
    by (simp_all add: c name_off_def char_off_def)
  from lim show "long (int (relo_off ob) + uint (oh_nrelo (ob_head ob)) * int SZ_RELO) = int (name_off ob)"
    "long (int (name_off ob) + uint (oh_nname (ob_head ob)) * int SZ_NAME) = int (char_off ob)"
    unfolding n by simp_all
  from wf show "length (ob_emits ob) = length (ob_sects ob)" "length (ob_sects ob) \<le> MAXSECT"
    by (simp_all add: wf_obj_def)
qed

lemma emit_off_le_relo:
  "length (ob_emits ob) = length (ob_sects ob) \<Longrightarrow> emit_off ob i \<le> relo_off ob"
  using emit_off_mono [of i "length (ob_sects ob)" ob] emit_off_beyond [of ob i]
  by (cases "i \<le> length (ob_sects ob)") (simp_all add: relo_off_def)

lemma lay_within:
  assumes "fits ob L" "k \<le> length (ob_sects ob)" "p < NPARTS"
  shows "lay_st ob k p + lay_rm ob k p \<le> L"
proof -
  note f = fitsD [OF assms(1)]
  have e: "emit_off ob 1 \<le> relo_off ob" "emit_off ob (SECTCNT - 1) \<le> relo_off ob"
    using emit_off_le_relo f(5) by blast+
  have "k \<le> length (ob_emits ob)" "wf_obj ob"
    using f(5) assms(1,2) by (simp_all add: fits_def)
  note ord = lay_order(3) [OF this]
  have tail: "relo_off ob \<le> L" "relo_off ob + length (ob_relos ob) * SZ_RELO \<le> L"
    "name_off ob + length (ob_names ob) * SZ_NAME \<le> L"
    by (simp_all add: f(2) char_off_def name_off_def)
  show ?thesis
    using e ord tail f(2) by (rule_tac part_cases [OF assms(3)]; simp only: lay_at split: if_splits) auto
qed

lemma wr_open_ok:
  assumes "NPARTS \<le> avail" "L \<le> limit" "limit < 2 ^ 31"
  shows "\<exists>s. wr_open avail (wr_init limit) = (1, s) \<and> wr_inv L (\<lambda>_. 0) (\<lambda>_. 0) s \<and>
    wr_stream (\<lambda>_. 0) s = (\<lambda>_. []) \<and> wr_sectionnr s = 0 \<and> wr_offcnt s = 0"
  using assms
  by (auto simp: wr_open_def wr_init_def Let_def wr_inv_def part_ok_def wr_stream_def pending_def
      fl_pos_def WBUFSIZ_def MAXSECT_def)

lemma wr_ohead_ok:
  assumes ob: "fits ob L" and s: "wr_inv L (\<lambda>_. 0) (\<lambda>_. 0) s" "wr_stream (\<lambda>_. 0) s = (\<lambda>_. [])"
  shows "\<exists>s'. wr_ohead (ob_head ob) s = Inr s' \<and> wr_inv L (lay_st ob 0) (lay_rm ob 0) s' \<and>
    wr_stream (lay_st ob 0) s' = (\<lambda>_. [])(PARTEMIT := enc_outhead (ob_head ob)) \<and>
    wr_sectionnr s' = wr_sectionnr s \<and> wr_offcnt s' = wr_offcnt s"
proof -
  note f = fitsD [OF ob]
  have P: "PARTEMIT < NPARTS" "PARTRELO < NPARTS" "PARTNAME < NPARTS" "PARTCHAR < NPARTS"
    by (simp_all add: PART_defs)
  have r: "relo_off ob + length (ob_relos ob) * SZ_RELO \<le> L"
    "name_off ob + length (ob_names ob) * SZ_NAME \<le> L" "char_off ob + length (ob_chars ob) \<le> L"
    "0 + emit_off ob 1 \<le> L"
    using emit_off_le_relo [OF f(5), of 1] by (simp_all add: f(2) char_off_def name_off_def)
  define t0 where "t0 = wr_BEGINSEEK PARTEMIT (int 0) s"
  define t1 where "t1 = wr_BEGINSEEK PARTRELO (int (relo_off ob)) t0"
  define t2 where "t2 = wr_BEGINSEEK PARTNAME (int (name_off ob)) t1"
  define t3 where "t3 = wr_BEGINSEEK PARTCHAR (int (char_off ob)) t2"
  note b0 = wr_BEGINSEEK_ok [OF s(1) P(1) r(4), folded t0_def]
  note b1 = wr_BEGINSEEK_ok [OF b0(1) P(2) r(1), folded t1_def]
  note b2 = wr_BEGINSEEK_ok [OF b1(1) P(3) r(2), folded t2_def]
  note b3 = wr_BEGINSEEK_ok [OF b2(1) P(4) r(3), folded t3_def]
  have lay: "(\<lambda>_. 0)(PARTEMIT := 0, PARTRELO := relo_off ob, PARTNAME := name_off ob,
      PARTCHAR := char_off ob) = lay_st ob 0"
    "(\<lambda>_. 0)(PARTEMIT := emit_off ob 1, PARTRELO := length (ob_relos ob) * SZ_RELO,
      PARTNAME := length (ob_names ob) * SZ_NAME, PARTCHAR := length (ob_chars ob)) = lay_rm ob 0"
    by (auto simp: lay_st_def lay_rm_def assigned_def own_part_def obj_st_def obj_rm_def PART_defs)
  have inv: "wr_inv L (lay_st ob 0) (lay_rm ob 0) t3" and st: "wr_stream (lay_st ob 0) t3 = (\<lambda>_. [])"
    using b3(1) b3(2) unfolding b2(2) b1(2) b0(2) s(2) lay by (simp, simp add: fun_eq_iff)
  have "length (wr_stream (lay_st ob 0) t3 PARTEMIT) + length (enc_outhead (ob_head ob))
      \<le> lay_rm ob 0 PARTEMIT"
    by (simp add: st outhead.length_enc lay_at emit_off_def)
  from OUTWRITE_ok [OF inv lay_disjoint P(1) this] ob obtain u where
    u: "OUTWRITE PARTEMIT (enc_outhead (ob_head ob)) t3 = Inr u"
      "wr_result L (lay_st ob 0) (lay_rm ob 0) PARTEMIT (enc_outhead (ob_head ob)) t3 u"
    by (auto simp: fits_def)
  have "wr_ohead (ob_head ob) s = Inr u"
    using u(1) by (simp add: wr_ohead_def Let_def f t0_def t1_def t2_def t3_def)
  moreover have "wr_frame s u"
    using b0(3) b1(3) b2(3) b3(3) wr_resultD(1) [OF u(2)] wr_frame_trans by blast
  ultimately show ?thesis
    using wr_resultD [OF u(2)] by (auto simp: st wr_frame_def)
qed

lemma wr_sect_ok:
  assumes ob: "fits ob L" and s: "wr_inv L (lay_st ob 0) (lay_rm ob 0) s"
    "wr_stream (lay_st ob 0) s = (\<lambda>_. [])(PARTEMIT := enc_outhead (ob_head ob))"
    "wr_sectionnr s = 0" "wr_offcnt s = 0"
  defines "ns \<equiv> length (ob_sects ob)"
  shows "\<exists>s'. wr_sect (ob_sects ob) s = Inr s' \<and> wr_inv L (lay_st ob ns) (lay_rm ob ns) s' \<and>
    wr_stream (lay_st ob ns) s' =
      (\<lambda>_. [])(PARTEMIT := enc_outhead (ob_head ob) @ enc_array enc_outsect (ob_sects ob)) \<and>
    wr_sectionnr s' = 0 \<and> (\<forall>j < ns. 0 < j \<longrightarrow> wr_offset s' ! j = int (emit_off ob j))"
proof -
  note f = fitsD [OF ob]
  have EMIT: "PARTEMIT < NPARTS" by (simp add: PART_defs)
  have wf: "wf_obj ob" using ob by (simp add: fits_def)
  have "sint (os_foff (ob_sects ob ! j)) = int (emit_off ob j)" if "j < ns" for j
  proof -
    have "unat (os_foff (ob_sects ob ! j)) = emit_off ob j"
      using wf that by (simp add: wf_obj_def ns_def)
    moreover have "emit_off ob j < 2 ^ 31"
      using emit_off_le_relo [OF f(5), of j] ob f(2)
      by (simp add: fits_def char_off_def name_off_def)
    ultimately show ?thesis by (simp add: sint_u32_small)
  qed
  then have foff: "\<forall>j < length (ob_sects ob). sint (os_foff (ob_sects ob ! j)) = int (emit_off ob (0 + j))"
    by (simp add: ns_def)
  have empty: "\<forall>p. own_part p \<longrightarrow> wr_stream (assigned (obj_st ob) (emit_off ob) 0) s p = []"
    using s(2) by (auto simp: lay_st_def own_part_def PARTEMIT_def)
  have within: "\<forall>p. own_part p \<longrightarrow> 0 \<le> p \<longrightarrow> p < 0 + length (ob_sects ob) \<longrightarrow>
      emit_off ob p + sect_rm ob p \<le> L"
  proof (intro allI impI)
    fix p assume p: "own_part p" "p < 0 + length (ob_sects ob)"
    then have "p < NPARTS" by (simp add: own_part_def PART_defs)
    from lay_within [OF ob order_refl this] p
    show "emit_off ob p + sect_rm ob p \<le> L"
      by (simp add: lay_st_def lay_rm_def assigned_def)
  qed
  have "0 + length (ob_sects ob) \<le> MAXSECT" using f(6) by simp
  from wr_sect_seek_ok [OF s(1) [unfolded lay_st_def lay_rm_def] s(4) this empty foff within]
  obtain t where t: "wr_sect_seek (ob_sects ob) s = Inr t" "wr_inv L (lay_st ob ns) (lay_rm ob ns) t"
    "wr_stream (lay_st ob ns) t = wr_stream (lay_st ob 0) s" "wr_sectionnr t = 0"
    "\<forall>j < ns. wr_offset t ! j = int (emit_off ob j)"
    by (auto simp: ns_def lay_st_def lay_rm_def s(3))
  have "length (wr_stream (lay_st ob ns) t PARTEMIT) + length (ob_sects ob) * SZ_SECT
      \<le> lay_rm ob ns PARTEMIT"
    by (simp add: t(3) s(2) lay_at outhead.length_enc emit_off_def)
  from wr_table_ok [OF t(2) lay_disjoint EMIT _ _ _ this, of enc_outsect] wf f(5)
  obtain u where u: "wr_table PARTEMIT SZ_SECT enc_outsect (ob_sects ob) t = Inr u"
    "wr_result L (lay_st ob ns) (lay_rm ob ns) PARTEMIT (enc_array enc_outsect (ob_sects ob)) t u"
    by (auto simp: SZ_SECT_def WBUFSIZ_def outsect.length_enc ns_def)
  show ?thesis
    using t u(1) wr_resultD [OF u(2)]
    by (intro exI [of _ u]) (simp add: wr_sect_def s(2) wr_frame_def)
qed

lemma wr_data_ok:
  assumes ob: "fits ob L" and inv: "wr_inv L (lay_st ob ns) (lay_rm ob ns) s"
    and s: "wr_stream (lay_st ob ns) s =
      (\<lambda>_. [])(PARTEMIT := enc_outhead (ob_head ob) @ enc_array enc_outsect (ob_sects ob))"
      "wr_sectionnr s = 0" "\<forall>j < ns. 0 < j \<longrightarrow> wr_offset s ! j = int (emit_off ob j)"
    and ns: "ns = length (ob_sects ob)"
  shows "\<exists>s'. wr_emits 0 (ob_emits ob) s = Inr s' \<and> wr_inv L (lay_st ob ns) (lay_rm ob ns) s' \<and>
    wr_stream (lay_st ob ns) s' =
      (\<lambda>p. wr_stream (lay_st ob ns) s p @ to_part (emit_ops 0 (ob_emits ob)) p)"
proof (rule wr_emits_ok [where off = "emit_off ob", OF inv])
  note f = fitsD [OF ob]
  have wf: "wf_obj ob" using ob by (simp add: fits_def)
  have len: "length (ob_emits ob) = ns" using f(5) ns by simp
  show "disjoint_regions (lay_st ob ns) (lay_rm ob ns)"
    using lay_disjoint wf len by simp
  show "0 + length (ob_emits ob) \<le> MAXSECT" "wr_sectionnr s \<le> 0"
    using f(6) len ns s(2) by simp_all
  show "\<forall>j < length (ob_emits ob).
      (wr_sectionnr s < 0 + j \<longrightarrow> wr_offset s ! (0 + j) = int (emit_off ob (0 + j))) \<and>
      emit_off ob (Suc (0 + j)) = emit_off ob (0 + j) + length (ob_emits ob ! j)"
    using s(3) len by (simp add: emit_off_Suc)
  show "emits_next (lay_st ob ns) (emit_off ob) 0 s" if "SECTCNT \<le> 0 + length (ob_emits ob)"
    using that len by (auto simp: emits_next_def s(1) lay_at PART_defs)
      (simp add: lay_st_def assigned_def own_part_def PART_defs)
  have "concat (ob_emits ob) = concat (take (SECTCNT - 1) (ob_emits ob)) @ concat (drop (SECTCNT - 1) (ob_emits ob))"
    by (simp flip: concat_append)
  then have tail: "length (concat (drop (SECTCNT - 1) (ob_emits ob))) = relo_off ob - emit_off ob (SECTCNT - 1)"
    by (simp add: relo_off_def emit_off_def f(5) flip: f(5))
  have one: "length (concat (take 1 (drop 1 (ob_emits ob)))) = (if 1 < ns then length (ob_emits ob ! 1) else 0)"
    using len by (auto simp: take_Suc_conv_app_nth)
  show "\<forall>p < NPARTS. length (wr_stream (lay_st ob ns) s p) +
      length (to_part (emit_ops 0 (ob_emits ob)) p) \<le> lay_rm ob ns p"
  proof (intro allI impI)
    fix p assume "p < NPARTS"
    then show "length (wr_stream (lay_st ob ns) s p) + length (to_part (emit_ops 0 (ob_emits ob)) p) \<le> lay_rm ob ns p"
    proof (cases rule: part_cases)
      case 1
      then show ?thesis
        by (simp add: s(1) to_part_emit_ops lay_at outhead.length_enc outsect.length_enc_array emit_off_def)
    next
      case 2
      then show ?thesis
        using one by (simp only: s(1) to_part_emit_ops lay_at) (simp add: PART_defs)
    next
      case 3
      have "ns \<le> SECTCNT - 1 \<Longrightarrow> drop (SECTCNT - 1) (ob_emits ob) = []" using len by simp
      with 3 show ?thesis
        using tail by (simp only: s(1) to_part_emit_ops lay_at) (auto simp: PART_defs)
    qed (simp_all only: s(1) to_part_emit_ops lay_at, simp_all add: PART_defs)
  qed
qed

text \<open>The bytes each part has been given when the whole object is written.\<close>

definition obj_streams :: "obj \<Rightarrow> nat \<Rightarrow> bytes" where
  "obj_streams ob = (\<lambda>p. to_part (emit_ops 0 (ob_emits ob)) p)
     (PARTEMIT := enc_outhead (ob_head ob) @ enc_array enc_outsect (ob_sects ob) @
        concat (take 1 (ob_emits ob)),
      PARTRELO := enc_array enc_outrelo (ob_relos ob),
      PARTNAME := enc_array enc_outname (ob_names ob),
      PARTCHAR := ob_chars ob)"

lemma wr_object_ok:
  assumes ob: "fits ob L" and s: "wr_inv L (\<lambda>_. 0) (\<lambda>_. 0) s" "wr_stream (\<lambda>_. 0) s = (\<lambda>_. [])"
    "wr_sectionnr s = 0" "wr_offcnt s = 0"
  defines "ns \<equiv> length (ob_sects ob)"
  shows "\<exists>s'. wr_object ob s = Inr s' \<and> wr_inv L (lay_st ob ns) (lay_rm ob ns) s' \<and>
    wr_stream (lay_st ob ns) s' = obj_streams ob"
proof -
  note f = fitsD [OF ob]
  let ?st = "lay_st ob ns" and ?rm = "lay_rm ob ns"
  have P: "PARTRELO < NPARTS" "PARTNAME < NPARTS" "PARTCHAR < NPARTS" "PARTEMIT \<noteq> PARTRELO"
    "PARTEMIT \<noteq> PARTNAME" "PARTEMIT \<noteq> PARTCHAR" "PARTRELO \<noteq> PARTNAME" "PARTRELO \<noteq> PARTCHAR"
    "PARTNAME \<noteq> PARTCHAR"
    by (simp_all add: PART_defs)
  have disj: "disjoint_regions ?st ?rm"
    using ob f(5) by (simp add: lay_disjoint fits_def ns_def)
  obtain s1 where s1: "wr_ohead (ob_head ob) s = Inr s1" "wr_inv L (lay_st ob 0) (lay_rm ob 0) s1"
    "wr_stream (lay_st ob 0) s1 = (\<lambda>_. [])(PARTEMIT := enc_outhead (ob_head ob))"
    "wr_sectionnr s1 = 0" "wr_offcnt s1 = 0"
    using wr_ohead_ok [OF ob s(1,2)] s(3,4) by auto
  obtain s2 where s2: "wr_sect (ob_sects ob) s1 = Inr s2" "wr_inv L ?st ?rm s2"
    "wr_stream ?st s2 =
       (\<lambda>_. [])(PARTEMIT := enc_outhead (ob_head ob) @ enc_array enc_outsect (ob_sects ob))"
    "wr_sectionnr s2 = 0" "\<forall>j < ns. 0 < j \<longrightarrow> wr_offset s2 ! j = int (emit_off ob j)"
    using wr_sect_ok [OF ob s1(2-5)] by (auto simp: ns_def)
  obtain s3 where s3: "wr_emits 0 (ob_emits ob) s2 = Inr s3" "wr_inv L ?st ?rm s3"
    "wr_stream ?st s3 = (\<lambda>p. wr_stream ?st s2 p @ to_part (emit_ops 0 (ob_emits ob)) p)"
    using wr_data_ok [OF ob s2(2,3,4,5) ns_def [THEN meta_eq_to_obj_eq]] by blast
  have to: "to_part (emit_ops 0 (ob_emits ob)) PARTRELO = []"
    "to_part (emit_ops 0 (ob_emits ob)) PARTNAME = []" "to_part (emit_ops 0 (ob_emits ob)) PARTCHAR = []"
    "to_part (emit_ops 0 (ob_emits ob)) PARTEMIT = concat (take 1 (ob_emits ob))"
    by (simp_all only: to_part_emit_ops) (simp_all add: PART_defs)
  have e3: "wr_stream ?st s3 PARTRELO = []" "wr_stream ?st s3 PARTNAME = []"
    "wr_stream ?st s3 PARTCHAR = []"
    using P to by (simp_all add: s3(3) s2(3))
  have "length (wr_stream ?st s3 PARTRELO) + length (ob_relos ob) * SZ_RELO \<le> ?rm PARTRELO"
    by (simp add: e3 lay_at)
  from wr_table_ok [OF s3(2) disj P(1) _ _ _ this, of enc_outrelo] obtain s4 where
    s4: "wr_relo (ob_relos ob) s3 = Inr s4"
      "wr_result L ?st ?rm PARTRELO (enc_array enc_outrelo (ob_relos ob)) s3 s4"
    by (auto simp: wr_relo_def SZ_RELO_def WBUFSIZ_def outrelo.length_enc)
  note s4D = wr_resultD [OF s4(2)]
  have "length (wr_stream ?st s4 PARTNAME) + length (ob_names ob) * SZ_NAME \<le> ?rm PARTNAME"
    using P by (simp add: s4D(3) e3 lay_at)
  from wr_table_ok [OF s4D(2) disj P(2) _ _ _ this, of enc_outname] obtain s5 where
    s5: "wr_name (ob_names ob) s4 = Inr s5"
      "wr_result L ?st ?rm PARTNAME (enc_array enc_outname (ob_names ob)) s4 s5"
    by (auto simp: wr_name_def SZ_NAME_def WBUFSIZ_def outname.length_enc)
  note s5D = wr_resultD [OF s5(2)]
  have "length (wr_stream ?st s5 PARTCHAR) + length (ob_chars ob) \<le> ?rm PARTCHAR"
    using P by (simp add: s5D(3) s4D(3) e3 lay_at)
  from OUTWRITE_ok [OF s5D(2) disj P(3) this] obtain s6 where
    s6: "wr_string (ob_chars ob) s5 = Inr s6" "wr_result L ?st ?rm PARTCHAR (ob_chars ob) s5 s6"
    by (auto simp: wr_string_def)
  note s6D = wr_resultD [OF s6(2)]
  have "wr_object ob s = Inr s6"
    using s1(1) s2(1) s3(1) s4(1) s5(1) s6(1) by (simp add: wr_object_def)
  moreover have "wr_stream ?st s6 = obj_streams ob"
    using P to by (simp add: s6D(3) s5D(3) s4D(3) s3(3) s2(3) obj_streams_def fun_eq_iff)
  ultimately show ?thesis using s6D(2) by blast
qed

text \<open>The streams, each at the start of its region, tile the file.\<close>

lemma obj_streams_tile:
  assumes ob: "fits ob L" and len: "length f \<le> L"
    and segs: "\<forall>p < NPARTS. seg f (lay_st ob (length (ob_sects ob)) p) (length (obj_streams ob p)) = obj_streams ob p"
  shows "f = obj_bytes ob"
proof -
  note fD = fitsD [OF ob]
  let ?ns = "length (ob_sects ob)" and ?w = "obj_streams ob"
  have P: "PARTEMIT < NPARTS" "1 < NPARTS" "SECTCNT - 1 < NPARTS" "PARTRELO < NPARTS"
    "PARTNAME < NPARTS" "PARTCHAR < NPARTS"
    by (simp_all add: PART_defs)
  have w: "?w PARTEMIT = enc_outhead (ob_head ob) @ enc_array enc_outsect (ob_sects ob) @ concat (take 1 (ob_emits ob))"
    "?w 1 = concat (take 1 (drop 1 (ob_emits ob)))" "?w (SECTCNT - 1) = concat (drop (SECTCNT - 1) (ob_emits ob))"
    "?w PARTRELO = enc_array enc_outrelo (ob_relos ob)" "?w PARTNAME = enc_array enc_outname (ob_names ob)"
    "?w PARTCHAR = ob_chars ob"
    by (simp_all add: obj_streams_def to_part_emit_ops) (simp_all add: PART_defs)
  have e: "ob_emits ob = take 1 (ob_emits ob) @ take 1 (drop 1 (ob_emits ob)) @ drop (SECTCNT - 1) (ob_emits ob)"
    by (cases "ob_emits ob"; cases "tl (ob_emits ob)") (auto simp: SECTCNT_def numeral_2_eq_2)
  from arg_cong [OF this, of concat]
  have c: "concat (ob_emits ob) = concat (take 1 (ob_emits ob)) @ concat (take 1 (drop 1 (ob_emits ob))) @
      concat (drop (SECTCNT - 1) (ob_emits ob))"
    by simp
  have whole: "obj_bytes ob = ?w PARTEMIT @ ?w 1 @ ?w (SECTCNT - 1) @ ?w PARTRELO @ ?w PARTNAME @ ?w PARTCHAR"
    by (simp only: obj_bytes_def w c append_assoc)
  note sg = segs [rule_format, OF P(1)] segs [rule_format, OF P(2)] segs [rule_format, OF P(3)]
    segs [rule_format, OF P(4)] segs [rule_format, OF P(5)] segs [rule_format, OF P(6)]
  have l0: "length (?w PARTEMIT) = emit_off ob 1"
    by (simp add: w outhead.length_enc outsect.length_enc_array emit_off_def)
  have l1: "length (?w PARTEMIT @ ?w 1) = emit_off ob (SECTCNT - 1)"
  proof -
    have "take (SECTCNT - 1) (ob_emits ob) = take 1 (ob_emits ob) @ take 1 (drop 1 (ob_emits ob))"
      by (cases "ob_emits ob"; cases "tl (ob_emits ob)") (auto simp: SECTCNT_def numeral_2_eq_2)
    then show ?thesis
      unfolding length_append w emit_off_def by (simp add: outhead.length_enc outsect.length_enc_array)
  qed
  have l2: "length ((?w PARTEMIT @ ?w 1) @ ?w (SECTCNT - 1)) = relo_off ob"
    unfolding length_append w relo_off_def emit_off_def using arg_cong [OF c, of length]
    by (simp add: outhead.length_enc outsect.length_enc_array flip: fD(5))
  have l3: "length (((?w PARTEMIT @ ?w 1) @ ?w (SECTCNT - 1)) @ ?w PARTRELO) = name_off ob"
    unfolding length_append [of "(?w PARTEMIT @ ?w 1) @ ?w (SECTCNT - 1)"] l2
    by (simp add: w outrelo.length_enc_array name_off_def)
  have l4: "length ((((?w PARTEMIT @ ?w 1) @ ?w (SECTCNT - 1)) @ ?w PARTRELO) @ ?w PARTNAME) = char_off ob"
    unfolding length_append [of "((?w PARTEMIT @ ?w 1) @ ?w (SECTCNT - 1)) @ ?w PARTRELO"] l3
    by (simp add: w outname.length_enc_array char_off_def)
  have j1: "?w 1 = [] \<or> lay_st ob ?ns 1 = 0 + length (?w PARTEMIT)"
    unfolding l0 lay_at w(2) using fD(5) by auto
  have j2: "?w (SECTCNT - 1) = [] \<or> lay_st ob ?ns (SECTCNT - 1) = 0 + length (?w PARTEMIT @ ?w 1)"
    unfolding l1 lay_at w(3) using fD(5) by auto
  have "seg f 0 (length (?w PARTEMIT)) = ?w PARTEMIT" using sg(1) by (simp add: lay_at)
  from seg_join [OF this j1 sg(2)] have "seg f 0 (length (?w PARTEMIT @ ?w 1)) = ?w PARTEMIT @ ?w 1" .
  from seg_join [OF seg_join [OF seg_join [OF seg_join [OF this j2 sg(3)] _ sg(4)] _ sg(5)] _ sg(6)]
  have "seg f 0 (length (obj_bytes ob)) = obj_bytes ob"
    unfolding whole l2 l3 l4 lay_at by simp
  with len ob show ?thesis by (simp add: seg_whole fits_def)
qed

lemma wr_object_run:
  assumes "wf_obj ob" "length (obj_bytes ob) \<le> limit" "limit < 2 ^ 31" "NPARTS \<le> avail"
  shows "\<exists>s1 s2 s3. wr_open avail (wr_init limit) = (1, s1) \<and> wr_object ob s1 = Inr s2 \<and>
    wr_close s2 = Inr s3 \<and> wr_file s3 = obj_bytes ob"
proof -
  define L where "L = length (obj_bytes ob)"
  have ob: "fits ob L" "L \<le> limit" using assms(1-3) by (simp_all add: fits_def L_def)
  note f = fitsD [OF ob(1)]
  obtain s1 where s1: "wr_open avail (wr_init limit) = (1, s1)" "wr_inv L (\<lambda>_. 0) (\<lambda>_. 0) s1"
    "wr_stream (\<lambda>_. 0) s1 = (\<lambda>_. [])" "wr_sectionnr s1 = 0" "wr_offcnt s1 = 0"
    using wr_open_ok [OF assms(4) ob(2) assms(3)] by blast
  from wr_object_ok [OF ob(1) s1(2-5)] obtain s2 where
    s2: "wr_object ob s1 = Inr s2"
      "wr_inv L (lay_st ob (length (ob_sects ob))) (lay_rm ob (length (ob_sects ob))) s2"
      "wr_stream (lay_st ob (length (ob_sects ob))) s2 = obj_streams ob"
    by blast
  have "disjoint_regions (lay_st ob (length (ob_sects ob))) (lay_rm ob (length (ob_sects ob)))"
    using lay_disjoint assms(1) f(5) by simp
  from wr_close_ok [OF s2(2) this] obtain s3 where
    s3: "wr_close s2 = Inr s3" "length (wr_file s3) \<le> L"
      "\<forall>p < NPARTS. seg (wr_file s3) (lay_st ob (length (ob_sects ob)) p) (length (obj_streams ob p)) =
         obj_streams ob p"
    by (auto simp: s2(3))
  from obj_streams_tile [OF ob(1) s3(2,3)] s1(1) s2(1) s3(1) show ?thesis by blast
qed

lemma wr_bytes_short:
  "str \<noteq> [] \<Longrightarrow> limit < k + length str \<Longrightarrow> wr_bytes limit str (f, Some (int k)) = Inl Wr_fatal"
proof (induction "length str" arbitrary: str f k rule: less_induct)
  case less
  define n where "n = (if maxchunk \<le> int (length str) then nat maxchunk else length str)"
  have n: "0 < n" "n \<le> length str"
    using less.prems(1) by (auto simp: n_def maxchunk_def)
  have step: "wr_bytes limit str (f, Some (int k)) =
      (if n \<le> limit - k then wr_bytes limit (drop n str) (put_at f k (take n str), Some (int (k + n)))
       else Inl Wr_fatal)"
    using less.prems(1) n by (subst wr_bytes.simps) (auto simp: write_fd_open min_def simp flip: n_def)
  show ?case
  proof (cases "n \<le> limit - k")
    case True
    then have "drop n str \<noteq> []" "limit < k + n + length (drop n str)"
      using less.prems(2) n by auto
    moreover have "length (drop n str) < length str" using n by simp
    ultimately have "wr_bytes limit (drop n str) (put_at f k (take n str), Some (int (k + n))) = Inl Wr_fatal"
      by (intro less.hyps) simp_all
    with step True show ?thesis by simp
  next
    case False
    with step show ?thesis by simp
  qed
qed

section \<open>Selecting a section\<close>

text \<open>Two states that differ at most in the selected section and in \<open>offset\<close>.\<close>

definition same_out :: "wr \<Rightarrow> wr \<Rightarrow> bool" where
  "same_out s t \<longleftrightarrow> wr_file s = wr_file t \<and> wr_parts s = wr_parts t \<and> wr_limit s = wr_limit t \<and>
     wr_sectionnr s < MAXSECT \<and> wr_sectionnr t < MAXSECT"

definition same_result :: "obj_error + wr \<Rightarrow> obj_error + wr \<Rightarrow> bool" where
  "same_result r q \<longleftrightarrow> rel_sum (=) same_out r q"

lemma same_result_simps [simp]:
  "same_result (Inr s) (Inr t) = same_out s t" "same_result (Inl e) (Inl e') = (e = e')"
  by (simp_all add: same_result_def)

lemma same_result_bind:
  assumes "same_result r q" "\<And>s t. same_out s t \<Longrightarrow> same_result (f s) (g t)"
  shows "same_result (bindE r f) (bindE q g)"
  using assms by (cases r; cases q) (auto simp: same_result_def)

lemma same_upd_part: "same_out s t \<Longrightarrow> same_out (upd_part p f s) (upd_part p f t)"
  by (simp add: same_out_def upd_part_def)

lemma same_part_bytes: "same_out s t \<Longrightarrow> same_result (part_bytes p b s) (part_bytes p b t)"
  by (cases "wr_bytes (wr_limit t) b (wr_file t, fl_fd (wr_parts t p))")
    (auto simp: part_bytes_def same_out_def upd_part_def)

lemma same_advance: "same_out s t \<Longrightarrow> same_result (advance p n s) (advance p n t)"
  by (auto simp: advance_def set_offset_def same_out_def upd_part_def Let_def)

lemma same_wr_flush: "same_out s t \<Longrightarrow> same_result (wr_flush p s) (wr_flush p t)"
proof -
  assume st: "same_out s t"
  then have p: "wr_parts s = wr_parts t" by (simp add: same_out_def)
  show ?thesis
    unfolding wr_flush_def Let_def p
    by (intro same_result_bind) (use st same_part_bytes same_advance in \<open>auto intro!: same_result_bind same_upd_part\<close>)
qed

text \<open>A pair of the bytes still to be written and the state.\<close>

lemma same_result_bind_pair:
  assumes "rel_sum (=) (rel_prod (=) same_out) r q"
    "\<And>b s t. same_out s t \<Longrightarrow> same_result (f (b, s)) (g (b, t))"
  shows "same_result (bindE r f) (bindE q g)"
  using assms by (cases r; cases q) (auto simp: same_result_def)

lemma same_pair:
  "same_result r q \<Longrightarrow> rel_sum (=) (rel_prod (=) same_out)
     (bindE r (\<lambda>s. Inr (b, s))) (bindE q (\<lambda>s. Inr (b, s)))"
  by (cases r; cases q) (auto simp: same_result_def)

lemma same_through:
  assumes "same_result r q"
  shows "rel_sum (=) (rel_prod (=) same_out)
    (bindE r (\<lambda>s. bindE (part_bytes p b s) (\<lambda>s. bindE (advance p n s) (\<lambda>s. Inr (c, s)))))
    (bindE q (\<lambda>s. bindE (part_bytes p b s) (\<lambda>s. bindE (advance p n s) (\<lambda>s. Inr (c, s)))))"
proof -
  have "same_result (bindE r (\<lambda>s. bindE (part_bytes p b s) (advance p n)))
      (bindE q (\<lambda>s. bindE (part_bytes p b s) (advance p n)))"
    by (intro same_result_bind assms same_part_bytes same_advance)
  from same_pair [OF this] show ?thesis by (simp add: bindE_assoc)
qed

lemma same_OUTWRITE_fill:
  assumes "same_out s t"
  shows "rel_sum (=) (rel_prod (=) same_out) (OUTWRITE_fill p b s) (OUTWRITE_fill p b t)"
proof -
  have p: "wr_parts s = wr_parts t" using assms by (simp add: same_out_def)
  show ?thesis
    using same_through [OF same_wr_flush [OF assms]] assms
    by (auto simp: OUTWRITE_fill_def Let_def p wr_store_def intro!: same_upd_part)
qed

lemma same_OUTWRITE_blocks:
  assumes "same_out s t"
  shows "rel_sum (=) (rel_prod (=) same_out) (OUTWRITE_blocks p b s) (OUTWRITE_blocks p b t)"
  using same_through [of "Inr s" "Inr t"] assms by (auto simp: OUTWRITE_blocks_def Let_def)

lemma same_OUTWRITE_rest:
  assumes "same_out s t"
  shows "same_result (OUTWRITE_rest p b s) (OUTWRITE_rest p b t)"
proof -
  have p: "wr_parts s = wr_parts t" using assms by (simp add: same_out_def)
  show ?thesis
    unfolding OUTWRITE_rest_def p
    using assms by (auto simp: wr_store_def intro!: same_result_bind [OF same_wr_flush]
        same_result_bind_pair [OF same_OUTWRITE_blocks] same_upd_part)
qed

lemma same_OUTWRITE:
  "same_out s t \<Longrightarrow> same_result (OUTWRITE p b s) (OUTWRITE p b t)"
  unfolding OUTWRITE_def
  by (rule same_result_bind_pair [OF same_OUTWRITE_fill]) (simp_all add: same_OUTWRITE_rest)

section \<open>Properties of the writer\<close>

text \<open>
  C2. Writing a well-formed object with the calls of the linker and closing the output
  leaves exactly the image of the object in the file: the header, the section table, the
  contents of the sections, relocations, names and strings, whatever the sizes, the
  buffering and the flushes, and however many sections share the last buffer.
\<close>

theorem wr_object_image:
  assumes "wf_obj ob" "length (obj_bytes ob) \<le> limit" "limit < 2 ^ 31" "NPARTS \<le> avail"
  shows "\<exists>s1 s2 s3. wr_open avail (wr_init limit) = (1, s1) \<and> wr_object ob s1 = Inr s2 \<and>
    wr_close s2 = Inr s3 \<and> wr_file s3 = obj_bytes ob"
  using assms by (rule wr_object_run)

theorem wr_object_image_witness:
  "\<exists>s1 s2 s3. wr_open 6 (wr_init 1000) = (1, s1) \<and> wr_object sample_obj s1 = Inr s2 \<and>
    wr_close s2 = Inr s3 \<and> wr_file s3 = obj_bytes sample_obj"
  by (rule wr_object_image [OF wf_sample_obj]) (simp_all add: length_sample_obj PART_defs)

text \<open>
  C3. The parts are independent streams: after any sequence of writes, in any interleaving
  of the parts, closing the file leaves in each part's region what was there or pending
  before followed by the data written to that part, in order, as long as the data fit in
  the regions.
\<close>

theorem wr_parts_independent:
  assumes "wr_inv L st rm s" "disjoint_regions st rm" "\<forall>(p, b) \<in> set ops. p < NPARTS"
    "\<forall>p < NPARTS. length (wr_stream st s p) + length (to_part ops p) \<le> rm p"
  shows "\<exists>s' s''. write_all OUTWRITE ops s = Inr s' \<and> wr_close s' = Inr s'' \<and>
    (\<forall>p < NPARTS. seg (wr_file s'') (st p) (length (wr_stream st s p @ to_part ops p)) =
       wr_stream st s p @ to_part ops p)"
proof -
  obtain s' where s': "write_all OUTWRITE ops s = Inr s'" "wr_inv L st rm s'"
    "wr_stream st s' = (\<lambda>p. wr_stream st s p @ to_part ops p)"
    using wrp.write_all_ok [of L st rm s ops] assms by blast
  from wr_close_ok [OF s'(2) assms(2)] s'(1) show ?thesis by (auto simp: s'(3))
qed

text \<open>Six regions of a thousand bytes, nothing written yet.\<close>

definition sample_wr :: wr where
  "sample_wr = (wr_init 6000)
     \<lparr>wr_parts := (\<lambda>p. \<lparr>fl_cnt = WBUFSIZ, fl_pnow = 0, fl_pbegin = 0, fl_currpos = int (1000 * p),
                        fl_fd = Some (int (1000 * p)), fl_pbuf = replicate WBUFSIZ 0\<rparr>)\<rparr>"

theorem wr_parts_independent_witness:
  "\<exists>s' s''. write_all OUTWRITE [(3, [1, 2]), (0, replicate 700 5), (3, [3])] sample_wr = Inr s' \<and>
    wr_close s' = Inr s'' \<and>
    (\<forall>p < NPARTS. seg (wr_file s'') (1000 * p)
         (length (wr_stream ((*) 1000) sample_wr p @
            to_part [(3, [1, 2]), (0, replicate 700 5), (3, [3])] p)) =
       wr_stream ((*) 1000) sample_wr p @ to_part [(3, [1, 2]), (0, replicate 700 5), (3, [3])] p)"
proof (rule wr_parts_independent [where L = 6000 and rm = "\<lambda>_. 1000"])
  show "wr_inv 6000 ((*) 1000) (\<lambda>_. 1000) sample_wr"
    by (simp add: wr_inv_def sample_wr_def wr_init_def part_ok_def fl_pos_def PART_defs MAXSECT_def
        WBUFSIZ_def nat_mult_distrib)
  show "disjoint_regions ((*) 1000) (\<lambda>_. 1000)"
    by (auto simp: disjoint_regions_def)
  show "\<forall>(p, b) \<in> set [(3, [1, 2]), (0, replicate 700 5), (3, [3])]. p < NPARTS"
    by (simp add: PART_defs)
  show "\<forall>p < NPARTS. length (wr_stream ((*) 1000) sample_wr p) +
      length (to_part [(3, [1, 2]), (0, replicate 700 5), (3, [3])] p) \<le> 1000"
    by (simp add: wr_stream_def sample_wr_def pending_def fl_pos_def)
qed

text \<open>
  Where \<open>wr_outsect\<close> loses the position: when the section selected before has a buffer
  of its own, selecting a section of the shared buffer moves nothing. Whatever section is
  named, the data go to the same place of the file, behind those of the last section that
  was written through the shared buffer.
\<close>

theorem wr_outsect_shared_buffer:
  assumes "wr_sectionnr s < SECTCNT - 1" "SECTCNT - 1 \<le> a" "a < MAXSECT" "SECTCNT - 1 \<le> b" "b < MAXSECT"
  shows "same_result (bindE (wr_outsect a s) (wr_emit e)) (bindE (wr_outsect b s) (wr_emit e))"
proof -
  have "wr_outsect c s = Inr (s\<lparr>wr_sectionnr := c\<rparr>)" for c
    using assms(1) by (auto simp: wr_outsect_def Let_def)
  moreover have "PARTEMIT + getsect c = SECTCNT - 1" if "SECTCNT - 1 \<le> c" for c
    using that by (simp add: getsect_def PART_defs)
  moreover have "same_out (s\<lparr>wr_sectionnr := a\<rparr>) (s\<lparr>wr_sectionnr := b\<rparr>)"
    using assms by (simp add: same_out_def)
  ultimately show ?thesis
    using assms by (simp add: wr_emit_def same_OUTWRITE)
qed

theorem wr_outsect_shared_buffer_witness:
  "same_result (bindE (wr_outsect 2 sample_wr) (wr_emit [1])) (bindE (wr_outsect 3 sample_wr) (wr_emit [1]))"
  by (rule wr_outsect_shared_buffer) (simp_all add: sample_wr_def wr_init_def SECTCNT_def MAXSECT_def)

end
