(* ===== verification/Dis_Tables.thy ===== *)
theory Dis_Tables
  imports Out_Format
begin

text \<open>
  The tables and the lookup routines of the 8088 disassembler
  (\<open>Ack-5.5/dis88/distabs.c\<close>, \<open>dis.h\<close>): the register names, the opcode table
  \<open>optab\<close>, the search for symbols by value (\<open>lookext\<close>, \<open>lookup\<close>) and the
  translation of the addressing-mode byte (\<open>mtrans\<close>). All static variables of the
  program are fields of the record \<open>dis\<close>; standard input is the list of bytes that are left
  to read, standard output the string written so far.

  The program states that it assumes integers of sixteen bits; the width of \<open>int\<close> is
  therefore a field of the state (\<open>d_int\<close>), and every \<open>int\<close> expression that can
  exceed sixteen bits is reduced to it by \<open>cint\<close>.
\<close>

section \<open>Object files of the disassembler\<close>

record exec =
  a_magic0 :: byte
  a_magic1 :: byte
  a_flags :: byte
  a_cpu :: byte
  a_hdrlen :: byte
  a_text :: u32
  a_data :: u32
  a_bss :: u32
  a_syms :: u32
  a_trsize :: u32
  a_drsize :: u32

record nlist =
  n_name :: bytes
  n_value :: u32
  n_sclass :: byte

record reloc =
  r_vaddr :: u32
  r_symndx :: u16

definition A_EXEC :: byte where "A_EXEC = 0x10"
definition A_SEP :: byte where "A_SEP = 0x20"
definition N_SECT :: byte where "N_SECT = 7"
definition N_UNDF :: byte where "N_UNDF = 0"
definition N_ABS :: byte where "N_ABS = 1"
definition N_TEXT :: byte where "N_TEXT = 2"
definition N_DATA :: byte where "N_DATA = 3"
definition N_BSS :: byte where "N_BSS = 4"
definition N_COMM :: byte where "N_COMM = 5"
definition N_CLASS :: byte where "N_CLASS = 0xf8"
definition C_EXT :: byte where "C_EXT = 0x10"
definition S_BSS :: u16 where "S_BSS = - 4"

section \<open>The state of the disassembler\<close>

definition MAXSYM :: nat where "MAXSYM = 1500"
definition OBJMAX :: nat where "OBJMAX = 8"

datatype dis_error = Objbuf_overflow | Table_overrun | No_fuel | Fatal string

record dis =
  d_int :: nat
  d_symtab :: "nlist list"
  d_symptr :: int
  d_relo :: "reloc list"
  d_relptr :: int
  d_hdr :: exec
  d_objflg :: bool
  d_segflg :: int
  d_objbuf :: "byte list"
  d_objptr :: nat
  d_PC :: u32
  d_zcount :: u32
  d_labc :: string
  d_inp :: bytes
  d_out :: string

text \<open>The value an \<open>int\<close> variable holds after \<open>x\<close> is stored in it.\<close>

definition cint :: "dis \<Rightarrow> int \<Rightarrow> int" where
  "cint s x = signed_take_bit (d_int s - 1) x"

definition emit :: "string \<Rightarrow> dis \<Rightarrow> dis" where
  "emit str s = s\<lparr>d_out := d_out s @ str\<rparr>"

text \<open>
  \<open>getchar() & 0xff\<close>, and the macro \<open>FETCH\<close>, which also keeps the byte in
  \<open>objbuf\<close>. The code does not check the index of that buffer; the model stops where it
  would run over.
\<close>

definition dis_getchar :: "dis \<Rightarrow> int \<times> dis" where
  "dis_getchar s = (case d_inp s of [] \<Rightarrow> (0xff, s) | b # bs \<Rightarrow> (uint b, s\<lparr>d_inp := bs\<rparr>))"

definition FETCH :: "dis \<Rightarrow> dis_error + int \<times> dis" where
  "FETCH s =
     (let (p, t) = dis_getchar (s\<lparr>d_PC := d_PC s + 1\<rparr>)
      in if d_objptr t < OBJMAX then
           Inr (p, t\<lparr>d_objbuf := (d_objbuf t)[d_objptr t := word_of_int p],
                     d_objptr := d_objptr t + 1\<rparr>)
         else Inl Objbuf_overflow)"

text \<open>Two bytes, the low one first: \<open>FETCH(m); FETCH(n); (n << 8) | m\<close> as an \<open>int\<close>.\<close>

definition FETCH2 :: "dis \<Rightarrow> dis_error + int \<times> dis" where
  "FETCH2 s =
     bindE (FETCH s) (\<lambda>(m, s). bindE (FETCH s) (\<lambda>(n, s). Inr (cint s (push_bit 8 n OR m), s)))"

text \<open>A byte whose sign bit is spread by \<open>0xff00\<close>: the sign extension to sixteen bits.\<close>

definition extend8 :: "dis \<Rightarrow> int \<Rightarrow> int" where
  "extend8 s m = (if m AND 0x80 \<noteq> 0 then cint s (0xff00 OR m) else m)"

section \<open>Registers and mnemonics\<close>

definition REGS :: "string list" where
  "REGS =
     [''al'', ''cl'', ''dl'', ''bl'', ''ah'', ''ch'', ''dh'', ''bh'',
      ''ax'', ''cx'', ''dx'', ''bx'', ''sp'', ''bp'', ''si'', ''di'',
      ''es'', ''cs'', ''ss'', ''ds'']"

definition REGS0 :: "string list" where
  "REGS0 = [''bx_si'', ''bx_di'', ''bp_si'', ''bp_di'', ''si'', ''di'', [], ''bx'']"

definition REGS1 :: "string list" where
  "REGS1 = [''bx_si'', ''bx_di'', ''bp_si'', ''bp_di'', ''si'', ''di'', ''bp'', ''bx'']"

definition symrank :: "nat list list" where
  "symrank =
     [[5, 4, 1, 2, 3, 0],
      [1, 5, 4, 3, 2, 0],
      [4, 1, 5, 3, 2, 0],
      [3, 1, 2, 5, 4, 0],
      [3, 1, 2, 4, 5, 0],
      [2, 0, 1, 3, 4, 5]]"

definition tab_nth :: "'a list \<Rightarrow> int \<Rightarrow> dis_error + 'a" where
  "tab_nth xs i = (if 0 \<le> i \<and> nat i < length xs then Inr (xs ! nat i) else Inl Table_overrun)"

definition m_ADD :: string where "m_ADD = TAB # ''add''"
definition m_OR :: string where "m_OR = TAB # ''or''"
definition m_ADC :: string where "m_ADC = TAB # ''adc''"
definition m_SBB :: string where "m_SBB = TAB # ''sbb''"
definition m_AND :: string where "m_AND = TAB # ''and''"
definition m_SUB :: string where "m_SUB = TAB # ''sub''"
definition m_XOR :: string where "m_XOR = TAB # ''xor''"
definition m_CMP :: string where "m_CMP = TAB # ''cmp''"
definition m_MOV :: string where "m_MOV = TAB # ''mov''"
definition m_ESC :: string where "m_ESC = TAB # ''esc''"
definition m_TEST :: string where "m_TEST = TAB # ''test''"
definition m_AMBIG :: string where "m_AMBIG = []"

definition OPFAM :: "string list" where
  "OPFAM =
     [m_ADD, m_OR, m_ADC, m_SBB, m_AND, m_SUB, m_XOR, m_CMP,
      TAB # ''not'', TAB # ''neg'', TAB # ''mul'', TAB # ''div'', m_MOV, m_ESC, m_TEST, m_AMBIG,
      TAB # ''rol'', TAB # ''ror'', TAB # ''rcl'', TAB # ''rcr'', TAB # ''sal'', TAB # ''shr'',
      TAB # ''shl'', TAB # ''sar'']"

text \<open>The handlers that the table points to.\<close>

datatype handler =
  Dfhand | Sbhand | Aohand | Sjhand | Imhand | Mvhand | Mshand | Pohand | Cihand | Mihand | Mqhand |
  Tqhand | Rehand | Mmhand | Srhand | Aahand | Iohand | Ljhand | Mahand | Mjhand | Eshand | Inhand

type_synonym opcode = "string option \<times> handler \<times> nat \<times> nat"

text \<open>The table of opcode data: the opcodes below \<open>0x80\<close> and those from there on.\<close>

definition optab_lo :: "opcode list" where
  "optab_lo = [
    (Some m_ADD, Aohand, 2, 4),
    (Some m_ADD, Aohand, 2, 4),
    (Some m_ADD, Aohand, 2, 4),
    (Some m_ADD, Aohand, 2, 4),
    (Some m_ADD, Aohand, 2, 2),
    (Some m_ADD, Aohand, 3, 3),
    (Some (TAB # ''push'' @ TAB # ''es''), Sbhand, 1, 1),
    (Some (TAB # ''pop'' @ TAB # ''es''), Sbhand, 1, 1),
    (Some m_OR, Aohand, 2, 4),
    (Some m_OR, Aohand, 2, 4),
    (Some m_OR, Aohand, 2, 4),
    (Some m_OR, Aohand, 2, 4),
    (Some m_OR, Aohand, 2, 2),
    (Some m_OR, Aohand, 3, 3),
    (Some (TAB # ''push'' @ TAB # ''cs''), Sbhand, 1, 1),
    (None, Dfhand, 0, 0),
    (Some m_ADC, Aohand, 2, 4),
    (Some m_ADC, Aohand, 2, 4),
    (Some m_ADC, Aohand, 2, 4),
    (Some m_ADC, Aohand, 2, 4),
    (Some m_ADC, Aohand, 2, 2),
    (Some m_ADC, Aohand, 3, 3),
    (Some (TAB # ''push'' @ TAB # ''ss''), Sbhand, 1, 1),
    (Some (TAB # ''pop'' @ TAB # ''ss''), Sbhand, 1, 1),
    (Some m_SBB, Aohand, 2, 4),
    (Some m_SBB, Aohand, 2, 4),
    (Some m_SBB, Aohand, 2, 4),
    (Some m_SBB, Aohand, 2, 4),
    (Some m_SBB, Aohand, 2, 2),
    (Some m_SBB, Aohand, 3, 3),
    (Some (TAB # ''push'' @ TAB # ''ds''), Sbhand, 1, 1),
    (Some (TAB # ''pop'' @ TAB # ''ds''), Sbhand, 1, 1),
    (Some m_AND, Aohand, 2, 4),
    (Some m_AND, Aohand, 2, 4),
    (Some m_AND, Aohand, 2, 4),
    (Some m_AND, Aohand, 2, 4),
    (Some m_AND, Aohand, 2, 2),
    (Some m_AND, Aohand, 3, 3),
    (Some (TAB # ''seg'' @ TAB # ''es''), Sbhand, 1, 1),
    (Some (TAB # ''daa''), Sbhand, 1, 1),
    (Some m_SUB, Aohand, 2, 4),
    (Some m_SUB, Aohand, 2, 4),
    (Some m_SUB, Aohand, 2, 4),
    (Some m_SUB, Aohand, 2, 4),
    (Some m_SUB, Aohand, 2, 2),
    (Some m_SUB, Aohand, 3, 3),
    (Some (TAB # ''seg'' @ TAB # ''cs''), Sbhand, 1, 1),
    (Some (TAB # ''das''), Sbhand, 1, 1),
    (Some m_XOR, Aohand, 2, 4),
    (Some m_XOR, Aohand, 2, 4),
    (Some m_XOR, Aohand, 2, 4),
    (Some m_XOR, Aohand, 2, 4),
    (Some m_XOR, Aohand, 2, 2),
    (Some m_XOR, Aohand, 3, 3),
    (Some (TAB # ''seg'' @ TAB # ''ss''), Sbhand, 1, 1),
    (Some (TAB # ''aaa''), Sbhand, 1, 1),
    (Some m_CMP, Aohand, 2, 4),
    (Some m_CMP, Aohand, 2, 4),
    (Some m_CMP, Aohand, 2, 4),
    (Some m_CMP, Aohand, 2, 4),
    (Some m_CMP, Aohand, 2, 2),
    (Some m_CMP, Aohand, 3, 3),
    (Some (TAB # ''seg'' @ TAB # ''ds''), Sbhand, 1, 1),
    (Some (TAB # ''aas''), Sbhand, 1, 1),
    (Some (TAB # ''inc'' @ TAB # ''ax''), Sbhand, 1, 1),
    (Some (TAB # ''inc'' @ TAB # ''cx''), Sbhand, 1, 1),
    (Some (TAB # ''inc'' @ TAB # ''dx''), Sbhand, 1, 1),
    (Some (TAB # ''inc'' @ TAB # ''bx''), Sbhand, 1, 1),
    (Some (TAB # ''inc'' @ TAB # ''sp''), Sbhand, 1, 1),
    (Some (TAB # ''inc'' @ TAB # ''bp''), Sbhand, 1, 1),
    (Some (TAB # ''inc'' @ TAB # ''si''), Sbhand, 1, 1),
    (Some (TAB # ''inc'' @ TAB # ''di''), Sbhand, 1, 1),
    (Some (TAB # ''dec'' @ TAB # ''ax''), Sbhand, 1, 1),
    (Some (TAB # ''dec'' @ TAB # ''cx''), Sbhand, 1, 1),
    (Some (TAB # ''dec'' @ TAB # ''dx''), Sbhand, 1, 1),
    (Some (TAB # ''dec'' @ TAB # ''bx''), Sbhand, 1, 1),
    (Some (TAB # ''dec'' @ TAB # ''sp''), Sbhand, 1, 1),
    (Some (TAB # ''dec'' @ TAB # ''bp''), Sbhand, 1, 1),
    (Some (TAB # ''dec'' @ TAB # ''si''), Sbhand, 1, 1),
    (Some (TAB # ''dec'' @ TAB # ''di''), Sbhand, 1, 1),
    (Some (TAB # ''push'' @ TAB # ''ax''), Sbhand, 1, 1),
    (Some (TAB # ''push'' @ TAB # ''cx''), Sbhand, 1, 1),
    (Some (TAB # ''push'' @ TAB # ''dx''), Sbhand, 1, 1),
    (Some (TAB # ''push'' @ TAB # ''bx''), Sbhand, 1, 1),
    (Some (TAB # ''push'' @ TAB # ''sp''), Sbhand, 1, 1),
    (Some (TAB # ''push'' @ TAB # ''bp''), Sbhand, 1, 1),
    (Some (TAB # ''push'' @ TAB # ''si''), Sbhand, 1, 1),
    (Some (TAB # ''push'' @ TAB # ''di''), Sbhand, 1, 1),
    (Some (TAB # ''pop'' @ TAB # ''ax''), Sbhand, 1, 1),
    (Some (TAB # ''pop'' @ TAB # ''cx''), Sbhand, 1, 1),
    (Some (TAB # ''pop'' @ TAB # ''dx''), Sbhand, 1, 1),
    (Some (TAB # ''pop'' @ TAB # ''bx''), Sbhand, 1, 1),
    (Some (TAB # ''pop'' @ TAB # ''sp''), Sbhand, 1, 1),
    (Some (TAB # ''pop'' @ TAB # ''bp''), Sbhand, 1, 1),
    (Some (TAB # ''pop'' @ TAB # ''si''), Sbhand, 1, 1),
    (Some (TAB # ''pop'' @ TAB # ''di''), Sbhand, 1, 1),
    (None, Dfhand, 0, 0),
    (None, Dfhand, 0, 0),
    (None, Dfhand, 0, 0),
    (None, Dfhand, 0, 0),
    (None, Dfhand, 0, 0),
    (None, Dfhand, 0, 0),
    (None, Dfhand, 0, 0),
    (None, Dfhand, 0, 0),
    (None, Dfhand, 0, 0),
    (None, Dfhand, 0, 0),
    (None, Dfhand, 0, 0),
    (None, Dfhand, 0, 0),
    (None, Dfhand, 0, 0),
    (None, Dfhand, 0, 0),
    (None, Dfhand, 0, 0),
    (None, Dfhand, 0, 0),
    (Some (TAB # ''jo''), Sjhand, 2, 2),
    (Some (TAB # ''jno''), Sjhand, 2, 2),
    (Some (TAB # ''jc''), Sjhand, 2, 2),
    (Some (TAB # ''jnc''), Sjhand, 2, 2),
    (Some (TAB # ''jz''), Sjhand, 2, 2),
    (Some (TAB # ''jnz''), Sjhand, 2, 2),
    (Some (TAB # ''jna''), Sjhand, 2, 2),
    (Some (TAB # ''ja''), Sjhand, 2, 2),
    (Some (TAB # ''js''), Sjhand, 2, 2),
    (Some (TAB # ''jns''), Sjhand, 2, 2),
    (Some (TAB # ''jp''), Sjhand, 2, 2),
    (Some (TAB # ''jnp''), Sjhand, 2, 2),
    (Some (TAB # ''jl''), Sjhand, 2, 2),
    (Some (TAB # ''jnl''), Sjhand, 2, 2),
    (Some (TAB # ''jng''), Sjhand, 2, 2),
    (Some (TAB # ''jg''), Sjhand, 2, 2)]"

definition optab_hi :: "opcode list" where
  "optab_hi = [
    (Some m_AMBIG, Imhand, 3, 5),
    (Some m_AMBIG, Imhand, 4, 6),
    (Some m_AMBIG, Imhand, 3, 5),
    (Some m_AMBIG, Imhand, 3, 5),
    (Some m_TEST, Mvhand, 2, 4),
    (Some m_TEST, Mvhand, 2, 4),
    (Some (TAB # ''xchg''), Mvhand, 2, 4),
    (Some (TAB # ''xchg''), Mvhand, 2, 4),
    (Some m_MOV, Mvhand, 2, 4),
    (Some m_MOV, Mvhand, 2, 4),
    (Some m_MOV, Mvhand, 2, 4),
    (Some m_MOV, Mvhand, 2, 4),
    (Some m_MOV, Mshand, 2, 4),
    (Some (TAB # ''lea''), Mvhand, 2, 4),
    (Some m_MOV, Mshand, 2, 4),
    (Some (TAB # ''pop''), Pohand, 2, 4),
    (Some (TAB # ''nop''), Sbhand, 1, 1),
    (Some (TAB # ''xchg'' @ TAB # ''ax,cx''), Sbhand, 1, 1),
    (Some (TAB # ''xchg'' @ TAB # ''ax,dx''), Sbhand, 1, 1),
    (Some (TAB # ''xchg'' @ TAB # ''ax,bx''), Sbhand, 1, 1),
    (Some (TAB # ''xchg'' @ TAB # ''ax,sp''), Sbhand, 1, 1),
    (Some (TAB # ''xchg'' @ TAB # ''ax,bp''), Sbhand, 1, 1),
    (Some (TAB # ''xchg'' @ TAB # ''ax,si''), Sbhand, 1, 1),
    (Some (TAB # ''xchg'' @ TAB # ''ax,di''), Sbhand, 1, 1),
    (Some (TAB # ''cbw''), Sbhand, 1, 1),
    (Some (TAB # ''cwd''), Sbhand, 1, 1),
    (Some (TAB # ''calli''), Cihand, 5, 5),
    (Some (TAB # ''wait''), Sbhand, 1, 1),
    (Some (TAB # ''pushf''), Sbhand, 1, 1),
    (Some (TAB # ''popf''), Sbhand, 1, 1),
    (Some (TAB # ''sahf''), Sbhand, 1, 1),
    (Some (TAB # ''lahf''), Sbhand, 1, 1),
    (Some m_MOV, Mqhand, 3, 3),
    (Some m_MOV, Mqhand, 3, 3),
    (Some m_MOV, Mqhand, 3, 3),
    (Some m_MOV, Mqhand, 3, 3),
    (Some (TAB # ''movb''), Sbhand, 1, 1),
    (Some (TAB # ''movw''), Sbhand, 1, 1),
    (Some (TAB # ''cmpb''), Sbhand, 1, 1),
    (Some (TAB # ''cmpw''), Sbhand, 1, 1),
    (Some m_TEST, Tqhand, 2, 2),
    (Some m_TEST, Tqhand, 3, 3),
    (Some (TAB # ''stob''), Sbhand, 1, 1),
    (Some (TAB # ''stow''), Sbhand, 1, 1),
    (Some (TAB # ''lodb''), Sbhand, 1, 1),
    (Some (TAB # ''lodw''), Sbhand, 1, 1),
    (Some (TAB # ''scab''), Sbhand, 1, 1),
    (Some (TAB # ''scaw''), Sbhand, 1, 1),
    (Some (TAB # ''mov'' @ TAB # ''al,''), Mihand, 2, 2),
    (Some (TAB # ''mov'' @ TAB # ''cl,''), Mihand, 2, 2),
    (Some (TAB # ''mov'' @ TAB # ''dl,''), Mihand, 2, 2),
    (Some (TAB # ''mov'' @ TAB # ''bl,''), Mihand, 2, 2),
    (Some (TAB # ''mov'' @ TAB # ''ah,''), Mihand, 2, 2),
    (Some (TAB # ''mov'' @ TAB # ''ch,''), Mihand, 2, 2),
    (Some (TAB # ''mov'' @ TAB # ''dh,''), Mihand, 2, 2),
    (Some (TAB # ''mov'' @ TAB # ''bh,''), Mihand, 2, 2),
    (Some (TAB # ''mov'' @ TAB # ''ax,''), Mihand, 3, 3),
    (Some (TAB # ''mov'' @ TAB # ''cx,''), Mihand, 3, 3),
    (Some (TAB # ''mov'' @ TAB # ''dx,''), Mihand, 3, 3),
    (Some (TAB # ''mov'' @ TAB # ''bx,''), Mihand, 3, 3),
    (Some (TAB # ''mov'' @ TAB # ''sp,''), Mihand, 3, 3),
    (Some (TAB # ''mov'' @ TAB # ''bp,''), Mihand, 3, 3),
    (Some (TAB # ''mov'' @ TAB # ''si,''), Mihand, 3, 3),
    (Some (TAB # ''mov'' @ TAB # ''di,''), Mihand, 3, 3),
    (None, Dfhand, 0, 0),
    (None, Dfhand, 0, 0),
    (Some (TAB # ''ret''), Rehand, 3, 3),
    (Some (TAB # ''ret''), Sbhand, 1, 1),
    (Some (TAB # ''les''), Mvhand, 2, 4),
    (Some (TAB # ''lds''), Mvhand, 2, 4),
    (Some m_MOV, Mmhand, 3, 5),
    (Some m_MOV, Mmhand, 4, 6),
    (None, Dfhand, 0, 0),
    (None, Dfhand, 0, 0),
    (Some (TAB # ''reti''), Rehand, 3, 3),
    (Some (TAB # ''reti''), Sbhand, 1, 1),
    (Some (TAB # ''int''), Sbhand, 1, 1),
    (Some (TAB # ''int''), Inhand, 2, 2),
    (Some (TAB # ''into''), Sbhand, 1, 1),
    (Some (TAB # ''iret''), Sbhand, 1, 1),
    (Some m_AMBIG, Srhand, 2, 4),
    (Some m_AMBIG, Srhand, 2, 4),
    (Some m_AMBIG, Srhand, 2, 4),
    (Some m_AMBIG, Srhand, 2, 4),
    (Some (TAB # ''aam''), Aahand, 2, 2),
    (Some (TAB # ''aad''), Aahand, 2, 2),
    (None, Dfhand, 0, 0),
    (Some (TAB # ''xlat''), Sbhand, 1, 1),
    (Some m_ESC, Eshand, 2, 2),
    (Some m_ESC, Eshand, 2, 2),
    (Some m_ESC, Eshand, 2, 2),
    (Some m_ESC, Eshand, 2, 2),
    (Some m_ESC, Eshand, 2, 2),
    (Some m_ESC, Eshand, 2, 2),
    (Some m_ESC, Eshand, 2, 2),
    (Some m_ESC, Eshand, 2, 2),
    (Some (TAB # ''loopne''), Sjhand, 2, 2),
    (Some (TAB # ''loope''), Sjhand, 2, 2),
    (Some (TAB # ''loop''), Sjhand, 2, 2),
    (Some (TAB # ''jcxz''), Sjhand, 2, 2),
    (Some (TAB # ''in''), Iohand, 2, 2),
    (Some (TAB # ''inw''), Iohand, 2, 2),
    (Some (TAB # ''out''), Iohand, 2, 2),
    (Some (TAB # ''outw''), Iohand, 2, 2),
    (Some (TAB # ''call''), Ljhand, 3, 3),
    (Some (TAB # ''jmp''), Ljhand, 3, 3),
    (Some (TAB # ''jmpi''), Cihand, 5, 5),
    (Some (TAB # ''j''), Sjhand, 2, 2),
    (Some (TAB # ''in''), Sbhand, 1, 1),
    (Some (TAB # ''inw''), Sbhand, 1, 1),
    (Some (TAB # ''out''), Sbhand, 1, 1),
    (Some (TAB # ''outw''), Sbhand, 1, 1),
    (Some (TAB # ''lock''), Sbhand, 1, 1),
    (None, Dfhand, 0, 0),
    (Some (TAB # ''repnz''), Sbhand, 1, 1),
    (Some (TAB # ''repz''), Sbhand, 1, 1),
    (Some (TAB # ''hlt''), Sbhand, 1, 1),
    (Some (TAB # ''cmc''), Sbhand, 1, 1),
    (Some m_AMBIG, Mahand, 2, 5),
    (Some m_AMBIG, Mahand, 2, 6),
    (Some (TAB # ''clc''), Sbhand, 1, 1),
    (Some (TAB # ''stc''), Sbhand, 1, 1),
    (Some (TAB # ''cli''), Sbhand, 1, 1),
    (Some (TAB # ''sti''), Sbhand, 1, 1),
    (Some (TAB # ''cld''), Sbhand, 1, 1),
    (Some (TAB # ''std''), Sbhand, 1, 1),
    (Some m_AMBIG, Mjhand, 2, 4),
    (Some m_AMBIG, Mjhand, 2, 4)]"

definition optab :: "opcode list" where
  "optab = optab_lo @ optab_hi"

definition op_text :: "int \<Rightarrow> string" where
  "op_text j = (case fst (optab ! nat j) of None \<Rightarrow> [] | Some t \<Rightarrow> t)"

definition op_func :: "int \<Rightarrow> handler" where
  "op_func j = fst (snd (optab ! nat j))"

definition op_min :: "int \<Rightarrow> nat" where
  "op_min j = fst (snd (snd (optab ! nat j)))"

definition op_max :: "int \<Rightarrow> nat" where
  "op_max j = snd (snd (snd (optab ! nat j)))"

section \<open>Symbols\<close>

definition getnam :: "nat \<Rightarrow> dis \<Rightarrow> dis_error + string" where
  "getnam k s =
     (if k < length (d_symtab s) then Inr (map (\<lambda>b. char_of (unat b)) (c_str (take 8 (n_name (d_symtab s ! k)))))
      else Inl Table_overrun)"

fun lookext_loop :: "reloc list \<Rightarrow> int \<Rightarrow> int \<Rightarrow> dis \<Rightarrow> dis_error + string option" where
  "lookext_loop [] off loc s = Inr None"
| "lookext_loop (r # rs) off loc s =
     (if sint (r_vaddr r) = loc \<and> r_symndx r < S_BSS then
        bindE (getnam (unat (r_symndx r)) s) (\<lambda>buf.
          Inr (Some (buf @ (if off = 0 then [] else if off < 0 then fmt_d off else ''+'' @ fmt_d off))))
      else lookext_loop rs off loc s)"

definition lookext :: "int \<Rightarrow> int \<Rightarrow> dis \<Rightarrow> dis_error + string option" where
  "lookext off loc s =
     (if loc \<noteq> -1 \<and> d_relptr s \<ge> 0
      then lookext_loop (take (nat (d_relptr s + 1)) (d_relo s)) off loc s
      else Inr None)"

text \<open>
  The loop of \<open>lookup\<close> over the symbol table: \<open>best\<close> is the index and the section of
  the best symbol so far.
\<close>

fun lookup_loop ::
    "nlist list \<Rightarrow> nat \<Rightarrow> int \<Rightarrow> byte \<Rightarrow> dis \<Rightarrow> (nat \<times> byte) option \<Rightarrow> dis_error + (nat \<times> byte) option" where
  "lookup_loop [] k addr type s best = Inr best"
| "lookup_loop (n # ns) k addr type s best =
     (if sint (n_value n) = addr then
        let j = n_sclass n AND N_SECT
        in if j = type then Inr (Some (k, j))
           else if d_segflg s \<noteq> 0 \<or> a_flags (d_hdr s) AND A_SEP \<noteq> 0 then
             lookup_loop ns (k + 1) addr type s best
           else
             (case best of
                None \<Rightarrow> lookup_loop ns (k + 1) addr type s (Some (k, j))
              | Some (i, t) \<Rightarrow>
                  if unat j < 6 \<and> unat t < 6 then
                    lookup_loop ns (k + 1) addr type s
                      (if symrank ! unat type ! unat j > symrank ! unat type ! unat t
                       then Some (k, j) else best)
                  else Inl Table_overrun)
      else lookup_loop ns (k + 1) addr type s best)"

definition LOOK_ABS :: int where "LOOK_ABS = 0"
definition LOOK_REL :: int where "LOOK_REL = 1"
definition LOOK_LNG :: int where "LOOK_LNG = 2"

text \<open>The numeric forms of an address.\<close>

definition fmt_addr :: "int \<Rightarrow> int \<Rightarrow> dis \<Rightarrow> string" where
  "fmt_addr addr kind s =
     (if kind = LOOK_ABS then ''0x'' @ fmt_x 5 (nat (take_bit (d_int s) addr))
      else
        let x = long (addr - (uint (d_PC s) - kind))
        in if x < 0 then ''.'' @ fmt_d x else ''.+'' @ fmt_d x)"

definition lookup :: "int \<Rightarrow> byte \<Rightarrow> int \<Rightarrow> int \<Rightarrow> dis \<Rightarrow> dis_error + string" where
  "lookup addr type kind ext s =
     bindE (lookext addr ext s) (\<lambda>r.
       case r of
         Some b \<Rightarrow> Inr b
       | None \<Rightarrow>
           let type = (if d_segflg s \<noteq> 0 then if d_segflg s AND 1 \<noteq> 0 then N_TEXT else N_DATA
                       else type)
           in bindE (lookup_loop (take (nat (d_symptr s + 1)) (d_symtab s)) 0 addr type s None)
                (\<lambda>best. case best of
                   Some (i, t) \<Rightarrow> getnam i s
                 | None \<Rightarrow> Inr (fmt_addr addr kind s)))"

section \<open>The addressing-mode byte\<close>

definition TR_STD :: int where "TR_STD = 0"
definition TR_SEG :: int where "TR_SEG = 8"

definition mode_mod :: "int \<Rightarrow> int" where "mode_mod m = drop_bit 6 (m AND 0xc0)"
definition mode_reg :: "int \<Rightarrow> int" where "mode_reg m = drop_bit 3 (m AND 0x38)"
definition mode_rm :: "int \<Rightarrow> int" where "mode_rm m = m AND 7"

text \<open>The displacement that follows the mode byte for \<open>mod\<close> 1 and 2.\<close>

definition mode_offset :: "int \<Rightarrow> dis \<Rightarrow> dis_error + int \<times> dis" where
  "mode_offset md s =
     (if md = 2 then FETCH2 s
      else if md = 1 then bindE (FETCH s) (\<lambda>(j, s). Inr (extend8 s j, s))
      else Inr (0, s))"

text \<open>The operand in memory or in a register that \<open>mod\<close> and \<open>rm\<close> name.\<close>

definition mode_operand :: "int \<Rightarrow> int \<Rightarrow> int \<Rightarrow> int \<Rightarrow> int \<Rightarrow> dis \<Rightarrow> dis_error + string \<times> dis" where
  "mode_operand md rm w offset pc s =
     (if md = 0 then
        if rm = 6 then
          bindE (FETCH2 s) (\<lambda>(offset, s).
          bindE (lookup offset N_DATA LOOK_ABS pc s) (\<lambda>str. Inr (str, s)))
        else bindE (tab_nth REGS0 rm) (\<lambda>r. Inr (''('' @ r @ '')'', s))
      else if md = 1 \<or> md = 2 then
        bindE (tab_nth REGS1 rm) (\<lambda>r.
          Inr ((if md = 1 then ''*'' else ''#'') @ fmt_d offset @ ''('' @ r @ '')'', s))
      else bindE (tab_nth REGS (push_bit 3 w OR rm)) (\<lambda>r. Inr (r, s)))"

definition mtrans :: "int \<Rightarrow> int \<Rightarrow> int \<Rightarrow> dis \<Rightarrow> dis_error + string \<times> dis" where
  "mtrans c m type s =
     (let dir = c AND 2;
          md = mode_mod m;
          reg = mode_reg m;
          rm = mode_rm m;
          pc = sint (d_PC s + 1);
          w = (if type \<noteq> 0 then 1 else c AND 1)
      in bindE (mode_offset md s) (\<lambda>(offset, s).
         bindE (mode_operand md rm w offset pc s) (\<lambda>(opd, s).
         bindE (tab_nth REGS (type + (push_bit 3 w OR reg))) (\<lambda>r.
           Inr (if dir \<noteq> 0 then r @ '','' @ opd else opd @ '','' @ r, s)))))"

text \<open>\<open>mtrunc\<close> cuts a string at its last comma.\<close>

definition mtrunc :: "string \<Rightarrow> string" where
  "mtrunc a =
     (if CHR '','' \<in> set a then rev (tl (dropWhile (\<lambda>c. c \<noteq> CHR '','') (rev a))) else a)"

end
