(* ===== verification/Dis_Hand.thy ===== *)
theory Dis_Hand
  imports Dis_Tables
begin

text \<open>
  The handlers of the disassembler (\<open>Ack-5.5/dis88/dishand.c\<close> and \<open>disfp.c\<close>): one
  function for each, from the opcode byte \<open>j\<close> and the state to the new state. The lemmas
  show how many bytes each handler reads, that the object buffer is never overrun, that it
  holds the bytes that were read, and where jumps lead.
\<close>

section \<open>Supporting routines\<close>

definition objini :: "int \<Rightarrow> dis \<Rightarrow> dis" where
  "objini j s =
     s\<lparr>d_segflg := (if d_segflg s = 1 \<or> d_segflg s = 2 then d_segflg s * 3 else 0),
       d_objbuf := (d_objbuf s)[0 := word_of_int j], d_objptr := 1\<rparr>"

definition hex2 :: "int \<Rightarrow> dis \<Rightarrow> string" where
  "hex2 x s = fmt_x 2 (nat (take_bit (d_int s) x))"

definition hex4 :: "int \<Rightarrow> dis \<Rightarrow> string" where
  "hex4 x s = fmt_x 4 (nat (take_bit (d_int s) x))"

definition objout :: "dis \<Rightarrow> dis" where
  "objout s =
     (if \<not> d_objflg s then s
      else emit (TAB # ''|'' @
             (if d_symptr s \<ge> 0 then '' '' @ fmt_x 5 (unat (d_PC s + 1 - of_nat (d_objptr s))) @ '':'' else []) @
             concat (map (\<lambda>b. '' '' @ fmt_x 2 (unat b)) (take (d_objptr s) (d_objbuf s))) @ [NL]) s)"

definition badseq :: "int \<Rightarrow> int \<Rightarrow> dis \<Rightarrow> dis" where
  "badseq j k s =
     emit (TAB # ''.byte'' @ TAB # ''0x'' @ hex2 j s @ TAB # TAB # ''| invalid code sequence'' @ [NL] @
           TAB # ''.byte'' @ TAB # ''0x'' @ hex2 k s @ [NL]) s"

section \<open>Opcode handlers\<close>

definition dfhand :: "int \<Rightarrow> dis \<Rightarrow> dis_error + dis" where
  "dfhand j s =
     (let s = s\<lparr>d_segflg := 0\<rparr>
      in Inr (emit (TAB # ''.byte'' @ TAB # ''0x'' @ hex2 j s @
           (if op_min j \<noteq> 0 \<or> op_max j \<noteq> 0 then [NL]
            else TAB # TAB # ''| unimplemented opcode'' @ [NL])) s))"

definition sbhand :: "int \<Rightarrow> dis \<Rightarrow> dis_error + dis" where
  "sbhand j s =
     (let s = objini j s;
          s = (if j = 0x2e then s\<lparr>d_segflg := 1\<rparr> else s);
          s = (if j = 0x26 \<or> j = 0x36 \<or> j = 0x3e then s\<lparr>d_segflg := 2\<rparr> else s)
      in Inr (objout (emit (op_text j @ [NL]) s)))"

definition aohand :: "int \<Rightarrow> dis \<Rightarrow> dis_error + dis" where
  "aohand j s =
     (let s = objini j s;
          c = j AND 7
      in bindE
        (if c \<le> 3 then
           let s = emit (op_text j @ [TAB]) s
           in bindE (FETCH s) (\<lambda>(k, s).
              bindE (mtrans j k TR_STD s) (\<lambda>(a, s). Inr (emit (a @ [NL]) s)))
         else if c = 4 then
           bindE (FETCH s) (\<lambda>(k, s). Inr (emit (op_text j @ TAB # ''al,*0x'' @ hex2 k s @ [NL]) s))
         else if c = 5 then
           bindE (FETCH2 s) (\<lambda>(k, s).
           bindE (lookext k (sint (d_PC s - 1)) s) (\<lambda>r.
             Inr (emit (op_text j @ TAB # ''ax,#'' @
                    (case r of Some b \<Rightarrow> b | None \<Rightarrow> ''0x'' @ hex4 k s) @ [NL]) s)))
         else dfhand j s)
        (\<lambda>s. Inr (objout s)))"

text \<open>The address a relative jump leads to, and the text of a jump.\<close>

definition jump_target :: "int \<Rightarrow> dis \<Rightarrow> u32" where
  "jump_target k s = d_PC s + word_of_int k + 1"

definition emit_jump :: "int \<Rightarrow> int \<Rightarrow> int \<Rightarrow> int \<Rightarrow> dis \<Rightarrow> dis_error + dis" where
  "emit_jump j k kind ext s =
     bindE (lookup (sint (jump_target k s)) N_TEXT kind ext s) (\<lambda>str.
       Inr (objout (emit (op_text j @ [TAB] @ str @ TAB # TAB # ''| loc '' @
              fmt_x 5 (unat (jump_target k s)) @ [NL]) s)))"

definition sjhand :: "int \<Rightarrow> dis \<Rightarrow> dis_error + dis" where
  "sjhand j s =
     bindE (FETCH (objini j s)) (\<lambda>(m, s). emit_jump j (extend8 s m) LOOK_REL (-1) s)"

text \<open>The operand of the arithmetic instructions with immediate data.\<close>

definition im_operand :: "int \<Rightarrow> int \<Rightarrow> int \<Rightarrow> int \<Rightarrow> int \<Rightarrow> dis \<Rightarrow> dis_error + string" where
  "im_operand md rm w offset pc s =
     (if md = 0 then
        if rm = 6 then lookup offset N_DATA LOOK_ABS pc s
        else bindE (tab_nth REGS0 rm) (\<lambda>r. Inr (''('' @ r @ '')''))
      else if md = 1 \<or> md = 2 then
        bindE (tab_nth REGS1 rm) (\<lambda>r.
          Inr ((if md = 1 then ''*'' else ''#'') @ fmt_d offset @ ''('' @ r @ '')''))
      else tab_nth REGS (push_bit 3 w OR rm))"

definition imhand :: "int \<Rightarrow> dis \<Rightarrow> dis_error + dis" where
  "imhand j s =
     bindE (FETCH (objini j s)) (\<lambda>(k, s).
       let pc = sint (d_PC s + 1);
           md = mode_mod k;
           opi = mode_reg k;
           w = j AND 1;
           rm = mode_rm k
       in if j AND 2 \<noteq> 0 \<and> (opi = 1 \<or> opi = 4 \<or> opi = 6) then Inr (badseq j k s)
          else
            bindE (tab_nth OPFAM opi) (\<lambda>fam.
            bindE (if md = 0 \<and> rm = 6 then FETCH2 s else mode_offset md s) (\<lambda>(offset, s).
            bindE (if j AND 3 = 1 then FETCH2 s else FETCH s) (\<lambda>(immed, s).
              let immed = (if j AND 3 = 3 \<and> immed AND 0x80 \<noteq> 0 then immed AND 0xff00 else immed);
                  iflag = (j AND 3 = 1)
              in bindE (im_operand md rm w offset pc s) (\<lambda>opd.
                 Inr (objout (emit (fam @ (if w = 0 then ''b'' else []) @ [TAB] @ opd @ '','' @
                        (if iflag then ''#'' else ''*'') @ fmt_d immed @ [NL]) s)))))))"

definition mvhand :: "int \<Rightarrow> dis \<Rightarrow> dis_error + dis" where
  "mvhand j s =
     bindE (FETCH (objini j s)) (\<lambda>(k, s).
       let m = (if j = 0x84 \<or> j = 0x85 \<or> j = 0xc4 \<or> j = 0xc5 \<or> j = 0x8d
                then if j AND 0x40 \<noteq> 0 then j OR 3 else j OR 2 else j)
       in bindE (mtrans m k TR_STD s) (\<lambda>(a, s).
          Inr (objout (emit (op_text j @ [TAB] @ a @ [NL]) s))))"

definition mshand :: "int \<Rightarrow> dis \<Rightarrow> dis_error + dis" where
  "mshand j s =
     bindE (FETCH (objini j s)) (\<lambda>(k, s).
       if k AND 0x20 \<noteq> 0 then Inr (badseq j k s)
       else bindE (mtrans j k TR_SEG s) (\<lambda>(a, s).
            Inr (objout (emit (op_text j @ [TAB] @ a @ [NL]) s))))"

definition pohand :: "int \<Rightarrow> dis \<Rightarrow> dis_error + dis" where
  "pohand j s =
     bindE (FETCH (objini j s)) (\<lambda>(k, s).
       if k AND 0x38 \<noteq> 0 then Inr (badseq j k s)
       else
         let s = emit (op_text j @ [TAB]) s
         in bindE (mtrans (j AND 0xfd) k TR_STD s) (\<lambda>(a, s).
            Inr (objout (emit (mtrunc a @ [NL]) s))))"

definition cihand :: "int \<Rightarrow> dis \<Rightarrow> dis_error + dis" where
  "cihand j s =
     (let s = emit (op_text j @ [TAB]) (objini j s)
      in bindE (FETCH2 s) (\<lambda>(m, s).
           let s = emit (''#0x'' @ hex4 m s @ '','') s
           in bindE (FETCH2 s) (\<lambda>(m, s).
              Inr (objout (emit (''#0x'' @ hex4 m s @ [NL]) s)))))"

text \<open>Immediate data of sixteen bits: an external symbol if the code refers to one here.\<close>

definition imm16 :: "dis \<Rightarrow> dis_error + string \<times> dis" where
  "imm16 s =
     bindE (FETCH2 s) (\<lambda>(k, s).
     bindE (lookext k (sint (d_PC s - 1)) s) (\<lambda>r.
       Inr ((case r of Some b \<Rightarrow> ''#'' @ b | None \<Rightarrow> ''#'' @ fmt_d k), s)))"

definition mihand :: "int \<Rightarrow> dis \<Rightarrow> dis_error + dis" where
  "mihand j s =
     (let s = emit (op_text j) (objini j s)
      in if j AND 8 \<noteq> 0 then
           bindE (imm16 s) (\<lambda>(str, s). Inr (objout (emit (str @ [NL]) s)))
         else
           bindE (FETCH s) (\<lambda>(m, s). Inr (objout (emit (''*'' @ fmt_d m @ [NL]) s))))"

definition mqhand :: "int \<Rightarrow> dis \<Rightarrow> dis_error + dis" where
  "mqhand j s =
     (let s = objini j s;
          pc = sint (d_PC s + 1)
      in bindE (FETCH2 s) (\<lambda>(m, s).
           let s = emit (op_text j @ [TAB]) s
           in bindE (lookup m N_DATA LOOK_ABS pc s) (\<lambda>adr.
              bindE (tab_nth REGS (push_bit 3 (j AND 1))) (\<lambda>r.
                Inr (objout (emit ((if j AND 2 \<noteq> 0 then adr @ '','' @ r else r @ '','' @ adr) @ [NL]) s))))))"

definition tqhand :: "int \<Rightarrow> dis \<Rightarrow> dis_error + dis" where
  "tqhand j s =
     (let s = objini j s
      in bindE (tab_nth REGS (push_bit 3 (j AND 1))) (\<lambda>r.
           let s = emit (op_text j @ [TAB] @ r @ '','') s
           in if j AND 1 \<noteq> 0 then
                bindE (imm16 s) (\<lambda>(str, s). Inr (objout (emit (str @ [NL]) s)))
              else
                bindE (FETCH s) (\<lambda>(m, s).
                  let m = (if m AND 80 \<noteq> 0 then cint s (m OR 0xff00) else m)
                  in Inr (objout (emit (''*'' @ fmt_d m @ [NL]) s)))))"

definition rehand :: "int \<Rightarrow> dis \<Rightarrow> dis_error + dis" where
  "rehand j s =
     bindE (FETCH2 (objini j s)) (\<lambda>(m, s).
       Inr (objout (emit (op_text j @ TAB # ''#0x'' @ hex4 m s @ [NL]) s)))"

definition mmhand :: "int \<Rightarrow> dis \<Rightarrow> dis_error + dis" where
  "mmhand j s =
     bindE (FETCH (objini j s)) (\<lambda>(k, s).
       if k AND 0x38 \<noteq> 0 then Inr (badseq j k s)
       else
         let s = emit (op_text j @ (if j AND 1 = 0 then ''b'' else [])) s
         in bindE (mtrans (j AND 0xfd) (k AND 0xc7) TR_STD s) (\<lambda>(a, s).
              let s = emit ([TAB] @ mtrunc a @ '','') s
              in if j AND 1 \<noteq> 0 then
                   bindE (imm16 s) (\<lambda>(str, s). Inr (objout (emit (str @ [NL]) s)))
                 else
                   bindE (FETCH s) (\<lambda>(k, s). Inr (objout (emit (''*'' @ fmt_d k @ [NL]) s)))))"

definition srhand :: "int \<Rightarrow> dis \<Rightarrow> dis_error + dis" where
  "srhand j s =
     bindE (FETCH (objini j s)) (\<lambda>(k, s).
       if k AND 0x38 = 0x30 then Inr (badseq j k s)
       else
         bindE (tab_nth OPFAM (mode_reg k + 16)) (\<lambda>fam.
           let s = emit (fam @ (if j AND 1 = 0 then ''b'' else [])) s
           in bindE (mtrans (j AND 0xfd) (k AND 0xc7) TR_STD s) (\<lambda>(a, s).
              Inr (objout (emit ([TAB] @ mtrunc a @ (if j AND 2 \<noteq> 0 then '',cl'' else '',*1'') @ [NL]) s)))))"

definition aahand :: "int \<Rightarrow> dis \<Rightarrow> dis_error + dis" where
  "aahand j s =
     bindE (FETCH (objini j s)) (\<lambda>(k, s).
       if k \<noteq> 0x0a then Inr (badseq j k s) else Inr (objout (emit (op_text j @ [NL]) s)))"

definition iohand :: "int \<Rightarrow> dis \<Rightarrow> dis_error + dis" where
  "iohand j s =
     bindE (FETCH (objini j s)) (\<lambda>(k, s).
       Inr (objout (emit (op_text j @ TAB # ''0x'' @ hex2 k s @ [NL]) s)))"

definition ljhand :: "int \<Rightarrow> dis \<Rightarrow> dis_error + dis" where
  "ljhand j s =
     bindE (FETCH2 (objini j s)) (\<lambda>(k, s). emit_jump j k LOOK_LNG (sint (d_PC s - 1)) s)"

definition mahand :: "int \<Rightarrow> dis \<Rightarrow> dis_error + dis" where
  "mahand j s =
     bindE (FETCH (objini j s)) (\<lambda>(k, s).
     bindE (mtrans (j AND 0xfd) (k AND 0xc7) TR_STD s) (\<lambda>(a, s).
       let k = uint (d_objbuf s ! 1);
           c = mode_reg k
       in if c = 1 then Inr (badseq j k s)
          else
            let s = emit ((if c = 0 then TAB # ''test'' else if c = 2 then TAB # ''not''
                           else if c = 3 then TAB # ''neg'' else if c = 4 then TAB # ''mul''
                           else if c = 5 then TAB # ''imul'' else if c = 6 then TAB # ''div''
                           else TAB # ''idiv'') @
                          (if j AND 1 = 0 then ''b'' else []) @ [TAB] @ mtrunc a) s
            in if k AND 0x38 \<noteq> 0 then Inr (objout (emit [NL] s))
               else if j AND 1 \<noteq> 0 then
                 bindE (imm16 s) (\<lambda>(str, s). Inr (objout (emit ('','' @ str @ [NL]) s)))
               else
                 bindE (FETCH s) (\<lambda>(k, s). Inr (objout (emit ('',*'' @ fmt_d k @ [NL]) s)))))"

definition mjhand :: "int \<Rightarrow> dis \<Rightarrow> dis_error + dis" where
  "mjhand j s =
     bindE (FETCH (objini j s)) (\<lambda>(k, s).
     bindE (mtrans (j AND 0xfd) (k AND 0xc7) TR_STD s) (\<lambda>(a, s).
       let k = uint (d_objbuf s ! 1);
           c = mode_reg k
       in if c = 7 \<or> (c \<ge> 2 \<and> j AND 1 = 0) then Inr (badseq j k s)
          else
            let op = (if c = 0 then TAB # ''inc'' @ (if j AND 1 = 0 then ''b'' else []) @ [TAB]
                      else if c = 1 then TAB # ''dec'' @ (if j AND 1 = 0 then ''b'' else []) @ [TAB]
                      else if c = 2 then TAB # ''call'' @ TAB # ''@'' else if c = 3 then TAB # ''calli'' @ TAB # ''@''
                      else if c = 4 then TAB # ''jmp'' @ TAB # ''@'' else if c = 5 then TAB # ''jmpi'' @ TAB # ''@''
                      else TAB # ''push'' @ [TAB])
            in Inr (objout (emit (op @ mtrunc a @ [NL]) s))))"

section \<open>disfp.c\<close>

text \<open>The bytes of the buffer behind the first, as \<open>.byte\<close> directives.\<close>

definition emit_bytes :: "dis \<Rightarrow> dis" where
  "emit_bytes s =
     emit (concat (map (\<lambda>b. TAB # ''.byte'' @ TAB # ''0x'' @ fmt_x 2 (unat b) @ [NL])
             (seg (d_objbuf s) 1 (d_objptr s - 1)))) s"

definition eshand :: "int \<Rightarrow> dis \<Rightarrow> dis_error + dis" where
  "eshand j s =
     bindE (FETCH (objini j s)) (\<lambda>(k, s).
     bindE (mtrans (j AND 0xfd) (k AND 0xc7) TR_STD s) (\<lambda>(a, s).
       Inr (emit_bytes (emit (TAB # ''.byte'' @ TAB # ''0x'' @ hex2 j s @ TAB # TAB # ''| esc'' @ [TAB] @
              mtrunc a @ [NL]) s))))"

definition fphand :: "int \<Rightarrow> dis \<Rightarrow> dis_error + dis" where
  "fphand j s =
     bindE (FETCH (s\<lparr>d_segflg := 0\<rparr>)) (\<lambda>(k, s).
       Inr (emit_bytes (emit (TAB # ''.byte'' @ TAB # ''0x'' @ fmt_x 2 (unat (d_objbuf s ! 0)) @
              TAB # TAB # ''| 8087 code sequence'' @ [NL]) s)))"

definition ISFLOP :: "int \<Rightarrow> bool" where
  "ISFLOP x \<longleftrightarrow> x \<ge> 0xd8 \<and> x \<le> 0xdf"

definition inhand :: "int \<Rightarrow> dis \<Rightarrow> dis_error + dis" where
  "inhand j s =
     bindE (FETCH (objini j s)) (\<lambda>(k, s).
       if ISFLOP k then fphand k s
       else Inr (objout (emit (op_text j @ [TAB] @ fmt_d k @ [NL]) s)))"

text \<open>The call \<open>(*f)(j)\<close> through the table.\<close>

fun run_handler :: "handler \<Rightarrow> int \<Rightarrow> dis \<Rightarrow> dis_error + dis" where
  "run_handler Dfhand = dfhand"
| "run_handler Sbhand = sbhand"
| "run_handler Aohand = aohand"
| "run_handler Sjhand = sjhand"
| "run_handler Imhand = imhand"
| "run_handler Mvhand = mvhand"
| "run_handler Mshand = mshand"
| "run_handler Pohand = pohand"
| "run_handler Cihand = cihand"
| "run_handler Mihand = mihand"
| "run_handler Mqhand = mqhand"
| "run_handler Tqhand = tqhand"
| "run_handler Rehand = rehand"
| "run_handler Mmhand = mmhand"
| "run_handler Srhand = srhand"
| "run_handler Aahand = aahand"
| "run_handler Iohand = iohand"
| "run_handler Ljhand = ljhand"
| "run_handler Mahand = mahand"
| "run_handler Mjhand = mjhand"
| "run_handler Eshand = eshand"
| "run_handler Inhand = inhand"

definition disasm :: "int \<Rightarrow> dis \<Rightarrow> dis_error + dis" where
  "disasm j s = run_handler (op_func j) j s"

section \<open>What is read\<close>

text \<open>
  The bytes of the code that are still to be read; at the end of the file the program reads
  \<open>0xff\<close>.
\<close>

definition code :: "dis \<Rightarrow> nat \<Rightarrow> byte" where
  "code s n = (if n < length (d_inp s) then d_inp s ! n else 0xff)"

text \<open>
  The tables of an object file whose relocation entries name symbols that exist and whose
  symbols belong to one of the six sections.
\<close>

definition tables_ok :: "dis \<Rightarrow> bool" where
  "tables_ok s \<longleftrightarrow>
     (\<forall>r \<in> set (d_relo s). r_symndx r < S_BSS \<longrightarrow> unat (r_symndx r) < length (d_symtab s)) \<and>
     (\<forall>n \<in> set (d_symtab s). unat (n_sclass n AND N_SECT) < 6)"

text \<open>
  The state after \<open>n\<close> bytes behind the opcode \<open>j\<close> have been read: the program counter
  has moved with them, and the object buffer holds the opcode and the bytes.
\<close>

definition read_at :: "int \<Rightarrow> dis \<Rightarrow> nat \<Rightarrow> dis \<Rightarrow> bool" where
  "read_at j s0 n s \<longleftrightarrow>
     d_symtab s = d_symtab s0 \<and> d_symptr s = d_symptr s0 \<and> d_relo s = d_relo s0 \<and>
     d_relptr s = d_relptr s0 \<and> d_hdr s = d_hdr s0 \<and> d_int s = d_int s0 \<and> d_objflg s = d_objflg s0 \<and>
     d_labc s = d_labc s0 \<and>
     d_PC s = d_PC s0 + of_nat n \<and> d_inp s = drop n (d_inp s0) \<and> d_objptr s = n + 1 \<and>
     length (d_objbuf s) = OBJMAX \<and>
     take (n + 1) (d_objbuf s) = word_of_int j # map (code s0) [0..<n]"

lemma read_at_tables: "read_at j s0 n s \<Longrightarrow> tables_ok s0 \<Longrightarrow> tables_ok s"
  by (simp add: read_at_def tables_ok_def)

lemma read_at_objini: "length (d_objbuf s) = OBJMAX \<Longrightarrow> read_at j s 0 (objini j s)"
  by (cases "d_objbuf s") (simp_all add: read_at_def objini_def OBJMAX_def)

lemma read_at_emit [simp]: "read_at j s0 n (emit x s) = read_at j s0 n s"
  by (simp add: read_at_def emit_def)

lemma read_at_segflg [simp]: "read_at j s0 n (s\<lparr>d_segflg := x\<rparr>) = read_at j s0 n s"
  by (simp add: read_at_def)

lemma read_at_objout [simp]: "read_at j s0 n (objout s) = read_at j s0 n s"
  by (simp add: objout_def)

lemma read_at_badseq [simp]: "read_at j s0 n (badseq a b s) = read_at j s0 n s"
  by (simp add: badseq_def)

lemma read_at_emit_bytes [simp]: "read_at j s0 n (emit_bytes s) = read_at j s0 n s"
  by (simp add: emit_bytes_def)

lemma FETCH_at:
  assumes "read_at j s0 n s" "n < 7"
  shows "\<exists>t. FETCH s = Inr (uint (code s0 n), t) \<and> read_at j s0 (n + 1) t"
proof -
  have n: "n + 1 < length (d_objbuf s)" "d_objptr s = n + 1" "d_objptr s < OBJMAX"
    using assms by (simp_all add: read_at_def OBJMAX_def)
  let ?b = "code s0 n"
  have buf: "take (n + 2) ((d_objbuf s)[n + 1 := ?b]) = word_of_int j # map (code s0) [0..<n + 1]"
    using assms(1) n(1) by (simp add: read_at_def take_Suc_conv_app_nth)
  have rest: "\<exists>u. dis_getchar (s\<lparr>d_PC := d_PC s + 1\<rparr>) = (uint ?b, u) \<and> d_inp u = drop (n + 1) (d_inp s0) \<and>
      u\<lparr>d_inp := d_inp s\<rparr> = s\<lparr>d_PC := d_PC s + 1\<rparr>"
  proof (cases "d_inp s")
    case Nil
    then have "\<not> n < length (d_inp s0)" "drop (n + 1) (d_inp s0) = []"
      using assms(1) by (simp_all add: read_at_def)
    then show ?thesis using Nil by (simp add: dis_getchar_def code_def)
  next
    case (Cons c cs)
    then have d: "drop n (d_inp s0) = c # cs" using assms(1) by (simp add: read_at_def)
    then have "n < length (d_inp s0)" by (metis drop_all list.distinct(1) not_less)
    with d have "d_inp s0 ! n = c" "drop (n + 1) (d_inp s0) = cs"
      by (metis nth_via_drop, metis Suc_eq_plus1 Cons_nth_drop_Suc list.inject)
    then show ?thesis using Cons \<open>n < length (d_inp s0)\<close> by (simp add: dis_getchar_def code_def)
  qed
  then obtain u where u: "dis_getchar (s\<lparr>d_PC := d_PC s + 1\<rparr>) = (uint ?b, u)"
    "d_inp u = drop (n + 1) (d_inp s0)" "u\<lparr>d_inp := d_inp s\<rparr> = s\<lparr>d_PC := d_PC s + 1\<rparr>"
    by blast
  then have "u = s\<lparr>d_PC := d_PC s + 1, d_inp := drop (n + 1) (d_inp s0)\<rparr>"
    by (cases u, cases s) simp
  then show ?thesis
    using assms(1) n buf u(1) by (simp add: FETCH_def read_at_def)
qed

lemma FETCH2_at:
  assumes "read_at j s0 n s" "n < 6"
  shows "\<exists>t. FETCH2 s = Inr (cint s0 (push_bit 8 (uint (code s0 (n + 1))) OR uint (code s0 n)), t) \<and>
    read_at j s0 (n + 2) t"
proof -
  obtain t where t: "FETCH s = Inr (uint (code s0 n), t)" "read_at j s0 (n + 1) t"
    using FETCH_at [OF assms(1)] assms(2) by auto
  obtain u where u: "FETCH t = Inr (uint (code s0 (n + 1)), u)" "read_at j s0 (n + 2) u"
    using FETCH_at [OF t(2)] assms(2) by auto
  have "cint u = cint s0" using u(2) by (simp add: cint_def read_at_def fun_eq_iff)
  with t(1) u show ?thesis by (simp add: FETCH2_def)
qed

section \<open>Lookups succeed\<close>

lemma getnam_ok: "k < length (d_symtab s) \<Longrightarrow> \<exists>x. getnam k s = Inr x"
  by (simp add: getnam_def)

lemma lookext_loop_ok:
  "\<forall>r \<in> set rs. r_symndx r < S_BSS \<longrightarrow> unat (r_symndx r) < length (d_symtab s) \<Longrightarrow>
    \<exists>x. lookext_loop rs off loc s = Inr x"
  by (induction rs) (auto simp: getnam_def)

lemma lookext_ok: "tables_ok s \<Longrightarrow> \<exists>x. lookext off loc s = Inr x"
  using lookext_loop_ok [of "take (nat (d_relptr s + 1)) (d_relo s)" s off loc]
  by (auto simp: lookext_def tables_ok_def dest: in_set_takeD)

lemma lookup_loop_ok:
  assumes "\<forall>n \<in> set ns. unat (n_sclass n AND N_SECT) < 6" "k + length ns \<le> K"
    "\<forall>i t. best = Some (i, t) \<longrightarrow> i < K \<and> unat t < 6"
  shows "\<exists>b. lookup_loop ns k addr type s best = Inr b \<and> (\<forall>i t. b = Some (i, t) \<longrightarrow> i < K)"
  using assms
proof (induction ns arbitrary: k best)
  case Nil
  then show ?case by auto
next
  case (Cons n ns)
  have n: "unat (n_sclass n AND N_SECT) < 6" "k < K" "k + 1 + length ns \<le> K"
    using Cons.prems(1,2) by simp_all
  have IH: "\<exists>b. lookup_loop ns (k + 1) addr type s best' = Inr b \<and> (\<forall>i t. b = Some (i, t) \<longrightarrow> i < K)"
    if "\<forall>i t. best' = Some (i, t) \<longrightarrow> i < K \<and> unat t < 6" for best'
    using Cons.IH [OF _ n(3) that] Cons.prems(1) by simp
  let ?new = "Some (k, n_sclass n AND N_SECT)"
  have new: "\<exists>b. lookup_loop ns (k + 1) addr type s ?new = Inr b \<and> (\<forall>i t. b = Some (i, t) \<longrightarrow> i < K)"
    using IH [of ?new] n by simp
  note old = IH [OF Cons.prems(3)]
  show ?case
  proof (cases best)
    case None
    with new old n(2) show ?thesis by (simp add: Let_def)
  next
    case (Some it)
    obtain i t where it: "it = (i, t)" by (cases it)
    then have "unat t < 6" using Cons.prems(3) Some by simp
    with new old n(1,2) Some it show ?thesis by (simp add: Let_def)
  qed
qed

lemma lookup_ok:
  assumes "tables_ok s"
  shows "\<exists>str. lookup addr type kind ext s = Inr str"
proof -
  obtain r where r: "lookext addr ext s = Inr r"
    using lookext_ok [OF assms] by blast
  define ty where "ty = (if d_segflg s \<noteq> 0 then if d_segflg s AND 1 \<noteq> 0 then N_TEXT else N_DATA else type)"
  have "\<forall>n \<in> set (take (nat (d_symptr s + 1)) (d_symtab s)). unat (n_sclass n AND N_SECT) < 6"
    using assms by (auto simp: tables_ok_def dest: in_set_takeD)
  then obtain b where b: "lookup_loop (take (nat (d_symptr s + 1)) (d_symtab s)) 0 addr ty s None = Inr b"
    "\<forall>i t. b = Some (i, t) \<longrightarrow> i < length (d_symtab s)"
    using lookup_loop_ok [where best = None and k = 0 and K = "length (d_symtab s)"] by fastforce
  show ?thesis
  proof (cases r)
    case (Some x)
    then show ?thesis by (simp add: lookup_def r)
  next
    case None
    with b show ?thesis
      by (cases b) (auto simp: lookup_def r Let_def getnam_def simp flip: ty_def)
  qed
qed

section \<open>The addressing-mode byte\<close>

definition mode_len :: "int \<Rightarrow> nat" where
  "mode_len m =
     (if mode_mod m = 1 then 1 else if mode_mod m = 2 then 2
      else if mode_mod m = 0 \<and> mode_rm m = 6 then 2 else 0)"

lemma mode_len_le: "mode_len m \<le> 2"
  by (simp add: mode_len_def)

lemma mode_rm_range: "0 \<le> mode_rm m" "mode_rm m < 8"
  using AND_upper2 [of 7 m] by (simp_all add: mode_rm_def)

lemma mode_reg_range: "0 \<le> mode_reg m" "mode_reg m < 8"
proof -
  have x: "m AND 56 \<le> 56" "0 \<le> m AND 56" using AND_upper2 [of 56 m] by simp_all
  have "0 \<le> x div 8 \<and> x div 8 < 8" if "0 \<le> x" "x \<le> 56" for x :: int
    using that by presburger
  with x show "0 \<le> mode_reg m" "mode_reg m < 8"
    by (simp_all add: mode_reg_def drop_bit_eq_div)
qed

lemma mode_mod_range: "0 \<le> mode_mod m" "mode_mod m < 4"
proof -
  have x: "m AND 192 \<le> 192" "0 \<le> m AND 192" using AND_upper2 [of 192 m] by simp_all
  have "0 \<le> x div 64 \<and> x div 64 < 4" if "0 \<le> x" "x \<le> 192" for x :: int
    using that by presburger
  with x show "0 \<le> mode_mod m" "mode_mod m < 4"
    by (simp_all add: mode_mod_def drop_bit_eq_div)
qed

lemma and_1_cases: "c AND 1 = 0 \<or> c AND 1 = (1 :: int)"
  by (simp add: and_one_eq) presburger

lemma reg_index:
  fixes r w :: int
  assumes "0 \<le> r" "r < 8" "w = 0 \<or> w = 1"
  shows "0 \<le> push_bit 3 w OR r" "push_bit 3 w OR r < 16" "r < 4 \<Longrightarrow> push_bit 3 w OR r < 12"
proof -
  have "r \<in> {0, 1, 2, 3, 4, 5, 6, 7}" using assms(1,2) by auto
  then show "0 \<le> push_bit 3 w OR r" "push_bit 3 w OR r < 16" "r < 4 \<Longrightarrow> push_bit 3 w OR r < 12"
    using assms(3) by auto
qed

lemma tab_nth_ok: "0 \<le> i \<Longrightarrow> i < int (length xs) \<Longrightarrow> tab_nth xs i = Inr (xs ! nat i)"
  by (simp add: tab_nth_def nat_less_iff)

lemma length_tables [simp]:
  "length REGS = 20" "length REGS0 = 8" "length REGS1 = 8" "length OPFAM = 24"
  by (simp_all add: REGS_def REGS0_def REGS1_def OPFAM_def)

text \<open>
  A routine that ends with \<open>n\<close> bytes read behind the opcode, and the rules by which the
  handlers are shown to: one for each call that reads or looks up.
\<close>

definition reads :: "int \<Rightarrow> dis \<Rightarrow> nat \<Rightarrow> dis_error + dis \<Rightarrow> bool" where
  "reads j s0 n r \<longleftrightarrow> (\<exists>t. r = Inr t \<and> read_at j s0 n t)"

lemma reads_Inr: "read_at j s0 n t \<Longrightarrow> reads j s0 n (Inr t)"
  by (simp add: reads_def)

lemma reads_bind_Inr: "reads j s0 n (f x) \<Longrightarrow> reads j s0 n (bindE (Inr x) f)"
  by simp

lemma reads_FETCH:
  assumes "read_at j s0 n s" "n < 7"
    "\<And>t. read_at j s0 (n + 1) t \<Longrightarrow> reads j s0 m (f (uint (code s0 n), t))"
  shows "reads j s0 m (bindE (FETCH s) f)"
  using FETCH_at [OF assms(1,2)] assms(3) by auto

lemma reads_FETCH2:
  assumes "read_at j s0 n s" "n < 6" "\<And>x t. read_at j s0 (n + 2) t \<Longrightarrow> reads j s0 m (f (x, t))"
  shows "reads j s0 m (bindE (FETCH2 s) f)"
  using FETCH2_at [OF assms(1,2)] assms(3) by auto

lemma reads_tab:
  assumes "0 \<le> i" "i < int (length xs)" "\<And>x. reads j s0 m (f x)"
  shows "reads j s0 m (bindE (tab_nth xs i) f)"
  using assms by (simp add: tab_nth_ok)

lemma reads_lookup:
  assumes "read_at j s0 n s" "tables_ok s0" "\<And>x. reads j s0 m (f x)"
  shows "reads j s0 m (bindE (lookup addr type kind ext s) f)"
  using lookup_ok [OF read_at_tables [OF assms(1,2)], of addr type kind ext] assms(3) by auto

lemma reads_lookext:
  assumes "read_at j s0 n s" "tables_ok s0" "\<And>x. reads j s0 m (f x)"
  shows "reads j s0 m (bindE (lookext off loc s) f)"
  using lookext_ok [OF read_at_tables [OF assms(1,2)], of off loc] assms(3) by auto

lemma mode_offset_at:
  assumes "read_at j s0 n s" "n + 2 \<le> 7"
  shows "\<exists>x t. mode_offset md s = Inr (x, t) \<and>
    read_at j s0 (n + (if md = 1 then 1 else if md = 2 then 2 else 0)) t"
  using FETCH_at [OF assms(1)] FETCH2_at [OF assms(1)] assms
  by (auto simp: mode_offset_def)

lemma mode_operand_at:
  assumes "read_at j s0 n s" "tables_ok s0" "md = 0 \<Longrightarrow> rm = 6 \<Longrightarrow> n + 2 \<le> 7"
    "0 \<le> rm" "rm < 8" "w = 0 \<or> w = 1"
  shows "\<exists>x t. mode_operand md rm w offset pc s = Inr (x, t) \<and>
    read_at j s0 (n + (if md = 0 \<and> rm = 6 then 2 else 0)) t"
proof (cases "md = 0 \<and> rm = 6")
  case True
  then obtain x t where t: "FETCH2 s = Inr (x, t)" "read_at j s0 (n + 2) t"
    using FETCH2_at [OF assms(1)] assms(3) by auto
  obtain y where "lookup x N_DATA LOOK_ABS pc t = Inr y"
    using lookup_ok [OF read_at_tables [OF t(2) assms(2)]] by blast
  with True t show ?thesis by (simp add: mode_operand_def)
next
  case False
  with assms(1) reg_index [OF assms(4-6)] assms(4,5) show ?thesis
    by (auto simp: mode_operand_def tab_nth_ok)
qed

lemma reads_mtrans:
  assumes s: "read_at j s0 n s" "tables_ok s0" "n + 2 \<le> 7"
    and type: "type = TR_STD \<or> type = TR_SEG \<and> mode_reg m < 4"
    and k: "\<And>a t. read_at j s0 (n + mode_len m) t \<Longrightarrow> reads j s0 l (f (a, t))"
  shows "reads j s0 l (bindE (mtrans c m type s) f)"
proof -
  define w where "w = (if type \<noteq> 0 then 1 else c AND 1)"
  have w: "w = 0 \<or> w = 1" using and_1_cases [of c] by (auto simp: w_def)
  let ?md = "mode_mod m" and ?rm = "mode_rm m" and ?pc = "sint (d_PC s + 1)"
  let ?n = "n + (if ?md = 1 then 1 else if ?md = 2 then 2 else 0)"
  obtain x t where t: "mode_offset ?md s = Inr (x, t)" "read_at j s0 ?n t"
    using mode_offset_at [OF s(1,3)] by blast
  have "?md = 0 \<Longrightarrow> ?rm = 6 \<Longrightarrow> ?n + 2 \<le> 7" using s(3) by simp
  from mode_operand_at [OF t(2) s(2) this mode_rm_range w] obtain y u where
    u: "mode_operand ?md ?rm w x ?pc t = Inr (y, u)"
      "read_at j s0 (?n + (if ?md = 0 \<and> ?rm = 6 then 2 else 0)) u"
    by blast
  have len: "?n + (if ?md = 0 \<and> ?rm = 6 then 2 else 0) = n + mode_len m"
    by (simp add: mode_len_def)
  have "0 \<le> type + (push_bit 3 w OR mode_reg m)" "type + (push_bit 3 w OR mode_reg m) < 20"
    using type reg_index [OF mode_reg_range w, of m] by (auto simp: TR_STD_def TR_SEG_def)
  then obtain r where "tab_nth REGS (type + (push_bit 3 w OR mode_reg m)) = Inr r"
    by (simp add: tab_nth_ok)
  with t(1) u k [of u] show ?thesis
    by (simp add: mtrans_def Let_def len flip: w_def)
qed

lemma reads_imm16:
  assumes "read_at j s0 n s" "tables_ok s0" "n + 2 \<le> 7"
    "\<And>x t. read_at j s0 (n + 2) t \<Longrightarrow> reads j s0 m (f (x, t))"
  shows "reads j s0 m (bindE (imm16 s) f)"
proof -
  obtain x t where t: "FETCH2 s = Inr (x, t)" "read_at j s0 (n + 2) t"
    using FETCH2_at [OF assms(1)] assms(3) by auto
  obtain y where "lookext x (sint (d_PC t - 1)) t = Inr y"
    using lookext_ok [OF read_at_tables [OF t(2) assms(2)]] by blast
  with t assms(4) show ?thesis by (simp add: imm16_def split: option.splits)
qed

lemma mode_len_masked: "mode_len (k AND 0xc7) = mode_len k"
proof -
  have "(k AND 0xc7) AND 0xc0 = k AND 0xc0" "(k AND 0xc7) AND 7 = k AND 7" for k :: int
    by (simp_all add: and.assoc)
  then show ?thesis by (simp add: mode_len_def mode_mod_def mode_rm_def)
qed

section \<open>The length of an instruction\<close>

text \<open>
  How many bytes the instruction with opcode \<open>j\<close> has, given its handler and the byte \<open>k\<close>
  behind the opcode: the specification that the handlers are compared with. A sequence
  that is no instruction counts two bytes.
\<close>

fun insn_len :: "handler \<Rightarrow> int \<Rightarrow> int \<Rightarrow> nat" where
  "insn_len Dfhand j k = 1"
| "insn_len Sbhand j k = 1"
| "insn_len Aohand j k = (if j AND 7 \<le> 3 then 2 + mode_len k else if j AND 7 = 4 then 2 else 3)"
| "insn_len Sjhand j k = 2"
| "insn_len Imhand j k =
     (if j AND 2 \<noteq> 0 \<and> (mode_reg k = 1 \<or> mode_reg k = 4 \<or> mode_reg k = 6) then 2
      else 2 + mode_len k + (if j AND 3 = 1 then 2 else 1))"
| "insn_len Mvhand j k = 2 + mode_len k"
| "insn_len Mshand j k = (if k AND 0x20 \<noteq> 0 then 2 else 2 + mode_len k)"
| "insn_len Pohand j k = (if k AND 0x38 \<noteq> 0 then 2 else 2 + mode_len k)"
| "insn_len Cihand j k = 5"
| "insn_len Mihand j k = (if j AND 8 \<noteq> 0 then 3 else 2)"
| "insn_len Mqhand j k = 3"
| "insn_len Tqhand j k = (if j AND 1 \<noteq> 0 then 3 else 2)"
| "insn_len Rehand j k = 3"
| "insn_len Mmhand j k = (if k AND 0x38 \<noteq> 0 then 2 else 2 + mode_len k + (if j AND 1 \<noteq> 0 then 2 else 1))"
| "insn_len Srhand j k = (if k AND 0x38 = 0x30 then 2 else 2 + mode_len k)"
| "insn_len Aahand j k = 2"
| "insn_len Iohand j k = 2"
| "insn_len Ljhand j k = 3"
| "insn_len Mahand j k = 2 + mode_len k + (if k AND 0x38 = 0 then if j AND 1 \<noteq> 0 then 2 else 1 else 0)"
| "insn_len Mjhand j k = 2 + mode_len k"
| "insn_len Eshand j k = 2 + mode_len k"
| "insn_len Inhand j k = (if ISFLOP k then 3 else 2)"

lemma reads_start:
  assumes "length (d_objbuf s) = OBJMAX"
    "\<And>t. read_at j s 1 t \<Longrightarrow> reads j s m (f (uint (code s 0), t))"
  shows "reads j s m (bindE (FETCH (objini j s)) f)"
  using reads_FETCH [OF read_at_objini [OF assms(1)]] assms(2) by simp

lemma reads_start2:
  assumes "length (d_objbuf s) = OBJMAX" "\<And>x t. read_at j s 2 t \<Longrightarrow> reads j s m (f (x, t))"
  shows "reads j s m (bindE (FETCH2 (objini j s)) f)"
proof (rule reads_FETCH2 [OF read_at_objini [OF assms(1)]])
  show "reads j s m (f (x, t))" if "read_at j s (0 + 2) t" for x t
    using that by (intro assms(2)) (simp only: add_0)
qed simp

text \<open>The byte behind the opcode is still in the buffer when the handlers look at it again.\<close>

lemma read_at_objbuf_1: "read_at j s0 n s \<Longrightarrow> 1 \<le> n \<Longrightarrow> d_objbuf s ! 1 = code s0 0"
proof -
  assume a: "read_at j s0 n s" "1 \<le> n"
  then have "take (n + 1) (d_objbuf s) ! 1 = (word_of_int j # map (code s0) [0..<n]) ! 1"
    by (simp add: read_at_def)
  with a show ?thesis by simp
qed

text \<open>The rules for continuations that take the value and the state apart.\<close>

lemmas reads_start_p = reads_start [where f = "case_prod g" for g, unfolded prod.case]
lemmas reads_start2_p = reads_start2 [where f = "case_prod g" for g, unfolded prod.case]
lemmas reads_FETCH_p = reads_FETCH [where f = "case_prod g" for g, unfolded prod.case]
lemmas reads_FETCH2_p = reads_FETCH2 [where f = "case_prod g" for g, unfolded prod.case]
lemmas reads_imm16_p = reads_imm16 [where f = "case_prod g" for g, unfolded prod.case]
lemmas reads_mtrans_p = reads_mtrans [where f = "case_prod g" for g, unfolded prod.case]

subsection \<open>Each handler\<close>

lemma reads_if:
  "(b \<Longrightarrow> reads j s n x) \<Longrightarrow> (\<not> b \<Longrightarrow> reads j s n y) \<Longrightarrow> reads j s n (if b then x else y)"
  by simp

lemma sbhand_reads:
  assumes "length (d_objbuf s) = OBJMAX"
  shows "reads j s 0 (sbhand j s)"
proof -
  have "read_at j s 0 t" if "t = objini j s \<or> (\<exists>x. t = objini j s\<lparr>d_segflg := x\<rparr>)" for t
    using that read_at_objini [OF assms, of j] by auto
  then show ?thesis by (auto simp: sbhand_def Let_def intro!: reads_Inr)
qed

lemma emit_jump_reads:
  assumes "read_at j s n t" "tables_ok s"
  shows "reads j s n (emit_jump j k kind ext t)"
  unfolding emit_jump_def
  by (rule reads_lookup [OF assms]) (simp add: reads_Inr assms)

lemma sjhand_reads:
  assumes "tables_ok s" "length (d_objbuf s) = OBJMAX"
  shows "reads j s 1 (sjhand j s)"
  unfolding sjhand_def
  by (rule reads_start [OF assms(2)]) (simp add: emit_jump_reads assms)

lemma ljhand_reads:
  assumes "tables_ok s" "length (d_objbuf s) = OBJMAX"
  shows "reads j s 2 (ljhand j s)"
  unfolding ljhand_def
  by (rule reads_start2 [OF assms(2)]) (simp add: emit_jump_reads assms)

lemma aohand_reads:
  assumes ok: "tables_ok s" "length (d_objbuf s) = OBJMAX" and j: "j AND 7 \<le> 5"
  shows "reads j s (insn_len Aohand j (uint (code s 0)) - 1) (aohand j s)"
proof -
  have ini: "read_at j s 0 (emit x (objini j s))" for x
    using read_at_objini [OF ok(2)] by simp
  consider "j AND 7 \<le> 3" | "j AND 7 = 4" | "j AND 7 = 5"
    using j by linarith
  then show ?thesis
  proof cases
    case 1
    have "reads j s (1 + mode_len (uint (code s 0)))
      (bindE (FETCH (emit (op_text j @ [TAB]) (objini j s)))
        (\<lambda>x. bindE (case x of (k, s) \<Rightarrow> bindE (mtrans j k TR_STD s) (\<lambda>(a, s). Inr (emit (a @ [NL]) s)))
             (\<lambda>s. Inr (objout s))))"
      by (rule reads_FETCH [OF ini], simp, simp add: bindE_assoc)
        (rule reads_mtrans [where n = 1], simp_all add: ok reads_Inr)
    with 1 show ?thesis
      by (simp add: aohand_def Let_def bindE_assoc)
  next
    case 2
    have "reads j s 1 (bindE (FETCH (objini j s))
        (\<lambda>x. bindE (case x of (k, s) \<Rightarrow> Inr (emit (op_text j @ TAB # ''al,*0x'' @ hex2 k s @ [NL]) s))
             (\<lambda>s. Inr (objout s))))"
      by (rule reads_start [OF ok(2)]) (simp add: reads_Inr)
    with 2 show ?thesis by (simp add: aohand_def Let_def bindE_assoc)
  next
    case 3
    have "reads j s 2 (bindE (FETCH2 (objini j s)) (\<lambda>x. bindE (case x of (k, s) \<Rightarrow>
           bindE (lookext k (sint (d_PC s - 1)) s) (\<lambda>r. Inr (emit (op_text j @ TAB # ''ax,#'' @
                    (case r of Some b \<Rightarrow> b | None \<Rightarrow> ''0x'' @ hex4 k s) @ [NL]) s)))
             (\<lambda>s. Inr (objout s))))"
      by (rule reads_start2 [OF ok(2)], simp add: bindE_assoc)
        (rule reads_lookext [where n = 2], simp_all add: ok reads_Inr)
    with 3 show ?thesis by (simp add: aohand_def Let_def bindE_assoc)
  qed
qed

lemma cihand_reads:
  assumes "length (d_objbuf s) = OBJMAX"
  shows "reads j s 4 (cihand j s)"
proof -
  have ini: "read_at j s 0 (emit x (objini j s))" for x
    using read_at_objini [OF assms] by simp
  show ?thesis
    unfolding cihand_def Let_def
    by (rule reads_FETCH2_p [OF ini], simp, rule reads_FETCH2_p [where n = 2])
      (simp_all add: reads_Inr eval_nat_numeral)
qed

lemma rehand_reads:
  assumes "length (d_objbuf s) = OBJMAX"
  shows "reads j s 2 (rehand j s)"
  unfolding rehand_def by (rule reads_start2 [OF assms]) (simp add: reads_Inr)

lemma iohand_reads:
  assumes "length (d_objbuf s) = OBJMAX"
  shows "reads j s 1 (iohand j s)"
  unfolding iohand_def by (rule reads_start [OF assms]) (simp add: reads_Inr)

lemma aahand_reads:
  assumes "length (d_objbuf s) = OBJMAX"
  shows "reads j s 1 (aahand j s)"
  unfolding aahand_def by (rule reads_start [OF assms]) (simp add: reads_Inr)

lemma mihand_reads:
  assumes ok: "tables_ok s" "length (d_objbuf s) = OBJMAX"
  shows "reads j s (insn_len Mihand j k - 1) (mihand j s)"
proof -
  have ini: "read_at j s 0 (emit x (objini j s))" for x
    using read_at_objini [OF ok(2)] by simp
  have "reads j s 2 (bindE (imm16 (emit (op_text j) (objini j s)))
      (\<lambda>(str, s). Inr (objout (emit (str @ [NL]) s))))"
    by (rule reads_imm16 [OF ini ok(1)]) (simp_all add: reads_Inr numeral_2_eq_2)
  moreover have "reads j s 1 (bindE (FETCH (emit (op_text j) (objini j s)))
      (\<lambda>(m, s). Inr (objout (emit (''*'' @ fmt_d m @ [NL]) s))))"
    by (rule reads_FETCH [OF ini]) (simp_all add: reads_Inr)
  ultimately show ?thesis by (simp add: mihand_def Let_def)
qed

lemma mqhand_reads:
  assumes ok: "tables_ok s" "length (d_objbuf s) = OBJMAX"
  shows "reads j s 2 (mqhand j s)"
proof -
  have r: "0 \<le> push_bit 3 (j AND 1)" "push_bit 3 (j AND 1) < 20"
    using and_1_cases [of j] by auto
  show ?thesis
    unfolding mqhand_def Let_def
    by (rule reads_start2_p [OF ok(2)], rule reads_lookup [where n = 2])
      (simp_all add: ok r reads_tab reads_Inr)
qed

lemma tqhand_reads:
  assumes ok: "tables_ok s" "length (d_objbuf s) = OBJMAX"
  shows "reads j s (insn_len Tqhand j k - 1) (tqhand j s)"
proof -
  have r: "0 \<le> push_bit 3 (j AND 1)" "push_bit 3 (j AND 1) < 20"
    using and_1_cases [of j] by auto
  have ini: "read_at j s 0 (emit x (objini j s))" for x
    using read_at_objini [OF ok(2)] by simp
  have "reads j s 2 (bindE (imm16 (emit x (objini j s)))
      (\<lambda>(str, s). Inr (objout (emit (str @ [NL]) s))))" for x
    by (rule reads_imm16 [OF ini ok(1)]) (simp_all add: reads_Inr numeral_2_eq_2)
  moreover have "reads j s 1 (bindE (FETCH (emit x (objini j s))) (\<lambda>(m, s).
      Inr (objout (emit (''*'' @ fmt_d (if m AND 80 \<noteq> 0 then cint s (m OR 0xff00) else m) @ [NL]) s))))" for x
    by (rule reads_FETCH [OF ini]) (simp_all add: reads_Inr)
  ultimately show ?thesis
    unfolding tqhand_def Let_def by (intro reads_tab) (simp_all add: r)
qed

lemma mvhand_reads:
  assumes ok: "tables_ok s" "length (d_objbuf s) = OBJMAX"
  shows "reads j s (1 + mode_len (uint (code s 0))) (mvhand j s)"
  unfolding mvhand_def Let_def
  by (rule reads_start_p [OF ok(2)], rule reads_mtrans_p [where n = 1]) (simp_all add: ok reads_Inr)

lemma pohand_reads:
  assumes ok: "tables_ok s" "length (d_objbuf s) = OBJMAX"
  shows "reads j s (insn_len Pohand j (uint (code s 0)) - 1) (pohand j s)"
  unfolding pohand_def Let_def
  by (rule reads_start_p [OF ok(2)], rule reads_if)
    (simp add: reads_Inr, rule reads_mtrans_p [where n = 1], simp_all add: ok reads_Inr)

lemma mode_reg_seg:
  fixes k :: int
  assumes "k AND 0x20 = 0"
  shows "mode_reg k < 4"
proof -
  have "k AND 0x38 = (k AND 0x20) OR (k AND 0x18)"
    by (simp flip: bit.conj_disj_distrib)
  with assms have "mode_reg k = drop_bit 3 (k AND 0x18)" by (simp add: mode_reg_def)
  moreover have "k AND 0x18 \<le> 0x18" "0 \<le> k AND 0x18" using AND_upper2 [of 24 k] by simp_all
  moreover have "x div 8 < 4" if "x \<le> 24" "0 \<le> x" for x :: int
    using that by presburger
  ultimately show ?thesis by (simp only: drop_bit_eq_div power3_eq_cube) simp
qed

lemma mshand_reads:
  assumes ok: "tables_ok s" "length (d_objbuf s) = OBJMAX"
  shows "reads j s (insn_len Mshand j (uint (code s 0)) - 1) (mshand j s)"
  unfolding mshand_def Let_def
  by (rule reads_start_p [OF ok(2)], rule reads_if)
    (simp add: reads_Inr, rule reads_mtrans_p [where n = 1], simp_all add: ok reads_Inr mode_reg_seg)

lemma srhand_reads:
  assumes ok: "tables_ok s" "length (d_objbuf s) = OBJMAX"
  shows "reads j s (insn_len Srhand j (uint (code s 0)) - 1) (srhand j s)"
proof -
  have r: "0 \<le> mode_reg k + 16" "mode_reg k + 16 < int (length OPFAM)" for k
    using mode_reg_range [of k] by simp_all
  show ?thesis
    unfolding srhand_def Let_def
    by (rule reads_start_p [OF ok(2)], rule reads_if)
      (simp add: reads_Inr, rule reads_tab [OF r], rule reads_mtrans_p [where n = 1],
       simp_all add: ok reads_Inr mode_len_masked)
qed

lemma imm16_or_8_reads:
  assumes "read_at j s n t" "tables_ok s" "n \<le> 3"
  shows "reads j s (n + (if b then 2 else 1))
    (if b then bindE (imm16 t) (\<lambda>(str, s). Inr (objout (emit (f str) s)))
     else bindE (FETCH t) (\<lambda>(k, s). Inr (objout (emit (g k) s))))"
  using assms(3)
  by (intro reads_if reads_imm16_p [OF assms(1,2)] reads_FETCH_p [OF assms(1)]) (simp_all add: reads_Inr)

lemma mmhand_reads:
  assumes ok: "tables_ok s" "length (d_objbuf s) = OBJMAX"
  shows "reads j s (insn_len Mmhand j (uint (code s 0)) - 1) (mmhand j s)"
proof -
  let ?k = "uint (code s 0)"
  show ?thesis
    unfolding mmhand_def Let_def
    by (rule reads_start_p [OF ok(2)], rule reads_if)
      (simp add: reads_Inr, rule reads_mtrans_p [where n = 1], simp add: ok, rule ok, simp, simp,
       use imm16_or_8_reads [OF _ ok(1), of j "1 + mode_len ?k"] mode_len_le [of ?k] in
        \<open>simp add: mode_len_masked\<close>)
qed

lemma mahand_reads:
  assumes ok: "tables_ok s" "length (d_objbuf s) = OBJMAX"
  shows "reads j s (insn_len Mahand j (uint (code s 0)) - 1) (mahand j s)"
proof -
  let ?k = "uint (code s 0)"
  have c1: "k AND 0x38 \<noteq> 0" if "mode_reg k = 1" for k :: int
    using that unfolding mode_reg_def by (metis drop_bit_of_0 zero_neq_one)
  have buf: "uint (d_objbuf t ! 1) = ?k" if "read_at j s (1 + mode_len (?k AND 0xc7)) t" for t
    using read_at_objbuf_1 [OF that] by simp
  show ?thesis
    unfolding mahand_def Let_def
    by (rule reads_start_p [OF ok(2)], rule reads_mtrans_p [where n = 1], simp, rule ok, simp, simp,
        simp only: buf,
        intro reads_if reads_imm16_p [where n = "1 + mode_len ?k"] reads_FETCH_p [where n = "1 + mode_len ?k"])
      (use c1 mode_len_le [of ?k] in \<open>simp_all add: ok mode_len_masked reads_Inr\<close>)
qed

lemma mjhand_reads:
  assumes ok: "tables_ok s" "length (d_objbuf s) = OBJMAX"
  shows "reads j s (1 + mode_len (uint (code s 0))) (mjhand j s)"
  unfolding mjhand_def Let_def
  by (rule reads_start_p [OF ok(2)], rule reads_mtrans_p [where n = 1], simp, rule ok, simp, simp,
      intro reads_if) (simp_all add: mode_len_masked reads_Inr)

lemma eshand_reads:
  assumes ok: "tables_ok s" "length (d_objbuf s) = OBJMAX"
  shows "reads j s (1 + mode_len (uint (code s 0))) (eshand j s)"
  unfolding eshand_def
  by (rule reads_start_p [OF ok(2)], rule reads_mtrans_p [where n = 1])
    (simp_all add: ok mode_len_masked reads_Inr)

lemma inhand_reads:
  assumes "length (d_objbuf s) = OBJMAX"
  shows "reads j s (insn_len Inhand j (uint (code s 0)) - 1) (inhand j s)"
  unfolding inhand_def fphand_def
  by (rule reads_start_p [OF assms], rule reads_if, rule reads_FETCH_p [where n = 1])
    (simp_all add: reads_Inr numeral_2_eq_2)

lemma reads_mode_offset:
  assumes "read_at j s0 n s" "n + 2 \<le> 7"
    "\<And>x t. read_at j s0 (n + (if md = 1 then 1 else if md = 2 then 2 else 0)) t \<Longrightarrow> reads j s0 m (f x t)"
  shows "reads j s0 m (bindE (mode_offset md s) (case_prod f))"
  using mode_offset_at [OF assms(1,2), of md] assms(3) by auto

lemma reads_im_operand:
  assumes "read_at j s0 n s" "tables_ok s0" "0 \<le> rm" "rm < 8" "\<And>x. reads j s0 m (f x)"
  shows "reads j s0 m (bindE (im_operand md rm (c AND 1) offset pc s) f)"
proof -
  obtain y where "lookup offset N_DATA LOOK_ABS pc s = Inr y"
    using lookup_ok [OF read_at_tables [OF assms(1,2)]] by blast
  with assms(3-5) reg_index [OF assms(3,4) and_1_cases [of c]] show ?thesis
    by (simp add: im_operand_def tab_nth_ok)
qed

lemma imhand_reads:
  assumes ok: "tables_ok s" "length (d_objbuf s) = OBJMAX"
  shows "reads j s (insn_len Imhand j (uint (code s 0)) - 1) (imhand j s)"
proof -
  let ?k = "uint (code s 0)"
  have r: "0 \<le> mode_reg k" "mode_reg k < int (length OPFAM)" for k
    using mode_reg_range [of k] by simp_all
  have off: "reads j s m (bindE (if mode_mod ?k = 0 \<and> mode_rm ?k = 6 then FETCH2 t
        else mode_offset (mode_mod ?k) t) (case_prod f))"
    if t: "read_at j s 1 t" "\<And>x u. read_at j s (1 + mode_len ?k) u \<Longrightarrow> reads j s m (f x u)" for m f t
  proof (cases "mode_mod ?k = 0 \<and> mode_rm ?k = 6")
    case True
    with t(2) show ?thesis
      unfolding if_P [OF True] by (intro reads_FETCH2_p [OF t(1)]) (simp_all add: mode_len_def)
  next
    case False
    then have len: "mode_len ?k = (if mode_mod ?k = 1 then 1 else if mode_mod ?k = 2 then 2 else 0)"
      by (auto simp: mode_len_def)
    show ?thesis
      unfolding if_not_P [OF False] by (intro reads_mode_offset [OF t(1)] t(2)) (simp_all add: len)
  qed
  have imm: "reads j s m (bindE (if j AND 3 = 1 then FETCH2 t else FETCH t) (case_prod f))"
    if t: "read_at j s (1 + mode_len ?k) t" 
      "\<And>x u. read_at j s (1 + mode_len ?k + (if j AND 3 = 1 then 2 else 1)) u \<Longrightarrow> reads j s m (f x u)" for m f t
  proof (cases "j AND 3 = 1")
    case True
    show ?thesis
      unfolding if_P [OF True] using mode_len_le [of ?k]
      by (intro reads_FETCH2_p [OF t(1)] t(2)) (simp_all add: True)
  next
    case False
    show ?thesis
      unfolding if_not_P [OF False] using mode_len_le [of ?k]
      by (intro reads_FETCH_p [OF t(1)] t(2)) (simp_all add: False)
  qed
  show ?thesis
    unfolding imhand_def Let_def
    by (rule reads_start_p [OF ok(2)], rule reads_if)
      (simp add: reads_Inr, rule reads_tab [OF r], rule off, simp, rule imm, simp,
       rule reads_im_operand [OF _ ok(1) mode_rm_range], simp, rule reads_Inr, auto)
qed

section \<open>The opcode table\<close>

text \<open>
  Facts about single rows of the table are evaluated for all 256 opcodes at once: the
  handler for the accumulator operations stands only where the low bits of the opcode select
  one of its cases, the minimum and the maximum of a row bound the length of the instruction
  (given the range of the displacement length), and they are \<open>0\<close> exactly in the rows
  without an instruction.
\<close>

fun len_bounds :: "handler \<Rightarrow> int \<Rightarrow> nat \<times> nat" where
  "len_bounds Aohand j = (if j AND 7 \<le> 3 then (2, 4) else if j AND 7 = 4 then (2, 2) else (3, 3))"
| "len_bounds Imhand j = (if j AND 3 = 1 then (4, 6) else (3, 5))"
| "len_bounds Mihand j = (if j AND 8 \<noteq> 0 then (3, 3) else (2, 2))"
| "len_bounds Tqhand j = (if j AND 1 \<noteq> 0 then (3, 3) else (2, 2))"
| "len_bounds Mmhand j = (if j AND 1 \<noteq> 0 then (4, 6) else (3, 5))"
| "len_bounds Mahand j = (if j AND 1 \<noteq> 0 then (2, 6) else (2, 5))"
| "len_bounds Dfhand j = (0, 0)"
| "len_bounds Sbhand j = (1, 1)"
| "len_bounds Cihand j = (5, 5)"
| "len_bounds Rehand j = (3, 3)"
| "len_bounds Ljhand j = (3, 3)"
| "len_bounds Mqhand j = (3, 3)"
| "len_bounds Sjhand j = (2, 2)"
| "len_bounds Aahand j = (2, 2)"
| "len_bounds Iohand j = (2, 2)"
| "len_bounds Inhand j = (2, 2)"
| "len_bounds Eshand j = (2, 2)"
| "len_bounds _ j = (2, 4)"

definition row_ok :: "int \<times> opcode \<Rightarrow> bool" where
  "row_ok r = (case r of (j, t, f, mn, mx) \<Rightarrow>
     (f = Aohand \<longrightarrow> j AND 7 \<le> 5) \<and> (f = Inhand \<longrightarrow> j = 0xcd) \<and> (mn, mx) = len_bounds f j)"

lemma rows_ok: "list_all row_ok (zip (map int [0..<256]) optab)"
  by code_simp

lemma length_optab: "length optab = 256"
  by code_simp

lemma row:
  assumes "0 \<le> j" "j < 256"
  shows "op_func j = Aohand \<Longrightarrow> j AND 7 \<le> 5" "op_func j = Inhand \<Longrightarrow> j = 0xcd"
    "(op_min j, op_max j) = len_bounds (op_func j) j"
proof -
  have j: "nat j < 256" using assms by simp
  then have "(j, optab ! nat j) \<in> set (zip (map int [0..<256]) optab)"
    using assms by (simp add: in_set_zip length_optab) (rule exI [of _ "nat j"], simp)
  with rows_ok have "row_ok (j, optab ! nat j)" by (simp only: list_all_iff)
  then show "op_func j = Aohand \<Longrightarrow> j AND 7 \<le> 5" "op_func j = Inhand \<Longrightarrow> j = 0xcd"
    "(op_min j, op_max j) = len_bounds (op_func j) j"
    by (auto simp: row_ok_def op_func_def op_min_def op_max_def split_beta)
qed

section \<open>Disassembling one instruction\<close>

lemma reads_eq: "reads j s n r \<Longrightarrow> n = m \<Longrightarrow> reads j s m r"
  by simp

lemmas handler_reads =
  reads_eq [OF sbhand_reads]
  reads_eq [OF aohand_reads]
  reads_eq [OF sjhand_reads]
  reads_eq [OF imhand_reads]
  reads_eq [OF mvhand_reads]
  reads_eq [OF mshand_reads]
  reads_eq [OF pohand_reads]
  reads_eq [OF cihand_reads]
  reads_eq [OF mihand_reads]
  reads_eq [OF mqhand_reads]
  reads_eq [OF tqhand_reads]
  reads_eq [OF rehand_reads]
  reads_eq [OF mmhand_reads]
  reads_eq [OF srhand_reads]
  reads_eq [OF aahand_reads]
  reads_eq [OF iohand_reads]
  reads_eq [OF ljhand_reads]
  reads_eq [OF mahand_reads]
  reads_eq [OF mjhand_reads]
  reads_eq [OF eshand_reads]
  reads_eq [OF inhand_reads]

lemma disasm_reads:
  assumes "0 \<le> j" "j < 256" "op_func j \<noteq> Dfhand" "tables_ok s" "length (d_objbuf s) = OBJMAX"
  shows "reads j s (insn_len (op_func j) j (uint (code s 0)) - 1) (disasm j s)"
proof -
  note ok = assms(4,5) and row = row(1) [OF assms(1,2)]
  show ?thesis
    by (insert assms(3), unfold disasm_def, cases "op_func j"; simp only: run_handler.simps simp_thms;
        rule handler_reads; simp add: ok row)
qed

end
