(* ===== verification/Dis_Main.thy ===== *)
theory Dis_Main
  imports Dis_Hand
begin

text \<open>
  The machine-independent part of the disassembler (\<open>Ack-5.5/dis88/dismain.c\<close>): the
  command line, the header and the tables of the input file, and the passes over the text,
  data and bss segments. The lemmas show that the passes end, that they read exactly the bytes
  of the segments, and that the directives written for the data segment stand for its bytes.

  The loops over a segment compare the program counter with the end of the segment in unsigned
  arithmetic; they are given a bound for the number of their rounds, and stop with
  \<open>No_fuel\<close> where it does not suffice.
\<close>

section \<open>Utility functions\<close>

definition zdump :: "u32 \<Rightarrow> dis \<Rightarrow> dis" where
  "zdump beg s =
     (let beg = d_PC s - beg
      in emit ((if beg > 1 then TAB # ''.zerow'' @ TAB # fmt_d (sint (drop_bit 1 beg)) @ [NL] else []) @
               (if beg AND 1 \<noteq> 0 then TAB # ''.byte'' @ TAB # ''0'' @ [NL] else [])) s)"

text \<open>The name behind the last slash.\<close>

definition invoker :: "string \<Rightarrow> string" where
  "invoker s = rev (takeWhile (\<lambda>c. c \<noteq> CHR ''/'') (rev s))"

text \<open>
  \<open>objdump\<close>: the argument tells whether the pointer is not \<open>NULL\<close>. The first part
  counts a full buffer of zeros, the second writes the zeros counted so far, the third writes
  the buffer.
\<close>

definition objdump_zeros :: "dis \<Rightarrow> bool \<times> dis" where
  "objdump_zeros s =
     (if d_zcount s \<noteq> 0
      then (True, emit (TAB # ''.zerow'' @ TAB # fmt_d (sint (drop_bit 1 (d_zcount s))) @ [NL]) s\<lparr>d_zcount := 0\<rparr>)
      else (False, s))"

definition byte_line :: "bytes \<Rightarrow> string" where
  "byte_line bs =
     TAB # ''.byte'' @ [TAB] @
     concat (map (\<lambda>k. ''0x'' @ fmt_x 2 (unat (bs ! k)) @ (if k < length bs - 1 then '','' else [NL])) [0..<length bs])"

definition objdump_bytes :: "bool \<times> dis \<Rightarrow> bool \<times> dis" where
  "objdump_bytes r =
     (case r of (retval, s) \<Rightarrow>
        if d_objptr s \<noteq> 0
        then (True, (emit (byte_line (take (d_objptr s) (d_objbuf s))) s)\<lparr>d_objptr := 0\<rparr>)
        else (retval, s))"

definition objdump :: "bool \<Rightarrow> dis \<Rightarrow> bool \<times> dis" where
  "objdump c s =
     (if d_objptr s = OBJMAX \<and> list_all (\<lambda>b. b = 0) (d_objbuf s) then
        let s = s\<lparr>d_zcount := d_zcount s + of_nat OBJMAX, d_objptr := 0\<rparr>
        in if \<not> c then (False, s) else objdump_bytes (objdump_zeros s)
      else objdump_bytes (objdump_zeros s))"

text \<open>
  \<open>getlab\<close>. The buffer \<open>c\<close> for the comment is static: it keeps what was written to it;
  it has room for nine characters.
\<close>

fun getlab_loop :: "nlist list \<Rightarrow> nat \<Rightarrow> byte \<Rightarrow> dis \<Rightarrow> dis_error + string option \<times> dis" where
  "getlab_loop [] k type s = Inr (None, s)"
| "getlab_loop (n # ns) k type s =
     (if n_value n = d_PC s \<and> n_sclass n AND N_SECT = type then
        bindE (getnam k s) (\<lambda>b.
          let c = (if d_objflg s \<and> type \<noteq> N_TEXT then ''| '' @ fmt_x 5 (unat (d_PC s)) @ [NL] else d_labc s)
          in if length c \<le> 9 then Inr (Some (b @ '':'' @ [NL] @ c), s\<lparr>d_labc := c\<rparr>)
             else Inl Table_overrun)
      else getlab_loop ns (k + 1) type s)"

definition getlab :: "byte \<Rightarrow> dis \<Rightarrow> dis_error + string option \<times> dis" where
  "getlab type s =
     (if d_symptr s < 0 then
        if type = N_TEXT \<or> type = N_DATA \<and> d_objptr s = 0 \<and> d_zcount s = 0
        then Inr (Some ((if type = N_TEXT then ''T'' else ''D'') @ fmt_x 5 (unat (d_PC s)) @ '':''), s)
        else Inr (None, s)
      else getlab_loop (take (nat (d_symptr s + 1)) (d_symtab s)) 0 type s)"

definition emit_label :: "string option \<Rightarrow> dis \<Rightarrow> dis" where
  "emit_label c s = (case c of None \<Rightarrow> s | Some b \<Rightarrow> emit b s)"

section \<open>The declarations\<close>

fun prolog_globals :: "nlist list \<Rightarrow> nat \<Rightarrow> nat \<Rightarrow> dis \<Rightarrow> dis_error + nat \<times> dis" where
  "prolog_globals [] j flag s = Inr (flag, s)"
| "prolog_globals (n # ns) j flag s =
     (if n_sclass n AND N_CLASS = C_EXT then
        if n_sclass n AND N_SECT > N_UNDF \<and> n_sclass n AND N_SECT < N_COMM then
          bindE (getnam j s) (\<lambda>c.
            prolog_globals ns (j + 1) (flag + 1)
              (emit (TAB # ''.globl'' @ TAB # c @
                 (if flag = 0 then [TAB] @ (if length c < 8 then [TAB] else []) @ ''| Internal global'' @ [NL]
                  else [NL])) s))
        else if n_value n \<noteq> 0 then
          bindE (getnam j s) (\<lambda>c.
            prolog_globals ns (j + 1) (flag + 1)
              (emit (TAB # ''.comm'' @ TAB # c @ '',0x'' @ fmt_x 8 (unat (n_value n)) @
                 (if flag = 0 then TAB # ''| Internal global'' @ [NL] else [NL])) s))
        else prolog_globals ns (j + 1) flag s
      else prolog_globals ns (j + 1) flag s)"

fun prolog_undef :: "reloc list \<Rightarrow> nat \<Rightarrow> dis \<Rightarrow> dis_error + nat \<times> dis" where
  "prolog_undef [] flag s = Inr (flag, s)"
| "prolog_undef (r # rs) flag s =
     (if r_symndx r < S_BSS then
        bindE (getnam (unat (r_symndx r)) s) (\<lambda>c.
          prolog_undef rs (flag + 1)
            (emit (TAB # ''.globl'' @ TAB # c @ [TAB] @ (if length c < 8 then [TAB] else []) @
               ''| Undef: '' @ fmt_x 5 (unat (r_vaddr r)) @ [NL]) s))
      else prolog_undef rs flag s)"

fun prolog_literals :: "nlist list \<Rightarrow> nat \<Rightarrow> nat \<Rightarrow> dis \<Rightarrow> dis_error + nat \<times> dis" where
  "prolog_literals [] j flag s = Inr (flag, s)"
| "prolog_literals (n # ns) j flag s =
     (if n_sclass n AND N_SECT = N_ABS then
        bindE (getnam j s) (\<lambda>c.
          prolog_literals ns (j + 1) (flag + 1)
            (emit (c @ ''=0x'' @ fmt_x 8 (unat (n_value n)) @
               (if flag = 0 then TAB # TAB # (if length c < 5 then [TAB] else []) @ ''| Literal'' @ [NL]
                else [NL])) s))
      else prolog_literals ns (j + 1) flag s)"

definition blank_line :: "nat \<times> dis \<Rightarrow> dis" where
  "blank_line r = (case r of (flag, s) \<Rightarrow> if flag \<noteq> 0 then emit [NL] s else s)"

definition prolog :: "dis \<Rightarrow> dis_error + dis" where
  "prolog s =
     (if d_symptr s < 0 then Inr s
      else
        let syms = take (nat (d_symptr s + 1)) (d_symtab s)
        in bindE (prolog_globals syms 0 0 s) (\<lambda>r.
           bindE (prolog_undef (take (nat (d_relptr s + 1)) (d_relo s)) 0 (blank_line r)) (\<lambda>r.
           bindE (prolog_literals syms 0 0 (blank_line r)) (\<lambda>r. Inr (blank_line r)))))"

section \<open>The text segment\<close>

definition skip_header :: "dis \<Rightarrow> dis" where
  "skip_header s = s\<lparr>d_inp := drop (unat (a_hdrlen (d_hdr s))) (d_inp s)\<rparr>"

fun distext_loop :: "nat \<Rightarrow> dis \<Rightarrow> dis_error + dis" where
  "distext_loop 0 s = Inl No_fuel"
| "distext_loop (Suc n) s =
     (if d_PC s < a_text (d_hdr s) then
        let (j, s) = dis_getchar s
        in if j = 0 \<and> d_PC s + 1 = a_text (d_hdr s) then Inr (s\<lparr>d_PC := d_PC s + 1\<rparr>)
           else
             bindE (getlab N_TEXT s) (\<lambda>(c, s).
             bindE (disasm j (emit_label c s)) (\<lambda>s.
               distext_loop n (s\<lparr>d_PC := d_PC s + 1\<rparr>)))
      else Inr s)"

definition release :: string where "release = ''release 2.1 (MINIX)''"

definition seg_heading :: "string \<Rightarrow> u32 \<Rightarrow> dis \<Rightarrow> dis" where
  "seg_heading name sz s =
     emit (TAB # name @ TAB # TAB # TAB # ''| loc = '' @ fmt_x 5 (unat (d_PC s)) @ '', size = '' @
           fmt_x 5 (unat sz) @ [NL, NL]) s"

definition text_heading :: "string \<Rightarrow> string \<Rightarrow> dis \<Rightarrow> dis" where
  "text_heading prg ifile s =
     emit (''| '' @ prg @ '', '' @ release @ [NL, NL] @ ''| @(#)'' @ TAB # ''Disassembly of '' @ ifile @
           (if d_symptr s < 0 then '' (no symbols)'' else []) @ [NL, NL] @
           (if a_flags (d_hdr s) AND A_EXEC \<noteq> 0 then ''| File is executable'' @ [NL, NL] else []) @
           (if a_flags (d_hdr s) AND A_SEP \<noteq> 0
            then ''| File has split I/D space, and may have'' @ [NL] @
                 ''| extraneous instructions in text segment'' @ [NL, NL] else [])) s"

definition distext :: "string \<Rightarrow> string \<Rightarrow> dis \<Rightarrow> dis_error + dis" where
  "distext prg ifile s =
     bindE (prolog (text_heading prg ifile (skip_header s))) (\<lambda>s.
       let s = seg_heading ''.text'' (a_text (d_hdr s)) s
       in distext_loop (unat (a_text (d_hdr s)) + 1) (s\<lparr>d_segflg := 0, d_PC := 0\<rparr>))"

section \<open>The data segment\<close>

text \<open>The round of the loop: the label, the full buffer, the byte.\<close>

definition data_label :: "string option \<Rightarrow> dis \<Rightarrow> dis" where
  "data_label c s = (case c of None \<Rightarrow> s | Some b \<Rightarrow> emit b (snd (objdump True s)))"

definition data_flush :: "dis \<Rightarrow> dis" where
  "data_flush s =
     (if d_objptr s \<ge> OBJMAX then
        let (r, s) = objdump False s
        in if r \<and> d_symptr s < 0 then emit (''D'' @ fmt_x 5 (unat (d_PC s)) @ '':'') s else s
      else s)"

fun disdata_loop :: "nat \<Rightarrow> u32 \<Rightarrow> dis \<Rightarrow> dis_error + dis" where
  "disdata_loop 0 end' s = Inl No_fuel"
| "disdata_loop (Suc n) end' s =
     (if d_PC s < end' then
        bindE (getlab N_DATA s) (\<lambda>(c, s).
          let (j, s) = dis_getchar (data_flush (data_label c s))
          in if d_objptr s < OBJMAX then
               disdata_loop n end'
                 (s\<lparr>d_objbuf := (d_objbuf s)[d_objptr s := word_of_int j], d_objptr := d_objptr s + 1,
                    d_PC := d_PC s + 1\<rparr>)
             else Inl Objbuf_overflow)
      else Inr s)"

definition disdata :: "dis \<Rightarrow> dis_error + dis" where
  "disdata s =
     (let h = d_hdr s;
          s = emit [NL] s;
          (s, end') = (if a_flags h AND A_SEP \<noteq> 0 then (s\<lparr>d_PC := 0\<rparr>, a_data h) else (s, a_text h + a_data h));
          s = seg_heading ''.data'' (a_data h) s
      in bindE (disdata_loop (unat end' + 1) end' (s\<lparr>d_segflg := 0, d_objptr := 0, d_zcount := 0\<rparr>))
           (\<lambda>s. Inr (snd (objdump True s))))"

section \<open>The bss segment\<close>

fun disbss_loop :: "nat \<Rightarrow> u32 \<Rightarrow> u32 \<Rightarrow> dis \<Rightarrow> dis_error + u32 \<times> dis" where
  "disbss_loop 0 end' beg s = Inl No_fuel"
| "disbss_loop (Suc n) end' beg s =
     (if d_PC s < end' then
        bindE (getlab N_BSS s) (\<lambda>(c, s).
          case c of
            None \<Rightarrow> disbss_loop n end' beg (s\<lparr>d_PC := d_PC s + 1\<rparr>)
          | Some b \<Rightarrow>
              let (s, beg) = (if d_PC s > beg then (zdump beg s, d_PC s) else (s, beg));
                  s = emit b s
              in disbss_loop n end' beg (s\<lparr>d_PC := d_PC s + 1\<rparr>))
      else Inr (beg, s))"

definition disbss :: "dis \<Rightarrow> dis_error + dis" where
  "disbss s =
     (let h = d_hdr s;
          s = emit [NL] s;
          end' = (if a_flags h AND A_SEP \<noteq> 0 then a_data h + a_bss h else a_text h + a_data h + a_bss h);
          s = seg_heading ''.bss'' (a_bss h) s
      in bindE (disbss_loop (unat end' + 1) end' (d_PC s) (s\<lparr>d_segflg := 0\<rparr>)) (\<lambda>(beg, s).
           Inr (if d_PC s > beg then zdump beg s else s)))"

section \<open>The program\<close>

text \<open>
  The command line: the input file, the output file and the number of \<open>-o\<close> options.
\<close>

definition usage :: "string \<Rightarrow> dis_error" where
  "usage prg = Fatal (''Usage: '' @ prg @ '' [-o] ifile [ofile]'')"

fun dis_args :: "string \<Rightarrow> string list \<Rightarrow> string option \<Rightarrow> string option \<Rightarrow> nat \<Rightarrow>
    dis_error + string option \<times> string option \<times> nat" where
  "dis_args prg [] ifile ofile obj = Inr (ifile, ofile, obj)"
| "dis_args prg (a # as) ifile ofile obj =
     (if a \<noteq> [] \<and> hd a = CHR ''-'' then
        if tl a \<noteq> [] \<and> hd (tl a) = CHR ''o'' then
          if tl (tl a) \<noteq> [] then Inl (usage prg) else dis_args prg as ifile ofile (obj + 1)
        else Inl (usage prg)
      else if ifile = None then dis_args prg as (Some a) ofile obj
      else if ofile = None then dis_args prg as ifile (Some a) obj
      else Inl (usage prg))"

text \<open>
  \<open>read(fd, p, n)\<close> at a position of the file, into memory that is zero: what the file
  does not have stays zero.
\<close>

definition read_struct :: "bytes \<Rightarrow> nat \<Rightarrow> nat \<Rightarrow> bytes" where
  "read_struct f pos n = seg f pos n @ replicate (n - length (seg f pos n)) 0"

definition SZ_EXEC :: nat where "SZ_EXEC = 48"
definition SZ_RELOC :: nat where "SZ_RELOC = 8"
definition SZ_NLIST :: nat where "SZ_NLIST = 16"

definition dec_exec :: "bytes \<Rightarrow> exec" where
  "dec_exec b =
     \<lparr>a_magic0 = b ! 0, a_magic1 = b ! 1, a_flags = b ! 2, a_cpu = b ! 3, a_hdrlen = b ! 4,
      a_text = get4 (drop 8 b), a_data = get4 (drop 12 b), a_bss = get4 (drop 16 b),
      a_syms = get4 (drop 28 b), a_trsize = get4 (drop 32 b), a_drsize = get4 (drop 36 b)\<rparr>"

definition dec_reloc :: "bytes \<Rightarrow> reloc" where
  "dec_reloc b = \<lparr>r_vaddr = get4 b, r_symndx = get2 (drop 4 b)\<rparr>"

definition dec_nlist :: "bytes \<Rightarrow> nlist" where
  "dec_nlist b = \<lparr>n_name = take 8 b, n_value = get4 (drop 8 b), n_sclass = b ! 12\<rparr>"

text \<open>The loop that reads a table; each \<open>read\<close> moves the position by what it has read.\<close>

definition read_table :: "(bytes \<Rightarrow> 'a) \<Rightarrow> nat \<Rightarrow> bytes \<Rightarrow> nat \<Rightarrow> nat \<Rightarrow> 'a list" where
  "read_table dec sz f pos n = map (\<lambda>i. dec (read_struct f (pos + i * sz) sz)) [0..<n]"

text \<open>
  \<open>lseek(fd, off, 0) != off\<close> is an error; a negative offset leaves the position as it is and
  yields \<open>-1\<close>. A position is the new one, or the error.
\<close>

definition seek_table :: "nat \<Rightarrow> u32 \<Rightarrow> dis_error + nat" where
  "seek_table pos off =
     (if sint off \<ge> 0 then Inr (nat (sint off))
      else if sint off = -1 then Inr pos else Inl (Fatal ''lseek error''))"

definition A_MINHDR :: byte where "A_MINHDR = 32"
definition A_I8086 :: byte where "A_I8086 = 4"
definition A_MAGIC0 :: byte where "A_MAGIC0 = 1"
definition A_MAGIC1 :: byte where "A_MAGIC1 = 3"

definition load_header :: "string \<Rightarrow> bytes \<Rightarrow> dis_error + exec" where
  "load_header ifile f =
     (let h = dec_exec (read_struct f 0 SZ_EXEC)
      in if a_magic0 h \<noteq> A_MAGIC0 \<or> a_magic1 h \<noteq> A_MAGIC1 then
           Inl (Fatal (''input file '' @ ifile @ '' not in object format''))
         else if a_cpu h \<noteq> A_I8086 then
           Inl (Fatal (ifile @ '' is not an 8086/8088 object file''))
         else
           Inr (if a_hdrlen h \<le> A_MINHDR then h\<lparr>a_trsize := 0, a_drsize := 0\<rparr> else h))"

definition load_tables :: "exec \<Rightarrow> bytes \<Rightarrow> dis_error + reloc list \<times> nlist list" where
  "load_tables h f =
     (let reloff = a_text h + a_data h + ucast (a_hdrlen h);
          relnum = unat (a_trsize h + a_drsize h) div SZ_RELOC;
          taboff = reloff + a_trsize h + a_drsize h;
          tabnum = unat (a_syms h) div SZ_NLIST
      in if relnum > MAXSYM then Inl (Fatal ''reloc table overflow'')
         else if tabnum > MAXSYM then Inl (Fatal ''symbol table overflow'')
         else
           bindE (if relnum \<noteq> 0
                  then bindE (seek_table (min SZ_EXEC (length f)) reloff) (\<lambda>pos.
                         Inr (read_table dec_reloc SZ_RELOC f pos relnum,
                              max pos (min (length f) (pos + relnum * SZ_RELOC))))
                  else Inr ([], min SZ_EXEC (length f))) (\<lambda>(rs, pos).
           bindE (if tabnum \<noteq> 0
                  then bindE (seek_table pos taboff) (\<lambda>pos. Inr (read_table dec_nlist SZ_NLIST f pos tabnum))
                  else Inr []) (\<lambda>ns. Inr (rs, ns))))"

definition dis_init :: "nat \<Rightarrow> exec \<Rightarrow> reloc list \<Rightarrow> nlist list \<Rightarrow> bool \<Rightarrow> bytes \<Rightarrow> dis" where
  "dis_init w h rs ns obj f =
     \<lparr>d_int = w, d_symtab = ns, d_symptr = int (length ns) - 1, d_relo = rs, d_relptr = int (length rs) - 1,
      d_hdr = h, d_objflg = obj, d_segflg = 0, d_objbuf = replicate OBJMAX 0, d_objptr = 0, d_PC = 0,
      d_zcount = 0, d_labc = [], d_inp = f, d_out = []\<rparr>"

definition dis_passes :: "string \<Rightarrow> string \<Rightarrow> dis \<Rightarrow> dis_error + dis" where
  "dis_passes prg ifile s = bindE (distext prg ifile s) (\<lambda>s. bindE (disdata s) disbss)"

definition APOS :: char where "APOS = CHR 0x27"

text \<open>
  \<open>main\<close>: \<open>files\<close> says what can be opened for reading, \<open>can_create\<close> what can be
  opened for writing; \<open>w\<close> is the width of \<open>int\<close>. The result is the final state, with
  the text written to standard output or to the output file in \<open>d_out\<close>.
\<close>

definition dis_main ::
    "nat \<Rightarrow> (string \<Rightarrow> bytes option) \<Rightarrow> (string \<Rightarrow> bool) \<Rightarrow> string \<Rightarrow> string list \<Rightarrow> dis_error + dis" where
  "dis_main w files can_create argv0 args =
     (let prg = invoker argv0
      in bindE (dis_args prg args None None 0) (\<lambda>(ifile, ofile, obj).
           case ifile of
             None \<Rightarrow> Inl (usage prg)
           | Some ifile \<Rightarrow>
               (case files ifile of
                  None \<Rightarrow> Inl (Fatal (''can'' @ [APOS] @ ''t access input file '' @ ifile))
                | Some f \<Rightarrow>
                    bindE (case ofile of
                             None \<Rightarrow> Inr ()
                           | Some out \<Rightarrow> checkE (can_create out) (Fatal (''can'' @ [APOS] @ ''t open output file '' @ out))) (\<lambda>_.
                    bindE (load_header ifile f) (\<lambda>h.
                    bindE (load_tables h f) (\<lambda>(rs, ns).
                      dis_passes prg ifile (dis_init w h rs ns (obj \<noteq> 0) f)))))))"

section \<open>What the passes keep\<close>

text \<open>
  The passes do not change the tables, the header and the options. What every step needs and
  keeps: tables whose entries name existing symbols, an object buffer of the declared size
  and a label comment that fits its buffer.
\<close>

definition same_file :: "dis \<Rightarrow> dis \<Rightarrow> bool" where
  "same_file s t \<longleftrightarrow>
     d_symtab t = d_symtab s \<and> d_symptr t = d_symptr s \<and> d_relo t = d_relo s \<and>
     d_relptr t = d_relptr s \<and> d_hdr t = d_hdr s \<and> d_int t = d_int s \<and> d_objflg t = d_objflg s"

definition dis_inv :: "dis \<Rightarrow> bool" where
  "dis_inv s \<longleftrightarrow> tables_ok s \<and> length (d_objbuf s) = OBJMAX \<and> length (d_labc s) \<le> 9"

lemma same_file_refl [simp]: "same_file s s"
  by (simp add: same_file_def)

lemma same_file_trans: "same_file s t \<Longrightarrow> same_file t u \<Longrightarrow> same_file s u"
  by (simp add: same_file_def)

lemma same_file_emit [simp]: "same_file s (emit x t) = same_file s t"
  by (simp add: same_file_def emit_def)

lemma same_file_update [simp]:
  "same_file s (t\<lparr>d_PC := x1\<rparr>) = same_file s t" "same_file s (t\<lparr>d_segflg := x2\<rparr>) = same_file s t"
  "same_file s (t\<lparr>d_objptr := x3\<rparr>) = same_file s t" "same_file s (t\<lparr>d_zcount := x4\<rparr>) = same_file s t"
  "same_file s (t\<lparr>d_labc := x5\<rparr>) = same_file s t" "same_file s (t\<lparr>d_inp := x6\<rparr>) = same_file s t"
  "same_file s (t\<lparr>d_objbuf := x7\<rparr>) = same_file s t"
  by (simp_all add: same_file_def)

lemma same_file_tables: "same_file s t \<Longrightarrow> tables_ok t = tables_ok s"
  by (simp add: same_file_def tables_ok_def)

lemma tables_ok_update [simp]:
  "tables_ok (emit x t) = tables_ok t" "tables_ok (t\<lparr>d_PC := x1\<rparr>) = tables_ok t"
  "tables_ok (t\<lparr>d_segflg := x2\<rparr>) = tables_ok t" "tables_ok (t\<lparr>d_objptr := x3\<rparr>) = tables_ok t"
  "tables_ok (t\<lparr>d_zcount := x4\<rparr>) = tables_ok t" "tables_ok (t\<lparr>d_labc := x5\<rparr>) = tables_ok t"
  "tables_ok (t\<lparr>d_inp := x6\<rparr>) = tables_ok t" "tables_ok (t\<lparr>d_objbuf := x7\<rparr>) = tables_ok t"
  by (simp_all add: tables_ok_def emit_def)

lemma emit_fields [simp]:
  "d_PC (emit x s) = d_PC s" "d_inp (emit x s) = d_inp s" "d_objbuf (emit x s) = d_objbuf s"
  "d_objptr (emit x s) = d_objptr s" "d_zcount (emit x s) = d_zcount s" "d_labc (emit x s) = d_labc s"
  "d_symptr (emit x s) = d_symptr s" "d_hdr (emit x s) = d_hdr s" "d_symtab (emit x s) = d_symtab s"
  "d_objflg (emit x s) = d_objflg s" "d_out (emit x s) = d_out s @ x" "d_relo (emit x s) = d_relo s"
  "d_relptr (emit x s) = d_relptr s" "d_int (emit x s) = d_int s"
  by (simp_all add: emit_def)

lemma dis_inv_update [simp]:
  "dis_inv (emit x t) = dis_inv t" "dis_inv (t\<lparr>d_PC := x1\<rparr>) = dis_inv t"
  "dis_inv (t\<lparr>d_segflg := x2\<rparr>) = dis_inv t" "dis_inv (t\<lparr>d_objptr := x3\<rparr>) = dis_inv t"
  "dis_inv (t\<lparr>d_zcount := x4\<rparr>) = dis_inv t" "dis_inv (t\<lparr>d_inp := x6\<rparr>) = dis_inv t"
  "dis_inv (t\<lparr>d_objbuf := (d_objbuf t)[i := b]\<rparr>) = dis_inv t"
  by (simp_all add: dis_inv_def)

lemma length_digits: "n < base ^ k \<Longrightarrow> 2 \<le> base \<Longrightarrow> 0 < k \<Longrightarrow> length (digits base n) \<le> k"
proof (induction k arbitrary: n)
  case (Suc k)
  show ?case
  proof (cases "n < base")
    case True
    then show ?thesis by (subst digits.simps) simp
  next
    case False
    with Suc.prems have "0 < k" by (cases k) simp_all
    moreover have "n div base < base ^ k"
      using Suc.prems(1) by (simp add: less_mult_imp_div_less mult.commute)
    ultimately have "length (digits base (n div base)) \<le> k"
      using Suc.IH Suc.prems(2) by blast
    with False Suc.prems(2) show ?thesis
      by (subst digits.simps) simp
  qed
qed simp

lemma length_fmt_x: "n < 16 ^ k \<Longrightarrow> p \<le> k \<Longrightarrow> 0 < k \<Longrightarrow> length (fmt_x p n) \<le> k"
  using length_digits [of n 16 k] by (simp add: fmt_x_def)

lemma getlab_loop_ok:
  assumes "length (d_labc s) \<le> 9" "unat (d_PC s) < 2 ^ 24" "k + length ns \<le> length (d_symtab s)"
  shows "\<exists>c l. getlab_loop ns k type s = Inr (c, s\<lparr>d_labc := l\<rparr>) \<and> length l \<le> 9"
  using assms(3)
proof (induction ns arbitrary: k)
  case Nil
  have "s = s\<lparr>d_labc := d_labc s\<rparr>" by simp
  with assms(1) show ?case by (metis getlab_loop.simps(1))
next
  case (Cons n ns)
  obtain nm where nm: "getnam k s = Inr nm" using Cons.prems by (simp add: getnam_def Let_def)
  define c where "c = (if d_objflg s \<and> type \<noteq> N_TEXT then ''| '' @ fmt_x 5 (unat (d_PC s)) @ [NL] else d_labc s)"
  have c: "length c \<le> 9"
    using length_fmt_x [of "unat (d_PC s)" 6 5] assms(1,2) by (simp add: c_def)
  have "getlab_loop (n # ns) k type s = Inr (Some (nm @ '':'' @ [NL] @ c), s\<lparr>d_labc := c\<rparr>)"
    if "n_value n = d_PC s \<and> n_sclass n AND N_SECT = type"
    using that nm c by (simp add: Let_def flip: c_def)
  moreover have "\<exists>c l. getlab_loop ns (k + 1) type s = Inr (c, s\<lparr>d_labc := l\<rparr>) \<and> length l \<le> 9"
    using Cons.prems by (intro Cons.IH) simp
  ultimately show ?case
  proof (cases "n_value n = d_PC s \<and> n_sclass n AND N_SECT = type")
    case False
    then have "getlab_loop (n # ns) k type s = getlab_loop ns (k + 1) type s" by auto
    then show ?thesis using \<open>\<exists>c l. getlab_loop ns (k + 1) type s = Inr (c, s\<lparr>d_labc := l\<rparr>) \<and> length l \<le> 9\<close> by metis
  qed (use c in blast)
qed

lemma getlab_ok:
  assumes "dis_inv s" "unat (d_PC s) < 2 ^ 24"
  shows "\<exists>c l. getlab type s = Inr (c, s\<lparr>d_labc := l\<rparr>) \<and> length l \<le> 9"
proof (cases "d_symptr s < 0")
  case True
  have "s = s\<lparr>d_labc := d_labc s\<rparr>" by simp
  moreover have "\<exists>c. getlab type s = Inr (c, s)" using True by (simp add: getlab_def)
  ultimately show ?thesis using assms(1) by (metis dis_inv_def)
next
  case False
  with getlab_loop_ok [of s 0 "take (nat (d_symptr s + 1)) (d_symtab s)" type] assms show ?thesis
    by (simp add: getlab_def dis_inv_def)
qed

lemma dis_inv_labc: "dis_inv s \<Longrightarrow> length l \<le> 9 \<Longrightarrow> dis_inv (s\<lparr>d_labc := l\<rparr>)"
  by (simp add: dis_inv_def)

lemma emit_label_cases: "(\<And>x. P (emit x s)) \<Longrightarrow> P s \<Longrightarrow> P (emit_label c s)"
  by (cases c) (simp_all add: emit_label_def)

section \<open>The text pass\<close>

lemma insn_len_range: "1 \<le> insn_len f j k" "insn_len f j k \<le> 6"
  using mode_len_le [of k] by (cases f; simp)+

lemma disasm_step:
  assumes "dis_inv s" "0 \<le> j" "j < 256"
  shows "\<exists>t m. disasm j s = Inr t \<and> same_file s t \<and> dis_inv t \<and> m \<le> 5 \<and>
    d_PC t = d_PC s + of_nat m \<and> d_inp t = drop m (d_inp s)"
proof (cases "op_func j = Dfhand")
  case True
  with assms(1) show ?thesis
    by (simp add: disasm_def dfhand_def Let_def exI [of _ "0 :: nat"])
next
  case False
  let ?m = "insn_len (op_func j) j (uint (code s 0)) - 1"
  have "reads j s ?m (disasm j s)"
    using disasm_reads [OF assms(2,3) False] assms(1) by (simp add: dis_inv_def)
  then obtain t where t: "disasm j s = Inr t" "read_at j s ?m t"
    by (auto simp: reads_def)
  then have "same_file s t" "dis_inv t" "d_PC t = d_PC s + of_nat ?m" "d_inp t = drop ?m (d_inp s)"
    using assms(1) read_at_tables [OF t(2)]
    by (simp_all add: read_at_def same_file_def dis_inv_def)
  moreover have "?m \<le> 5" using insn_len_range(2) [of "op_func j" j "uint (code s 0)"] by simp
  ultimately show ?thesis using t(1) by blast
qed

lemma dis_getchar_code: "dis_getchar s = (uint (code s 0), s\<lparr>d_inp := drop 1 (d_inp s)\<rparr>)"
  by (cases "d_inp s") (simp_all add: dis_getchar_def code_def)

lemma unat_add_small: "unat (x :: u32) + m < 2 ^ 32 \<Longrightarrow> unat (x + of_nat m) = unat x + m"
  by (simp add: unat_word_ariths unat_of_nat mod_add_right_eq)

lemma distext_loop_run:
  assumes "dis_inv s" "unat (a_text (d_hdr s)) < 2 ^ 24" "unat (d_PC s) \<le> unat (a_text (d_hdr s)) + 5"
    "unat (a_text (d_hdr s)) < unat (d_PC s) + n" "0 < n"
  shows "\<exists>t m. distext_loop n s = Inr t \<and> same_file s t \<and> dis_inv t \<and>
    unat (d_PC t) = unat (d_PC s) + m \<and> d_inp t = drop m (d_inp s) \<and>
    unat (a_text (d_hdr s)) \<le> unat (d_PC t) \<and> unat (d_PC t) \<le> unat (a_text (d_hdr s)) + 5"
  using assms
proof (induction n arbitrary: s)
  case (Suc n)
  show ?case
  proof (cases "d_PC s < a_text (d_hdr s)")
    case False
    with Suc.prems show ?thesis by (intro exI [of _ s] exI [of _ 0]) (simp add: word_less_nat_alt)
  next
    case True
    let ?s = "s\<lparr>d_inp := drop 1 (d_inp s)\<rparr>" and ?j = "uint (code s 0)"
    have lt: "unat (d_PC s) < unat (a_text (d_hdr s))" using True by (simp add: word_less_nat_alt)
    then have pc1: "unat (d_PC s + 1) = unat (d_PC s) + 1"
      using unat_add_small [of "d_PC s" 1] Suc.prems(2) by simp
    show ?thesis
    proof (cases "?j = 0 \<and> d_PC s + 1 = a_text (d_hdr s)")
      case last: True
      with Suc.prems True lt pc1 show ?thesis
        by (intro exI [of _ "?s\<lparr>d_PC := d_PC s + 1\<rparr>"] exI [of _ 1]) (simp add: dis_getchar_code)
    next
      case False
      obtain c l where lab: "getlab N_TEXT ?s = Inr (c, ?s\<lparr>d_labc := l\<rparr>)" "length l \<le> 9"
        using getlab_ok [of ?s N_TEXT] Suc.prems lt by auto
      let ?u = "emit_label c (?s\<lparr>d_labc := l\<rparr>)"
      have u: "dis_inv ?u" "same_file s ?u" "d_PC ?u = d_PC s" "d_inp ?u = drop 1 (d_inp s)"
        using dis_inv_labc [of ?s l] Suc.prems(1) lab(2)
        by (cases c; simp add: emit_label_def)+
      have j: "0 \<le> ?j" "?j < 256" using uint_lt2p [of "code s 0"] by simp_all
      obtain v m where v: "disasm ?j ?u = Inr v" "same_file ?u v" "dis_inv v" "m \<le> 5"
        "d_PC v = d_PC s + of_nat m" "d_inp v = drop (Suc m) (d_inp s)"
        using disasm_step [OF u(1) j] u by (auto simp: drop_drop)
      let ?v = "v\<lparr>d_PC := d_PC v + 1\<rparr>"
      have hdr: "d_hdr ?v = d_hdr s" using u(2) v(2) by (simp add: same_file_def)
      have "d_PC ?v = d_PC s + of_nat (Suc m)" by (simp add: v(5))
      moreover have "unat (d_PC s + of_nat (Suc m)) = unat (d_PC s) + Suc m"
        using lt v(4) Suc.prems(2) by (intro unat_add_small) simp
      ultimately have pcv: "unat (d_PC ?v) = unat (d_PC s) + Suc m" by (simp only:)
      obtain t k where t: "distext_loop n ?v = Inr t" "same_file ?v t" "dis_inv t"
          "unat (d_PC t) = unat (d_PC ?v) + k" "d_inp t = drop k (d_inp ?v)"
          "unat (a_text (d_hdr s)) \<le> unat (d_PC t)" "unat (d_PC t) \<le> unat (a_text (d_hdr s)) + 5"
        using Suc.IH [of ?v] Suc.prems v(3,4) pcv lt unfolding hdr by auto
      have tk: "unat (d_PC t) = unat (d_PC s) + (Suc m + k)" "d_inp t = drop (Suc m + k) (d_inp s)"
        using t(4,5) pcv v(6) by (simp_all add: add.commute)
      have "same_file s t"
        using u(2) v(2) t(2) same_file_trans [of s ?u v] by (simp add: same_file_def)
      moreover have "distext_loop (Suc n) s = Inr t"
        using True False lab v(1) t(1) by (auto simp: dis_getchar_code)
      ultimately show ?thesis using t(3,6,7) tk by blast
    qed
  qed
qed simp

lemma d_hdr_seg_heading [simp]: "d_hdr (seg_heading name sz s) = d_hdr s"
  by (simp add: seg_heading_def)

lemma prolog_globals_ok:
  "j + length ns \<le> length (d_symtab s) \<Longrightarrow> \<exists>flag x. prolog_globals ns j f s = Inr (flag, emit x s)"
proof (induction ns arbitrary: j f s)
  case Nil
  have "s = emit [] s" by (simp add: emit_def)
  then show ?case by (metis prolog_globals.simps(1))
next
  case (Cons n ns)
  have "emit x (emit y s) = emit (y @ x) s" for x y by (simp add: emit_def)
  with Cons.prems show ?case
    using Cons.IH [of "j + 1" s] Cons.IH [of "j + 1" "emit x s" for x]
    by (auto simp: getnam_def) metis+
qed

lemma prolog_literals_ok:
  "j + length ns \<le> length (d_symtab s) \<Longrightarrow> \<exists>flag x. prolog_literals ns j f s = Inr (flag, emit x s)"
proof (induction ns arbitrary: j f s)
  case Nil
  have "s = emit [] s" by (simp add: emit_def)
  then show ?case by (metis prolog_literals.simps(1))
next
  case (Cons n ns)
  have "emit x (emit y s) = emit (y @ x) s" for x y by (simp add: emit_def)
  with Cons.prems show ?case
    using Cons.IH [of "j + 1" s] Cons.IH [of "j + 1" "emit x s" for x]
    by (auto simp: getnam_def) metis+
qed

lemma prolog_undef_ok:
  "\<forall>r \<in> set rs. r_symndx r < S_BSS \<longrightarrow> unat (r_symndx r) < length (d_symtab s) \<Longrightarrow>
    \<exists>flag x. prolog_undef rs f s = Inr (flag, emit x s)"
proof (induction rs arbitrary: f s)
  case Nil
  have "s = emit [] s" by (simp add: emit_def)
  then show ?case by (metis prolog_undef.simps(1))
next
  case (Cons r rs)
  have "emit x (emit y s) = emit (y @ x) s" for x y by (simp add: emit_def)
  with Cons.prems show ?case
    using Cons.IH [of s] Cons.IH [of "emit x s" for x]
    by (auto simp: getnam_def) metis+
qed

lemma prolog_ok:
  assumes "tables_ok s"
  shows "\<exists>x. prolog s = Inr (emit x s)"
proof (cases "d_symptr s < 0")
  case True
  have "s = emit [] s" by (simp add: emit_def)
  with True show ?thesis by (metis prolog_def)
next
  case False
  have blank: "\<exists>y. blank_line (f, emit x s) = emit y s" for f x
    by (cases "f = 0") (auto simp: blank_line_def emit_def intro: exI [of _ x] exI [of _ "x @ [NL]"])
  have undef: "\<exists>flag x. prolog_undef (take (nat (d_relptr s + 1)) (d_relo s)) 0 (emit y s) =
      Inr (flag, emit x (emit y s))" for y
    using assms by (intro prolog_undef_ok) (auto simp: tables_ok_def dest: in_set_takeD)
  have e: "emit x (emit y s) = emit (y @ x) s" for x y by (simp add: emit_def)
  let ?syms = "take (nat (d_symptr s + 1)) (d_symtab s)"
  obtain f x where 1: "prolog_globals ?syms 0 0 s = Inr (f, emit x s)"
    using prolog_globals_ok [of 0 ?syms s 0] by fastforce
  obtain y where 2: "blank_line (f, emit x s) = emit y s" using blank by blast
  obtain f' x' where 3: "prolog_undef (take (nat (d_relptr s + 1)) (d_relo s)) 0 (emit y s) = Inr (f', emit x' s)"
    using undef [of y] e by metis
  obtain y' where 4: "blank_line (f', emit x' s) = emit y' s" using blank by blast
  obtain f'' x'' where 5: "prolog_literals ?syms 0 0 (emit y' s) = Inr (f'', emit x'' s)"
    using prolog_literals_ok [of 0 ?syms "emit y' s" 0] e by fastforce
  from False 1 2 3 4 5 blank [of f'' x''] show ?thesis
    by (simp add: prolog_def)
qed

text \<open>The text pass reads the header and whole instructions up to the end of the segment.\<close>

lemma distext_run:
  assumes "dis_inv s" "unat (a_text (d_hdr s)) < 2 ^ 24"
  shows "\<exists>t. distext prg ifile s = Inr t \<and> same_file s t \<and> dis_inv t \<and>
    unat (a_text (d_hdr s)) \<le> unat (d_PC t) \<and> unat (d_PC t) \<le> unat (a_text (d_hdr s)) + 5 \<and>
    d_inp t = drop (unat (a_hdrlen (d_hdr s)) + unat (d_PC t)) (d_inp s)"
proof -
  let ?s = "text_heading prg ifile (skip_header s)"
  have inv: "dis_inv ?s" "same_file s ?s" "d_hdr ?s = d_hdr s"
    "d_inp ?s = drop (unat (a_hdrlen (d_hdr s))) (d_inp s)"
    using assms(1) by (simp_all add: text_heading_def skip_header_def)
  obtain x where x: "prolog ?s = Inr (emit x ?s)"
    using prolog_ok [of ?s] inv(1) by (auto simp: dis_inv_def)
  let ?u = "seg_heading ''.text'' (a_text (d_hdr s)) (emit x ?s)\<lparr>d_segflg := 0, d_PC := 0\<rparr>"
  have u: "dis_inv ?u" "same_file s ?u" "d_hdr ?u = d_hdr s" "d_inp ?u = d_inp ?s" "d_PC ?u = 0"
    using inv by (simp_all add: seg_heading_def)
  obtain t m where t: "distext_loop (unat (a_text (d_hdr s)) + 1) ?u = Inr t" "same_file ?u t" "dis_inv t"
      "unat (d_PC t) = unat (d_PC ?u) + m" "d_inp t = drop m (d_inp ?u)"
      "unat (a_text (d_hdr s)) \<le> unat (d_PC t)" "unat (d_PC t) \<le> unat (a_text (d_hdr s)) + 5"
    using distext_loop_run [OF u(1), of "unat (a_text (d_hdr s)) + 1"] u(3,5) assms(2)
    by (metis add_gr_0 add_leD2 le_add2 less_add_one unat_0 zero_less_one add_0 le0)
  have "same_file s t" using u(2) t(2) by (rule same_file_trans)
  moreover have "d_inp t = drop (unat (a_hdrlen (d_hdr s)) + unat (d_PC t)) (d_inp s)"
    using t(4,5) u(4,5) inv(4) by (simp add: add.commute)
  moreover have "distext prg ifile s = Inr t"
    using x t(1) inv(3) by (simp add: distext_def Let_def del: distext_loop.simps)
  ultimately show ?thesis using t(3,6,7) by blast
qed

section \<open>The data pass\<close>

text \<open>
  What the directives of the data segment stand for. The pass writes a sequence of them; the
  bytes that are not written yet are the zeros counted in \<open>zcount\<close> and the object buffer.
\<close>

datatype directive = Zerow nat | Zero_byte | Bytes bytes | Label string

fun render :: "directive \<Rightarrow> string" where
  "render (Zerow n) = TAB # ''.zerow'' @ TAB # fmt_d (int n) @ [NL]"
| "render Zero_byte = TAB # ''.byte'' @ TAB # ''0'' @ [NL]"
| "render (Bytes bs) = byte_line bs"
| "render (Label str) = str"

fun denote :: "directive \<Rightarrow> bytes" where
  "denote (Zerow n) = replicate (2 * n) 0"
| "denote Zero_byte = [0]"
| "denote (Bytes bs) = bs"
| "denote (Label str) = []"

definition pending_data :: "dis \<Rightarrow> bytes" where
  "pending_data s = replicate (unat (d_zcount s)) 0 @ take (d_objptr s) (d_objbuf s)"

text \<open>From \<open>s\<close> to \<open>t\<close> directives are written which, with what is then pending, stand for
  what was pending and the bytes \<open>bs\<close>.\<close>

definition writes :: "dis \<Rightarrow> bytes \<Rightarrow> dis \<Rightarrow> bool" where
  "writes s bs t \<longleftrightarrow>
     (\<exists>ds. d_out t = d_out s @ concat (map render ds) \<and>
           concat (map denote ds) @ pending_data t = pending_data s @ bs)"

definition data_inv :: "dis \<Rightarrow> bool" where
  "data_inv s \<longleftrightarrow> dis_inv s \<and> d_objptr s \<le> OBJMAX \<and> even (unat (d_zcount s)) \<and>
     unat (d_zcount s) + d_objptr s \<le> unat (d_PC s) \<and> unat (d_PC s) < 2 ^ 24"

lemma writes_trans: "writes s bs t \<Longrightarrow> writes t cs u \<Longrightarrow> writes s (bs @ cs) u"
proof -
  assume "writes s bs t" "writes t cs u"
  then obtain ds es where "d_out t = d_out s @ concat (map render ds)"
      "concat (map denote ds) @ pending_data t = pending_data s @ bs"
      "d_out u = d_out t @ concat (map render es)"
      "concat (map denote es) @ pending_data u = pending_data t @ cs"
    unfolding writes_def by blast
  moreover from this have "concat (map denote (ds @ es)) @ pending_data u = pending_data s @ bs @ cs"
    by simp
  ultimately show "writes s (bs @ cs) u"
    unfolding writes_def by (intro exI [of _ "ds @ es"]) simp
qed

lemma writes_Label: "writes s [] (emit x s)"
  unfolding writes_def by (intro exI [of _ "[Label x]"]) (simp add: pending_data_def)

lemma writes_refl: "d_out t = d_out s \<Longrightarrow> pending_data t = pending_data s \<Longrightarrow> writes s [] t"
  unfolding writes_def by (intro exI [of _ "[]"]) simp

lemma sint_half:
  assumes "unat (w :: u32) < 2 ^ 31"
  shows "sint (drop_bit 1 w) = int (unat w div 2)"
proof -
  have half: "unat (drop_bit 1 w) = unat w div 2"
    by (simp add: drop_bit_eq_div unat_div_distrib)
  then have "unat (drop_bit 1 w) < 2 ^ 31" using assms by linarith
  from sint_u32_small [OF this] show ?thesis unfolding half .
qed

lemma objdump_zeros_writes:
  assumes "objdump_zeros s = (r, t)" "even (unat (d_zcount s))" "unat (d_zcount s) < 2 ^ 31"
  shows "writes s [] t" "d_zcount t = 0" "d_objptr t = d_objptr s" "same_file s t" "d_PC t = d_PC s"
    "d_inp t = d_inp s" "dis_inv t = dis_inv s"
proof -
  let ?n = "unat (d_zcount s) div 2"
  have z: "sint (drop_bit 1 (d_zcount s)) = int ?n" using assms(3) by (rule sint_half)
  show "writes s [] t"
  proof (cases "d_zcount s = 0")
    case True
    then show ?thesis using assms(1) by (simp add: objdump_zeros_def writes_refl)
  next
    case False
    then have "d_out t = d_out s @ render (Zerow ?n)" "pending_data t = take (d_objptr s) (d_objbuf s)"
      using assms(1) z by (auto simp: objdump_zeros_def pending_data_def)
    then show ?thesis
      using assms(2) unfolding writes_def by (intro exI [of _ "[Zerow ?n]"]) (simp add: pending_data_def)
  qed
  show "d_zcount t = 0" "d_objptr t = d_objptr s" "same_file s t" "d_PC t = d_PC s"
    "d_inp t = d_inp s" "dis_inv t = dis_inv s"
    using assms(1) by (auto simp: objdump_zeros_def split: if_splits)
qed

lemma objdump_bytes_writes:
  assumes "objdump_bytes (r, s) = (r', t)" "d_zcount s = 0"
  shows "writes s [] t" "d_zcount t = 0" "d_objptr t = 0" "same_file s t" "d_PC t = d_PC s"
    "d_inp t = d_inp s" "dis_inv t = dis_inv s"
proof -
  show "writes s [] t"
    using assms unfolding writes_def
    by (cases "d_objptr s = 0")
      (auto simp: objdump_bytes_def pending_data_def
        intro: exI [of _ "[Bytes (take (d_objptr s) (d_objbuf s))]"] exI [of _ "[]"])
  show "d_zcount t = 0" "d_objptr t = 0" "same_file s t" "d_PC t = d_PC s"
    "d_inp t = d_inp s" "dis_inv t = dis_inv s"
    using assms by (auto simp: objdump_bytes_def split: if_splits)
qed

text \<open>Both calls together, when the buffer is not a full one of zeros.\<close>

lemma objdump_write:
  assumes "objdump_bytes (objdump_zeros s) = (r, t)" "data_inv s"
  shows "writes s [] t" "data_inv t" "pending_data t = []" "d_objptr t = 0" "same_file s t"
    "d_PC t = d_PC s" "d_inp t = d_inp s"
proof -
  obtain r' u where u: "objdump_zeros s = (r', u)" by fastforce
  have "even (unat (d_zcount s))" "unat (d_zcount s) < 2 ^ 31"
    using assms(2) by (simp_all add: data_inv_def)
  note z = objdump_zeros_writes [OF u this] and b = objdump_bytes_writes [OF assms(1) [unfolded u]]
  show "writes s [] t" using writes_trans [OF z(1) b(1) [OF z(2)]] by simp
  show "pending_data t = []" using b(2,3) [OF z(2)] by (simp add: pending_data_def)
  show "data_inv t" "d_objptr t = 0" "same_file s t" "d_PC t = d_PC s" "d_inp t = d_inp s"
    using b [OF z(2)] z assms(2) same_file_trans [OF z(4)] by (simp_all add: data_inv_def)
qed

lemma zeros_replicate: "list_all (\<lambda>b. b = 0) xs \<Longrightarrow> xs = replicate (length xs) (0 :: byte)"
  by (induction xs) simp_all

lemma objdump_full:
  assumes "data_inv s" "d_objptr s = OBJMAX" "list_all (\<lambda>b. b = 0) (d_objbuf s)"
  defines "t \<equiv> s\<lparr>d_zcount := d_zcount s + of_nat OBJMAX, d_objptr := 0\<rparr>"
  shows "data_inv t" "pending_data t = pending_data s" "unat (d_zcount t) = unat (d_zcount s) + 8"
proof -
  have z: "unat (d_zcount s + of_nat OBJMAX) = unat (d_zcount s) + OBJMAX"
    using assms(1) by (intro unat_add_small) (simp add: data_inv_def OBJMAX_def)
  then show "unat (d_zcount t) = unat (d_zcount s) + 8" by (simp add: t_def OBJMAX_def)
  have "dis_inv t" using assms(1) unfolding t_def data_inv_def by simp
  then show "data_inv t"
    using z assms(1,2) by (simp add: data_inv_def t_def OBJMAX_def)
  have "d_objbuf s = replicate OBJMAX 0"
    using zeros_replicate [OF assms(3)] assms(1) by (simp add: data_inv_def dis_inv_def)
  then show "pending_data t = pending_data s"
    using z assms(2) by (simp add: pending_data_def t_def flip: replicate_add)
qed

lemma objdump_writes:
  assumes "objdump c s = (r, t)" "data_inv s"
  shows "writes s [] t" "data_inv t" "d_objptr t = 0" "c \<Longrightarrow> pending_data t = []"
    "same_file s t" "d_PC t = d_PC s" "d_inp t = d_inp s"
proof -
  consider "d_objptr s = OBJMAX" "list_all (\<lambda>b. b = 0) (d_objbuf s)"
    | "objdump c s = objdump_bytes (objdump_zeros s)"
    by (metis objdump_def)
  then have "writes s [] t \<and> data_inv t \<and> d_objptr t = 0 \<and> (c \<longrightarrow> pending_data t = []) \<and>
      same_file s t \<and> d_PC t = d_PC s \<and> d_inp t = d_inp s"
  proof cases
    case 1
    let ?t = "s\<lparr>d_zcount := d_zcount s + of_nat OBJMAX, d_objptr := 0\<rparr>"
    note f = objdump_full [OF assms(2) 1]
    have w: "writes s [] ?t" by (rule writes_refl) (simp_all add: f(2))
    show ?thesis
    proof (cases c)
      case True
      with assms(1) 1 have "objdump_bytes (objdump_zeros ?t) = (r, t)" by (simp add: objdump_def)
      note o = objdump_write [OF this f(1)]
      show ?thesis using writes_trans [OF w o(1)] o(2-) by (simp add: same_file_def)
    next
      case False
      with assms(1) 1 have "t = ?t" by (simp add: objdump_def)
      with False w f(1) show ?thesis by simp
    qed
  next
    case 2
    with objdump_write [of s r t] assms show ?thesis by simp
  qed
  then show "writes s [] t" "data_inv t" "d_objptr t = 0" "c \<Longrightarrow> pending_data t = []"
    "same_file s t" "d_PC t = d_PC s" "d_inp t = d_inp s" by simp_all
qed

lemma data_inv_emit [simp]: "data_inv (emit x s) = data_inv s"
  by (simp add: data_inv_def)

lemma data_label_writes:
  assumes "data_inv s"
  shows "writes s [] (data_label c s)" "data_inv (data_label c s)" "same_file s (data_label c s)"
    "d_PC (data_label c s) = d_PC s" "d_inp (data_label c s) = d_inp s"
proof -
  obtain r t where t: "objdump True s = (r, t)" by fastforce
  note o = objdump_writes [OF t assms]
  have "writes s [] (emit b t)" for b using writes_trans [OF o(1) writes_Label] by simp
  with o t assms show "writes s [] (data_label c s)" "data_inv (data_label c s)"
    "same_file s (data_label c s)" "d_PC (data_label c s) = d_PC s" "d_inp (data_label c s) = d_inp s"
    by (auto simp: data_label_def writes_refl split: option.split)
qed

lemma data_flush_writes:
  assumes "data_inv s"
  shows "writes s [] (data_flush s)" "data_inv (data_flush s)" "same_file s (data_flush s)"
    "d_PC (data_flush s) = d_PC s" "d_inp (data_flush s) = d_inp s" "d_objptr (data_flush s) < OBJMAX"
proof -
  obtain r t where t: "objdump False s = (r, t)" by fastforce
  note o = objdump_writes [OF t assms]
  have "writes s [] (emit b t)" for b using writes_trans [OF o(1) writes_Label] by simp
  with o t assms show "writes s [] (data_flush s)" "data_inv (data_flush s)"
    "same_file s (data_flush s)" "d_PC (data_flush s) = d_PC s" "d_inp (data_flush s) = d_inp s"
    "d_objptr (data_flush s) < OBJMAX"
    by (auto simp: data_flush_def writes_refl OBJMAX_def)
qed

text \<open>The byte is stored: what is pending grows by it.\<close>

lemma store_byte:
  assumes "data_inv s" "d_objptr s < OBJMAX" "unat (d_PC s) + 1 < 2 ^ 24"
    and t_def: "t = s\<lparr>d_inp := i, d_objbuf := (d_objbuf s)[d_objptr s := b], d_objptr := d_objptr s + 1,
      d_PC := d_PC s + 1\<rparr>"
  shows "writes s [b] t" "data_inv t" "same_file s t" "unat (d_PC t) = unat (d_PC s) + 1"
proof -
  show pc: "unat (d_PC t) = unat (d_PC s) + 1"
    using unat_add_small [of "d_PC s" 1] assms(3) by (simp add: t_def)
  have buf: "d_objptr s < length (d_objbuf s)" using assms(1,2) by (simp add: data_inv_def dis_inv_def)
  then have "pending_data t = pending_data s @ [b]"
    by (simp add: pending_data_def t_def take_Suc_conv_app_nth)
  then show "writes s [b] t"
    unfolding writes_def by (intro exI [of _ "[]"]) (simp add: t_def)
  have "dis_inv t" using assms(1) by (simp add: data_inv_def dis_inv_def t_def)
  then show "data_inv t"
    using pc assms(1-3) by (simp add: data_inv_def) (simp add: t_def)
  show "same_file s t" by (simp add: t_def)
qed

lemma code_drop: "code (s\<lparr>d_inp := drop m (d_inp s)\<rparr>) i = code s (m + i)"
  by (simp add: code_def less_diff_conv add.commute)

lemma disdata_loop_run:
  assumes "data_inv s" "unat end' < 2 ^ 24" "unat end' < unat (d_PC s) + n" "0 < n"
  shows "\<exists>t. disdata_loop n end' s = Inr t \<and> data_inv t \<and> same_file s t \<and>
    writes s (map (code s) [0..<unat end' - unat (d_PC s)]) t \<and>
    unat (d_PC t) = max (unat (d_PC s)) (unat end') \<and>
    d_inp t = drop (unat end' - unat (d_PC s)) (d_inp s)"
  using assms
proof (induction n arbitrary: s)
  case (Suc n)
  show ?case
  proof (cases "d_PC s < end'")
    case False
    with Suc.prems(1) show ?thesis
      by (intro exI [of _ s]) (simp add: word_less_nat_alt writes_refl max_def)
  next
    case True
    then have lt: "unat (d_PC s) < unat end'" by (simp add: word_less_nat_alt)
    obtain c l where lab: "getlab N_DATA s = Inr (c, s\<lparr>d_labc := l\<rparr>)" "length l \<le> 9"
      using getlab_ok [of s N_DATA] Suc.prems(1) by (auto simp: data_inv_def)
    let ?s1 = "s\<lparr>d_labc := l\<rparr>"
    have s1: "data_inv ?s1" using Suc.prems(1) dis_inv_labc lab(2) by (simp add: data_inv_def)
    define s2 where "s2 = data_flush (data_label c ?s1)"
    note L = data_label_writes [OF s1, of c]
    note F = data_flush_writes [OF L(2), folded s2_def]
    have "writes s [] ?s1" by (rule writes_refl) (simp_all add: pending_data_def)
    then have w2: "writes s [] s2"
      using writes_trans [OF writes_trans [OF _ L(1)] F(1)] by fastforce
    have f2: "d_PC s2 = d_PC s" "d_inp s2 = d_inp s" using L F by simp_all
    have same2: "same_file s s2" using same_file_trans [OF _ F(3)] same_file_trans [OF _ L(3), of s] by simp
    define t where "t = s2\<lparr>d_inp := drop 1 (d_inp s2), d_objbuf := (d_objbuf s2)[d_objptr s2 := code s 0],
        d_objptr := d_objptr s2 + 1, d_PC := d_PC s2 + 1\<rparr>"
    have "unat (d_PC s2) + 1 < 2 ^ 24" using lt f2 Suc.prems(2) by simp
    note S = store_byte [OF F(2,6) this t_def]
    have w: "writes s [code s 0] t" using writes_trans [OF w2 S(1)] by simp
    have codet: "code t = (\<lambda>i. code s (Suc i))"
      by (rule ext) (simp add: t_def f2 code_def less_diff_conv)
    have "unat end' < unat (d_PC t) + n" "0 < n" using Suc.prems lt S(4) f2 by simp_all
    then obtain u where u: "disdata_loop n end' t = Inr u" "data_inv u" "same_file t u"
      "writes t (map (code t) [0..<unat end' - unat (d_PC t)]) u"
      "unat (d_PC u) = max (unat (d_PC t)) (unat end')" "d_inp u = drop (unat end' - unat (d_PC t)) (d_inp t)"
      using Suc.IH [OF S(2) Suc.prems(2)] by blast
    have len: "unat end' - unat (d_PC s) = Suc (unat end' - unat (d_PC t))"
      using lt S(4) f2 by simp
    have split: "map (code s) [0..<unat end' - unat (d_PC s)] =
        [code s 0] @ map (code t) [0..<unat end' - unat (d_PC t)]"
      by (simp only: len codet map_upt_Suc append_Cons append_Nil)
    have "writes s (map (code s) [0..<unat end' - unat (d_PC s)]) u"
      unfolding split using w u(4) by (rule writes_trans)
    moreover have "d_inp u = drop (unat end' - unat (d_PC s)) (d_inp s)"
      unfolding u(6) len using f2 by (simp add: t_def)
    moreover have "same_file s u" using same_file_trans [OF same_file_trans [OF same2 S(3)] u(3)] .
    moreover have "disdata_loop (Suc n) end' s = Inr u"
    proof -
      have "dis_getchar s2 = (uint (code s 0), s2\<lparr>d_inp := drop 1 (d_inp s2)\<rparr>)"
        by (simp add: dis_getchar_code code_def f2)
      with True lab(1) u(1) [unfolded t_def] F(6) show ?thesis
        by (simp flip: s2_def)
    qed
    moreover have "unat (d_PC u) = max (unat (d_PC s)) (unat end')"
      using u(5) S(4) f2 lt by simp
    ultimately show ?thesis using u(2) by blast
  qed
qed simp

text \<open>
  The data pass as a whole: the heading, and directives that stand for the bytes of the segment.
\<close>

definition data_end :: "dis \<Rightarrow> u32" where
  "data_end s = (if a_flags (d_hdr s) AND A_SEP \<noteq> 0 then a_data (d_hdr s) else a_text (d_hdr s) + a_data (d_hdr s))"

definition data_start :: "dis \<Rightarrow> u32" where
  "data_start s = (if a_flags (d_hdr s) AND A_SEP \<noteq> 0 then 0 else d_PC s)"

lemma disdata_run:
  assumes "dis_inv s" "unat (data_end s) < 2 ^ 24" "unat (d_PC s) < 2 ^ 24"
  defines "n \<equiv> unat (data_end s) - unat (data_start s)"
  shows "\<exists>t ds. disdata s = Inr t \<and> dis_inv t \<and> same_file s t \<and>
    d_out t = d_out (seg_heading ''.data'' (a_data (d_hdr s)) (emit [NL] (s\<lparr>d_PC := data_start s\<rparr>))) @
      concat (map render ds) \<and>
    concat (map denote ds) = map (code s) [0..<n] \<and> d_inp t = drop n (d_inp s) \<and>
    unat (d_PC t) = max (unat (data_start s)) (unat (data_end s))"
proof -
  let ?s = "seg_heading ''.data'' (a_data (d_hdr s)) (emit [NL] (s\<lparr>d_PC := data_start s\<rparr>))"
  let ?u = "?s\<lparr>d_segflg := 0, d_objptr := 0, d_zcount := 0\<rparr>"
  have inv: "data_inv ?u" "d_PC ?u = data_start s" "d_inp ?u = d_inp s" "same_file s ?u" "pending_data ?u = []"
    using assms(1,3) by (simp_all add: data_inv_def seg_heading_def data_start_def pending_data_def)
  have code: "code ?u = code s" by (simp add: code_def seg_heading_def fun_eq_iff)
  obtain t where t: "disdata_loop (unat (data_end s) + 1) (data_end s) ?u = Inr t" "data_inv t" "same_file ?u t"
    "writes ?u (map (code ?u) [0..<unat (data_end s) - unat (d_PC ?u)]) t"
    "unat (d_PC t) = max (unat (d_PC ?u)) (unat (data_end s))"
    "d_inp t = drop (unat (data_end s) - unat (d_PC ?u)) (d_inp ?u)"
    using disdata_loop_run [OF inv(1) assms(2), of "unat (data_end s) + 1"] by auto
  obtain r v where v: "objdump True t = (r, v)" by fastforce
  note o = objdump_writes [OF v t(2)]
  have "writes ?u (map (code s) [0..<n]) v"
    using writes_trans [OF t(4) o(1)] by (simp only: append_Nil2 inv(2) code n_def)
  then obtain ds where ds: "d_out v = d_out ?s @ concat (map render ds)"
      "concat (map denote ds) = map (code s) [0..<n]"
    using o(4) inv(5) by (auto simp: writes_def)
  have run: "disdata s = Inr v"
  proof (cases "a_flags (d_hdr s) AND A_SEP = 0")
    case True
    then have "s\<lparr>d_PC := data_start s\<rparr> = s" by (simp add: data_start_def)
    with True t(1) v show ?thesis
      by (simp add: disdata_def Let_def data_end_def del: disdata_loop.simps)
  next
    case False
    then have "emit [NL] s\<lparr>d_PC := 0\<rparr> = emit [NL] (s\<lparr>d_PC := data_start s\<rparr>)"
      by (simp add: data_start_def emit_def)
    with False t(1) v show ?thesis
      by (simp add: disdata_def Let_def data_end_def del: disdata_loop.simps)
  qed
  have "dis_inv v" "same_file s v" "d_inp v = drop n (d_inp s)" "d_PC v = d_PC t"
    using o t(3,6) inv(2,3) same_file_trans [OF same_file_trans [OF inv(4) t(3)] o(5)]
    by (simp_all add: data_inv_def n_def)
  with run ds t(5) inv(2) show ?thesis by (intro exI [of _ v] exI [of _ ds]) simp
qed

section \<open>The bss pass\<close>

text \<open>\<open>zdump\<close> writes directives for the zeros from \<open>beg\<close> to the program counter.\<close>

lemma zero_directives:
  "concat (map denote ((if n > 1 then [Zerow (n div 2)] else []) @ (if odd n then [Zero_byte] else []))) =
    replicate n 0"
proof (cases "even n")
  case True
  then obtain k where "n = 2 * k" ..
  then show ?thesis by (cases k) auto
next
  case False
  then obtain k where "n = 2 * k + 1" by (rule oddE)
  then show ?thesis by (cases k) (auto simp: replicate_append_same)
qed

lemma zdump_directives:
  assumes "beg \<le> d_PC s" "unat (d_PC s) < 2 ^ 24"
  shows "\<exists>ds. zdump beg s = emit (concat (map render ds)) s \<and>
    concat (map denote ds) = replicate (unat (d_PC s) - unat beg) 0"
proof -
  let ?n = "unat (d_PC s - beg)"
  have n: "?n = unat (d_PC s) - unat beg" using assms(1) by (rule unat_sub)
  then have "?n < 2 ^ 24" using assms(2) by simp
  then have h: "sint (drop_bit 1 (d_PC s - beg)) = int (?n div 2)" by (intro sint_half) simp
  have odd: "(d_PC s - beg) AND 1 \<noteq> 0 \<longleftrightarrow> odd ?n"
    by (simp add: and_one_eq word_eq_iff_unsigned unat_mod_distrib odd_iff_mod_2_eq_one flip: unat_eq_zero)
  let ?ds = "(if ?n > 1 then [Zerow (?n div 2)] else []) @ (if odd ?n then [Zero_byte] else [])"
  have "zdump beg s = emit (concat (map render ?ds)) s"
    using odd h by (simp add: zdump_def Let_def word_less_nat_alt)
  then show ?thesis using zero_directives [of ?n] unfolding n by blast
qed

lemma disbss_loop_run:
  assumes "dis_inv s" "unat end' < 2 ^ 24" "unat end' < unat (d_PC s) + n" "0 < n" "beg \<le> d_PC s"
    "unat (d_PC s) < 2 ^ 24"
  shows "\<exists>beg' t ds. disbss_loop n end' beg s = Inr (beg', t) \<and> dis_inv t \<and> same_file s t \<and>
    beg' \<le> d_PC t \<and> unat (d_PC t) = max (unat (d_PC s)) (unat end') \<and>
    d_out t = d_out s @ concat (map render ds) \<and>
    concat (map denote ds) @ replicate (unat (d_PC t) - unat beg') 0 =
      replicate (unat (d_PC s) - unat beg + (unat end' - unat (d_PC s))) 0"
  using assms
proof (induction n arbitrary: s beg)
  case (Suc n)
  show ?case
  proof (cases "d_PC s < end'")
    case False
    with Suc.prems show ?thesis
      by (intro exI [of _ beg] exI [of _ s] exI [of _ "[]"]) (simp add: word_less_nat_alt max_def)
  next
    case True
    then have lt: "unat (d_PC s) < unat end'" by (simp add: word_less_nat_alt)
    then have pc: "unat (d_PC s + 1) = unat (d_PC s) + 1"
      using unat_add_small [of "d_PC s" 1] Suc.prems(2) by simp
    obtain c l where lab: "getlab N_BSS s = Inr (c, s\<lparr>d_labc := l\<rparr>)" "length l \<le> 9"
      using getlab_ok [of s N_BSS] Suc.prems(1,6) by auto
    let ?s = "s\<lparr>d_labc := l\<rparr>"
    have inv: "dis_inv ?s" using Suc.prems(1) lab(2) by (rule dis_inv_labc)
    obtain beg2 v ds where v: "disbss_loop (Suc n) end' beg s = disbss_loop n end' beg2 (v\<lparr>d_PC := d_PC s + 1\<rparr>)"
      "dis_inv v" "same_file s v" "beg2 \<le> d_PC s" "d_out v = d_out s @ concat (map render ds)"
      "concat (map denote ds) @ replicate (unat (d_PC s) - unat beg2) 0 =
        replicate (unat (d_PC s) - unat beg) 0"
    proof (cases c)
      case None
      with True lab(1) inv Suc.prems(5) show ?thesis
        by (intro that [of beg ?s "[]"]) simp_all
    next
      case (Some b)
      obtain ds where ds: "zdump beg ?s = emit (concat (map render ds)) ?s"
          "concat (map denote ds) = replicate (unat (d_PC s) - unat beg) 0"
        using zdump_directives [of beg ?s] Suc.prems(5,6) by auto
      show ?thesis
      proof (cases "d_PC s > beg")
        case gt: True
        with True lab(1) inv Some ds show ?thesis
          by (intro that [of "d_PC s" "emit b (emit (concat (map render ds)) ?s)" "ds @ [Label b]"]) simp_all
      next
        case False
        with True lab(1) inv Some Suc.prems(5) show ?thesis
          by (intro that [of beg "emit b ?s" "[Label b]"]) simp_all
      qed
    qed
    let ?v = "v\<lparr>d_PC := d_PC s + 1\<rparr>"
    have le: "beg2 \<le> d_PC s + 1" using v(4) pc by (simp add: word_le_nat_alt)
    have "dis_inv ?v" "unat end' < unat (d_PC ?v) + n" "0 < n" "unat (d_PC ?v) < 2 ^ 24"
      using v(2) pc lt Suc.prems by simp_all
    then obtain beg' t es where t: "disbss_loop n end' beg2 ?v = Inr (beg', t)" "dis_inv t" "same_file ?v t"
      "beg' \<le> d_PC t" "unat (d_PC t) = max (unat (d_PC ?v)) (unat end')"
      "d_out t = d_out ?v @ concat (map render es)"
      "concat (map denote es) @ replicate (unat (d_PC t) - unat beg') 0 =
        replicate (unat (d_PC ?v) - unat beg2 + (unat end' - unat (d_PC ?v))) 0"
      using Suc.IH [of ?v beg2] Suc.prems(2) le by auto
    have "unat (d_PC ?v) - unat beg2 + (unat end' - unat (d_PC ?v)) =
        (unat (d_PC s) - unat beg2) + (unat end' - unat (d_PC s))"
      using pc lt v(4) by (simp add: word_le_nat_alt)
    then have "concat (map denote (ds @ es)) @ replicate (unat (d_PC t) - unat beg') 0 =
        replicate (unat (d_PC s) - unat beg + (unat end' - unat (d_PC s))) 0"
      using t(7) v(6) by (simp add: replicate_add)
    moreover have "same_file s t" using v(3) t(3) by (simp add: same_file_def)
    moreover have "d_out t = d_out s @ concat (map render (ds @ es))" using t(6) v(5) by simp
    moreover have "unat (d_PC t) = max (unat (d_PC s)) (unat end')" using t(5) pc lt by simp
    ultimately show ?thesis using t(1,2,4) v(1) by metis
  qed
qed simp

definition bss_end :: "dis \<Rightarrow> u32" where
  "bss_end s = data_end s + a_bss (d_hdr s)"

lemma disbss_run:
  assumes "dis_inv s" "unat (bss_end s) < 2 ^ 24" "unat (d_PC s) < 2 ^ 24"
  shows "\<exists>t ds. disbss s = Inr t \<and>
    d_out t = d_out (seg_heading ''.bss'' (a_bss (d_hdr s)) (emit [NL] s)) @ concat (map render ds) \<and>
    concat (map denote ds) = replicate (unat (bss_end s) - unat (d_PC s)) 0"
proof -
  let ?s = "seg_heading ''.bss'' (a_bss (d_hdr s)) (emit [NL] s)\<lparr>d_segflg := 0\<rparr>"
  have inv: "dis_inv ?s" "d_PC ?s = d_PC s" using assms(1) by (simp_all add: seg_heading_def)
  obtain beg t ds where t: "disbss_loop (unat (bss_end s) + 1) (bss_end s) (d_PC s) ?s = Inr (beg, t)"
    "beg \<le> d_PC t" "unat (d_PC t) = max (unat (d_PC s)) (unat (bss_end s))"
    "d_out t = d_out ?s @ concat (map render ds)"
    "concat (map denote ds) @ replicate (unat (d_PC t) - unat beg) 0 =
      replicate (unat (bss_end s) - unat (d_PC s)) 0"
    using disbss_loop_run [OF inv(1) assms(2), of "unat (bss_end s) + 1" "d_PC s"] assms(3) inv(2) by auto
  obtain es where es: "(if d_PC t > beg then zdump beg t else t) = emit (concat (map render es)) t"
    "concat (map denote es) = replicate (unat (d_PC t) - unat beg) 0"
  proof (cases "d_PC t > beg")
    case True
    with zdump_directives [OF t(2)] t(3) assms(2,3) show ?thesis by (auto intro: that)
  next
    case False
    with t(2) have "d_PC t = beg" by simp
    then show ?thesis by (intro that [of "[]"]) (simp_all add: emit_def)
  qed
  have "disbss s = Inr (emit (concat (map render es)) t)"
  proof (cases "a_flags (d_hdr s) AND A_SEP = 0")
    case True
    with t(1) es(1) show ?thesis
      by (simp add: disbss_def Let_def bss_end_def data_end_def seg_heading_def del: disbss_loop.simps)
  next
    case False
    with t(1) es(1) show ?thesis
      by (simp add: disbss_def Let_def bss_end_def data_end_def seg_heading_def del: disbss_loop.simps)
  qed
  moreover have "d_out (emit (concat (map render es)) t) = d_out ?s @ concat (map render (ds @ es))"
    using t(4) by simp
  moreover have "concat (map denote (ds @ es)) = replicate (unat (bss_end s) - unat (d_PC s)) 0"
    using t(5) es(2) by simp
  ultimately show ?thesis by (intro exI [of _ "emit (concat (map render es)) t"] exI [of _ "ds @ es"]) simp
qed

end
