(* ===== verification/Dis_Props.thy ===== *)
theory Dis_Props
  imports Dis_Main
begin

text \<open>
  The properties of the disassembler: what one instruction reads and prints, where jumps lead,
  which symbol stands for an address, what the passes over the segments write, and which
  files are accepted.
\<close>

section \<open>One instruction\<close>

text \<open>An example of a state: the tables of a small file, before the byte after an opcode is read.\<close>

definition sample_dis :: "nat \<Rightarrow> bytes \<Rightarrow> dis" where
  "sample_dis w bs =
     dis_init w \<lparr>a_magic0 = 1, a_magic1 = 3, a_flags = 0, a_cpu = 4, a_hdrlen = 32, a_text = 3, a_data = 4, a_bss = 5,
          a_syms = 32, a_trsize = 0, a_drsize = 0\<rparr>
       [] [\<lparr>n_name = [0x66, 0, 0, 0, 0, 0, 0, 0], n_value = 9, n_sclass = 0x12\<rparr>,
           \<lparr>n_name = [0x67, 0, 0, 0, 0, 0, 0, 0], n_value = 9, n_sclass = 0x13\<rparr>] False bs"

lemma sample_dis_ok: "tables_ok (sample_dis w bs)" "length (d_objbuf (sample_dis w bs)) = OBJMAX"
    "dis_inv (sample_dis w bs)" "d_objflg (sample_dis w bs) = False" "d_int (sample_dis w bs) = w"
    "d_PC (sample_dis w bs) = 0" "d_inp (sample_dis w bs) = bs" "d_segflg (sample_dis w bs) = 0"
  by (simp_all add: sample_dis_def dis_init_def tables_ok_def dis_inv_def N_SECT_def)

lemma sample_rows: "op_func 0x83 = Imhand" "op_func 0x75 = Sjhand" "op_func 0xe8 = Ljhand" "op_func 0xa8 = Tqhand"
  by code_simp+

text \<open>
  C5. For every opcode that has an instruction and any bytes behind it, the handler ends; it has read
  exactly the bytes of the instruction, the program counter has moved with them, and the object
  buffer, which is never overrun, holds the opcode and the bytes in order.
\<close>

theorem disasm_one:
  assumes "0 \<le> j" "j < 256" "op_func j \<noteq> Dfhand" "tables_ok s" "length (d_objbuf s) = OBJMAX"
  shows "\<exists>t n. disasm j s = Inr t \<and> n = insn_len (op_func j) j (uint (code s 0)) \<and> 1 \<le> n \<and> n \<le> 6 \<and>
    d_PC t + 1 = d_PC s + of_nat n \<and> d_inp t = drop (n - 1) (d_inp s) \<and> d_objptr t = n \<and>
    take n (d_objbuf t) = word_of_int j # map (code s) [0..<n - 1]"
proof -
  let ?n = "insn_len (op_func j) j (uint (code s 0))"
  obtain t where t: "disasm j s = Inr t" "read_at j s (?n - 1) t"
    using disasm_reads [OF assms] by (auto simp: reads_def)
  have n: "1 \<le> ?n" "?n \<le> 6" by (rule insn_len_range)+
  then have "of_nat ?n = of_nat (?n - 1) + (1 :: u32)" by (simp add: of_nat_diff)
  then have "d_PC t + 1 = d_PC s + of_nat ?n" using t(2) by (simp add: read_at_def)
  moreover have "?n - 1 + 1 = ?n" using n(1) by simp
  ultimately show ?thesis using t n by (intro exI [of _ t] exI [of _ ?n]) (simp add: read_at_def)
qed

theorem disasm_one_witness:
  "\<exists>t n. disasm 0x83 (sample_dis 16 [0xc0, 0xff]) = Inr t \<and> n = 3 \<and> 1 \<le> n \<and> n \<le> 6 \<and>
    d_PC t + 1 = d_PC (sample_dis 16 [0xc0, 0xff]) + of_nat n \<and> d_inp t = drop (n - 1) [0xc0, 0xff] \<and>
    d_objptr t = n \<and> take n (d_objbuf t) = word_of_int 0x83 # map (code (sample_dis 16 [0xc0, 0xff])) [0..<n - 1]"
proof -
  have "insn_len Imhand 0x83 (uint (code (sample_dis 16 [0xc0, 0xff]) 0)) = 3"
    by (simp add: code_def sample_dis_ok mode_len_def mode_mod_def mode_rm_def mode_reg_def)
  then show ?thesis
    using disasm_one [of "0x83" "sample_dis 16 [0xc0, 0xff]"] by (simp add: sample_rows sample_dis_ok)
qed





section \<open>Jumps\<close>

lemma FETCH_run:
  "d_objptr s < OBJMAX \<Longrightarrow> FETCH s =
    Inr (uint (code s 0), s\<lparr>d_PC := d_PC s + 1, d_inp := drop 1 (d_inp s),
      d_objbuf := (d_objbuf s)[d_objptr s := code s 0], d_objptr := d_objptr s + 1\<rparr>)"
  by (cases "d_inp s") (simp_all add: FETCH_def dis_getchar_def code_def)

lemma objini_fields [simp]:
  "d_objptr (objini j s) = 1" "d_PC (objini j s) = d_PC s" "d_inp (objini j s) = d_inp s"
  "d_int (objini j s) = d_int s" "d_objflg (objini j s) = d_objflg s" "d_out (objini j s) = d_out s"
  "code (objini j s) = code s" "tables_ok (objini j s) = tables_ok s"
  by (simp_all add: objini_def code_def tables_ok_def fun_eq_iff)

lemma code_emit [simp]: "code (emit x s) = code s"
  by (simp add: code_def fun_eq_iff)

lemma objout_quiet: "\<not> d_objflg s \<Longrightarrow> objout s = s"
  by (simp add: objout_def)

text \<open>The displacements of one byte are sign-extended to sixteen bits, for all 256 of them.\<close>

lemma extend_all:
  "list_all (\<lambda>m. (if m AND 0x80 \<noteq> 0 then signed_take_bit 15 (0xff00 OR m) else m) = signed_take_bit 7 m \<and>
      (if m AND 0x80 \<noteq> 0 then signed_take_bit 31 (0xff00 OR m) else m) =
        signed_take_bit 7 m + (if m AND 0x80 \<noteq> 0 then 0x10000 else 0)) (map int [0..<256])"
  by code_simp

lemma extend8_byte:
  "d_int s = 16 \<Longrightarrow> extend8 s (uint (b :: byte)) = sint b"
  "d_int s = 32 \<Longrightarrow> extend8 s (uint b) = sint b + (if bit b 7 then 0x10000 else 0)"
proof -
  have "0 \<le> x \<Longrightarrow> x < 256 \<Longrightarrow> x \<in> set (map int [0..<256])" for x
    by (auto simp: image_iff intro!: bexI [of _ "nat x"])
  then have "uint b \<in> set (map int [0..<256])"
    using uint_lt2p [of b] by simp
  note ext = bspec [OF extend_all [unfolded list_all_iff] this]
  have "sint b = signed_take_bit 7 (uint b)" by (simp add: sint_uint)
  moreover have "uint b AND 0x80 \<noteq> 0 \<longleftrightarrow> bit b 7"
    using and_exp_eq_0_iff_not_bit [of "uint b" 7] by (simp add: bit_uint_iff)
  ultimately show "d_int s = 16 \<Longrightarrow> extend8 s (uint b) = sint b"
    "d_int s = 32 \<Longrightarrow> extend8 s (uint b) = sint b + (if bit b 7 then 0x10000 else 0)"
    using ext by (cases "bit b 7"; simp add: extend8_def cint_def)+
qed

lemma emit_jump_run:
  assumes "tables_ok s" "\<not> d_objflg s"
  shows "\<exists>t str. emit_jump j k kind ext s = Inr t \<and>
    d_out t = d_out s @ op_text j @ [TAB] @ str @ TAB # TAB # ''| loc '' @ fmt_x 5 (unat (jump_target k s)) @ [NL]"
proof -
  obtain str where "lookup (sint (jump_target k s)) N_TEXT kind ext s = Inr str"
    using lookup_ok [OF assms(1)] by blast
  with assms(2) show ?thesis
    by (simp add: emit_jump_def objout_def emit_def)
qed

lemma sjhand_run:
  assumes "tables_ok s" "\<not> d_objflg s"
  shows "\<exists>t str. sjhand j s = Inr t \<and> d_out t = d_out s @ op_text j @ [TAB] @ str @ TAB # TAB # ''| loc '' @
    fmt_x 5 (unat (d_PC s + 2 + word_of_int (extend8 s (uint (code s 0))))) @ [NL]"
proof -
  obtain u where u: "FETCH (objini j s) = Inr (uint (code s 0), u)" "tables_ok u" "d_out u = d_out s"
      "\<not> d_objflg u" "d_PC u = d_PC s + 1" "d_int u = d_int s"
    using FETCH_run [of "objini j s"] assms by (simp add: OBJMAX_def)
  have "jump_target k u = d_PC s + 2 + word_of_int k" for k
    by (simp add: jump_target_def u(5) algebra_simps)
  moreover have "extend8 u m = extend8 s m" for m by (simp add: extend8_def cint_def u(6))
  ultimately show ?thesis
    using emit_jump_run [OF u(2,4), of j "extend8 s (uint (code s 0))" LOOK_REL "- 1"] u
    by (simp add: sjhand_def)
qed

lemma short_jump:
  assumes "op_func j = Sjhand" "tables_ok s" "\<not> d_objflg s" "d_int s = 16"
  shows "\<exists>t str. disasm j s = Inr t \<and> d_out t = d_out s @ op_text j @ [TAB] @ str @ TAB # TAB # ''| loc '' @
    fmt_x 5 (unat (d_PC s + 2 + scast (code s 0))) @ [NL]"
  using sjhand_run [OF assms(2,3), of j]
  unfolding disasm_def assms(1) run_handler.simps extend8_byte(1) [OF assms(4)] scast_eq .

text \<open>
  With an \<open>int\<close> of 32 bits, as the makefile builds the program on a host, the sign extension stops
  at bit 15.
\<close>

lemma short_jump_32:
  assumes "op_func j = Sjhand" "tables_ok s" "\<not> d_objflg s" "d_int s = 32" "bit (code s 0) 7"
  shows "\<exists>t str. disasm j s = Inr t \<and> d_out t = d_out s @ op_text j @ [TAB] @ str @ TAB # TAB # ''| loc '' @
    fmt_x 5 (unat (d_PC s + 2 + scast (code s 0) + 0x10000)) @ [NL]"
proof -
  have "word_of_int (extend8 s (uint (code s 0))) = (scast (code s 0) + 0x10000 :: u32)"
    unfolding extend8_byte(2) [OF assms(4)] scast_eq using assms(5) by simp
  with sjhand_run [OF assms(2,3), of j] show ?thesis
    by (simp add: disasm_def assms(1) add.assoc)
qed

lemma FETCH2_run:
  assumes "d_objptr s + 1 < OBJMAX"
  shows "\<exists>u. FETCH2 s = Inr (cint s (push_bit 8 (uint (code s 1)) OR uint (code s 0)), u) \<and>
    tables_ok u = tables_ok s \<and> d_out u = d_out s \<and> d_objflg u = d_objflg s \<and> d_PC u = d_PC s + 2"
proof -
  have "code (s\<lparr>d_PC := d_PC s + 1, d_inp := drop 1 (d_inp s), d_objbuf := x, d_objptr := y\<rparr>) 0 = code s 1" for x y
    by (simp add: code_def)
  with assms show ?thesis
    by (simp add: FETCH2_def FETCH_run cint_def add.assoc)
qed

lemma long_jump:
  assumes "op_func j = Ljhand" "tables_ok s" "\<not> d_objflg s" "d_int s = 16"
  shows "\<exists>t str. disasm j s = Inr t \<and> d_out t = d_out s @ op_text j @ [TAB] @ str @ TAB # TAB # ''| loc '' @
    fmt_x 5 (unat (d_PC s + 3 + scast (word_cat (code s 1) (code s 0) :: u16))) @ [NL]"
proof -
  let ?x = "push_bit 8 (uint (code s 1)) OR uint (code s 0)"
  obtain u where u: "FETCH2 (objini j s) = Inr (cint s ?x, u)" "tables_ok u" "d_out u = d_out s"
      "\<not> d_objflg u" "d_PC u = d_PC s + 2"
    using FETCH2_run [of "objini j s"] assms(2,3) by (auto simp: OBJMAX_def cint_def)
  have "(word_cat (code s 1) (code s 0) :: u16) = word_of_int ?x"
    by (rule bit_word_eqI) (auto simp: bit_word_cat_iff bit_simps dest: bit_imp_le_length)
  then have "scast (word_cat (code s 1) (code s 0) :: u16) = (word_of_int (sint (word_of_int ?x :: u16)) :: u32)"
    by (simp only: scast_eq)
  moreover have "sint (word_of_int ?x :: u16) = cint s ?x"
    unfolding cint_def assms(4) by (simp add: signed_of_int)
  ultimately have "scast (word_cat (code s 1) (code s 0) :: u16) = (word_of_int (cint s ?x) :: u32)"
    by (simp only:)
  moreover have "jump_target k u = d_PC s + 3 + word_of_int k" for k
    by (simp add: jump_target_def u(5) algebra_simps)
  ultimately show ?thesis
    using emit_jump_run [OF u(2,4), of j "cint s ?x" LOOK_LNG "sint (d_PC u - 1)"] u
    by (simp add: disasm_def assms(1) ljhand_def)
qed

text \<open>
  C7. When \<open>int\<close> has sixteen bits, a short jump is shown to lead to the address of the next
  instruction plus the sign-extended displacement, and a near call or jump to the address of the
  next instruction plus the displacement of sixteen bits read as a signed number. With an \<open>int\<close> of 32
  bits, as the makefile builds the program on a host, the sign extension stops at bit 15, and every backward
  short jump is shown 64K too high.
\<close>

theorem jump_targets:
  assumes "op_func j \<in> {Sjhand, Ljhand}" "tables_ok s" "\<not> d_objflg s"
    "d_int s = 16 \<or> d_int s = 32 \<and> op_func j = Sjhand \<and> bit (code s 0) 7"
  shows "\<exists>t str. disasm j s = Inr t \<and> d_out t = d_out s @ op_text j @ [TAB] @ str @ TAB # TAB # ''| loc '' @
    fmt_x 5 (unat (if op_func j = Sjhand then d_PC s + 2 + scast (code s 0) + (if d_int s = 32 then 0x10000 else 0)
      else d_PC s + 3 + scast (word_cat (code s 1) (code s 0) :: u16))) @ [NL]"
proof (cases "op_func j = Sjhand")
  case True
  then show ?thesis using assms(4) short_jump [OF True assms(2,3)] short_jump_32 [OF True assms(2,3)] by auto
next
  case False
  then have "op_func j = Ljhand" "d_int s = 16" using assms(1,4) by auto
  then show ?thesis using long_jump [OF _ assms(2,3)] by simp
qed

theorem jump_targets_witness:
  "(\<exists>t str. disasm 0x75 (sample_dis 16 [0xfe]) = Inr t \<and> d_out t = d_out (sample_dis 16 [0xfe]) @ op_text 0x75 @ [TAB] @
     str @ TAB # TAB # ''| loc '' @ fmt_x 5 (unat (d_PC (sample_dis 16 [0xfe]) + 2 + scast (0xfe :: byte))) @ [NL]) \<and>
   (\<exists>t str. disasm 0x75 (sample_dis 32 [0xfe]) = Inr t \<and> d_out t = d_out (sample_dis 32 [0xfe]) @ op_text 0x75 @ [TAB] @
     str @ TAB # TAB # ''| loc '' @ fmt_x 5 (unat (d_PC (sample_dis 32 [0xfe]) + 2 + scast (0xfe :: byte) + 0x10000)) @ [NL]) \<and>
   (\<exists>t str. disasm 0xe8 (sample_dis 16 [0xfd, 0xff]) = Inr t \<and> d_out t = d_out (sample_dis 16 [0xfd, 0xff]) @ op_text 0xe8 @
     [TAB] @ str @ TAB # TAB # ''| loc '' @
     fmt_x 5 (unat (d_PC (sample_dis 16 [0xfd, 0xff]) + 3 + scast (word_cat (0xff :: byte) (0xfd :: byte) :: u16))) @ [NL])"
proof (intro conjI, goal_cases)
  case 1
  show ?case using jump_targets [of "0x75" "sample_dis 16 [0xfe]"] by (simp add: sample_rows sample_dis_ok code_def)
next
  case 2
  show ?case using jump_targets [of "0x75" "sample_dis 32 [0xfe]"] by (simp add: sample_rows sample_dis_ok code_def)
next
  case 3
  show ?case using jump_targets [of "0xe8" "sample_dis 16 [0xfd, 0xff]"] by (simp add: sample_rows sample_dis_ok code_def)
qed

section \<open>Symbols\<close>

definition at_symbol :: "int \<Rightarrow> byte \<Rightarrow> nlist \<Rightarrow> bool" where
  "at_symbol addr type n \<longleftrightarrow> sint (n_value n) = addr \<and> n_sclass n AND N_SECT = type"

text \<open>The loop finds the first symbol with the wanted value and section, whatever it has met before.\<close>

lemma lookup_loop_exact:
  assumes "i < length ns" "at_symbol addr type (ns ! i)" "\<forall>m < i. \<not> at_symbol addr type (ns ! m)"
    "\<forall>n \<in> set ns. unat (n_sclass n AND N_SECT) < 6" "\<forall>p t. best = Some (p, t) \<longrightarrow> unat t < 6"
  shows "lookup_loop ns k addr type s best = Inr (Some (k + i, type))"
  using assms
proof (induction ns arbitrary: i k best)
  case (Cons n ns)
  show ?case
  proof (cases i)
    case 0
    with Cons.prems(2) show ?thesis by (simp add: at_symbol_def)
  next
    case (Suc i')
    have n: "\<not> at_symbol addr type n" using Cons.prems(3) Suc by force
    have IH: "lookup_loop ns (k + 1) addr type s b = Inr (Some (k + i, type))"
      if "\<forall>p t. b = Some (p, t) \<longrightarrow> unat t < 6" for b
      using Cons.IH [of i' b "k + 1"] Cons.prems(1-4) Suc that by force
    have sect: "unat (n_sclass n AND N_SECT) < 6" using Cons.prems(4) by simp
    show ?thesis
    proof (cases best)
      case None
      with n IH [of None] IH [of "Some (k, n_sclass n AND N_SECT)"] sect show ?thesis
        by (simp add: at_symbol_def Let_def)
    next
      case (Some p)
      obtain q t where p: "p = (q, t)" by (cases p)
      with Cons.prems(5) Some have "unat t < 6" by simp
      with n IH [of best] IH [of "Some (k, n_sclass n AND N_SECT)"] sect Some p show ?thesis
        by (simp add: at_symbol_def Let_def)
    qed
  qed
qed simp

text \<open>
  C8. Where no relocation entry applies, an address that is the value of a symbol of the wanted
  segment is shown as the name of the first such symbol, even if symbols of other segments
  with the same value come before it.
\<close>

theorem lookup_exact:
  assumes "lookext addr ext s = Inr None" "tables_ok s" "d_segflg s = 0"
    "d_symptr s + 1 = int (length (d_symtab s))" "i < length (d_symtab s)" "at_symbol addr type (d_symtab s ! i)"
    "\<forall>m < i. \<not> at_symbol addr type (d_symtab s ! m)"
  shows "lookup addr type kind ext s =
    Inr (map (\<lambda>b. char_of (unat b)) (c_str (take 8 (n_name (d_symtab s ! i)))))"
proof -
  have "lookup_loop (d_symtab s) 0 addr type s None = Inr (Some (0 + i, type))"
    using assms(2,5-7) by (intro lookup_loop_exact) (simp_all add: tables_ok_def)
  with assms(1,3,4,5) show ?thesis by (simp add: lookup_def getnam_def)
qed

theorem lookup_exact_witness:
  "lookup 9 N_DATA LOOK_ABS (-1) (sample_dis 16 []) = Inr ''g''"
proof -
  have "c_str [0x67, 0, 0, 0, 0, 0, 0, 0 :: byte] = [0x67]" by (simp add: c_str_def)
  moreover have "char_of (unat (0x67 :: byte)) = CHR ''g''" by code_simp
  moreover have "sint (9 :: u32) = 9" by code_simp
  ultimately show ?thesis
    using lookup_exact [of 9 "-1" "sample_dis 16 []" 1 N_DATA LOOK_ABS]
    by (simp add: sample_dis_ok lookext_def)
      (simp add: sample_dis_def dis_init_def at_symbol_def N_SECT_def N_DATA_def less_Suc_eq)
qed

section \<open>The object bytes in the listing\<close>

text \<open>
  After any handler has read \<open>n\<close> bytes, the comment that the option \<open>-o\<close> adds
  holds the address of the opcode (where there is a symbol table) and exactly the bytes of the
  instruction.
\<close>

theorem objout_listing:
  assumes "read_at j s0 n s" "d_objflg s0"
  shows "d_out (objout s) = d_out s @ TAB # ''|'' @
    (if d_symptr s0 \<ge> 0 then '' '' @ fmt_x 5 (unat (d_PC s0)) @ '':'' else []) @
    concat (map (\<lambda>b. '' '' @ fmt_x 2 (unat b)) (word_of_int j # map (code s0) [0..<n])) @ [NL]"
proof -
  have "d_PC s + 1 - of_nat (d_objptr s) = d_PC s0" "d_objflg s" "d_symptr s = d_symptr s0"
    "take (d_objptr s) (d_objbuf s) = word_of_int j # map (code s0) [0..<n]"
    using assms by (simp_all add: read_at_def)
  then show ?thesis unfolding objout_def by (simp add: emit_def)
qed

theorem objout_listing_witness:
  "d_out (objout (objini 0x90 (sample_dis 16 []\<lparr>d_objflg := True\<rparr>))) =
    d_out (objini 0x90 (sample_dis 16 []\<lparr>d_objflg := True\<rparr>)) @ TAB # ''|'' @
    (if d_symptr (sample_dis 16 []\<lparr>d_objflg := True\<rparr>) \<ge> 0
     then '' '' @ fmt_x 5 (unat (d_PC (sample_dis 16 []\<lparr>d_objflg := True\<rparr>))) @ '':'' else []) @
    concat (map (\<lambda>b. '' '' @ fmt_x 2 (unat b))
      (word_of_int 0x90 # map (code (sample_dis 16 []\<lparr>d_objflg := True\<rparr>)) [0..<0])) @ [NL]"
  by (rule objout_listing [OF read_at_objini]) (simp_all add: sample_dis_ok OBJMAX_def)

section \<open>Immediate operands\<close>






section \<open>The passes\<close>

text \<open>
  The text pass ends on every text segment. It reads the header and whole instructions up to
  the end of the segment, which the last instruction may pass by at most five bytes.
\<close>

theorem distext_ends:
  assumes "dis_inv s" "unat (a_text (d_hdr s)) < 2 ^ 24"
  shows "\<exists>t. distext prg ifile s = Inr t \<and>
    unat (a_text (d_hdr s)) \<le> unat (d_PC t) \<and> unat (d_PC t) \<le> unat (a_text (d_hdr s)) + 5 \<and>
    d_inp t = drop (unat (a_hdrlen (d_hdr s)) + unat (d_PC t)) (d_inp s)"
  using distext_run [OF assms] by blast

lemma sample_dis_hdr: "unat (a_text (d_hdr (sample_dis w bs))) = 3" "unat (a_hdrlen (d_hdr (sample_dis w bs))) = 32"
    "data_end (sample_dis w bs) = 7" "bss_end (sample_dis w bs) = 12" "data_start (sample_dis w bs) = 0"
    "a_flags (d_hdr (sample_dis w bs)) = 0"
  by (simp_all add: sample_dis_def dis_init_def data_end_def bss_end_def data_start_def)

theorem distext_ends_witness:
  "\<exists>t. distext ''dis'' ''a.out'' (sample_dis 16 [1, 2, 3]) = Inr t \<and> 3 \<le> unat (d_PC t) \<and> unat (d_PC t) \<le> 3 + 5 \<and>
    d_inp t = drop (32 + unat (d_PC t)) [1, 2, 3]"
  using distext_ends [of "sample_dis 16 [1, 2, 3]" "''dis''" "''a.out''"]
  by (simp only: sample_dis_hdr sample_dis_ok) simp



text \<open>
  Text and data pass together: what is shown as data are the bytes of the file from where
  the text pass stopped, so that with split instruction and data space, where the data are
  counted from \<open>0\<close>, a last instruction that passes the end of the text by \<open>k\<close> bytes shifts
  the whole data segment by \<open>k\<close> bytes.
\<close>

theorem data_after_text:
  assumes "dis_inv s" "unat (a_text (d_hdr s)) < 2 ^ 24 - 8" "unat (data_end s) < 2 ^ 24"
  shows "\<exists>t u ds n. distext prg ifile s = Inr t \<and> disdata t = Inr u \<and>
    d_out u = d_out (seg_heading ''.data'' (a_data (d_hdr s)) (emit [NL] (t\<lparr>d_PC := data_start t\<rparr>))) @
      concat (map render ds) \<and>
    n = unat (data_end s) - (if a_flags (d_hdr s) AND A_SEP \<noteq> 0 then 0 else unat (d_PC t)) \<and>
    concat (map denote ds) = map (\<lambda>i. code s (unat (a_hdrlen (d_hdr s)) + unat (d_PC t) + i)) [0..<n]"
proof -
  obtain t where t: "distext prg ifile s = Inr t" "same_file s t" "dis_inv t"
      "unat (d_PC t) \<le> unat (a_text (d_hdr s)) + 5"
      "d_inp t = drop (unat (a_hdrlen (d_hdr s)) + unat (d_PC t)) (d_inp s)"
    using distext_run [OF assms(1)] assms(2) by auto
  have hdr: "d_hdr t = d_hdr s" using t(2) by (simp add: same_file_def)
  then have "data_end t = data_end s" "unat (d_PC t) < 2 ^ 24"
    using t(4) assms(2) by (simp_all add: data_end_def)
  moreover have "code t = (\<lambda>i. code s (unat (a_hdrlen (d_hdr s)) + unat (d_PC t) + i))"
    by (rule ext) (auto simp: code_def t(5))
  ultimately show ?thesis
    using disdata_run [OF t(3)] assms(3) t(1) hdr by (auto simp: data_start_def)
qed

theorem data_after_text_witness:
  "\<exists>t u ds n. distext ''dis'' ''a.out'' (sample_dis 16 [1, 2]) = Inr t \<and> disdata t = Inr u \<and>
    d_out u = d_out (seg_heading ''.data'' (a_data (d_hdr (sample_dis 16 [1, 2]))) (emit [NL] (t\<lparr>d_PC := data_start t\<rparr>))) @
      concat (map render ds) \<and>
    n = 7 - unat (d_PC t) \<and>
    concat (map denote ds) = map (\<lambda>i. code (sample_dis 16 [1, 2]) (32 + unat (d_PC t) + i)) [0..<n]"
  using data_after_text [of "sample_dis 16 [1, 2]" "''dis''" "''a.out''"]
  by (simp add: sample_dis_hdr sample_dis_ok)

text \<open>C11. On well-formed tables the three passes end without running over a buffer or a table.\<close>

theorem dis_passes_end:
  assumes "dis_inv s" "unat (a_text (d_hdr s)) < 2 ^ 24 - 8" "unat (data_end s) < 2 ^ 24" "unat (bss_end s) < 2 ^ 24"
  shows "\<exists>t. dis_passes prg ifile s = Inr t"
proof -
  obtain t where t: "distext prg ifile s = Inr t" "same_file s t" "dis_inv t"
      "unat (d_PC t) \<le> unat (a_text (d_hdr s)) + 5"
    using distext_run [OF assms(1)] assms(2) by auto
  have t': "data_end t = data_end s" "unat (d_PC t) < 2 ^ 24"
    using t(2,4) assms(2) by (simp_all add: data_end_def same_file_def)
  obtain u where u: "disdata t = Inr u" "dis_inv u" "same_file t u"
      "unat (d_PC u) = max (unat (data_start t)) (unat (data_end t))"
    using disdata_run [OF t(3)] t' assms(3) by auto
  have "bss_end u = bss_end s" "unat (d_PC u) < 2 ^ 24"
    using t(2) u(3,4) t' assms(3) by (simp_all add: bss_end_def data_end_def data_start_def same_file_def)
  then obtain v where "disbss u = Inr v" using disbss_run [OF u(2)] assms(4) by auto
  with t(1) u(1) show ?thesis by (simp add: dis_passes_def)
qed

theorem dis_passes_end_witness: "\<exists>t. dis_passes ''dis'' ''a.out'' (sample_dis 16 [1, 2, 3]) = Inr t"
  by (rule dis_passes_end) (simp_all add: sample_dis_ok sample_dis_hdr)

section \<open>The input file\<close>

lemma load_header_accepts:
  "(\<exists>h. load_header ifile f = Inr h) \<longleftrightarrow> length f \<ge> 4 \<and> f ! 0 = 1 \<and> f ! 1 = 3 \<and> f ! 3 = 4"
proof -
  let ?b = "read_struct f 0 SZ_EXEC"
  have nth: "?b ! i = (if i < length f then f ! i else 0)" if "i < 48" for i
    using that by (auto simp: read_struct_def SZ_EXEC_def seg_def nth_append)
  have "(\<exists>h. load_header ifile f = Inr h) \<longleftrightarrow> ?b ! 0 = 1 \<and> ?b ! 1 = 3 \<and> ?b ! 3 = 4"
    by (auto simp: load_header_def Let_def dec_exec_def A_MAGIC0_def A_MAGIC1_def A_I8086_def)
  also have "\<dots> \<longleftrightarrow> length f \<ge> 4 \<and> f ! 0 = 1 \<and> f ! 1 = 3 \<and> f ! 3 = 4"
    by (auto simp: nth)
  finally show ?thesis .
qed

text \<open>
  C12. Exactly the files that begin with the magic number and carry the identifier of the 8086 are accepted,
  however short they are; the others are rejected with a message. The tables that are then read fit the
  arrays of the program, and have as many entries as the header says; larger ones are refused.
\<close>

theorem load_checks_input:
  "((\<exists>h. load_header ifile f = Inr h) \<longleftrightarrow> length f \<ge> 4 \<and> f ! 0 = 1 \<and> f ! 1 = 3 \<and> f ! 3 = 4) \<and>
   (case load_tables h f of
      Inl e \<Rightarrow> e \<in> {Fatal ''reloc table overflow'', Fatal ''symbol table overflow'', Fatal ''lseek error''}
    | Inr (rs, ns) \<Rightarrow> length rs = unat (a_trsize h + a_drsize h) div 8 \<and> length rs \<le> 1500 \<and>
        length ns = unat (a_syms h) div 16 \<and> length ns \<le> 1500)"
  by (rule conjI [OF load_header_accepts])
    (simp add: load_tables_def Let_def seek_table_def read_table_def SZ_RELOC_def SZ_NLIST_def MAXSYM_def)

end
