(* ===== verification/V6_Ld.thy ===== *)
theory V6_Ld
  imports Out_Format "HOL-Library.Signed_Division"
begin

text \<open>
  The link editor \<open>v6/ld.c\<close>: the two-page cache through which it reads its input
  (\<open>dseek\<close>, \<open>get\<close>, \<open>mget\<close>), the symbol table with its hash table
  (\<open>lookup\<close>, \<open>enter\<close>), the first pass over the modules and libraries
  (\<open>load1\<close>), the assignment of addresses (\<open>middle\<close>), and the second pass that
  relocates the text and the data (\<open>load2\<close>, \<open>load2td\<close>) and writes the output.

  All static variables are fields of the record \<open>ld\<close>. A \<open>short\<close> is a word of 16
  bits, or, where it is only counted up and down within the range of its buffer, an integer. A
  pointer to a symbol is its index in \<open>symtab\<close>; a pointer to a \<open>FILE\<close> is an option,
  \<open>None\<close> being the null pointer. A routine that calls \<open>error(1, ...)\<close>, which exits,
  yields \<open>Inl\<close> of the message.
\<close>

section \<open>Data\<close>

definition V_EXTERN :: byte where "V_EXTERN = 0x20"
definition V_UNDEF :: byte where "V_UNDEF = 0"
definition V_ABS :: byte where "V_ABS = 1"
definition V_TEXT :: byte where "V_TEXT = 2"
definition V_DATA :: byte where "V_DATA = 3"
definition V_BSS :: byte where "V_BSS = 4"
definition V_COMM :: byte where "V_COMM = 5"
definition ARCMAGIC :: u16 where "ARCMAGIC = 0xff6d"
definition FMAGIC :: u16 where "FMAGIC = 0x107"
definition NMAGIC :: u16 where "NMAGIC = 0x108"
definition IMAGIC :: u16 where "IMAGIC = 0x109"
definition RTEXT :: u16 where "RTEXT = 2"
definition RDATA :: u16 where "RDATA = 4"
definition RBSS :: u16 where "RBSS = 6"
definition REXT :: u16 where "REXT = 8"
definition RELFLG :: u16 where "RELFLG = 1"
definition NROUT :: nat where "NROUT = 256"
definition NSYM :: nat where "NSYM = 501"
definition NSYMPR :: nat where "NSYMPR = 500"

datatype ld_error =
  Ld_error string    \<comment> \<open>\<open>error(1, s)\<close>\<close>
| Ld_exit int        \<comment> \<open>\<open>exit\<close> without a message\<close>
| Null_file          \<comment> \<open>a call on a null \<open>FILE\<close> pointer\<close>
| Ld_overrun         \<comment> \<open>an access beyond an array\<close>
| Ld_loops           \<comment> \<open>more rounds of a loop than the bound that was given\<close>

text \<open>A page of the file; the words of the buffer are kept as its 512 bytes.\<close>

record page =
  nuser :: int
  p_bno :: int
  p_nibuf :: int
  p_buff :: bytes

text \<open>
  A stream: the pointer into the buffer of a page (the page and the index of the word), and the
  page that the stream uses, \<open>2\<close> being \<open>fpage\<close>.
\<close>

record stream =
  s_buf :: nat
  s_ptr :: int
  s_bno :: int
  s_nibuf :: int
  s_size :: int
  s_pno :: nat

record archdr =
  aname :: bytes
  asize :: u16

record filhdr =
  f_magic :: u16
  f_tsize :: u16
  f_dsize :: u16
  f_bsize :: u16
  f_ssize :: u16
  f_entry :: u16
  f_pad :: u16
  f_relflg :: u16

record symbol =
  sname :: bytes
  stype :: byte
  spad :: byte
  svalue :: u16

record ld =
  l_infil :: bytes
  l_pos :: nat
  l_page0 :: page
  l_page1 :: page
  l_fuser :: int
  l_text :: stream
  l_reloc :: stream
  l_archdr :: archdr
  l_filhdr :: filhdr
  l_liblist :: "(u16 \<times> int) list"
  l_cursym :: symbol
  l_symtab :: "symbol list"
  l_hshtab :: "nat option list"
  l_local2 :: "(int \<times> nat) list"
  l_xflag :: bool
  l_Xflag :: bool
  l_rflag :: bool
  l_arflag :: bool
  l_sflag :: bool
  l_nflag :: bool
  l_dflag :: bool
  l_iflag :: bool
  l_filname :: "string option"
  l_tsize :: u16
  l_dsize :: u16
  l_bsize :: u16
  l_ssize :: u16
  l_nsym :: u16
  l_torigin :: u16
  l_dorigin :: u16
  l_borigin :: u16
  l_ctrel :: u16
  l_cdrel :: u16
  l_cbrel :: u16
  l_errlev :: int
  l_tout :: "bytes option"
  l_dout :: "bytes option"
  l_trout :: "bytes option"
  l_drout :: "bytes option"
  l_sout :: "bytes option"
  l_stdout :: string

text \<open>The value a \<open>short\<close> variable holds.\<close>

definition short :: "int \<Rightarrow> int" where
  "short x = signed_take_bit 15 x"

section \<open>Diagnostics\<close>

definition str_of :: "bytes \<Rightarrow> string" where
  "str_of bs = map (\<lambda>b. char_of (unat b)) bs"

definition ld_printf :: "string \<Rightarrow> ld \<Rightarrow> ld" where
  "ld_printf x st = st\<lparr>l_stdout := l_stdout st @ x\<rparr>"

text \<open>\<open>error(0, s)\<close>: the message, and the error level.\<close>

definition error0 :: "string \<Rightarrow> ld \<Rightarrow> ld" where
  "error0 msg st =
     (let st = (case l_filname st of
                  None \<Rightarrow> st
                | Some f \<Rightarrow>
                    ld_printf (f @
                      (if aname (l_archdr st) ! 0 \<noteq> 0 then ''('' @ str_of (c_str (aname (l_archdr st))) @ '')'' else []) @
                      '': '') st)
      in (ld_printf (msg @ ''\<newline>'') st)\<lparr>l_errlev := 2\<rparr>)"

section \<open>Reading words\<close>

datatype which = Text | Reloc

definition strm :: "which \<Rightarrow> ld \<Rightarrow> stream" where
  "strm w st = (case w of Text \<Rightarrow> l_text st | Reloc \<Rightarrow> l_reloc st)"

definition set_strm :: "which \<Rightarrow> stream \<Rightarrow> ld \<Rightarrow> ld" where
  "set_strm w x st = (case w of Text \<Rightarrow> st\<lparr>l_text := x\<rparr> | Reloc \<Rightarrow> st\<lparr>l_reloc := x\<rparr>)"

definition page_of :: "nat \<Rightarrow> ld \<Rightarrow> page" where
  "page_of i st = (if i = 0 then l_page0 st else l_page1 st)"

definition set_page :: "nat \<Rightarrow> page \<Rightarrow> ld \<Rightarrow> ld" where
  "set_page i p st = (if i = 0 then st\<lparr>l_page0 := p\<rparr> else st\<lparr>l_page1 := p\<rparr>)"

text \<open>\<open>sp->pno->nuser += d\<close>\<close>

definition add_users :: "nat \<Rightarrow> int \<Rightarrow> ld \<Rightarrow> ld" where
  "add_users i d st =
     (if i = 2 then st\<lparr>l_fuser := l_fuser st + d\<rparr>
      else set_page i (page_of i st\<lparr>nuser := nuser (page_of i st) + d\<rparr>) st)"

text \<open>
  \<open>fseek\<close> to block \<open>b\<close> (a negative position leaves the file where it is) and \<open>fread\<close> of up
  to 512 bytes into the buffer of a page.
\<close>

definition fill_page :: "nat \<Rightarrow> int \<Rightarrow> ld \<Rightarrow> ld" where
  "fill_page i b st =
     (let pos = (if b < 0 then l_pos st else nat b * 512);
          got = seg (l_infil st) pos 512
      in set_page i (page_of i st\<lparr>p_bno := b, p_nibuf := int (length got div 2),
                                  p_buff := blit (p_buff (page_of i st)) 0 got\<rparr>)
           (st\<lparr>l_pos := pos + length got\<rparr>))"

text \<open>The page that holds block \<open>b\<close>, or the one that is given up for it.\<close>

definition choose_page :: "int \<Rightarrow> ld \<Rightarrow> ld_error + nat \<times> ld" where
  "choose_page b st =
     (if p_bno (l_page0 st) = b then Inr (0, st)
      else if p_bno (l_page1 st) = b then Inr (1, st)
      else if nuser (l_page1 st) = 0 \<or> nuser (l_page0 st) = 0 then
        let i = (if nuser (l_page1 st) \<noteq> 0 then 0
                 else if nuser (l_page0 st) = 0 \<and> p_bno (l_page0 st) < p_bno (l_page1 st) then 0 else 1)
        in Inr (i, fill_page i b st)
      else Inl (Ld_error ''No pages''))"

definition dseek :: "which \<Rightarrow> int \<Rightarrow> int \<Rightarrow> int \<Rightarrow> ld \<Rightarrow> ld_error + ld" where
  "dseek w ab off s st =
     (let b = short (ab + (drop_bit 8 off AND 0xff));
          off = off AND 0xff;
          st = add_users (s_pno (strm w st)) (-1) st
      in bindE (choose_page b st) (\<lambda>(i, st).
           let st = add_users i 1 st;
               size = (if s \<noteq> -1 then drop_bit 1 s AND 0x7fff else s_size (strm w st));
               left = p_nibuf (page_of i st) - off
           in Inr (set_strm w \<lparr>s_buf = i, s_ptr = off, s_bno = b, s_nibuf = left,
                               s_size = (if left \<le> 0 then 0 else size), s_pno = i\<rparr> st)))"

text \<open>\<open>*sp->ptr++\<close>, within the buffer of the page.\<close>

definition fetch_word :: "which \<Rightarrow> ld \<Rightarrow> ld_error + u16 \<times> ld" where
  "fetch_word w st =
     (let sp = strm w st; bs = p_buff (page_of (s_buf sp) st)
      in if 0 \<le> s_ptr sp \<and> 2 * nat (s_ptr sp) + 2 \<le> length bs
         then Inr (get2 (drop (2 * nat (s_ptr sp)) bs), set_strm w (sp\<lparr>s_ptr := s_ptr sp + 1\<rparr>) st)
         else Inl Ld_overrun)"

text \<open>
  \<open>get\<close>: the next page when this one is used up; then (\<open>get_last\<close>) the size is counted
  down, the page released with the last word, and the word fetched.
\<close>

definition get_last :: "which \<Rightarrow> ld \<Rightarrow> ld_error + u16 \<times> ld" where
  "get_last w st =
     (let st = set_strm w (strm w st\<lparr>s_size := s_size (strm w st) - 1\<rparr>) st
      in if s_size (strm w st) < 0 then Inl (Ld_error ''Premature EOF on %s'')
         else
           let st = (if s_size (strm w st) \<le> 0 then
                       let st = add_users (s_pno (strm w st)) (-1) (st\<lparr>l_fuser := l_fuser st + 1\<rparr>)
                       in set_strm w (strm w st\<lparr>s_pno := 2\<rparr>) st
                     else st)
           in fetch_word w st)"

definition v6_get :: "which \<Rightarrow> ld \<Rightarrow> ld_error + u16 \<times> ld" where
  "v6_get w st =
     (let st = set_strm w (strm w st\<lparr>s_nibuf := s_nibuf (strm w st) - 1\<rparr>) st
      in bindE (if s_nibuf (strm w st) < 0
                then bindE (dseek w (s_bno (strm w st) + 1) 0 (-1) st) (\<lambda>st.
                       Inr (set_strm w (strm w st\<lparr>s_nibuf := s_nibuf (strm w st) - 1\<rparr>) st))
                else Inr st) (get_last w))"

text \<open>\<open>n\<close> words, one after the other.\<close>

fun get_words :: "which \<Rightarrow> nat \<Rightarrow> ld \<Rightarrow> ld_error + u16 list \<times> ld" where
  "get_words w 0 st = Inr ([], st)"
| "get_words w (Suc n) st =
     bindE (v6_get w st) (\<lambda>(x, st). bindE (get_words w n st) (\<lambda>(xs, st). Inr (x # xs, st)))"

text \<open>The copying loop of \<open>mget\<close>.\<close>

fun copy_words :: "nat \<Rightarrow> ld \<Rightarrow> ld_error + u16 list \<times> ld" where
  "copy_words 0 st = Inr ([], st)"
| "copy_words (Suc n) st =
     bindE (fetch_word Text st) (\<lambda>(x, st). bindE (copy_words n st) (\<lambda>(xs, st). Inr (x # xs, st)))"

definition mget :: "nat \<Rightarrow> ld \<Rightarrow> ld_error + u16 list \<times> ld" where
  "mget an st =
     (let n = int (an div 2); sp = l_text st; sp1 = sp\<lparr>s_nibuf := s_nibuf sp - n\<rparr>
      in if s_nibuf sp1 \<ge> 0 \<and> s_size sp1 - n > 0
         then copy_words (an div 2) (st\<lparr>l_text := sp1\<lparr>s_size := s_size sp1 - n\<rparr>\<rparr>)
         else get_words Text (an div 2) st)"

text \<open>The bytes of words in memory, and the structures that \<open>mget\<close> fills.\<close>

definition word_bytes :: "u16 \<Rightarrow> bytes" where
  "word_bytes x = [ucast x, ucast (drop_bit 8 x)]"

definition words_bytes :: "u16 list \<Rightarrow> bytes" where
  "words_bytes xs = concat (map word_bytes xs)"

definition dec_archdr :: "u16 list \<Rightarrow> archdr" where
  "dec_archdr xs = \<lparr>aname = words_bytes (take 4 xs), asize = xs ! 7\<rparr>"

definition dec_filhdr :: "u16 list \<Rightarrow> filhdr" where
  "dec_filhdr xs =
     \<lparr>f_magic = xs ! 0, f_tsize = xs ! 1, f_dsize = xs ! 2, f_bsize = xs ! 3, f_ssize = xs ! 4,
      f_entry = xs ! 5, f_pad = xs ! 6, f_relflg = xs ! 7\<rparr>"

definition dec_symbol :: "u16 list \<Rightarrow> symbol" where
  "dec_symbol xs =
     \<lparr>sname = words_bytes (take 4 xs), stype = ucast (xs ! 4), spad = ucast (drop_bit 8 (xs ! 4)), svalue = xs ! 5\<rparr>"

definition enc_symbol :: "symbol \<Rightarrow> bytes" where
  "enc_symbol y = sname y @ [stype y, spad y] @ word_bytes (svalue y)"

definition enc_filhdr :: "filhdr \<Rightarrow> bytes" where
  "enc_filhdr h =
     words_bytes [f_magic h, f_tsize h, f_dsize h, f_bsize h, f_ssize h, f_entry h, f_pad h, f_relflg h]"

definition SZ_archdr :: nat where "SZ_archdr = 16"
definition SZ_filhdr :: nat where "SZ_filhdr = 16"
definition SZ_symbol :: nat where "SZ_symbol = 12"

text \<open>\<open>cp8c\<close>: the characters up to the first zero, at most eight, padded with zeros.\<close>

definition cp8c :: "bytes \<Rightarrow> bytes" where
  "cp8c s = (let t = take 8 (c_str s) in t @ replicate (8 - length t) 0)"

section \<open>Input files\<close>

definition getfile :: "(string \<Rightarrow> bytes option) \<Rightarrow> string \<Rightarrow> ld \<Rightarrow> ld_error + bool \<times> ld" where
  "getfile files acp st =
     (let cp = (if take 2 acp = ''-l''
                then ''/lib/lib'' @ [if length acp > 2 then acp ! 2 else CHR ''a''] @ ''.a'' else acp);
          st = st\<lparr>l_archdr := l_archdr st\<lparr>aname := (aname (l_archdr st))[0 := 0]\<rparr>, l_filname := Some cp\<rparr>
      in case files cp of
           None \<Rightarrow> Inl (Ld_error ''cannot open'')
         | Some f \<Rightarrow>
             let st = st\<lparr>l_infil := f, l_pos := 0,
                         l_page0 := l_page0 st\<lparr>p_bno := -1, nuser := 0\<rparr>,
                         l_page1 := l_page1 st\<lparr>p_bno := -1, nuser := 0\<rparr>,
                         l_text := l_text st\<lparr>s_pno := 2\<rparr>, l_reloc := l_reloc st\<lparr>s_pno := 2\<rparr>, l_fuser := 2\<rparr>
             in bindE (dseek Text 0 0 2 st) (\<lambda>st.
                if s_size (l_text st) \<le> 0 then Inl (Ld_error ''Premature EOF on %s'')
                else bindE (v6_get Text st) (\<lambda>(x, st). Inr (x = ARCMAGIC, st))))"

definition readhdr :: "int \<Rightarrow> int \<Rightarrow> ld \<Rightarrow> ld_error + ld" where
  "readhdr bno off st =
     bindE (dseek Text bno off (int SZ_filhdr) st) (\<lambda>st.
     bindE (mget SZ_filhdr st) (\<lambda>(xs, st).
       let h = dec_filhdr xs
       in if f_magic h \<noteq> FMAGIC then Inl (Ld_error ''Bad format'')
          else
            let t = (f_tsize h + 1) AND NOT 1;
                d = (f_dsize h + 1) AND NOT 1;
                b = (f_bsize h + 1) AND NOT 1
            in Inr (st\<lparr>l_filhdr := h\<lparr>f_tsize := t, f_bsize := b\<rparr>, l_cdrel := - t, l_cbrel := - (t + d)\<rparr>)))"

section \<open>The symbol table\<close>

definition hash_name :: "bytes \<Rightarrow> u16" where
  "hash_name s = fold (\<lambda>c i. push_bit 1 i + scast c) (take 8 s) 0"

definition hash_slot :: "bytes \<Rightarrow> nat" where
  "hash_slot s = unat (hash_name s AND 0x7fff) mod NSYM + 2"

fun lookup_probe :: "nat \<Rightarrow> nat \<Rightarrow> bytes \<Rightarrow> ld \<Rightarrow> ld_error + nat" where
  "lookup_probe 0 hp s st = Inl Ld_loops"
| "lookup_probe (Suc n) hp s st =
     (if hp < length (l_hshtab st) then
        case l_hshtab st ! hp of
          None \<Rightarrow> Inr hp
        | Some k \<Rightarrow>
            if k < length (l_symtab st) then
              if sname (l_symtab st ! k) = s then Inr hp
              else lookup_probe n (if hp + 1 \<ge> NSYM + 2 then 0 else hp + 1) s st
            else Inl Ld_overrun
      else Inl Ld_overrun)"

definition v6_lookup :: "ld \<Rightarrow> ld_error + nat" where
  "v6_lookup st = lookup_probe (NSYM + 3) (hash_slot (sname (l_cursym st))) (sname (l_cursym st)) st"

definition slookup :: "bytes \<Rightarrow> ld \<Rightarrow> ld_error + nat \<times> ld" where
  "slookup s st =
     (let st = st\<lparr>l_cursym := l_cursym st\<lparr>sname := cp8c s, stype := V_EXTERN + V_UNDEF, svalue := 0\<rparr>\<rparr>
      in bindE (v6_lookup st) (\<lambda>hp. Inr (hp, st)))"

definition enter :: "ld \<Rightarrow> ld_error + nat \<times> ld" where
  "enter st =
     (let n = length (l_symtab st)
      in if n \<ge> NSYM then Inl (Ld_error ''Symbol table overflow'')
         else
           Inr (n, st\<lparr>l_symtab := l_symtab st @
             [\<lparr>sname = cp8c (sname (l_cursym st)), stype = stype (l_cursym st), spad = 0,
               svalue = svalue (l_cursym st)\<rparr>]\<rparr>))"

text \<open>\<open>*hp = enter()\<close>\<close>

definition enter_at :: "nat \<Rightarrow> ld \<Rightarrow> ld_error + ld" where
  "enter_at hp st = bindE (enter st) (\<lambda>(k, st). Inr (st\<lparr>l_hshtab := (l_hshtab st)[hp := Some k]\<rparr>))"

definition symreloc :: "ld \<Rightarrow> ld" where
  "symreloc st =
     (let y = l_cursym st; t = stype y
      in if t = V_TEXT \<or> t = V_EXTERN + V_TEXT then st\<lparr>l_cursym := y\<lparr>svalue := svalue y + l_ctrel st\<rparr>\<rparr>
         else if t = V_DATA \<or> t = V_EXTERN + V_DATA then st\<lparr>l_cursym := y\<lparr>svalue := svalue y + l_cdrel st\<rparr>\<rparr>
         else if t = V_BSS \<or> t = V_EXTERN + V_BSS then st\<lparr>l_cursym := y\<lparr>svalue := svalue y + l_cbrel st\<rparr>\<rparr>
         else if t = V_EXTERN + V_UNDEF then st
         else if t AND V_EXTERN \<noteq> 0 then st\<lparr>l_cursym := y\<lparr>stype := V_EXTERN + V_ABS\<rparr>\<rparr>
         else st)"

section \<open>The first pass\<close>

text \<open>
  One symbol of a module: \<open>locals\<close> are the slots that the module has filled so far, the
  last one first, \<open>ndef\<close> counts the undefined symbols that it defines, \<open>nloc\<close> is the
  size of its local symbols.
\<close>

definition load1_sym :: "nat list \<Rightarrow> nat \<Rightarrow> u16 \<Rightarrow> ld \<Rightarrow> ld_error + nat list \<times> nat \<times> u16 \<times> ld" where
  "load1_sym locals ndef nloc st =
     (if stype (l_cursym st) AND V_EXTERN = 0 then
        Inr (locals, ndef,
             (if \<not> l_Xflag st \<or> sname (l_cursym st) ! 0 \<noteq> 0x4c then nloc + of_nat SZ_symbol else nloc), st)
      else
        let st = symreloc st
        in bindE (v6_lookup st) (\<lambda>hp.
             case l_hshtab st ! hp of
               None \<Rightarrow>
                 bindE (enter_at hp st) (\<lambda>st.
                   if length locals < NSYMPR then Inr (hp # locals, ndef, nloc, st) else Inl Ld_overrun)
             | Some k \<Rightarrow>
                 let sp = l_symtab st ! k; y = l_cursym st
                 in if stype sp \<noteq> V_EXTERN + V_UNDEF then Inr (locals, ndef, nloc, st)
                    else if stype y = V_EXTERN + V_UNDEF then
                      Inr (locals, ndef, nloc,
                           if sint (svalue y) > sint (svalue sp)
                           then st\<lparr>l_symtab := (l_symtab st)[k := sp\<lparr>svalue := svalue y\<rparr>]\<rparr> else st)
                    else if svalue sp \<noteq> 0 \<and> stype y = V_EXTERN + V_TEXT then Inr (locals, ndef, nloc, st)
                    else
                      Inr (locals, ndef + 1, nloc,
                           st\<lparr>l_symtab := (l_symtab st)[k := sp\<lparr>stype := stype y, svalue := svalue y\<rparr>]\<rparr>)))"

fun load1_syms :: "nat \<Rightarrow> nat list \<Rightarrow> nat \<Rightarrow> u16 \<Rightarrow> ld \<Rightarrow> ld_error + nat list \<times> nat \<times> u16 \<times> ld" where
  "load1_syms 0 locals ndef nloc st = Inl Ld_loops"
| "load1_syms (Suc n) locals ndef nloc st =
     (if s_size (l_text st) > 0 then
        bindE (mget SZ_symbol st) (\<lambda>(xs, st).
        bindE (load1_sym locals ndef nloc (st\<lparr>l_cursym := dec_symbol xs\<rparr>)) (\<lambda>(locals, ndef, nloc, st).
          load1_syms n locals ndef nloc st))
      else Inr (locals, ndef, nloc, st))"

text \<open>The symbols of a library member that is not needed are taken out again.\<close>

definition rip_out :: "nat \<Rightarrow> nat list \<Rightarrow> ld \<Rightarrow> ld" where
  "rip_out n locals st =
     st\<lparr>l_symtab := take n (l_symtab st),
        l_hshtab := fold (\<lambda>hp h. h[hp := None]) locals (l_hshtab st)\<rparr>"

definition load1 :: "bool \<Rightarrow> int \<Rightarrow> int \<Rightarrow> ld \<Rightarrow> ld_error + bool \<times> ld" where
  "load1 libflg bno off st =
     bindE (readhdr bno off st) (\<lambda>st.
       let h = l_filhdr st;
           st = st\<lparr>l_ctrel := l_tsize st, l_cdrel := l_cdrel st + l_dsize st, l_cbrel := l_cbrel st + l_bsize st\<rparr>;
           n = length (l_symtab st)
       in if f_relflg h AND RELFLG = 1 then Inr (False, error0 ''No relocation bits'' st)
          else
            let off = off + 8 + sint (f_tsize h) + sint (f_dsize h)
            in bindE (dseek Text bno off (sint (f_ssize h)) st) (\<lambda>st.
               bindE (load1_syms (nat (s_size (l_text st)) + 1) [] 0 (of_nat SZ_symbol) st) (\<lambda>(locals, ndef, nloc, st).
                 if \<not> libflg \<or> ndef > 0 then
                   Inr (True, st\<lparr>l_tsize := l_tsize st + f_tsize h, l_dsize := l_dsize st + f_dsize h,
                                 l_bsize := l_bsize st + f_bsize h, l_ssize := l_ssize st + nloc\<rparr>)
                 else Inr (False, rip_out n locals st))))"

text \<open>
  The members of a library. The loop ends where the file does; the header of a member with a
  size that moves the position back keeps it from ending.
\<close>

fun load1lib :: "nat \<Rightarrow> u16 \<Rightarrow> u16 \<Rightarrow> ld \<Rightarrow> ld_error + ld" where
  "load1lib 0 nbno noff st = Inl Ld_loops"
| "load1lib (Suc n) nbno noff st =
     bindE (dseek Text (sint nbno) (sint noff) (int SZ_archdr) st) (\<lambda>st.
       if s_size (l_text st) \<le> 0 then
         if length (l_liblist st) < NROUT then Inr (st\<lparr>l_liblist := l_liblist st @ [(0, -1)]\<rparr>) else Inl Ld_overrun
       else
         bindE (mget SZ_archdr st) (\<lambda>(xs, st).
         bindE (load1 True (sint nbno) (sint noff + int SZ_archdr div 2) (st\<lparr>l_archdr := dec_archdr xs\<rparr>)) (\<lambda>(b, st).
         bindE (if b then
                  if length (l_liblist st) < NROUT
                  then Inr (st\<lparr>l_liblist := l_liblist st @ [(noff, sint nbno)]\<rparr>) else Inl Ld_overrun
                else Inr st) (\<lambda>st.
           let noff' = noff + ucast (drop_bit 1 (scast (asize (l_archdr st)) + of_nat SZ_archdr :: u32))
           in load1lib n (nbno + (signed_drop_bit 8 noff' AND 0xff)) (noff' AND 0xff) st))))"

definition load1arg :: "(string \<Rightarrow> bytes option) \<Rightarrow> nat \<Rightarrow> string \<Rightarrow> ld \<Rightarrow> ld_error + ld" where
  "load1arg files n acp st =
     bindE (getfile files acp st) (\<lambda>(arc, st).
       if arc then load1lib n 0 1 st else bindE (load1 False 0 0 st) (\<lambda>(b, st). Inr st))"

section \<open>The addresses\<close>

text \<open>The value of \<open>*slookup(s)\<close>.\<close>

definition find_sym :: "bytes \<Rightarrow> ld \<Rightarrow> ld_error + nat option \<times> ld" where
  "find_sym s st = bindE (slookup s st) (\<lambda>(hp, st). Inr (l_hshtab st ! hp, st))"

definition n_etext :: bytes where "n_etext = [0x5f, 0x65, 0x74, 0x65, 0x78, 0x74]"
definition n_edata :: bytes where "n_edata = [0x5f, 0x65, 0x64, 0x61, 0x74, 0x61]"
definition n_end :: bytes where "n_end = [0x5f, 0x65, 0x6e, 0x64]"

text \<open>The loop that assigns the common locations; \<open>c\<close> is \<open>csize\<close>.\<close>

fun common_loop :: "symbol list \<Rightarrow> u16 \<Rightarrow> symbol list \<times> u16" where
  "common_loop [] c = ([], c)"
| "common_loop (y # ys) c =
     (if stype y = V_EXTERN + V_UNDEF \<and> svalue y \<noteq> 0 then
        let t = (svalue y + 1) AND NOT 1; (zs, c') = common_loop ys (c + t)
        in (y\<lparr>svalue := c, stype := V_EXTERN + V_COMM\<rparr> # zs, c')
      else let (zs, c') = common_loop ys c in (y # zs, c'))"

text \<open>One of the three symbols that the link editor defines itself.\<close>

definition define_end :: "nat option \<Rightarrow> byte \<Rightarrow> u16 \<Rightarrow> symbol list \<Rightarrow> symbol list" where
  "define_end p t v ys =
     (case p of
        None \<Rightarrow> ys
      | Some k \<Rightarrow> if stype (ys ! k) = V_EXTERN + V_UNDEF
                   then ys[k := (ys ! k)\<lparr>stype := V_EXTERN + t, svalue := v\<rparr>] else ys)"

text \<open>The final value of a symbol.\<close>

definition final_symbol :: "u16 \<Rightarrow> u16 \<Rightarrow> u16 \<Rightarrow> u16 \<Rightarrow> symbol \<Rightarrow> symbol" where
  "final_symbol torg dorg borg corg y =
     (if stype y = V_EXTERN + V_TEXT then y\<lparr>svalue := svalue y + torg\<rparr>
      else if stype y = V_EXTERN + V_DATA then y\<lparr>svalue := svalue y + dorg\<rparr>
      else if stype y = V_EXTERN + V_BSS then y\<lparr>svalue := svalue y + borg\<rparr>
      else if stype y = V_EXTERN + V_COMM then y\<lparr>stype := V_EXTERN + V_BSS, svalue := svalue y + corg\<rparr>
      else y)"

fun report_undefined :: "symbol list \<Rightarrow> nat \<Rightarrow> ld \<Rightarrow> ld" where
  "report_undefined [] nund st = st"
| "report_undefined (y # ys) nund st =
     (if stype y = V_EXTERN + V_UNDEF then
        let st = st\<lparr>l_errlev := l_errlev st OR 1\<rparr>
        in if \<not> l_arflag st \<and> svalue y = 0 then
             report_undefined ys (nund + 1)
               (ld_printf ((if nund = 0 then ''Undefined:'' @ ''\<newline>'' else []) @
                  str_of (c_str (sname y)) @ ''\<newline>'') st)
           else report_undefined ys nund st
      else report_undefined ys nund st)"

definition middle :: "ld \<Rightarrow> ld_error + ld" where
  "middle st =
     bindE (find_sym n_etext st) (\<lambda>(p_etext, st).
     bindE (find_sym n_edata st) (\<lambda>(p_edata, st).
     bindE (find_sym n_end st) (\<lambda>(p_end, st).
       let undef = (\<exists>k < length (l_symtab st). stype (l_symtab st ! k) = V_EXTERN + V_UNDEF \<and>
                      svalue (l_symtab st ! k) = 0 \<and> Some k \<noteq> p_end \<and> Some k \<noteq> p_edata \<and> Some k \<noteq> p_etext);
           st = (if \<not> l_rflag st \<and> undef
                 then st\<lparr>l_rflag := True, l_dflag := False, l_nflag := False, l_iflag := False, l_sflag := False\<rparr>
                 else st);
           (ys, csize) =
             (if l_dflag st \<or> \<not> l_rflag st then
                let (ys, csize) = common_loop (l_symtab st) 0;
                    ys = define_end p_etext V_TEXT (l_tsize st) ys;
                    ys = define_end p_edata V_DATA (l_dsize st) ys;
                    ys = define_end p_end V_BSS (l_bsize st) ys
                in (ys, csize)
              else (l_symtab st, 0));
           tsize = (if l_nflag st \<or> l_iflag st then (l_tsize st + 0x3f) AND NOT 0x3f else l_tsize st);
           dorigin = (if l_iflag st then 0
                      else if l_nflag st then (tsize + 0x1fff) AND NOT 0x1fff else tsize);
           corigin = dorigin + l_dsize st;
           borigin = corigin + csize;
           st = report_undefined ys 0 st;
           ssize = (if l_sflag st \<or> l_xflag st then 0 else l_ssize st)
       in Inr (st\<lparr>l_symtab := map (final_symbol (l_torigin st) dorigin borigin corigin) ys,
                  l_tsize := tsize, l_dorigin := dorigin, l_borigin := borigin, l_ssize := ssize,
                  l_bsize := l_bsize st + csize,
                  l_nsym := ucast ((scast ssize :: u32) div of_nat SZ_symbol)\<rparr>))))"

section \<open>Output\<close>

text \<open>\<open>put16\<close> and \<open>mput\<close>: a write to a null \<open>FILE\<close> does not return.\<close>

definition fput :: "bytes \<Rightarrow> bytes option \<Rightarrow> ld_error + bytes option" where
  "fput bs f = (case f of None \<Rightarrow> Inl Null_file | Some old \<Rightarrow> Inr (Some (old @ bs)))"

definition put16 :: "u16 \<Rightarrow> bytes option \<Rightarrow> ld_error + bytes option" where
  "put16 v f = fput (word_bytes v) f"

text \<open>
  \<open>tcreat\<close> opens the temporary file and assigns it to its parameter: the variable of the caller
  keeps its value. \<open>ok\<close> says whether the file can be created.
\<close>

definition tcreat :: "bool \<Rightarrow> bytes option \<Rightarrow> ld_error + bytes option" where
  "tcreat ok buf = (if ok then Inr buf else Inl (Ld_error (''Can'' @ [CHR 0x27] @ ''t create temp'')))"

definition setupout :: "bool \<Rightarrow> bool \<Rightarrow> ld \<Rightarrow> ld_error + ld" where
  "setupout ok_out ok_temp st =
     (let st = st\<lparr>l_tout := (if ok_out then Some [] else None)\<rparr>
      in bindE (tcreat ok_temp (l_dout st)) (\<lambda>f.
         let st = st\<lparr>l_dout := f\<rparr>
         in bindE (if \<not> l_sflag st \<or> \<not> l_xflag st then tcreat ok_temp (l_sout st) else Inr (l_sout st)) (\<lambda>f.
         let st = st\<lparr>l_sout := f\<rparr>
         in bindE (if l_rflag st then tcreat ok_temp (l_trout st) else Inr (l_trout st)) (\<lambda>f.
         let st = st\<lparr>l_trout := f\<rparr>
         in bindE (if l_rflag st then tcreat ok_temp (l_drout st) else Inr (l_drout st)) (\<lambda>f.
         let st = st\<lparr>l_drout := f\<rparr>;
             h = \<lparr>f_magic = (if l_iflag st then IMAGIC else if l_nflag st then NMAGIC else FMAGIC),
                  f_tsize = l_tsize st, f_dsize = l_dsize st, f_bsize = l_bsize st,
                  f_ssize = (if l_sflag st then 0
                             else l_ssize st + of_nat SZ_symbol * of_nat (length (l_symtab st))),
                  f_entry = 0, f_pad = 0, f_relflg = (if l_rflag st then 0 else 1)\<rparr>
         in bindE (fput (enc_filhdr h) (l_tout st)) (\<lambda>f. Inr (st\<lparr>l_tout := f, l_filhdr := h\<rparr>)))))))"

definition mkfsym :: "bytes \<Rightarrow> ld \<Rightarrow> ld_error + ld" where
  "mkfsym s st =
     (if l_sflag st \<or> l_xflag st then Inr st
      else
        let y = l_cursym st\<lparr>sname := cp8c s, stype := 0x1f, svalue := l_torigin st\<rparr>
        in bindE (fput (enc_symbol y) (l_sout st)) (\<lambda>f. Inr (st\<lparr>l_cursym := y, l_sout := f\<rparr>)))"

section \<open>The second pass\<close>

fun lookloc :: "(int \<times> nat) list \<Rightarrow> u16 \<Rightarrow> ld_error + nat" where
  "lookloc [] r = Inl (Ld_error ''Local symbol botch'')"
| "lookloc ((num, k) # ls) r = (if num = uint (drop_bit 4 r AND 0xfff) then Inr k else lookloc ls r)"

text \<open>A word and its relocation word: what is written for them.\<close>

definition reloc_word :: "(int \<times> nat) list \<Rightarrow> u16 \<Rightarrow> u16 \<Rightarrow> u16 \<Rightarrow> ld \<Rightarrow> ld_error + u16 \<times> u16" where
  "reloc_word ls creloc t r st =
     bindE (if r AND 0xe = RTEXT then Inr (t + l_ctrel st, r)
            else if r AND 0xe = RDATA then Inr (t + l_cdrel st, r)
            else if r AND 0xe = RBSS then Inr (t + l_cbrel st, r)
            else if r AND 0xe = REXT then
              bindE (lookloc ls r) (\<lambda>k.
                if k < length (l_symtab st) then
                  let sp = l_symtab st ! k
                  in if stype sp = V_EXTERN + V_UNDEF
                     then Inr (t, (r AND 1) + push_bit 4 (l_nsym st + of_nat k) + REXT)
                     else Inr (t + svalue sp, (r AND 1) + push_bit 1 (scast (stype sp) - ucast (V_EXTERN + V_ABS)))
                else Inl Ld_overrun)
            else Inr (t, r)) (\<lambda>(t, r).
       Inr (if r AND 1 \<noteq> 0 then t - creloc else t, r))"

text \<open>The words are picked up by a copy of the code of \<open>get\<close>; nothing is left where the size is used up.\<close>

definition pick_up :: "which \<Rightarrow> ld \<Rightarrow> ld_error + u16 option \<times> ld" where
  "pick_up w st =
     (let sp = strm w st; size = s_size sp - 1
      in if size \<le> 0 then
           if size < 0 then Inr (None, set_strm w (sp\<lparr>s_size := size\<rparr>) st)
           else bindE (v6_get w (set_strm w (sp\<lparr>s_size := size + 1\<rparr>) st)) (\<lambda>(x, st). Inr (Some x, st))
         else if s_nibuf sp - 1 < 0 then
           bindE (v6_get w (set_strm w (sp\<lparr>s_size := size + 1, s_nibuf := s_nibuf sp - 1 + 1\<rparr>) st)) (\<lambda>(x, st).
             Inr (Some x, st))
         else
           bindE (fetch_word w (set_strm w (sp\<lparr>s_size := size, s_nibuf := s_nibuf sp - 1\<rparr>) st)) (\<lambda>(x, st).
             Inr (Some x, st)))"

text \<open>\<open>b1\<close> and \<open>b2\<close> are the files for the words and the relocation words.\<close>

fun load2td :: "nat \<Rightarrow> (int \<times> nat) list \<Rightarrow> u16 \<Rightarrow> bytes option \<Rightarrow> bytes option \<Rightarrow> ld \<Rightarrow>
    ld_error + bytes option \<times> bytes option \<times> ld" where
  "load2td 0 ls creloc b1 b2 st = Inl Ld_loops"
| "load2td (Suc n) ls creloc b1 b2 st =
     bindE (pick_up Text st) (\<lambda>(t, st).
       case t of
         None \<Rightarrow> Inr (b1, b2, st)
       | Some t \<Rightarrow>
           bindE (pick_up Reloc st) (\<lambda>(r, st).
             case r of
               None \<Rightarrow> Inl (Ld_error ''Relocation error'')
             | Some r \<Rightarrow>
                 bindE (reloc_word ls creloc t r st) (\<lambda>(t, r).
                 bindE (put16 t b1) (\<lambda>b1.
                 bindE (if l_rflag st then put16 r b2 else Inr b2) (\<lambda>b2.
                   load2td n ls creloc b1 b2 st)))))"

definition load2_sym :: "int \<Rightarrow> ld \<Rightarrow> ld_error + ld" where
  "load2_sym symno st =
     (let st = symreloc st; y = l_cursym st
      in if stype y AND V_EXTERN = 0 then
           if \<not> l_sflag st \<and> \<not> l_xflag st \<and> (\<not> l_Xflag st \<or> sname y ! 0 \<noteq> 0x4c)
           then bindE (fput (enc_symbol y) (l_sout st)) (\<lambda>f. Inr (st\<lparr>l_sout := f\<rparr>)) else Inr st
         else
           bindE (v6_lookup st) (\<lambda>hp.
             case l_hshtab st ! hp of
               None \<Rightarrow> Inl (Ld_error ''internal error: symbol not found'')
             | Some k \<Rightarrow>
                 if stype y = V_EXTERN + V_UNDEF then
                   if length (l_local2 st) \<ge> NSYMPR then Inl (Ld_error ''Local symbol overflow'')
                   else Inr (st\<lparr>l_local2 := l_local2 st @ [(symno, k)]\<rparr>)
                 else if stype y \<noteq> stype (l_symtab st ! k) \<or> svalue y \<noteq> svalue (l_symtab st ! k) then
                   Inr (error0 ''Multiply defined'' (ld_printf (str_of (c_str (sname y)) @ '': '') st))
                 else Inr st))"

fun load2_syms :: "nat \<Rightarrow> int \<Rightarrow> ld \<Rightarrow> ld_error + ld" where
  "load2_syms 0 symno st = Inl Ld_loops"
| "load2_syms (Suc n) symno st =
     (if s_size (l_text st) > 0 then
        bindE (mget SZ_symbol st) (\<lambda>(xs, st).
        bindE (load2_sym (short (symno + 1)) (st\<lparr>l_cursym := dec_symbol xs\<rparr>)) (\<lambda>st.
          load2_syms n (short (symno + 1)) st))
      else Inr st)"

definition load2 :: "int \<Rightarrow> int \<Rightarrow> ld \<Rightarrow> ld_error + ld" where
  "load2 bno off st =
     bindE (readhdr bno off st) (\<lambda>st.
       let h = l_filhdr st; t = sint (f_tsize h); d = sint (f_dsize h); off = off + 8;
           st = st\<lparr>l_ctrel := l_torigin st, l_cdrel := l_cdrel st + l_dorigin st,
                   l_cbrel := l_cbrel st + l_borigin st, l_local2 := []\<rparr>
       in bindE (dseek Text bno (off + t + d) (sint (f_ssize h)) st) (\<lambda>st.
          bindE (load2_syms (nat (s_size (l_text st)) + 1) (-1) st) (\<lambda>st.
          bindE (dseek Text bno off t st) (\<lambda>st.
          bindE (dseek Reloc bno (off + (t + d) sdiv 2) t st) (\<lambda>st.
          bindE (load2td (nat (s_size (l_text st)) + 1) (l_local2 st) (l_ctrel st) (l_tout st) (l_trout st) st) (\<lambda>(b1, b2, st).
          bindE (dseek Text bno (off + t sdiv 2) d (st\<lparr>l_tout := b1, l_trout := b2\<rparr>)) (\<lambda>st.
          bindE (dseek Reloc bno (off + t + d sdiv 2) d st) (\<lambda>st.
          bindE (load2td (nat (s_size (l_text st)) + 1) (l_local2 st) (l_cdrel st) (l_dout st) (l_drout st) st) (\<lambda>(b1, b2, st).
            Inr (st\<lparr>l_dout := b1, l_drout := b2, l_torigin := l_torigin st + f_tsize h,
                    l_dorigin := l_dorigin st + f_dsize h, l_borigin := l_borigin st + f_bsize h\<rparr>))))))))))"

text \<open>The part of a path name behind the last slash, as bytes.\<close>

definition path_tail :: "string \<Rightarrow> bytes" where
  "path_tail s = map of_char (rev (takeWhile (\<lambda>c. c \<noteq> CHR ''/'') (rev s)))"

text \<open>The members that the first pass has chosen; the list ends with block \<open>-1\<close>.\<close>

fun load2lib :: "(u16 \<times> int) list \<Rightarrow> ld \<Rightarrow> ld_error + (u16 \<times> int) list \<times> ld" where
  "load2lib [] st = Inl Ld_overrun"
| "load2lib ((off, bno) # ls) st =
     (if bno = -1 then Inr (ls, st)
      else
        bindE (dseek Text bno (sint off) (int SZ_archdr) st) (\<lambda>st.
        bindE (mget SZ_archdr st) (\<lambda>(xs, st).
        bindE (mkfsym (aname (dec_archdr xs)) (st\<lparr>l_archdr := dec_archdr xs\<rparr>)) (\<lambda>st.
        bindE (load2 bno (sint off + int SZ_archdr div 2) st) (\<lambda>st. load2lib ls st)))))"

definition load2arg :: "(string \<Rightarrow> bytes option) \<Rightarrow> string \<Rightarrow> ld \<Rightarrow> ld_error + ld" where
  "load2arg files acp st =
     bindE (getfile files acp st) (\<lambda>(arc, st).
       if \<not> arc then bindE (mkfsym (path_tail acp) st) (load2 0 0)
       else bindE (load2lib (l_liblist st) st) (\<lambda>(ls, st). Inr (st\<lparr>l_liblist := ls\<rparr>)))"

section \<open>The end\<close>

text \<open>
  \<open>copy\<close> flushes and closes the temporary file and appends its contents to the output; on a null
  pointer \<open>fclose\<close> does not return.
\<close>

definition copy_temp :: "bytes option \<Rightarrow> bytes option \<Rightarrow> ld_error + bytes option" where
  "copy_temp buf tout = (case buf of None \<Rightarrow> Inl Null_file | Some bs \<Rightarrow> if bs = [] then Inr tout else fput bs tout)"

text \<open>The words that fill up the text to a multiple of 64 bytes.\<close>

fun pad_text :: "nat \<Rightarrow> u16 \<Rightarrow> bytes option \<Rightarrow> bytes option \<Rightarrow> bool \<Rightarrow> ld_error + bytes option \<times> bytes option" where
  "pad_text 0 n tout trout rflag = Inl Ld_loops"
| "pad_text (Suc k) n tout trout rflag =
     (if n AND 0x3f \<noteq> 0 then
        bindE (put16 0 tout) (\<lambda>tout.
        bindE (if rflag then put16 0 trout else Inr trout) (\<lambda>trout. pad_text k (n + 2) tout trout rflag))
      else Inr (tout, trout))"

definition finishout :: "ld \<Rightarrow> ld_error + ld" where
  "finishout st =
     bindE (if l_nflag st \<or> l_iflag st then pad_text 33 (l_torigin st) (l_tout st) (l_trout st) (l_rflag st)
            else Inr (l_tout st, l_trout st)) (\<lambda>(tout, trout).
     bindE (copy_temp (l_dout st) tout) (\<lambda>tout.
     bindE (if l_rflag st then bindE (copy_temp trout tout) (copy_temp (l_drout st)) else Inr tout) (\<lambda>tout.
     bindE (if l_sflag st then Inr tout
            else
              bindE (if l_xflag st then Inr tout else copy_temp (l_sout st) tout) (\<lambda>tout.
                fput (concat (map enc_symbol (l_symtab st))) tout)) (\<lambda>tout.
       Inr (st\<lparr>l_tout := tout, l_trout := trout\<rparr>)))))"

section \<open>The program\<close>

text \<open>The options of the first pass; \<open>None\<close> for an argument that is an input file.\<close>

definition set_flag :: "char \<Rightarrow> ld \<Rightarrow> ld option" where
  "set_flag c st =
     (if c = CHR ''x'' then Some (st\<lparr>l_xflag := True\<rparr>)
      else if c = CHR ''X'' then Some (st\<lparr>l_Xflag := True\<rparr>)
      else if c = CHR ''r'' then Some (st\<lparr>l_rflag := True, l_arflag := True\<rparr>)
      else if c = CHR ''s'' then Some (st\<lparr>l_sflag := True, l_xflag := True\<rparr>)
      else if c = CHR ''n'' then Some (st\<lparr>l_nflag := True\<rparr>)
      else if c = CHR ''d'' then Some (st\<lparr>l_dflag := True\<rparr>)
      else if c = CHR ''i'' then Some (st\<lparr>l_iflag := True\<rparr>)
      else None)"

definition arg_char :: "string \<Rightarrow> char" where
  "arg_char a = (if length a > 1 then a ! 1 else CHR 0x00)"

fun pass1 :: "(string \<Rightarrow> bytes option) \<Rightarrow> nat \<Rightarrow> string list \<Rightarrow> ld \<Rightarrow> ld_error + ld" where
  "pass1 files n [] st = Inr st"
| "pass1 files n (ap # args) st =
     (let st = st\<lparr>l_filname := None\<rparr>
      in if take 1 ap = ''-'' \<and> arg_char ap = CHR ''u'' then
           (case args of
              [] \<Rightarrow> Inl (Ld_error (''Bad '' @ [CHR 0x27] @ ''use'' @ [CHR 0x27]))
            | s # args \<Rightarrow>
                bindE (slookup (map of_char s) st) (\<lambda>(hp, st).
                bindE (if l_hshtab st ! hp = None
                       then bindE (enter (st\<lparr>l_hshtab := (l_hshtab st)[hp := Some (length (l_symtab st))]\<rparr>)) (\<lambda>(k, st). Inr st)
                       else Inr st) (\<lambda>st.
                  pass1 files n args st)))
         else
           case (if take 1 ap = ''-'' then set_flag (arg_char ap) st else None) of
             Some st \<Rightarrow> pass1 files n args st
           | None \<Rightarrow> bindE (load1arg files n ap st) (\<lambda>st. pass1 files n args st))"

fun pass2 :: "(string \<Rightarrow> bytes option) \<Rightarrow> string list \<Rightarrow> ld \<Rightarrow> ld_error + ld" where
  "pass2 files [] st = Inr st"
| "pass2 files (ap # args) st =
     (if take 1 ap = ''-'' \<and> arg_char ap \<noteq> CHR ''l'' then
        pass2 files (if arg_char ap = CHR ''u'' then drop 1 args else args) st
      else bindE (load2arg files ap st) (\<lambda>st. pass2 files args st))"

definition empty_page :: page where
  "empty_page = \<lparr>nuser = 0, p_bno = 0, p_nibuf = 0, p_buff = replicate 512 0\<rparr>"

definition empty_stream :: stream where
  "empty_stream = \<lparr>s_buf = 0, s_ptr = 0, s_bno = 0, s_nibuf = 0, s_size = 0, s_pno = 2\<rparr>"

definition ld_init :: ld where
  "ld_init =
     \<lparr>l_infil = [], l_pos = 0, l_page0 = empty_page, l_page1 = empty_page, l_fuser = 0, l_text = empty_stream,
      l_reloc = empty_stream, l_archdr = \<lparr>aname = replicate 8 0, asize = 0\<rparr>,
      l_filhdr = \<lparr>f_magic = 0, f_tsize = 0, f_dsize = 0, f_bsize = 0, f_ssize = 0, f_entry = 0, f_pad = 0, f_relflg = 0\<rparr>,
      l_liblist = [], l_cursym = \<lparr>sname = replicate 8 0, stype = 0, spad = 0, svalue = 0\<rparr>, l_symtab = [],
      l_hshtab = replicate (NSYM + 2) None, l_local2 = [], l_xflag = False, l_Xflag = False, l_rflag = False,
      l_arflag = False, l_sflag = False, l_nflag = False, l_dflag = False, l_iflag = False, l_filname = None,
      l_tsize = 0, l_dsize = 0, l_bsize = 0, l_ssize = 0, l_nsym = 0, l_torigin = 0, l_dorigin = 0, l_borigin = 0,
      l_ctrel = 0, l_cdrel = 0, l_cbrel = 0, l_errlev = 0, l_tout = None, l_dout = None, l_trout = None,
      l_drout = None, l_sout = None, l_stdout = []\<rparr>"

text \<open>\<open>main\<close>, with the files that can be read and whether the output and temporary files can be created.\<close>

definition ld_main :: "(string \<Rightarrow> bytes option) \<Rightarrow> bool \<Rightarrow> bool \<Rightarrow> nat \<Rightarrow> string list \<Rightarrow> ld_error + ld" where
  "ld_main files ok_out ok_temp n args =
     (if args = [] then Inl (Ld_exit 4)
      else
        bindE (pass1 files n args ld_init) (\<lambda>st.
        bindE (middle st) (\<lambda>st.
        bindE (setupout ok_out ok_temp st) (\<lambda>st.
        bindE (pass2 files args st) finishout))))"

end
