(* ===== verification/V6_Read.thy ===== *)
theory V6_Read
  imports V6_Ld
begin

text \<open>
  The input of the link editor: what the reading routines leave alone, the invariant of the
  two-page cache, and the words that the two streams deliver. The cache implements reading the
  file word by word: a page is never given up while a stream uses it, there is always a page to
  be had, and a stream delivers the words of the file in order, across the borders of pages.
\<close>

section \<open>What reading leaves alone\<close>

text \<open>The state without what the reading routines change.\<close>

definition core :: "ld \<Rightarrow> ld" where
  "core st = st\<lparr>l_pos := 0, l_page0 := empty_page, l_page1 := empty_page, l_fuser := 0,
                l_text := empty_stream, l_reloc := empty_stream\<rparr>"

lemma core_update [simp]:
  "core (st\<lparr>l_pos := a\<rparr>) = core st" "core (st\<lparr>l_page0 := b\<rparr>) = core st" "core (st\<lparr>l_page1 := c\<rparr>) = core st"
  "core (st\<lparr>l_fuser := d\<rparr>) = core st" "core (st\<lparr>l_text := e\<rparr>) = core st" "core (st\<lparr>l_reloc := f\<rparr>) = core st"
  by (simp_all add: core_def)

lemma core_set [simp]:
  "core (set_strm w x st) = core st" "core (set_page i p st) = core st" "core (add_users i d st) = core st"
  "core (fill_page i b st) = core st"
  by (simp_all add: set_strm_def set_page_def add_users_def fill_page_def Let_def split: which.split)

lemma core_choose_page: "choose_page b st = Inr (i, st') \<Longrightarrow> core st' = core st"
  by (auto simp: choose_page_def Let_def split: if_splits)

lemma core_dseek: "dseek w ab off s st = Inr st' \<Longrightarrow> core st' = core st"
  by (auto simp: dseek_def Let_def error_simps dest!: core_choose_page split: prod.splits)

lemma core_fetch_word: "fetch_word w st = Inr (x, st') \<Longrightarrow> core st' = core st"
  by (auto simp: fetch_word_def Let_def split: if_splits)

lemma core_get: "v6_get w st = Inr (x, st') \<Longrightarrow> core st' = core st"
  by (auto simp: v6_get_def get_last_def Let_def error_simps dest!: core_fetch_word core_dseek split: if_splits)

lemma core_get_words: "get_words w n st = Inr (xs, st') \<Longrightarrow> core st' = core st"
  by (induction n arbitrary: st xs) (auto simp: error_simps dest!: core_get)

lemma core_copy_words: "copy_words n st = Inr (xs, st') \<Longrightarrow> core st' = core st"
  by (induction n arbitrary: st xs) (auto simp: error_simps dest!: core_fetch_word)

lemma core_mget: "mget an st = Inr (xs, st') \<Longrightarrow> core st' = core st"
  by (auto simp: mget_def Let_def dest!: core_copy_words core_get_words split: if_splits)

lemma core_pick_up: "pick_up w st = Inr (x, st') \<Longrightarrow> core st' = core st"
  by (auto simp: pick_up_def Let_def error_simps dest!: core_get core_fetch_word split: if_splits)

lemma core_eqD:
  assumes "core st' = core st"
  shows "l_symtab st' = l_symtab st" "l_hshtab st' = l_hshtab st" "l_infil st' = l_infil st"
    "l_dout st' = l_dout st" "l_tout st' = l_tout st" "l_rflag st' = l_rflag st" "l_cursym st' = l_cursym st"
    "l_nsym st' = l_nsym st" "l_ctrel st' = l_ctrel st" "l_cdrel st' = l_cdrel st" "l_cbrel st' = l_cbrel st"
    "l_local2 st' = l_local2 st" "l_filhdr st' = l_filhdr st" "l_liblist st' = l_liblist st"
  using assms unfolding core_def by (cases st; cases st'; simp)+

section \<open>The invariant of the cache\<close>

fun other :: "which \<Rightarrow> which" where
  "other Text = Reloc"
| "other Reloc = Text"

lemma other_simps [simp]: "other w \<noteq> w" "w \<noteq> other w" "other (other w) = w"
  by (cases w; simp)+

text \<open>What is in block \<open>b\<close> of the file.\<close>

definition block :: "bytes \<Rightarrow> int \<Rightarrow> bytes" where
  "block f b = seg f (nat b * 512) 512"

text \<open>A page holds the block that it says, or none.\<close>

definition page_ok :: "ld \<Rightarrow> page \<Rightarrow> bool" where
  "page_ok st p \<longleftrightarrow> length (p_buff p) = 512 \<and>
     (0 \<le> p_bno p \<longrightarrow>
        p_nibuf p = int (length (block (l_infil st) (p_bno p)) div 2) \<and>
        take (length (block (l_infil st) (p_bno p))) (p_buff p) = block (l_infil st) (p_bno p))"

definition users_on :: "nat \<Rightarrow> ld \<Rightarrow> int" where
  "users_on i st = (if s_pno (l_text st) = i then 1 else 0) + (if s_pno (l_reloc st) = i then 1 else 0)"

definition cache_inv :: "ld \<Rightarrow> bool" where
  "cache_inv st \<longleftrightarrow>
     page_ok st (l_page0 st) \<and> page_ok st (l_page1 st) \<and>
     nuser (l_page0 st) = users_on 0 st \<and> nuser (l_page1 st) = users_on 1 st \<and>
     s_pno (l_text st) \<le> 2 \<and> s_pno (l_reloc st) \<le> 2"

text \<open>A stream that uses a page points into its buffer.\<close>

definition stream_ok :: "which \<Rightarrow> ld \<Rightarrow> bool" where
  "stream_ok w st \<longleftrightarrow>
     (let sp = strm w st; p = page_of (s_pno sp) st
      in s_pno sp < 2 \<longrightarrow>
           s_buf sp = s_pno sp \<and> 0 \<le> s_bno sp \<and> p_bno p = s_bno sp \<and> 0 \<le> s_ptr sp \<and>
           s_nibuf sp = p_nibuf p - s_ptr sp)"

lemma page_of_set_page [simp]:
  "page_of i (set_page j p st) = (if (i = 0) = (j = 0) then p else page_of i st)"
  by (simp add: page_of_def set_page_def)

lemma strm_set_strm [simp]: "strm v (set_strm w x st) = (if v = w then x else strm v st)"
  by (cases v; cases w) (simp_all add: strm_def set_strm_def)

lemma set_strm_set_strm [simp]: "set_strm w x (set_strm w y st) = set_strm w x st"
  by (cases w) (simp_all add: set_strm_def)

lemma page_of_set_strm [simp]: "page_of i (set_strm w x st) = page_of i st"
  by (cases w) (simp_all add: page_of_def set_strm_def)

lemma strm_set_page [simp]: "strm w (set_page i p st) = strm w st"
  by (cases w) (simp_all add: strm_def set_page_def)

lemma infil_simps [simp]:
  "l_infil (set_strm w x st) = l_infil st" "l_infil (set_page i p st) = l_infil st"
  "l_infil (add_users i d st) = l_infil st"
  by (cases w; simp_all add: set_strm_def set_page_def add_users_def)+

lemma add_users_simps [simp]:
  "strm w (add_users i d st) = strm w st"
  "i < 2 \<Longrightarrow> page_of j (add_users i d st) =
     (if (j = 0) = (i = 0) then page_of i st\<lparr>nuser := nuser (page_of i st) + d\<rparr> else page_of j st)"
  "page_of j (add_users 2 d st) = page_of j st"
  by (cases w; auto simp: add_users_def strm_def page_of_def set_page_def)+

lemma update_simps [simp]:
  "page_of i (st\<lparr>l_pos := x\<rparr>) = page_of i st" "strm w (st\<lparr>l_pos := x\<rparr>) = strm w st"
  "page_of i (st\<lparr>l_fuser := y\<rparr>) = page_of i st" "strm w (st\<lparr>l_fuser := y\<rparr>) = strm w st"
  by (cases w; simp add: page_of_def strm_def)+

lemma users_on_strm: "users_on i st = (if s_pno (strm w st) = i then 1 else 0) + (if s_pno (strm (other w) st) = i then 1 else 0)"
  by (cases w) (simp_all add: users_on_def strm_def)

lemma cache_inv_pages:
  "cache_inv st \<longleftrightarrow>
     (\<forall>i < 2. page_ok st (page_of i st) \<and> nuser (page_of i st) = users_on i st) \<and>
     s_pno (strm w st) \<le> 2 \<and> s_pno (strm (other w) st) \<le> 2"
  by (cases w) (auto simp: cache_inv_def page_of_def strm_def less_2_cases_iff)

lemma page_ok_users [simp]: "page_ok st (p\<lparr>nuser := n\<rparr>) = page_ok st p"
  by (simp add: page_ok_def)

lemma page_ok_infil: "l_infil st' = l_infil st \<Longrightarrow> page_ok st' p = page_ok st p"
  by (simp add: page_ok_def)

lemma fill_page_ok:
  assumes "0 \<le> b" "length (p_buff (page_of i st)) = 512"
  shows "l_infil st' = l_infil st \<Longrightarrow> page_ok st' (page_of i (fill_page i b st))"
    "p_bno (page_of i (fill_page i b st)) = b" "nuser (page_of i (fill_page i b st)) = nuser (page_of i st)"
    "(j = 0) \<noteq> (i = 0) \<Longrightarrow> page_of j (fill_page i b st) = page_of j st" "strm w (fill_page i b st) = strm w st"
    "l_infil (fill_page i b st) = l_infil st"
proof -
  let ?g = "seg (l_infil st) (nat b * 512) 512"
  have len: "length ?g \<le> 512" by (simp add: seg_def)
  have "length (blit (p_buff (page_of i st)) 0 ?g) = 512"
    using len assms(2) by (simp add: blit_def)
  moreover have "take (length ?g) (blit (p_buff (page_of i st)) 0 ?g) = ?g" by (simp add: blit_def)
  ultimately show "l_infil st' = l_infil st \<Longrightarrow> page_ok st' (page_of i (fill_page i b st))"
    using assms(1) by (simp add: page_ok_def fill_page_def Let_def block_def)
  show "p_bno (page_of i (fill_page i b st)) = b" "nuser (page_of i (fill_page i b st)) = nuser (page_of i st)"
    "(j = 0) \<noteq> (i = 0) \<Longrightarrow> page_of j (fill_page i b st) = page_of j st" "strm w (fill_page i b st) = strm w st"
    "l_infil (fill_page i b st) = l_infil st"
    by (auto simp: fill_page_def Let_def)
qed

text \<open>
  A page is found for every block: it holds the block afterwards, and the pages in use are what
  they were.
\<close>

lemma choose_page_ok:
  assumes "\<forall>i < 2. page_ok st (page_of i st)" "0 \<le> b" "nuser (page_of 0 st) = 0 \<or> nuser (page_of 1 st) = 0"
  shows "\<exists>i st'. choose_page b st = Inr (i, st') \<and> i < 2 \<and> p_bno (page_of i st') = b \<and>
    (\<forall>j < 2. page_ok st' (page_of j st')) \<and> (\<forall>j < 2. nuser (page_of j st') = nuser (page_of j st)) \<and>
    (\<forall>j < 2. nuser (page_of j st) \<noteq> 0 \<longrightarrow> page_of j st' = page_of j st) \<and> (\<forall>v. strm v st' = strm v st)"
proof -
  have pg: "l_page0 st = page_of 0 st" "l_page1 st = page_of 1 st" by (simp_all add: page_of_def)
  consider "p_bno (page_of 0 st) = b" | "p_bno (page_of 0 st) \<noteq> b" "p_bno (page_of 1 st) = b"
    | i where "choose_page b st = Inr (i, fill_page i b st)" "i < 2" "nuser (page_of i st) = 0"
  proof (cases "p_bno (page_of 0 st) = b \<or> p_bno (page_of 1 st) = b")
    case False
    let ?i = "if nuser (page_of 1 st) \<noteq> 0 then 0
      else if nuser (page_of 0 st) = 0 \<and> p_bno (page_of 0 st) < p_bno (page_of 1 st) then 0 else 1 :: nat"
    have "choose_page b st = Inr (?i, fill_page ?i b st)"
      using False assms(3) by (simp only: choose_page_def pg Let_def) auto
    moreover have "nuser (page_of ?i st) = 0" using assms(3) by auto
    ultimately show ?thesis using that(3) [of ?i] by simp
  qed blast
  then show ?thesis
  proof cases
    case 1
    with assms(1) show ?thesis by (intro exI [of _ 0] exI [of _ st]) (simp add: choose_page_def pg)
  next
    case 2
    with assms(1) show ?thesis by (intro exI [of _ 1] exI [of _ st]) (simp add: choose_page_def pg)
  next
    case (3 i)
    let ?t = "fill_page i b st"
    have len: "length (p_buff (page_of i st)) = 512" using assms(1) 3(2) by (simp add: page_ok_def)
    note f = fill_page_ok [OF assms(2) len]
    have other: "page_of j ?t = page_of j st" if "j < 2" "j \<noteq> i" for j
      using f(4) [of j] that 3(2) by (auto simp: less_2_cases_iff)
    have "page_ok ?t (page_of j ?t)" if "j < 2" for j
      using f(1) [OF f(6)] other [OF that] assms(1) that page_ok_infil [OF f(6)] by (cases "j = i") simp_all
    moreover have "nuser (page_of j ?t) = nuser (page_of j st)" if "j < 2" for j
      using f(3) other [OF that] by (cases "j = i") simp_all
    moreover have "page_of j ?t = page_of j st" if "j < 2" "nuser (page_of j st) \<noteq> 0" for j
      using other [OF that(1)] that(2) 3(3) by (cases "j = i") simp_all
    ultimately show ?thesis
      using 3(1,2) f(2,5) by (intro exI [of _ i] exI [of _ ?t]) simp
  qed
qed

lemma page_add_users:
  "i < 2 \<Longrightarrow> p \<le> 2 \<Longrightarrow> page_of i (add_users p d st) =
    (if p = i then page_of i st\<lparr>nuser := nuser (page_of i st) + d\<rparr> else page_of i st)"
  by (cases "p = 2") (auto simp: less_2_cases_iff)

lemma nuser_same: "nuser p = n \<Longrightarrow> p\<lparr>nuser := n\<rparr> = p"
  by (cases p) simp

text \<open>\<open>dseek\<close> never fails for lack of a page, and leaves the other stream alone.\<close>

lemma dseek_ok:
  assumes "cache_inv st" "b = short (ab + (drop_bit 8 off AND 0xff))" "0 \<le> b"
  shows "\<exists>st'. dseek w ab off s st = Inr st' \<and> cache_inv st' \<and> stream_ok w st' \<and>
    s_pno (strm w st') < 2 \<and> s_bno (strm w st') = b \<and> s_ptr (strm w st') = off AND 0xff \<and>
    s_nibuf (strm w st') = int (length (block (l_infil st) b) div 2) - (off AND 0xff) \<and>
    s_size (strm w st') = (if int (length (block (l_infil st) b) div 2) \<le> off AND 0xff then 0
      else if s \<noteq> -1 then drop_bit 1 s AND 0x7fff else s_size (strm w st)) \<and>
    strm (other w) st' = strm (other w) st \<and> (stream_ok (other w) st \<longrightarrow> stream_ok (other w) st')"
proof -
  let ?pno = "s_pno (strm w st)" and ?o = "s_pno (strm (other w) st)"
  define st1 where "st1 = add_users ?pno (-1) st"
  have inv: "\<forall>i < 2. page_ok st (page_of i st) \<and> nuser (page_of i st) = users_on i st" "?pno \<le> 2" "?o \<le> 2"
    using assms(1) cache_inv_pages [of st w] by simp_all
  have pg1: "page_of i st1 = page_of i st\<lparr>nuser := (if ?o = i then 1 else 0)\<rparr>" if "i < 2" for i
  proof -
    have "nuser (page_of i st) = users_on i st" using inv(1) that by blast
    then show ?thesis
      unfolding st1_def page_add_users [OF that inv(2)] users_on_strm [of i st w]
      by (cases "?pno = i") (simp_all add: nuser_same)
  qed
  have st1: "strm v st1 = strm v st" "l_infil st1 = l_infil st" for v by (simp_all add: st1_def)
  have "\<forall>i < 2. page_ok st1 (page_of i st1)"
    using inv(1) by (simp add: pg1 page_ok_infil [OF st1(2)])
  moreover have "nuser (page_of 0 st1) = 0 \<or> nuser (page_of 1 st1) = 0" by (simp add: pg1)
  ultimately obtain i st2 where c: "choose_page b st1 = Inr (i, st2)" "i < 2" "p_bno (page_of i st2) = b"
    "\<forall>j < 2. page_ok st2 (page_of j st2)" "\<forall>j < 2. nuser (page_of j st2) = nuser (page_of j st1)"
    "\<forall>j < 2. nuser (page_of j st1) \<noteq> 0 \<longrightarrow> page_of j st2 = page_of j st1" "\<And>v. strm v st2 = strm v st1"
    using choose_page_ok [of st1 b] assms(3) by blast
  have infil: "l_infil st2 = l_infil st" using core_eqD(3) [OF core_choose_page [OF c(1)]] st1(2) by simp
  define st3 where "st3 = add_users i 1 st2"
  have pg3: "page_of j st3 = page_of j st2\<lparr>nuser := (if ?o = j then 1 else 0) + (if i = j then 1 else 0)\<rparr>"
    if "j < 2" for j
  proof -
    have "nuser (page_of j st2) = (if ?o = j then 1 else 0)" using c(5) that by (simp add: pg1)
    moreover have "i \<le> 2" using c(2) by simp
    ultimately show ?thesis
      unfolding st3_def page_add_users [OF that \<open>i \<le> 2\<close>] by (cases "i = j") (simp_all add: nuser_same)
  qed
  have st3: "strm v st3 = strm v st" "l_infil st3 = l_infil st" for v
    by (simp_all add: st3_def c(7) st1(1) infil)
  define left where "left = p_nibuf (page_of i st3) - (off AND 0xff)"
  define size where "size = (if s \<noteq> -1 then drop_bit 1 s AND 0x7fff else s_size (strm w st))"
  define x where "x = \<lparr>s_buf = i, s_ptr = off AND 0xff, s_bno = b, s_nibuf = left,
    s_size = (if left \<le> 0 then 0 else size), s_pno = i\<rparr>"
  let ?t = "set_strm w x st3"
  have run: "dseek w ab off s st = Inr ?t"
    using c(1) by (simp add: dseek_def Let_def st1_def st3_def left_def size_def x_def c(7) flip: assms(2))
  have strm: "strm w ?t = x" "strm (other w) ?t = strm (other w) st" by (cases w; simp add: st3)+
  have ok: "page_ok ?t (page_of j ?t)" if "j < 2" for j
    using c(4) that by (simp add: pg3 page_ok_infil [of ?t st2] st3(2) infil)
  have "nuser (page_of j ?t) = users_on j ?t" if "j < 2" for j
    using that by (simp add: pg3 users_on_strm [of _ _ w] strm st3(1) x_def)
  then have "cache_inv ?t"
    using ok c(2) inv(3) by (simp add: cache_inv_pages [of _ w] strm st3(1) x_def)
  moreover have nib: "p_nibuf (page_of i st3) = int (length (block (l_infil st) b) div 2)"
    using c(2,3,4) assms(3) infil by (simp add: pg3 page_ok_def)
  moreover have "stream_ok w ?t"
    using c(2,3) assms(3) by (simp add: stream_ok_def strm Let_def x_def left_def pg3)
  moreover have "stream_ok (other w) ?t" if "stream_ok (other w) st"
  proof -
    have "p_bno (page_of ?o ?t) = p_bno (page_of ?o st) \<and> p_nibuf (page_of ?o ?t) = p_nibuf (page_of ?o st)"
      if "?o < 2"
      using c(6) that by (simp add: pg3 pg1)
    with that show ?thesis by (simp add: stream_ok_def strm(2) Let_def del: page_of_set_strm strm_set_strm)
  qed
  ultimately show ?thesis
    using run c(2) strm by (intro exI [of _ ?t]) (auto simp: x_def left_def size_def)
qed

section \<open>The words of the file\<close>

definition file_word :: "bytes \<Rightarrow> nat \<Rightarrow> u16" where
  "file_word f p = get2 (drop (2 * p) f)"

text \<open>The stream is at word \<open>p\<close> of the file, and \<open>n\<close> words are left to it.\<close>

definition stream_at :: "which \<Rightarrow> nat \<Rightarrow> nat \<Rightarrow> ld \<Rightarrow> bool" where
  "stream_at w p n st \<longleftrightarrow>
     cache_inv st \<and> stream_ok w st \<and> s_size (strm w st) = int n \<and>
     (n > 0 \<longrightarrow> s_pno (strm w st) < 2 \<and> 0 \<le> s_nibuf (strm w st) \<and>
       int p = 256 * s_bno (strm w st) + s_ptr (strm w st))"

lemma get2_cong: "xs ! 0 = ys ! 0 \<Longrightarrow> xs ! 1 = ys ! 1 \<Longrightarrow> get2 xs = get2 ys"
  by (simp add: get2_def uget2_def)

lemma page_word:
  assumes "page_ok st p" "0 \<le> p_bno p" "0 \<le> k" "k < p_nibuf p"
  shows "get2 (drop (2 * nat k) (p_buff p)) = file_word (l_infil st) (256 * nat (p_bno p) + nat k)"
    "2 * nat k + 2 \<le> length (p_buff p)"
proof -
  let ?f = "l_infil st" and ?b = "nat (p_bno p)"
  let ?g = "block ?f (p_bno p)"
  have g: "p_nibuf p = int (length ?g div 2)" "take (length ?g) (p_buff p) = ?g" "length (p_buff p) = 512"
    using assms(1,2) by (simp_all add: page_ok_def)
  have k: "2 * nat k + 2 \<le> length ?g" using assms(3,4) g(1) by linarith
  have len: "length ?g \<le> 512" by (simp add: block_def seg_def)
  with k g(3) show "2 * nat k + 2 \<le> length (p_buff p)" by simp
  have nth: "p_buff p ! (2 * nat k + i) = ?f ! (2 * (256 * ?b + nat k) + i)" if "i < 2" for i
  proof -
    have lt: "2 * nat k + i < length ?g" using k that by simp
    have "p_buff p ! (2 * nat k + i) = ?g ! (2 * nat k + i)"
      using g(2) lt by (metis nth_take)
    also have "\<dots> = ?f ! (?b * 512 + (2 * nat k + i))"
    proof -
      have "?b * 512 \<le> length ?f" using lt unfolding block_def seg_def by simp linarith
      then show ?thesis using lt by (simp add: block_def seg_def nth_drop)
    qed
    finally show ?thesis by (simp add: algebra_simps)
  qed
  have "2 * (256 * ?b + nat k) + 1 < length ?f"
    using k by (simp add: block_def seg_def) linarith
  then show "get2 (drop (2 * nat k) (p_buff p)) = file_word ?f (256 * ?b + nat k)"
    unfolding file_word_def using nth [of 0] nth [of 1] k len g(3)
    by (intro get2_cong) (simp_all add: algebra_simps)
qed

lemma dseek_keeps:
  assumes "cache_inv st" "b = short (ab + (drop_bit 8 off AND 0xff))" "0 \<le> b"
    and run: "dseek w ab off s st = Inr st'"
  shows "cache_inv st'" "stream_ok w st'" "s_pno (strm w st') < 2" "s_bno (strm w st') = b"
    "s_ptr (strm w st') = off AND 0xff"
    "s_nibuf (strm w st') = int (length (block (l_infil st) b) div 2) - (off AND 0xff)"
    "s_size (strm w st') = (if int (length (block (l_infil st) b) div 2) \<le> off AND 0xff then 0
      else if s \<noteq> -1 then drop_bit 1 s AND 0x7fff else s_size (strm w st))"
    "stream_at (other w) q m st \<Longrightarrow> stream_at (other w) q m st'"
  using dseek_ok [OF assms(1-3), of w s] run by (auto simp: stream_at_def)

lemma short_id: "- (2 ^ 15) \<le> x \<Longrightarrow> x < 2 ^ 15 \<Longrightarrow> short x = x"
  by (simp add: short_def signed_take_bit_int_eq_self)

lemma cache_inv_set_strm:
  "s_pno x = s_pno (strm w st) \<Longrightarrow> cache_inv (set_strm w x st) = cache_inv st"
  by (simp add: cache_inv_pages [of _ w] users_on_strm [of _ _ w] page_ok_def)

lemma stream_at_other:
  "s_pno x = s_pno (strm w st) \<Longrightarrow> stream_at (other w) q m (set_strm w x st) = stream_at (other w) q m st"
  by (simp add: stream_at_def cache_inv_set_strm stream_ok_def)

lemma get_last_ok:
  assumes "cache_inv st" "s_pno (strm w st) < 2" "s_buf (strm w st) = s_pno (strm w st)"
    "p_bno (page_of (s_pno (strm w st)) st) = s_bno (strm w st)" "0 \<le> s_bno (strm w st)"
    "0 \<le> s_ptr (strm w st)" "s_ptr (strm w st) + s_nibuf (strm w st) + 1 = p_nibuf (page_of (s_pno (strm w st)) st)"
    "0 \<le> s_nibuf (strm w st)" "s_size (strm w st) = int (Suc n)"
    "int p = 256 * s_bno (strm w st) + s_ptr (strm w st)"
  shows "\<exists>st'. get_last w st = Inr (file_word (l_infil st) p, st') \<and> stream_at w (p + 1) n st' \<and>
    (\<forall>q m. stream_at (other w) q m st \<longrightarrow> stream_at (other w) q m st')"
proof -
  let ?sp = "strm w st" and ?i = "s_pno (strm w st)"
  let ?pg = "page_of ?i st"
  have ok: "page_ok st ?pg" using assms(1,2) cache_inv_pages [of st w] by blast
  have p: "p = 256 * nat (p_bno ?pg) + nat (s_ptr ?sp)" using assms(4-6,10) by linarith
  note word = page_word [OF ok, of "s_ptr ?sp"]
  have w: "get2 (drop (2 * nat (s_ptr ?sp)) (p_buff ?pg)) = file_word (l_infil st) p"
    "2 * nat (s_ptr ?sp) + 2 \<le> length (p_buff ?pg)"
    using word assms(4-8) unfolding p by linarith+
  show ?thesis
  proof (cases n)
    case (Suc m)
    let ?t = "set_strm w (?sp\<lparr>s_size := int n, s_ptr := s_ptr ?sp + 1\<rparr>) st"
    have "get_last w st = Inr (file_word (l_infil st) p, ?t)"
      using assms(3,6,9) Suc w by (simp add: get_last_def fetch_word_def Let_def)
    moreover have "cache_inv ?t" using assms(1) by (simp add: cache_inv_set_strm)
    then have "stream_at w (p + 1) n ?t"
      using assms by (simp add: stream_at_def stream_ok_def Let_def)
    moreover have "stream_at (other w) q k ?t = stream_at (other w) q k st" for q k
      by (rule stream_at_other) simp
    ultimately show ?thesis by blast
  next
    case 0
    define u where "u = add_users ?i (-1) (set_strm w (?sp\<lparr>s_size := 0\<rparr>) st\<lparr>l_fuser := l_fuser st + 1\<rparr>)"
    let ?t = "set_strm w (?sp\<lparr>s_size := 0, s_pno := 2, s_ptr := s_ptr ?sp + 1\<rparr>) u"
    have u: "strm v u = (if v = w then ?sp\<lparr>s_size := 0\<rparr> else strm v st)" "l_infil u = l_infil st" for v
      by (simp_all add: u_def)
    have pg: "page_of j u = (if ?i = j then page_of j st\<lparr>nuser := nuser (page_of j st) - 1\<rparr> else page_of j st)"
      if "j < 2" for j
      using page_add_users [OF that, of ?i] assms(2) by (simp add: u_def)
    have fuser: "l_fuser (set_strm w x y) = l_fuser y" for x y by (cases w) (simp_all add: set_strm_def)
    have "get_last w st = fetch_word w (set_strm w (?sp\<lparr>s_size := 0, s_pno := 2\<rparr>) u)"
      using assms(9) 0 by (simp add: get_last_def Let_def u u_def fuser)
    also have "\<dots> = Inr (file_word (l_infil st) p, ?t)"
      using assms(2,3,6) w by (simp add: fetch_word_def Let_def pg)
    finally have run: "get_last w st = Inr (file_word (l_infil st) p, ?t)" .
    have inv: "\<forall>j < 2. page_ok st (page_of j st) \<and> nuser (page_of j st) = users_on j st"
        "s_pno (strm (other w) st) \<le> 2"
      using assms(1) cache_inv_pages [of st w] by simp_all
    have "page_ok ?t (page_of j ?t)" "nuser (page_of j ?t) = users_on j ?t" if "j < 2" for j
      using inv that by (auto simp: pg u users_on_strm [of _ _ w] page_ok_infil [of ?t st])
    then have "cache_inv ?t" using inv(2) by (simp add: cache_inv_pages [of _ w] u)
    moreover have "stream_ok (other w) ?t" if "stream_ok (other w) st"
      using that by (auto simp: stream_ok_def Let_def pg u)
    ultimately have "stream_at w (p + 1) n ?t" "\<And>q m. stream_at (other w) q m st \<Longrightarrow> stream_at (other w) q m ?t"
      using 0 by (auto simp: stream_at_def stream_ok_def u)
    with run show ?thesis by blast
  qed
qed

lemma get_split:
  "v6_get w st =
     (if s_nibuf (strm w st) \<le> 0 then
        bindE (dseek w (s_bno (strm w st) + 1) 0 (-1) (set_strm w (strm w st\<lparr>s_nibuf := s_nibuf (strm w st) - 1\<rparr>) st)) (\<lambda>st.
          get_last w (set_strm w (strm w st\<lparr>s_nibuf := s_nibuf (strm w st) - 1\<rparr>) st))
      else get_last w (set_strm w (strm w st\<lparr>s_nibuf := s_nibuf (strm w st) - 1\<rparr>) st))"
  by (simp add: v6_get_def Let_def bindE_assoc)

text \<open>
  A stream with words left delivers the word of the file at its position and moves on by one,
  also across the border of a page; the other stream stays where it is.
\<close>

lemma get_at:
  assumes at: "stream_at w p (Suc n) st" and f: "2 * p + 2 \<le> length (l_infil st)" "length (l_infil st) < 2 ^ 24"
  shows "\<exists>st'. v6_get w st = Inr (file_word (l_infil st) p, st') \<and> stream_at w (p + 1) n st' \<and>
    (\<forall>q m. stream_at (other w) q m st \<longrightarrow> stream_at (other w) q m st')"
proof -
  let ?sp = "strm w st"
  let ?i = "s_pno ?sp"
  let ?u = "set_strm w (?sp\<lparr>s_nibuf := s_nibuf ?sp - 1\<rparr>) st"
  have s: "cache_inv st" "s_size ?sp = int (Suc n)" "?i < 2" "0 \<le> s_nibuf ?sp" "int p = 256 * s_bno ?sp + s_ptr ?sp"
    "s_buf ?sp = ?i" "0 \<le> s_bno ?sp" "p_bno (page_of ?i st) = s_bno ?sp" "0 \<le> s_ptr ?sp"
    "s_nibuf ?sp = p_nibuf (page_of ?i st) - s_ptr ?sp"
    using at by (auto simp: stream_at_def stream_ok_def Let_def)
  have u: "cache_inv ?u" "\<And>q m. stream_at (other w) q m ?u = stream_at (other w) q m st"
    using s(1) by (simp_all add: cache_inv_set_strm stream_at_other)
  show ?thesis
  proof (cases "s_nibuf ?sp \<le> 0")
    case False
    then have "get_last w ?u = v6_get w st" by (simp add: get_split)
    with get_last_ok [OF u(1), of w n p] s False u(2) show ?thesis by simp
  next
    case True
    let ?b = "s_bno ?sp" and ?g = "block (l_infil st) (s_bno ?sp)"
    have "page_ok st (page_of ?i st)" using s(1,3) cache_inv_pages [of st w] by blast
    then have nib: "p_nibuf (page_of ?i st) = int (length ?g div 2)" using s(7,8) by (simp add: page_ok_def)
    then have ptr: "s_ptr ?sp = int (length ?g div 2)" using True s(4,10) by linarith
    have len: "length ?g = min 512 (length (l_infil st) - nat ?b * 512)" by (simp add: block_def seg_def)
    have "length ?g = 512"
      using f(1) s(5,7) ptr len by (simp add: min_def split: if_splits)
    then have p: "int p = 256 * (?b + 1)" using s(5) ptr by simp
    then have b: "?b + 1 = short (?b + 1 + (drop_bit 8 0 AND 0xff))" "0 \<le> ?b + 1" "nat (?b + 1) * 512 = 2 * p"
      using f s(7) by (simp_all add: short_id)
    have left: "0 < length (block (l_infil st) (?b + 1)) div 2"
      using f(1) b(3) by (simp add: block_def seg_def)
    obtain v where v: "dseek w (?b + 1) 0 (-1) ?u = Inr v"
      using dseek_ok [OF u(1) b(1,2), of w "-1"] by blast
    note d = dseek_keeps [OF u(1) b(1,2) v]
    let ?v = "set_strm w (strm w v\<lparr>s_nibuf := s_nibuf (strm w v) - 1\<rparr>) v"
    have infil: "l_infil v = l_infil st" using core_eqD(3) [OF core_dseek [OF v]] by simp
    have inv: "cache_inv ?v" using d(1) by (simp add: cache_inv_set_strm)
    have run: "v6_get w st = get_last w ?v" using True v by (simp add: get_split)
    have others: "stream_at (other w) q m ?v" if "stream_at (other w) q m st" for q m
      using d(8) [of q m] that u(2) by (simp add: stream_at_other)
    have "\<exists>st'. get_last w ?v = Inr (file_word (l_infil st) p, st') \<and> stream_at w (p + 1) n st' \<and>
        (\<forall>q m. stream_at (other w) q m ?v \<longrightarrow> stream_at (other w) q m st')"
      using get_last_ok [OF inv, of w n p] d(2-7) s(2) left p infil by (simp add: stream_ok_def Let_def)
    with run others show ?thesis by metis
  qed
qed

end
