(* ===== verification/V6_Symtab.thy ===== *)
theory V6_Symtab
  imports V6_Read
begin

text \<open>
  The symbol table of the link editor: a hash table with linear probing over the entries of
  \<open>symtab\<close>. It keeps an invariant that makes every search end, it implements a map from
  names to entries, and the entries of a library member that is not needed are taken out again.
\<close>

section \<open>The invariant of the table\<close>

definition HSIZE :: nat where "HSIZE = NSYM + 2"

lemma NSYM_less_HSIZE: "NSYM < HSIZE"
  by (simp add: HSIZE_def)

text \<open>The table has the right sizes, and no two slots have the same entry.\<close>

definition table_ok :: "ld \<Rightarrow> bool" where
  "table_ok st \<longleftrightarrow>
     length (l_hshtab st) = HSIZE \<and> length (l_symtab st) \<le> NSYM \<and>
     (\<forall>hp < HSIZE. \<forall>k. l_hshtab st ! hp = Some k \<longrightarrow> k < length (l_symtab st)) \<and>
     (\<forall>hp < HSIZE. \<forall>hp' < HSIZE. \<forall>k. l_hshtab st ! hp = Some k \<and> l_hshtab st ! hp' = Some k \<longrightarrow> hp = hp')"

lemma table_ok_init: "table_ok ld_init"
  unfolding table_ok_def ld_init_def HSIZE_def [symmetric] by simp

lemma table_ok_same:
  "l_symtab st' = l_symtab st \<Longrightarrow> l_hshtab st' = l_hshtab st \<Longrightarrow> table_ok st' = table_ok st"
  by (simp add: table_ok_def)

lemma hash_slot_less: "hash_slot s < HSIZE"
  by (simp add: hash_slot_def HSIZE_def NSYM_def)

text \<open>There are more slots than entries: one is empty.\<close>

lemma empty_slot:
  assumes "table_ok st"
  shows "\<exists>hp < HSIZE. l_hshtab st ! hp = None"
proof (rule ccontr)
  assume *: "\<not> (\<exists>hp < HSIZE. l_hshtab st ! hp = None)"
  have "inj_on (\<lambda>hp. the (l_hshtab st ! hp)) {..<HSIZE}"
    using assms * unfolding table_ok_def inj_on_def by (metis lessThan_iff option.exhaust_sel)
  moreover have "(\<lambda>hp. the (l_hshtab st ! hp)) ` {..<HSIZE} \<subseteq> {..<length (l_symtab st)}"
    using assms * unfolding table_ok_def by (force simp: image_subset_iff)
  ultimately have "card {..<HSIZE} \<le> card {..<length (l_symtab st)}"
    by (rule card_inj_on_le) simp
  with assms NSYM_less_HSIZE show False by (simp add: table_ok_def)
qed

text \<open>The slots that a search visits.\<close>

definition slot :: "bytes \<Rightarrow> nat \<Rightarrow> nat" where
  "slot s i = (hash_slot s + i) mod HSIZE"

lemma slot_less [simp]: "slot s i < HSIZE"
  by (simp add: slot_def HSIZE_def)

lemma slot_onto:
  assumes "hp < HSIZE"
  shows "\<exists>i < HSIZE. slot s i = hp"
proof (intro exI [of _ "(hp + HSIZE - hash_slot s) mod HSIZE"] conjI)
  show "slot s ((hp + HSIZE - hash_slot s) mod HSIZE) = hp"
    using assms hash_slot_less [of s] by (simp add: slot_def mod_add_right_eq)
qed (use assms in simp)

text \<open>The search stops at an empty slot or at an entry with the name.\<close>

definition stops :: "bytes \<Rightarrow> ld \<Rightarrow> nat \<Rightarrow> bool" where
  "stops s st hp \<longleftrightarrow> (case l_hshtab st ! hp of None \<Rightarrow> True | Some k \<Rightarrow> sname (l_symtab st ! k) = s)"

lemma lookup_probe_stops:
  assumes "table_ok st" "i < n" "stops s st ((h + i) mod HSIZE)" "\<forall>j < i. \<not> stops s st ((h + j) mod HSIZE)" "h < HSIZE"
  shows "lookup_probe n h s st = Inr ((h + i) mod HSIZE)"
  using assms(2-5)
proof (induction n arbitrary: h i)
  case (Suc n)
  have len: "length (l_hshtab st) = HSIZE" "\<And>k. l_hshtab st ! h = Some k \<Longrightarrow> k < length (l_symtab st)"
    using assms(1) Suc.prems(4) unfolding table_ok_def by auto
  show ?case
  proof (cases i)
    case 0
    with Suc.prems(2,4) len show ?thesis by (auto simp: stops_def split: option.splits)
  next
    case (Suc i')
    then have "\<not> stops s st h" using Suc.prems(3,4) by (metis add.right_neutral mod_less zero_less_Suc)
    then obtain k where k: "l_hshtab st ! h = Some k" "sname (l_symtab st ! k) \<noteq> s"
      by (auto simp: stops_def split: option.splits)
    let ?h = "if h + 1 \<ge> HSIZE then 0 else h + 1"
    have h: "(?h + j) mod HSIZE = (h + Suc j) mod HSIZE" for j
    proof (cases "h + 1 \<ge> HSIZE")
      case True
      then have e: "h + Suc j = j + HSIZE" using Suc.prems(4) by simp
      show ?thesis unfolding e using True by simp
    qed simp
    have "lookup_probe n ?h s st = Inr ((?h + i') mod HSIZE)"
    proof (rule Suc.IH)
      show "i' < n" "stops s st ((?h + i') mod HSIZE)" using Suc.prems(1,2) Suc by (simp_all only: h)
      show "\<forall>j < i'. \<not> stops s st ((?h + j) mod HSIZE)"
      proof (intro allI impI)
        fix j assume "j < i'"
        then have "\<not> stops s st ((h + Suc j) mod HSIZE)" using Suc.prems(3) Suc by blast
        then show "\<not> stops s st ((?h + j) mod HSIZE)" by (subst h)
      qed
    qed (use Suc.prems(4) in simp)
    then show ?thesis using k len Suc.prems(4) Suc h [of i'] by (simp add: HSIZE_def)
  qed
qed simp

lemma lookup_stops:
  assumes "table_ok st"
  shows "\<exists>i < HSIZE. v6_lookup st = Inr (slot (sname (l_cursym st)) i) \<and> stops (sname (l_cursym st)) st (slot (sname (l_cursym st)) i) \<and>
    (\<forall>j < i. \<not> stops (sname (l_cursym st)) st (slot (sname (l_cursym st)) j))"
proof -
  let ?s = "sname (l_cursym st)"
  obtain hp where "hp < HSIZE" "l_hshtab st ! hp = None" using empty_slot [OF assms] by blast
  then obtain i0 where i0: "i0 < HSIZE" "stops ?s st (slot ?s i0)"
    using slot_onto [of hp ?s] by (auto simp: stops_def)
  define i where "i = (LEAST i. stops ?s st (slot ?s i))"
  have i: "stops ?s st (slot ?s i)" "i \<le> i0" "\<forall>j < i. \<not> stops ?s st (slot ?s j)"
    using i0(2) LeastI [of "\<lambda>i. stops ?s st (slot ?s i)" i0] not_less_Least Least_le
    by (auto simp: i_def)
  have "v6_lookup st = Inr (slot ?s i)"
    unfolding v6_lookup_def slot_def
    using i i0(1) hash_slot_less [of ?s] by (intro lookup_probe_stops [OF assms]) (auto simp: slot_def HSIZE_def)
  with i i0(1) show ?thesis by (intro exI [of _ i]) simp
qed

section \<open>The table as a map\<close>

text \<open>The map from names to entries that the table stands for.\<close>

definition dict :: "ld \<Rightarrow> bytes \<Rightarrow> nat option" where
  "dict st = map_of (zip (map sname (l_symtab st)) [0..<length (l_symtab st)])"

text \<open>
  The invariant for names that are padded with zeros: the names of the entries are different,
  and an entry is in the table before the first empty slot of its search.
\<close>

definition reached :: "ld \<Rightarrow> nat \<Rightarrow> bool" where
  "reached st k \<longleftrightarrow> (\<exists>i. l_hshtab st ! slot (sname (l_symtab st ! k)) i = Some k \<and>
     (\<forall>j < i. l_hshtab st ! slot (sname (l_symtab st ! k)) j \<noteq> None))"

definition sym_inv :: "ld \<Rightarrow> bool" where
  "sym_inv st \<longleftrightarrow> table_ok st \<and> distinct (map sname (l_symtab st)) \<and>
     (\<forall>k < length (l_symtab st). cp8c (sname (l_symtab st ! k)) = sname (l_symtab st ! k) \<and> reached st k)"

lemma sym_inv_init: "sym_inv ld_init"
  using table_ok_init by (simp add: sym_inv_def ld_init_def)

lemma dict_Some: "distinct (map sname (l_symtab st)) \<Longrightarrow>
    dict st s = Some k \<longleftrightarrow> k < length (l_symtab st) \<and> sname (l_symtab st ! k) = s"
  unfolding dict_def by (subst map_of_eq_Some_iff) (auto simp: set_zip intro: exI [of _ k])

lemma dict_None: "dict st s = None \<longleftrightarrow> s \<notin> sname ` set (l_symtab st)"
  by (simp add: dict_def map_of_zip_is_None)

lemma lookup_dict:
  assumes "sym_inv st"
  shows "\<exists>i. v6_lookup st = Inr (slot (sname (l_cursym st)) i) \<and>
    l_hshtab st ! slot (sname (l_cursym st)) i = dict st (sname (l_cursym st)) \<and>
    (\<forall>j < i. l_hshtab st ! slot (sname (l_cursym st)) j \<noteq> None)"
proof -
  let ?s = "sname (l_cursym st)" and ?h = "l_hshtab st" and ?y = "l_symtab st"
  have tab: "table_ok st" "distinct (map sname ?y)" using assms by (simp_all add: sym_inv_def)
  obtain i where i: "v6_lookup st = Inr (slot ?s i)" "stops ?s st (slot ?s i)" "\<And>j. j < i \<Longrightarrow> \<not> stops ?s st (slot ?s j)"
    using lookup_stops [OF tab(1)] by blast
  have full: "?h ! slot ?s j \<noteq> None" if "j < i" for j
    using i(3) [OF that] by (auto simp: stops_def split: option.splits)
  have "?h ! slot ?s i = dict st ?s"
  proof (cases "?h ! slot ?s i")
    case None
    have "dict st ?s = None"
    proof (rule ccontr)
      assume "dict st ?s \<noteq> None"
      then obtain k where k: "k < length ?y" "sname (?y ! k) = ?s" using dict_Some [OF tab(2)] by auto
      then obtain m where m: "?h ! slot ?s m = Some k" "\<And>j. j < m \<Longrightarrow> ?h ! slot ?s j \<noteq> None"
        using assms unfolding sym_inv_def reached_def by metis
      have "stops ?s st (slot ?s m)" using m(1) k(2) by (simp add: stops_def)
      then have "i \<le> m" using i(3) by (meson not_less)
      with None m show False by (cases "i = m") auto
    qed
    with None show ?thesis by simp
  next
    case (Some k)
    then have "sname (?y ! k) = ?s" using i(2) by (simp add: stops_def)
    moreover have "k < length ?y" using tab(1) Some slot_less [of ?s i] unfolding table_ok_def by blast
    ultimately show ?thesis using Some dict_Some [OF tab(2), of ?s k] by simp
  qed
  with i(1) full show ?thesis by blast
qed

text \<open>What \<open>enter\<close> adds.\<close>

definition new_entry :: "ld \<Rightarrow> symbol" where
  "new_entry st = \<lparr>sname = cp8c (sname (l_cursym st)), stype = stype (l_cursym st), spad = 0, svalue = svalue (l_cursym st)\<rparr>"

lemma enter_at_eq:
  "enter_at hp st =
     (if length (l_symtab st) \<ge> NSYM then Inl (Ld_error ''Symbol table overflow'')
      else Inr (st\<lparr>l_symtab := l_symtab st @ [new_entry st], l_hshtab := (l_hshtab st)[hp := Some (length (l_symtab st))]\<rparr>))"
  by (simp add: enter_at_def enter_def Let_def new_entry_def)

lemma table_ok_enter:
  assumes "table_ok st" "hp < HSIZE" "l_hshtab st ! hp = None" "enter_at hp st = Inr st'"
  shows "table_ok st'"
proof -
  let ?n = "length (l_symtab st)"
  have st': "st' = st\<lparr>l_symtab := l_symtab st @ [new_entry st], l_hshtab := (l_hshtab st)[hp := Some ?n]\<rparr>" "?n < NSYM"
    using assms(4) by (auto simp: enter_at_eq split: if_splits)
  have len: "length (l_hshtab st) = HSIZE" and
    old: "\<And>i k. i < HSIZE \<Longrightarrow> l_hshtab st ! i = Some k \<Longrightarrow> k < ?n" and
    inj: "\<And>i j k. i < HSIZE \<Longrightarrow> j < HSIZE \<Longrightarrow> l_hshtab st ! i = Some k \<Longrightarrow> l_hshtab st ! j = Some k \<Longrightarrow> i = j"
    using assms(1) unfolding table_ok_def by auto
  have nth: "(l_hshtab st)[hp := Some ?n] ! i = (if i = hp then Some ?n else l_hshtab st ! i)" if "i < HSIZE" for i
    using that len by (simp add: nth_list_update)
  show ?thesis
    using st'(2) len unfolding table_ok_def st'(1)
    by (auto simp: nth dest: old inj less_SucI split: if_splits)
qed

text \<open>After a search that found an empty slot, \<open>enter\<close> there adds the name to the map.\<close>

lemma enter_at_dict:
  assumes inv: "sym_inv st" and s: "cp8c (sname (l_cursym st)) = sname (l_cursym st)"
    and find: "v6_lookup st = Inr hp" "l_hshtab st ! hp = None" and run: "enter_at hp st = Inr st'"
  shows "sym_inv st'" "dict st' = (dict st)(sname (l_cursym st) \<mapsto> length (l_symtab st))"
proof -
  let ?s = "sname (l_cursym st)" and ?n = "length (l_symtab st)"
  have st': "st' = st\<lparr>l_symtab := l_symtab st @ [new_entry st], l_hshtab := (l_hshtab st)[hp := Some ?n]\<rparr>" "?n < NSYM"
    using run by (auto simp: enter_at_eq split: if_splits)
  have new: "sname (new_entry st) = ?s" using s by (simp add: new_entry_def)
  obtain i where i: "hp = slot ?s i" "l_hshtab st ! hp = dict st ?s" "\<forall>j < i. l_hshtab st ! slot ?s j \<noteq> None"
    using lookup_dict [OF inv] find(1) by auto
  have fresh: "dict st ?s = None" using i(2) find(2) by simp
  have hp: "hp < HSIZE" using i(1) by simp
  have tab: "table_ok st" "length (l_hshtab st) = HSIZE" using inv by (simp_all add: sym_inv_def table_ok_def)
  have "reached st' k" if lt: "k < ?n" for k
  proof -
    have nm: "sname (l_symtab st' ! k) = sname (l_symtab st ! k)" using lt by (simp add: st'(1) nth_append)
    let ?t = "sname (l_symtab st ! k)"
    obtain m where m: "l_hshtab st ! slot ?t m = Some k" "\<forall>j < m. l_hshtab st ! slot ?t j \<noteq> None"
      using inv lt unfolding sym_inv_def reached_def by blast
    then have "slot ?t m \<noteq> hp" using find(2) by auto
    with m show ?thesis
      unfolding reached_def nm by (intro exI [of _ m]) (simp add: st'(1) nth_list_update tab(2) hp)
  qed
  moreover have "reached st' ?n"
    using i(1,3) tab(2) new unfolding reached_def
    by (intro exI [of _ i]) (auto simp: st'(1) nth_list_update)
  moreover have "?s \<notin> sname ` set (l_symtab st)" using fresh by (simp add: dict_None)
  ultimately show sym: "sym_inv st'"
    using inv table_ok_enter [OF tab(1) hp find(2) run] s new
    by (auto simp: sym_inv_def st'(1) nth_append less_Suc_eq)
  have "dict st' x = Some k \<longleftrightarrow> ((dict st)(?s \<mapsto> ?n)) x = Some k" for x k
    using dict_Some [of st' x k] dict_Some [of st x k] dict_Some [of st ?s] fresh inv sym new
    by (auto simp: sym_inv_def st'(1) nth_append less_Suc_eq)
  then show "dict st' = (dict st)(?s \<mapsto> ?n)" by (metis ext not_None_eq)
qed

end
