(* ===== verification/V6_Stream.thy ===== *)
theory V6_Stream
  imports V6_Read
begin

text \<open>
  What the readers of the link editor get: \<open>dseek\<close> positions a stream on a word of the
  file, \<open>mget\<close> delivers the words from there on, on its fast path as by repeated calls of
  \<open>get\<close>, and so do the copies of the code of \<open>get\<close> in \<open>load2td\<close>.
\<close>

section \<open>Positioning\<close>

lemma block_offset:
  fixes off :: int
  assumes "0 \<le> off" "off < 2 ^ 16"
  shows "off AND 0xff = off mod 256" "drop_bit 8 off AND 0xff = off div 256"
proof -
  have m: "x AND 0xff = x mod 256" for x :: int
    using take_bit_eq_mask [of 8 x] by (simp add: mask_eq_exp_minus_1 take_bit_eq_mod)
  show "off AND 0xff = off mod 256" by (rule m)
  show "drop_bit 8 off AND 0xff = off div 256"
    using assms by (simp add: m drop_bit_eq_div)
qed

lemma half_size: "0 \<le> s \<Longrightarrow> s < 2 ^ 16 \<Longrightarrow> drop_bit 1 s AND 0x7fff = s div 2" for s :: int
  using take_bit_eq_mask [of 15 "s div 2"]
  by (simp add: mask_eq_exp_minus_1 take_bit_eq_mod drop_bit_eq_div)

lemma words_of_block:
  "int (length (block f (b::int)) div 2) \<le> o' \<longleftrightarrow> int (length f div 2) \<le> 256 * b + o'"
  if "0 \<le> b" "0 \<le> o'" "o' < 256"
  using that by (simp add: block_def seg_def) linarith

text \<open>
  A stream is positioned on word \<open>256 * ab + off\<close> of the file; it has no words if the file
  ends there.
\<close>

lemma dseek_at:
  assumes "cache_inv st" "0 \<le> ab" "0 \<le> off" "off < 2 ^ 16" "ab + off div 256 < 2 ^ 15" "0 \<le> s" "s < 2 ^ 16"
  shows "\<exists>st'. dseek w ab off s st = Inr st' \<and>
    stream_at w (nat (256 * ab + off)) (if int (length (l_infil st) div 2) \<le> 256 * ab + off then 0 else nat (s div 2)) st' \<and>
    (\<forall>q m. stream_at (other w) q m st \<longrightarrow> stream_at (other w) q m st')"
proof -
  let ?b = "ab + off div 256"
  note o = block_offset [OF assms(3,4)]
  have b: "?b = short (ab + (drop_bit 8 off AND 0xff))" "0 \<le> ?b"
    using assms(2,3,5) by (simp_all add: o short_id)
  obtain st' where run: "dseek w ab off s st = Inr st'" using dseek_ok [OF assms(1) b, of w s] by blast
  note k = dseek_keeps [OF assms(1) b run]
  have p: "256 * ?b + off mod 256 = 256 * ab + off" by (simp add: algebra_simps)
  have e: "int (length (block (l_infil st) ?b) div 2) \<le> off mod 256 \<longleftrightarrow> int (length (l_infil st) div 2) \<le> 256 * ab + off"
    using words_of_block [OF b(2), of "off mod 256" "l_infil st"] p by (simp add: add.commute)
  have "stream_at w (nat (256 * ab + off)) (if int (length (l_infil st) div 2) \<le> 256 * ab + off then 0 else nat (s div 2)) st'"
  proof (cases "int (length (l_infil st) div 2) \<le> 256 * ab + off")
    case True
    then show ?thesis using k(1,2,7) e by (simp add: stream_at_def o)
  next
    case False
    moreover have "s \<noteq> -1" using assms(6) by simp
    ultimately have "s_size (strm w st') = s div 2" using k(7) e half_size [OF assms(6,7)] by (simp add: o)
    then show ?thesis
      using False k(1-6) e assms(2,3,6) p by (simp add: stream_at_def o)
  qed
  with run k(8) show ?thesis by blast
qed

section \<open>Runs of words\<close>

definition words_from :: "bytes \<Rightarrow> nat \<Rightarrow> nat \<Rightarrow> u16 list" where
  "words_from f p k = map (file_word f) [p..<p + k]"

lemma words_from_simps [simp]:
  "words_from f p 0 = []" "words_from f p (Suc k) = file_word f p # words_from f (Suc p) k"
  "length (words_from f p k) = k"
  by (simp_all add: words_from_def upt_conv_Cons del: upt_Suc)

lemma get_words_at:
  assumes "stream_at w p n st" "k \<le> n" "2 * (p + k) \<le> length (l_infil st)" "length (l_infil st) < 2 ^ 24"
  shows "\<exists>st'. get_words w k st = Inr (words_from (l_infil st) p k, st') \<and> stream_at w (p + k) (n - k) st' \<and>
    (\<forall>q m. stream_at (other w) q m st \<longrightarrow> stream_at (other w) q m st')"
  using assms
proof (induction k arbitrary: p n st)
  case (Suc k)
  then obtain n' where n: "n = Suc n'" by (cases n) auto
  have "2 * p + 2 \<le> length (l_infil st)" using Suc.prems(3) by simp
  then obtain u where u: "v6_get w st = Inr (file_word (l_infil st) p, u)" "stream_at w (p + 1) n' u"
    "\<And>q m. stream_at (other w) q m st \<Longrightarrow> stream_at (other w) q m u"
    using get_at Suc.prems(1,4) n by blast
  have f: "l_infil u = l_infil st" using core_eqD(3) [OF core_get [OF u(1)]] .
  obtain st' where "get_words w k u = Inr (words_from (l_infil u) (p + 1) k, st')"
    "stream_at w (p + 1 + k) (n' - k) st'" "\<And>q m. stream_at (other w) q m u \<Longrightarrow> stream_at (other w) q m st'"
    using Suc.IH [OF u(2)] Suc.prems(2-4) n f by auto
  then show ?case
    using u(1,3) f n by (intro exI [of _ st']) auto
qed simp

lemma strm_Text: "strm Text st = l_text st"
  by (simp add: strm_def)

lemma page_of_l_text [simp]: "page_of i (st\<lparr>l_text := x\<rparr>) = page_of i st"
  by (simp add: page_of_def)

text \<open>
  The copying loop of \<open>mget\<close> is repeated calls of \<open>get\<close>, with the counters of the stream
  adjusted at once.
\<close>

definition counters :: "int \<Rightarrow> int \<Rightarrow> ld \<Rightarrow> ld" where
  "counters a b st = st\<lparr>l_text := l_text st\<lparr>s_nibuf := a, s_size := b\<rparr>\<rparr>"

lemma counters_simps [simp]:
  "s_nibuf (l_text (counters a b st)) = a" "s_size (l_text (counters a b st)) = b"
  "counters a b (counters c d st) = counters a b st"
  "counters (s_nibuf (l_text st)) (s_size (l_text st)) st = st"
  by (simp_all add: counters_def)

lemma fetch_word_counters:
  "fetch_word Text (counters a b st) = bindE (fetch_word Text st) (\<lambda>(x, st). Inr (x, counters a b st))"
  by (simp add: counters_def fetch_word_def strm_Text Let_def set_strm_def)

lemma get_inside:
  assumes "1 \<le> s_nibuf (l_text st)" "1 < s_size (l_text st)"
  shows "v6_get Text st = fetch_word Text (counters (s_nibuf (l_text st) - 1) (s_size (l_text st) - 1) st)"
  using assms by (simp add: v6_get_def get_last_def Let_def strm_Text set_strm_def counters_def)

lemma get_words_copy:
  "int k \<le> s_nibuf (l_text st) \<Longrightarrow> int k < s_size (l_text st) \<Longrightarrow>
     get_words Text k st = copy_words k (counters (s_nibuf (l_text st) - int k) (s_size (l_text st) - int k) st)"
proof (induction k arbitrary: st)
  case (Suc k)
  show ?case
  proof (cases "fetch_word Text st")
    case (Inl e)
    then show ?thesis using Suc.prems by (simp add: get_inside fetch_word_counters)
  next
    case (Inr r)
    obtain x u where r: "r = (x, u)" by (cases r)
    let ?v = "counters (s_nibuf (l_text st) - 1) (s_size (l_text st) - 1) u"
    have "get_words Text k ?v = copy_words k (counters (s_nibuf (l_text st) - 1 - int k) (s_size (l_text st) - 1 - int k) ?v)"
      using Suc.IH [of ?v] Suc.prems by simp
    then show ?thesis
      using Suc.prems Inr r by (simp add: get_inside fetch_word_counters algebra_simps)
  qed
qed simp

lemma mget_words: "mget an st = get_words Text (an div 2) st"
  using get_words_copy [of "an div 2" st] by (auto simp: mget_def Let_def counters_def)

lemma mget_at:
  assumes "stream_at Text p n st" "an div 2 \<le> n" "2 * (p + an div 2) \<le> length (l_infil st)" "length (l_infil st) < 2 ^ 24"
  shows "\<exists>st'. mget an st = Inr (words_from (l_infil st) p (an div 2), st') \<and>
    stream_at Text (p + an div 2) (n - an div 2) st' \<and> (\<forall>q m. stream_at Reloc q m st \<longrightarrow> stream_at Reloc q m st')"
  using get_words_at [OF assms] by (simp add: mget_words)

text \<open>The code that \<open>load2td\<close> has for \<open>get\<close> is \<open>get\<close>, but for the end of the stream.\<close>

lemma pick_up_get:
  "pick_up w st =
     (if s_size (strm w st) \<le> 0 then Inr (None, set_strm w (strm w st\<lparr>s_size := s_size (strm w st) - 1\<rparr>) st)
      else bindE (v6_get w st) (\<lambda>(x, st). Inr (Some x, st)))"
proof -
  have same: "set_strm w (strm w st) st = st" by (cases w) (simp_all add: set_strm_def strm_def)
  have comm: "fetch_word w (set_strm w (sp\<lparr>s_size := a, s_nibuf := b\<rparr>) st) =
      fetch_word w (set_strm w (sp\<lparr>s_nibuf := b, s_size := a\<rparr>) st)" for sp a b
    by (rule arg_cong [where f = "\<lambda>x. fetch_word w (set_strm w x st)"]) simp
  show ?thesis by (auto simp: pick_up_def Let_def v6_get_def get_last_def same comm)
qed

lemma pick_up_at:
  assumes "stream_at w p (Suc n) st" "2 * p + 2 \<le> length (l_infil st)" "length (l_infil st) < 2 ^ 24"
  shows "\<exists>st'. pick_up w st = Inr (Some (file_word (l_infil st) p), st') \<and> stream_at w (p + 1) n st' \<and>
    (\<forall>q m. stream_at (other w) q m st \<longrightarrow> stream_at (other w) q m st')"
proof -
  have "s_size (strm w st) = int (Suc n)" using assms(1) by (simp add: stream_at_def)
  then show ?thesis using get_at [OF assms] by (auto simp: pick_up_get)
qed

lemma pick_up_end:
  "stream_at w p 0 st \<Longrightarrow> pick_up w st = Inr (None, set_strm w (strm w st\<lparr>s_size := -1\<rparr>) st)"
  by (simp add: pick_up_get stream_at_def)

section \<open>Relocation\<close>

text \<open>The words of a segment with their relocation words, relocated one after the other.\<close>

fun reloc_words :: "(int \<times> nat) list \<Rightarrow> u16 \<Rightarrow> ld \<Rightarrow> (u16 \<times> u16) list \<Rightarrow> ld_error + (u16 \<times> u16) list" where
  "reloc_words ls creloc st [] = Inr []"
| "reloc_words ls creloc st ((t, r) # xs) =
     bindE (reloc_word ls creloc t r st) (\<lambda>y. bindE (reloc_words ls creloc st xs) (\<lambda>ys. Inr (y # ys)))"

lemma reloc_word_core:
  assumes "core st' = core st"
  shows "reloc_word ls creloc t r st' = reloc_word ls creloc t r st"
  unfolding reloc_word_def core_eqD [OF assms] ..

lemma reloc_words_core:
  assumes "core st' = core st"
  shows "reloc_words ls creloc st' xs = reloc_words ls creloc st xs"
  by (induction xs) (auto simp: reloc_word_core [OF assms])

text \<open>
  The loop of \<open>load2td\<close> writes the relocated words of the whole segment, and with \<open>-r\<close> their
  relocation words; it ends after the last word, and fails only where a word cannot be relocated.
\<close>

lemma load2td_at:
  assumes "stream_at Text p n st" "stream_at Reloc q n st" "2 * (p + n) \<le> length (l_infil st)"
    "2 * (q + n) \<le> length (l_infil st)" "length (l_infil st) < 2 ^ 24"
    and "reloc_words ls creloc st (zip (words_from (l_infil st) p n) (words_from (l_infil st) q n)) = Inr ys" "l_rflag st \<Longrightarrow> b2 \<noteq> None"
  shows "\<exists>st'. load2td (n + 1) ls creloc (Some b1) b2 st =
    Inr (Some (b1 @ words_bytes (map fst ys)),
         map_option (\<lambda>c. c @ (if l_rflag st then words_bytes (map snd ys) else [])) b2, st') \<and>
    core st' = core st"
  using assms
proof (induction n arbitrary: p q st b1 b2 ys)
  case 0
  then show ?case by (cases b2) (simp_all add: pick_up_end words_bytes_def)
next
  case (Suc n)
  let ?f = "l_infil st"
  have "2 * p + 2 \<le> length ?f" "2 * q + 2 \<le> length ?f" using Suc.prems(3,4) by simp_all
  then obtain u where u: "pick_up Text st = Inr (Some (file_word ?f p), u)" "stream_at Text (p + 1) n u" "stream_at Reloc q (Suc n) u"
    using pick_up_at [OF Suc.prems(1) _ Suc.prems(5)] Suc.prems(2) by auto
  note cu = core_pick_up [OF u(1)]
  have fu: "l_infil u = ?f" using core_eqD(3) [OF cu] .
  obtain v where v: "pick_up Reloc u = Inr (Some (file_word ?f q), v)" "stream_at Reloc (q + 1) n v" "stream_at Text (p + 1) n v"
    using pick_up_at [OF u(3)] fu \<open>2 * q + 2 \<le> length ?f\<close> Suc.prems(5) u(2) by auto
  have cv: "core v = core st" using core_pick_up [OF v(1)] cu by simp
  note fv = core_eqD(3) [OF cv] core_eqD(6) [OF cv]
  obtain t r zs where y: "reloc_word ls creloc (file_word ?f p) (file_word ?f q) st = Inr (t, r)"
    "reloc_words ls creloc st (zip (words_from ?f (p + 1) n) (words_from ?f (q + 1) n)) = Inr zs" "ys = (t, r) # zs"
    using Suc.prems(6) by (auto simp: error_simps)
  have "reloc_words ls creloc v (zip (words_from (l_infil v) (p + 1) n) (words_from (l_infil v) (q + 1) n)) = Inr zs"
    using y(2) reloc_words_core [OF cv] fv(1) by simp
  moreover have "2 * (p + 1 + n) \<le> length (l_infil v)" "2 * (q + 1 + n) \<le> length (l_infil v)"
    "length (l_infil v) < 2 ^ 24" using Suc.prems(3-5) fv(1) by simp_all
  moreover define c where "c = map_option (\<lambda>c. c @ (if l_rflag st then word_bytes r else [])) b2"
  moreover have "l_rflag v \<Longrightarrow> c \<noteq> None" using Suc.prems(7) fv(2) by (simp add: c_def)
  ultimately obtain st' where st': "load2td (n + 1) ls creloc (Some (b1 @ word_bytes t)) c v =
    Inr (Some (b1 @ word_bytes t @ words_bytes (map fst zs)),
         map_option (\<lambda>c. c @ (if l_rflag v then words_bytes (map snd zs) else [])) c, st')"
    "core st' = core v"
    using Suc.IH [OF v(3,2), of zs c "b1 @ word_bytes t"] by auto
  have step: "load2td (Suc n + 1) ls creloc (Some b1) b2 st = load2td (n + 1) ls creloc (Some (b1 @ word_bytes t)) c v"
    using u(1) v(1) y(1) fv(2) Suc.prems(7)
    by (auto simp: reloc_word_core [OF cv] put16_def fput_def c_def simp del: load2td.simps(2)
        simp: load2td.simps(2) [of "Suc n"] option.map_ident)
  show ?case
    unfolding step st' using st'(2) y(3) cv fv(2)
    by (intro exI [of _ st']) (cases b2; simp add: words_bytes_def c_def)
qed

end
