(* ===== verification/V6_Pass1.thy ===== *)
theory V6_Pass1
  imports V6_Symtab V6_Stream
begin

text \<open>
  The first pass of the link editor over the symbols of its modules: every name is resolved by
  itself, in the order of the modules; a library member that is not needed leaves the table as
  it was; and whatever the files hold, the table keeps its invariant.
\<close>

section \<open>A table whose entries are merged\<close>

text \<open>
  What a pass needs of a table: an item that counts (\<open>ext\<close>) is merged into the value that its
  key has, and nothing else changes.
\<close>

locale merging_table =
  fixes inv :: "'st \<Rightarrow> bool"
    and env :: "'st \<Rightarrow> 'k \<Rightarrow> 'v option"
    and put :: "'y \<Rightarrow> 'st \<Rightarrow> 'e + 'st"
    and ok ext :: "'y \<Rightarrow> bool"
    and key :: "'y \<Rightarrow> 'k"
    and merge :: "'v option \<Rightarrow> 'y \<Rightarrow> 'v"
  assumes put_inv: "inv x \<Longrightarrow> ok y \<Longrightarrow> put y x = Inr x' \<Longrightarrow> inv x'"
    and put_env: "inv x \<Longrightarrow> ok y \<Longrightarrow> put y x = Inr x' \<Longrightarrow>
      env x' = (if ext y then (env x)(key y \<mapsto> merge (env x (key y)) y) else env x)"
begin

fun put_all :: "'y list \<Rightarrow> 'st \<Rightarrow> 'e + 'st" where
  "put_all [] x = Inr x"
| "put_all (y # ys) x = bindE (put y x) (put_all ys)"

definition merged :: "'k \<Rightarrow> 'y list \<Rightarrow> 'v option \<Rightarrow> 'v option" where
  "merged s ys v = fold (\<lambda>y v. Some (merge v y)) (filter (\<lambda>y. ext y \<and> key y = s) ys) v"

lemma put_all_env:
  assumes "inv x" "\<forall>y \<in> set ys. ok y" "put_all ys x = Inr x'"
  shows "inv x'" "env x' s = merged s ys (env x s)"
proof -
  have "inv x' \<and> env x' s = merged s ys (env x s)"
    using assms
  proof (induction ys arbitrary: x)
    case (Cons y ys)
    obtain u where u: "put y x = Inr u" "put_all ys u = Inr x'" using Cons.prems(3) by (auto simp: error_simps)
    have "inv u" "ok y" using put_inv [OF Cons.prems(1) _ u(1)] Cons.prems(2) by auto
    then have "inv x' \<and> env x' s = merged s ys (env u s)" using Cons.IH Cons.prems(2) u(2) by auto
    then show ?case using put_env [OF Cons.prems(1) \<open>ok y\<close> u(1)] by (auto simp: merged_def)
  qed (simp add: merged_def)
  then show "inv x'" "env x' s = merged s ys (env x s)" by auto
qed

text \<open>A name that no item has keeps its value; so the order of items with different keys is all one.\<close>

lemma put_all_other:
  assumes "inv x" "\<forall>y \<in> set ys. ok y" "put_all ys x = Inr x'" "\<forall>y \<in> set ys. ext y \<longrightarrow> key y \<noteq> s"
  shows "env x' s = env x s"
proof -
  have "filter (\<lambda>y. ext y \<and> key y = s) ys = []" using assms(4) by (auto simp: filter_empty_conv)
  then show ?thesis using put_all_env(2) [OF assms(1-3)] by (simp add: merged_def)
qed

end

section \<open>One symbol\<close>

text \<open>The symbol with its value relocated by the sizes of the modules before.\<close>

definition moved :: "u16 \<times> u16 \<times> u16 \<Rightarrow> symbol \<Rightarrow> symbol" where
  "moved m y = (case m of (ct, cd, cb) \<Rightarrow>
     if stype y \<in> {V_TEXT, V_EXTERN + V_TEXT} then y\<lparr>svalue := svalue y + ct\<rparr>
     else if stype y \<in> {V_DATA, V_EXTERN + V_DATA} then y\<lparr>svalue := svalue y + cd\<rparr>
     else if stype y \<in> {V_BSS, V_EXTERN + V_BSS} then y\<lparr>svalue := svalue y + cb\<rparr>
     else if stype y \<noteq> V_EXTERN + V_UNDEF \<and> stype y AND V_EXTERN \<noteq> 0 then y\<lparr>stype := V_EXTERN + V_ABS\<rparr>
     else y)"

definition moves :: "ld \<Rightarrow> u16 \<times> u16 \<times> u16" where
  "moves st = (l_ctrel st, l_cdrel st, l_cbrel st)"

text \<open>
  How a symbol is resolved against the entry of its name: a definition stands; an undefined
  symbol takes the largest size; a definition replaces it, but not a text symbol a common one.
\<close>

definition resolve :: "symbol option \<Rightarrow> symbol \<Rightarrow> symbol" where
  "resolve v y = (case v of
     None \<Rightarrow> y\<lparr>sname := cp8c (sname y), spad := 0\<rparr>
   | Some sp \<Rightarrow>
       if stype sp \<noteq> V_EXTERN + V_UNDEF then sp
       else if stype y = V_EXTERN + V_UNDEF then (if sint (svalue y) > sint (svalue sp) then sp\<lparr>svalue := svalue y\<rparr> else sp)
       else if svalue sp \<noteq> 0 \<and> stype y = V_EXTERN + V_TEXT then sp
       else sp\<lparr>stype := stype y, svalue := svalue y\<rparr>)"

text \<open>The entry that a name has in the table.\<close>

definition sym_env :: "ld \<Rightarrow> bytes \<Rightarrow> symbol option" where
  "sym_env st s = map_option (\<lambda>k. l_symtab st ! k) (dict st s)"

lemma symreloc_eq: "symreloc st = st\<lparr>l_cursym := moved (moves st) (l_cursym st)\<rparr>"
  by (simp add: symreloc_def moved_def moves_def Let_def)

lemma sname_moved [simp]: "sname (moved m y) = sname y"
  by (simp add: moved_def split: prod.split)

lemma sym_inv_same: "l_symtab st' = l_symtab st \<Longrightarrow> l_hshtab st' = l_hshtab st \<Longrightarrow> sym_inv st' = sym_inv st"
  by (simp add: sym_inv_def table_ok_def reached_def)

lemma sym_inv_names:
  assumes "sym_inv st" "map sname (l_symtab st') = map sname (l_symtab st)" "l_hshtab st' = l_hshtab st"
  shows "sym_inv st'" "dict st' = dict st"
proof -
  have len: "length (l_symtab st') = length (l_symtab st)" using assms(2) map_eq_imp_length_eq by blast
  have nm: "sname (l_symtab st' ! k) = sname (l_symtab st ! k)" if "k < length (l_symtab st)" for k
    using assms(2) that len by (metis nth_map)
  show "sym_inv st'" using assms by (simp add: sym_inv_def table_ok_def reached_def len nm)
  show "dict st' = dict st" using assms(2) len by (simp add: dict_def)
qed

lemma cursym_simps [simp]:
  "moves (st\<lparr>l_cursym := y\<rparr>) = moves st" "sym_inv (st\<lparr>l_cursym := y\<rparr>) = sym_inv st"
  "table_ok (st\<lparr>l_cursym := y\<rparr>) = table_ok st" "dict (st\<lparr>l_cursym := y\<rparr>) = dict st"
  "sym_env (st\<lparr>l_cursym := y\<rparr>) = sym_env st"
  by (simp_all add: moves_def sym_inv_def table_ok_def reached_def dict_def sym_env_def fun_eq_iff)

text \<open>What processing one symbol does to the table: the invariant, and the entry of its name.\<close>

lemma table_ok_update: "table_ok st \<Longrightarrow> table_ok (st\<lparr>l_symtab := (l_symtab st)[k := z]\<rparr>)"
  by (simp add: table_ok_def)

lemma symtab_update_inv:
  assumes "sym_inv st" "dict st s = Some k" "sname z = s"
  shows "sym_inv (st\<lparr>l_symtab := (l_symtab st)[k := z]\<rparr>)"
    "sym_env (st\<lparr>l_symtab := (l_symtab st)[k := z]\<rparr>) = (sym_env st)(s \<mapsto> z)"
proof -
  let ?u = "st\<lparr>l_symtab := (l_symtab st)[k := z]\<rparr>"
  have d: "distinct (map sname (l_symtab st))" using assms(1) by (simp add: sym_inv_def)
  note k = dict_Some [OF d, THEN iffD1, OF assms(2)]
  have names: "map sname (l_symtab ?u) = map sname (l_symtab st)"
    using k assms(3) by (simp add: map_update) (metis list_update_id nth_map length_map)
  show "sym_inv ?u" by (rule sym_inv_names(1) [OF assms(1) names]) simp
  have "dict ?u = dict st" by (rule sym_inv_names(2) [OF assms(1) names]) simp
  moreover have "j \<noteq> k" if "dict st s' = Some j" "s' \<noteq> s" for s' j
    using that k dict_Some [OF d] by auto
  ultimately have "sym_env ?u x = ((sym_env st)(s \<mapsto> z)) x" for x
    using k assms(2) by (cases "dict st x"; cases "x = s") (auto simp: sym_env_def nth_list_update)
  then show "sym_env ?u = (sym_env st)(s \<mapsto> z)" ..
qed

lemma load1_sym_cases:
  assumes run: "load1_sym locals ndef nloc st = Inr (locals', ndef', nloc', st')" and ext: "stype (l_cursym st) AND V_EXTERN \<noteq> 0"
  obtains hp u where "u = st\<lparr>l_cursym := moved (moves st) (l_cursym st)\<rparr>" "v6_lookup u = Inr hp"
    "l_hshtab u ! hp = None" "enter_at hp u = Inr st'" "locals' = hp # locals" "ndef' = ndef"
  | hp u k v where "u = st\<lparr>l_cursym := moved (moves st) (l_cursym st)\<rparr>" "v6_lookup u = Inr hp"
    "l_hshtab u ! hp = Some k" "v = resolve (Some (l_symtab u ! k)) (l_cursym u)" "locals' = locals"
    "st' = u \<and> v = l_symtab u ! k \<or> st' = u\<lparr>l_symtab := (l_symtab u)[k := v]\<rparr>"
    "ndef' = ndef \<longrightarrow> v = l_symtab u ! k \<or> stype (l_symtab u ! k) = V_EXTERN + V_UNDEF \<and>
      v = (l_symtab u ! k)\<lparr>svalue := svalue v\<rparr> \<and> sint (svalue (l_symtab u ! k)) < sint (svalue v)"
    "ndef \<le> ndef'"
proof -
  define u where "u = st\<lparr>l_cursym := moved (moves st) (l_cursym st)\<rparr>"
  obtain hp where hp: "v6_lookup u = Inr hp"
    using run ext by (auto simp: load1_sym_def symreloc_eq Let_def error_simps u_def)
  show ?thesis
  proof (cases "l_hshtab u ! hp")
    case None
    then have "enter_at hp u = Inr st' \<and> locals' = hp # locals \<and> ndef' = ndef"
      using run ext hp by (auto simp: load1_sym_def symreloc_eq Let_def error_simps simp flip: u_def split: if_splits)
    with that(1) [OF u_def hp None] show ?thesis by blast
  next
    case (Some k)
    show ?thesis
      by (rule that(2) [OF u_def hp Some refl])
        (use run ext hp Some in \<open>auto simp: load1_sym_def symreloc_eq Let_def resolve_def simp flip: u_def split: if_splits\<close>)
  qed
qed

lemma load1_sym_local:
  "stype (l_cursym st) AND V_EXTERN = 0 \<Longrightarrow> load1_sym locals ndef nloc st = Inr (locals', ndef', nloc', st') \<Longrightarrow>
    locals' = locals \<and> ndef' = ndef \<and> st' = st"
  by (simp add: load1_sym_def)

lemma load1_sym_table_ok:
  assumes "table_ok st" "load1_sym locals ndef nloc st = Inr (locals', ndef', nloc', st')"
  shows "table_ok st'"
proof (cases "stype (l_cursym st) AND V_EXTERN = 0")
  case True
  with load1_sym_local [OF True assms(2)] assms(1) show ?thesis by simp
next
  case False
  from assms(2) this show ?thesis
  proof (cases rule: load1_sym_cases)
    case (1 hp u)
    have u: "table_ok u" using assms(1) 1(1) by (simp add: table_ok_def)
    have "hp < HSIZE" using lookup_stops [OF u] 1(2) by auto
    from table_ok_enter [OF u this 1(3,4)] show ?thesis .
  next
    case (2 hp u k v)
    have u: "table_ok u" using assms(1) 2(1) by (simp add: table_ok_def)
    with 2(6) show ?thesis by (auto intro: table_ok_update)
  qed
qed

lemma load1_sym_env:
  assumes inv: "sym_inv st" and s: "cp8c (sname (l_cursym st)) = sname (l_cursym st)"
    and run: "load1_sym locals ndef nloc st = Inr (locals', ndef', nloc', st')"
  shows "sym_inv st'" "moves st' = moves st"
    "sym_env st' = (if stype (l_cursym st) AND V_EXTERN \<noteq> 0
       then (sym_env st)(sname (l_cursym st) \<mapsto> resolve (sym_env st (sname (l_cursym st))) (moved (moves st) (l_cursym st)))
       else sym_env st)"
proof -
  let ?s = "sname (l_cursym st)" and ?y = "moved (moves st) (l_cursym st)"
  have "sym_inv st' \<and> moves st' = moves st \<and>
    sym_env st' = (if stype (l_cursym st) AND V_EXTERN \<noteq> 0 then (sym_env st)(?s \<mapsto> resolve (sym_env st ?s) ?y) else sym_env st)"
  proof (cases "stype (l_cursym st) AND V_EXTERN = 0")
    case True
    with load1_sym_local [OF True run] inv show ?thesis by simp
  next
    case False
    from run this show ?thesis
    proof (cases rule: load1_sym_cases)
      case (1 hp u)
      have u: "sym_inv u" "sname (l_cursym u) = ?s" "dict u = dict st" "l_symtab u = l_symtab st" "l_cursym u = ?y"
        using inv 1(1) by simp_all
      have "cp8c (sname (l_cursym u)) = sname (l_cursym u)" using s u(2) by simp
      note e = enter_at_dict [OF u(1) this 1(2,3,4)]
      have fresh: "dict st ?s = None" using lookup_dict [OF u(1)] 1(2,3) u(2,3) by auto
      have st': "l_symtab st' = l_symtab u @ [new_entry u]" "moves st' = moves u"
        using 1(4) by (auto simp: enter_at_eq moves_def split: if_splits)
      have "sym_env st' x = ((sym_env st)(?s \<mapsto> new_entry u)) x" for x
      proof -
        have "j < length (l_symtab st)" if "dict st x = Some j" for j
          using that dict_Some [of st x j] inv by (simp add: sym_inv_def)
        then show ?thesis
          using u by (cases "dict st x"; cases "x = ?s") (auto simp: sym_env_def e(2) st'(1) nth_append)
      qed
      moreover have "new_entry u = resolve (sym_env st ?s) ?y"
        using fresh u(5) s by (simp add: sym_env_def resolve_def new_entry_def)
      ultimately show ?thesis using e(1) st'(2) 1(1) False by auto
    next
      case (2 hp u k v)
      have u: "sym_inv u" "sname (l_cursym u) = ?s" "sym_env u = sym_env st" "l_cursym u = ?y" "moves u = moves st"
        using inv 2(1) by simp_all
      have k: "dict u ?s = Some k" using lookup_dict [OF u(1)] 2(2,3) u(2) by auto
      have d: "distinct (map sname (l_symtab u))" using u(1) by (simp add: sym_inv_def)
      have nm: "sname (l_symtab u ! k) = ?s" using dict_Some [OF d] k by simp
      then have "sname v = ?s" by (simp add: 2(4) resolve_def)
      note e = symtab_update_inv [OF u(1) k this]
      have v: "v = resolve (sym_env st ?s) ?y" using 2(4) k u(3,4) by (simp add: sym_env_def flip: u(3))
      have "sym_env st' = (sym_env st)(?s \<mapsto> v)"
        using 2(6)
      proof
        assume "st' = u \<and> v = l_symtab u ! k"
        moreover have "sym_env u ?s = Some (l_symtab u ! k)" using k by (simp add: sym_env_def)
        ultimately show ?thesis using u(3) by (simp add: fun_upd_idem)
      next
        assume "st' = u\<lparr>l_symtab := (l_symtab u)[k := v]\<rparr>"
        then show ?thesis using e(2) u(3) by simp
      qed
      then show ?thesis using 2(6) e(1) u(1,5) False v by (auto simp: moves_def)
    qed
  qed
  then show "sym_inv st'" "moves st' = moves st"
    "sym_env st' = (if stype (l_cursym st) AND V_EXTERN \<noteq> 0 then (sym_env st)(?s \<mapsto> resolve (sym_env st ?s) ?y) else sym_env st)"
    by auto
qed

section \<open>The symbols of a module\<close>

text \<open>The list of the symbols of a module, one after the other.\<close>

definition load1_put :: "symbol \<Rightarrow> nat list \<times> nat \<times> u16 \<times> ld \<Rightarrow> ld_error + nat list \<times> nat \<times> u16 \<times> ld" where
  "load1_put y x = (case x of (locals, ndef, nloc, st) \<Rightarrow> load1_sym locals ndef nloc (st\<lparr>l_cursym := y\<rparr>))"

definition load1_inv :: "u16 \<times> u16 \<times> u16 \<Rightarrow> nat list \<times> nat \<times> u16 \<times> ld \<Rightarrow> bool" where
  "load1_inv m x = (case x of (locals, ndef, nloc, st) \<Rightarrow> sym_inv st \<and> moves st = m)"

definition load1_env :: "nat list \<times> nat \<times> u16 \<times> ld \<Rightarrow> bytes \<Rightarrow> symbol option" where
  "load1_env x = (case x of (locals, ndef, nloc, st) \<Rightarrow> sym_env st)"

definition plain_name :: "symbol \<Rightarrow> bool" where
  "plain_name y \<longleftrightarrow> cp8c (sname y) = sname y"

definition external :: "symbol \<Rightarrow> bool" where
  "external y \<longleftrightarrow> stype y AND V_EXTERN \<noteq> 0"

interpretation sy: merging_table "load1_inv m" load1_env load1_put plain_name external sname "\<lambda>v y. resolve v (moved m y)"
  for m
proof
  fix x :: "nat list \<times> nat \<times> u16 \<times> ld" and x' y
  assume *: "load1_inv m x" "plain_name y" "load1_put y x = Inr x'"
  obtain locals ndef nloc st where x: "x = (locals, ndef, nloc, st)" by (cases x) auto
  obtain locals' ndef' nloc' st' where x': "x' = (locals', ndef', nloc', st')" by (cases x') auto
  have inv: "sym_inv (st\<lparr>l_cursym := y\<rparr>)" "moves st = m" and
    s: "cp8c (sname (l_cursym (st\<lparr>l_cursym := y\<rparr>))) = sname (l_cursym (st\<lparr>l_cursym := y\<rparr>))" and
    run: "load1_sym locals ndef nloc (st\<lparr>l_cursym := y\<rparr>) = Inr (locals', ndef', nloc', st')"
    using * by (simp_all add: x x' load1_inv_def load1_put_def plain_name_def)
  note e = load1_sym_env [OF inv(1) s run]
  show "load1_inv m x'" using e(1,2) inv(2) by (simp add: x' load1_inv_def)
  show "load1_env x' = (if external y then (load1_env x)(sname y \<mapsto> resolve (load1_env x (sname y)) (moved m y)) else load1_env x)"
    using e(3) inv(2) by (simp add: x x' load1_env_def external_def)
qed

text \<open>The symbols that a module has at word \<open>p\<close> of the file.\<close>

definition syms_at :: "bytes \<Rightarrow> nat \<Rightarrow> nat \<Rightarrow> symbol list" where
  "syms_at f p n = map (\<lambda>i. dec_symbol (words_from f (p + 6 * i) 6)) [0..<n]"

lemma syms_at_simps [simp]:
  "syms_at f p 0 = []" "syms_at f p (Suc n) = dec_symbol (words_from f p 6) # syms_at f (p + 6) n"
proof -
  have "[0..<Suc n] = 0 # map Suc [0..<n]" by (simp add: map_Suc_upt upt_conv_Cons del: upt_Suc)
  then show "syms_at f p (Suc n) = dec_symbol (words_from f p 6) # syms_at f (p + 6) n"
    by (simp add: syms_at_def comp_def add.assoc del: upt_Suc)
qed (simp add: syms_at_def)

text \<open>The work on a symbol does not depend on the streams, and leaves them alone.\<close>

lemma core_fields [simp]:
  "l_symtab (core st) = l_symtab st" "l_hshtab (core st) = l_hshtab st" "l_cursym (core st) = l_cursym st"
  "l_Xflag (core st) = l_Xflag st" "moves (core st) = moves st"
  "(core st)\<lparr>l_cursym := y\<rparr> = core (st\<lparr>l_cursym := y\<rparr>)" "(core st)\<lparr>l_symtab := ys\<rparr> = core (st\<lparr>l_symtab := ys\<rparr>)"
  "(core st)\<lparr>l_hshtab := h\<rparr> = core (st\<lparr>l_hshtab := h\<rparr>)"
  "core (core st) = core st"
  by (simp_all add: core_def moves_def)

lemma sym_inv_core [simp]: "sym_inv (core st) = sym_inv st" "sym_env (core st) = sym_env st" "table_ok (core st) = table_ok st"
  by (simp_all add: sym_inv_def table_ok_def reached_def sym_env_def dict_def fun_eq_iff)

lemma lookup_core [simp]: "v6_lookup (core st) = v6_lookup st"
proof -
  have "lookup_probe n hp s (core st) = lookup_probe n hp s st" for n hp s
    by (induction n arbitrary: hp) (simp_all split: option.split)
  then show ?thesis by (simp add: v6_lookup_def)
qed

lemma new_entry_core [simp]: "new_entry (core st) = new_entry st"
  by (simp add: new_entry_def)

lemma enter_at_core: "enter_at hp (core st) = map_sum id core (enter_at hp st)"
  by (simp add: enter_at_eq)

lemma load1_sym_core:
  "load1_sym locals ndef nloc (core st) =
     map_sum id (\<lambda>(l, d, c, st). (l, d, c, core st)) (load1_sym locals ndef nloc st)"
proof (cases "stype (l_cursym st) AND V_EXTERN = 0")
  case False
  let ?u = "st\<lparr>l_cursym := moved (moves st) (l_cursym st)\<rparr>"
  show ?thesis
  proof (cases "v6_lookup ?u")
    case (Inr hp)
    then show ?thesis
      using False by (cases "l_hshtab st ! hp"; cases "enter_at hp ?u")
        (auto simp: load1_sym_def symreloc_eq Let_def enter_at_core)
  qed (use False in \<open>simp add: load1_sym_def symreloc_eq Let_def\<close>)
qed (simp add: load1_sym_def)

lemma load1_sym_streams:
  assumes "load1_sym locals ndef nloc st = Inr (l, d, c, st')"
  shows "\<exists>ys h y. st' = st\<lparr>l_symtab := ys, l_hshtab := h, l_cursym := y\<rparr>"
proof (cases "stype (l_cursym st) AND V_EXTERN = 0")
  case True
  then show ?thesis using load1_sym_local [OF True assms]
    by (intro exI [of _ "l_symtab st"] exI [of _ "l_hshtab st"] exI [of _ "l_cursym st"]) simp
next
  case False
  from assms this show ?thesis
  proof (cases rule: load1_sym_cases)
    case (1 hp u)
    let ?u = "st\<lparr>l_symtab := l_symtab st @ [new_entry u], l_hshtab := (l_hshtab st)[hp := Some (length (l_symtab st))],
      l_cursym := l_cursym u\<rparr>"
    have "st' = ?u" using 1(1,4) by (auto simp: enter_at_eq split: if_splits)
    then show ?thesis by blast
  next
    case (2 hp u k v)
    from 2(6) show ?thesis
    proof
      assume "st' = u \<and> v = l_symtab u ! k"
      then show ?thesis using 2(1)
        by (intro exI [of _ "l_symtab st"] exI [of _ "l_hshtab st"] exI [of _ "l_cursym u"]) simp
    next
      assume "st' = u\<lparr>l_symtab := (l_symtab u)[k := v]\<rparr>"
      then show ?thesis using 2(1)
        by (intro exI [of _ "(l_symtab u)[k := v]"] exI [of _ "l_hshtab st"] exI [of _ "l_cursym u"]) simp
    qed
  qed
qed

lemma stream_at_table [simp]:
  "stream_at w p n (st\<lparr>l_symtab := ys, l_hshtab := h, l_cursym := y\<rparr>) = stream_at w p n st"
  "stream_at w p n (st\<lparr>l_cursym := y\<rparr>) = stream_at w p n st"
  "stream_at w p n (st\<lparr>l_symtab := ys, l_hshtab := h\<rparr>) = stream_at w p n st"
  by (cases w; simp add: stream_at_def cache_inv_def stream_ok_def strm_def page_of_def page_ok_def users_on_def Let_def)+

text \<open>The loop over the symbols of a module reads them all and processes them in order.\<close>

lemma load1_syms_at:
  assumes "stream_at Text p (6 * n) st" "2 * (p + 6 * n) \<le> length (l_infil st)" "length (l_infil st) < 2 ^ 24" "n < m"
    "load1_syms m locals ndef nloc st = Inr (l, d, c, st')"
  shows "sy.put_all (syms_at (l_infil st) p n) (locals, ndef, nloc, core st) = Inr (l, d, c, core st')"
  using assms
proof (induction n arbitrary: m p locals ndef nloc st)
  case 0
  then obtain m' where m: "m = Suc m'" by (cases m) auto
  have "s_size (l_text st) = 0" using 0(1) by (simp add: stream_at_def strm_Text)
  with 0 m show ?case by simp
next
  case (Suc n)
  then obtain m' where m: "m = Suc m'" "n < m'" by (cases m) auto
  have size: "s_size (l_text st) > 0" using Suc.prems(1) by (simp add: stream_at_def strm_Text)
  obtain u where u: "mget SZ_symbol st = Inr (words_from (l_infil st) p 6, u)" "stream_at Text (p + 6) (6 * n) u"
    using mget_at [OF Suc.prems(1), of SZ_symbol] Suc.prems(2,3) by (auto simp: SZ_symbol_def)
  have cu: "core u = core st" using core_mget [OF u(1)] .
  let ?y = "dec_symbol (words_from (l_infil st) p 6)"
  obtain l' d' c' v where v: "load1_sym locals ndef nloc (u\<lparr>l_cursym := ?y\<rparr>) = Inr (l', d', c', v)"
    "load1_syms m' l' d' c' v = Inr (l, d, c, st')"
    using Suc.prems(5) size u(1) m(1) by (auto simp: error_simps)
  obtain ys h y where sv: "v = u\<lparr>l_cursym := ?y\<rparr>\<lparr>l_symtab := ys, l_hshtab := h, l_cursym := y\<rparr>"
    using load1_sym_streams [OF v(1)] by blast
  have fv: "l_infil v = l_infil st" "stream_at Text (p + 6) (6 * n) v"
    using core_eqD(3) [OF cu] u(2) by (simp_all add: sv)
  have "sy.put_all (syms_at (l_infil v) (p + 6) n) (l', d', c', core v) = Inr (l, d, c, core st')"
    using Suc.IH [OF fv(2) _ _ m(2) v(2)] Suc.prems(2,3) fv(1) by simp
  moreover have "load1_put ?y (locals, ndef, nloc, core st) = Inr (l', d', c', core v)"
    using v(1) load1_sym_core [of locals ndef nloc "u\<lparr>l_cursym := ?y\<rparr>"]
    by (simp add: load1_put_def flip: cu)
  ultimately show ?case by (simp add: fv(1))
qed

text \<open>So every name of the table is resolved by itself, in the order of the symbols that have it.\<close>

lemma load1_syms_env:
  assumes "stream_at Text p (6 * n) st" "2 * (p + 6 * n) \<le> length (l_infil st)" "length (l_infil st) < 2 ^ 24" "n < m"
    "load1_syms m locals ndef nloc st = Inr (l, d, c, st')" "sym_inv st" "\<forall>y \<in> set (syms_at (l_infil st) p n). plain_name y"
  shows "sym_inv st'" "sym_env st' s = sy.merged (moves st) s (syms_at (l_infil st) p n) (sym_env st s)"
proof -
  have "load1_inv (moves st) (locals, ndef, nloc, core st)" using assms(6) by (simp add: load1_inv_def)
  note r = sy.put_all_env [OF this assms(7) load1_syms_at [OF assms(1-5)]]
  show "sym_inv st'" using r(1) by (simp add: load1_inv_def)
  show "sym_env st' s = sy.merged (moves st) s (syms_at (l_infil st) p n) (sym_env st s)"
    using r(2) [of s] by (simp add: load1_env_def)
qed

lemma load1_syms_table_ok:
  "table_ok st \<Longrightarrow> load1_syms n locals ndef nloc st = Inr (locals', ndef', nloc', st') \<Longrightarrow> table_ok st'"
proof (induction n arbitrary: locals ndef nloc st)
  case (Suc n)
  show ?case
  proof (cases "s_size (l_text st) > 0")
    case True
    then obtain xs u l d c v where r: "mget SZ_symbol st = Inr (xs, u)"
      "load1_sym locals ndef nloc (u\<lparr>l_cursym := dec_symbol xs\<rparr>) = Inr (l, d, c, v)"
      "load1_syms n l d c v = Inr (locals', ndef', nloc', st')"
      using Suc.prems(2) by (auto simp: error_simps)
    have "table_ok (u\<lparr>l_cursym := dec_symbol xs\<rparr>)"
      using Suc.prems(1) core_eqD(1,2) [OF core_mget [OF r(1)]] by (simp add: table_ok_def)
    from load1_sym_table_ok [OF this r(2)] show ?thesis using Suc.IH r(3) by blast
  qed (use Suc.prems in simp)
qed simp

text \<open>And as long as the table and the list of local symbols have room, the loop ends well.\<close>

lemma load1_sym_progress:
  assumes "sym_inv st" "length (l_symtab st) < NSYM" "length locals < NSYMPR"
  shows "\<exists>l d c st'. load1_sym locals ndef nloc st = Inr (l, d, c, st') \<and>
    length (l_symtab st') \<le> Suc (length (l_symtab st)) \<and> length l \<le> Suc (length locals)"
proof (cases "stype (l_cursym st) AND V_EXTERN = 0")
  case False
  let ?u = "st\<lparr>l_cursym := moved (moves st) (l_cursym st)\<rparr>"
  have "sym_inv ?u" using assms(1) by simp
  then obtain hp where hp: "v6_lookup ?u = Inr hp" using lookup_dict by blast
  show ?thesis
    using False hp assms(2,3)
    by (cases "l_hshtab st ! hp") (simp_all add: load1_sym_def symreloc_eq Let_def enter_at_eq)
qed (simp add: load1_sym_def)

lemma load1_syms_progress:
  assumes "stream_at Text p (6 * n) st" "2 * (p + 6 * n) \<le> length (l_infil st)" "length (l_infil st) < 2 ^ 24" "n < m"
    "sym_inv st" "\<forall>y \<in> set (syms_at (l_infil st) p n). plain_name y"
    "length (l_symtab st) + n \<le> NSYM" "length locals + n \<le> NSYMPR"
  shows "\<exists>l d c st'. load1_syms m locals ndef nloc st = Inr (l, d, c, st')"
  using assms
proof (induction n arbitrary: m p locals ndef nloc st)
  case 0
  then obtain m' where m: "m = Suc m'" by (cases m) auto
  have "s_size (l_text st) = 0" using 0(1) by (simp add: stream_at_def strm_Text)
  with m show ?case by simp
next
  case (Suc n)
  then obtain m' where m: "m = Suc m'" "n < m'" by (cases m) auto
  have size: "s_size (l_text st) > 0" using Suc.prems(1) by (simp add: stream_at_def strm_Text)
  obtain u where u: "mget SZ_symbol st = Inr (words_from (l_infil st) p 6, u)" "stream_at Text (p + 6) (6 * n) u"
    using mget_at [OF Suc.prems(1), of SZ_symbol] Suc.prems(2,3) by (auto simp: SZ_symbol_def)
  have cu: "core u = core st" using core_mget [OF u(1)] .
  let ?y = "dec_symbol (words_from (l_infil st) p 6)"
  let ?w = "u\<lparr>l_cursym := ?y\<rparr>"
  have inv: "sym_inv ?w" using Suc.prems(5) cu by (metis cursym_simps(2) sym_inv_core(1))
  have "length (l_symtab ?w) < NSYM" "length locals < NSYMPR"
    using Suc.prems(7,8) core_eqD(1) [OF cu] by simp_all
  then obtain l d c v where v: "load1_sym locals ndef nloc ?w = Inr (l, d, c, v)"
    "length (l_symtab v) \<le> Suc (length (l_symtab ?w))" "length l \<le> Suc (length locals)"
    using load1_sym_progress [OF inv] by blast
  obtain ys h y where sv: "v = ?w\<lparr>l_symtab := ys, l_hshtab := h, l_cursym := y\<rparr>"
    using load1_sym_streams [OF v(1)] by blast
  have "cp8c (sname (l_cursym ?w)) = sname (l_cursym ?w)" using Suc.prems(6) by (simp add: plain_name_def)
  note e = load1_sym_env(1) [OF inv this v(1)]
  have fv: "l_infil v = l_infil st" "stream_at Text (p + 6) (6 * n) v"
    using core_eqD(3) [OF cu] u(2) by (simp_all add: sv)
  have "\<exists>l' d' c' st'. load1_syms m' l d c v = Inr (l', d', c', st')"
    using Suc.IH [OF fv(2) _ _ m(2) e, of l d c] Suc.prems(2,3,6,7,8) v(2,3) core_eqD(1) [OF cu] fv(1) by simp
  then show ?case using size u(1) v(1) m(1) by auto
qed

section \<open>A member that is not needed\<close>

text \<open>
  An entry of the table as a library member leaves it that was not loaded: only the size of an
  undefined symbol may have grown.
\<close>

definition kept_sym :: "symbol \<Rightarrow> symbol \<Rightarrow> bool" where
  "kept_sym y z \<longleftrightarrow> z = y \<or> stype y = V_EXTERN + V_UNDEF \<and> z = y\<lparr>svalue := svalue z\<rparr> \<and> sint (svalue y) < sint (svalue z)"

lemma kept_sym_trans:
  assumes "kept_sym x y" "kept_sym y z"
  shows "kept_sym x z"
proof (cases "y = x \<or> z = y")
  case False
  then have "y = x\<lparr>svalue := svalue y\<rparr>" "z = y\<lparr>svalue := svalue z\<rparr>" using assms by (auto simp: kept_sym_def)
  then have "z = x\<lparr>svalue := svalue z\<rparr>" by (metis symbol.update_convs(4) symbol.surjective)
  with False assms show ?thesis by (auto simp: kept_sym_def)
qed (use assms in auto)

lemma kept_sym_name: "kept_sym y z \<Longrightarrow> sname z = sname y"
  by (metis kept_sym_def symbol.select_convs(1) symbol.surjective symbol.update_convs(4))

text \<open>
  What the symbols of the module have done so far: the slots in \<open>locals\<close> were empty before, and
  the old entries have changed only if one of them was defined (\<open>ndef\<close>).
\<close>

definition added :: "ld \<Rightarrow> nat list \<Rightarrow> nat \<Rightarrow> ld \<Rightarrow> bool" where
  "added st0 locals ndef st \<longleftrightarrow> table_ok st \<and>
     length (l_symtab st) = length (l_symtab st0) + length locals \<and>
     fold (\<lambda>hp h. h[hp := None]) locals (l_hshtab st) = l_hshtab st0 \<and>
     (ndef = 0 \<longrightarrow> (\<forall>k < length (l_symtab st0). kept_sym (l_symtab st0 ! k) (l_symtab st ! k)))"

lemma added_cursym [simp]: "added st0 locals ndef (st\<lparr>l_cursym := y\<rparr>) = added st0 locals ndef st"
  by (simp add: added_def)

lemma nth_updated: "j < length xs \<Longrightarrow> xs[k := v] ! j = (if j = k then v else xs ! j)"
  by (cases "j = k") simp_all

lemma added_load1_sym:
  assumes inv: "added st0 locals ndef st" and run: "load1_sym locals ndef nloc st = Inr (locals', ndef', nloc', st')"
  shows "added st0 locals' ndef' st'"
proof (cases "stype (l_cursym st) AND V_EXTERN = 0")
  case True
  with load1_sym_local [OF True run] inv show ?thesis by simp
next
  case False
  have "table_ok st" using inv by (simp add: added_def)
  note ok = load1_sym_table_ok [OF this run]
  from run False show ?thesis
  proof (cases rule: load1_sym_cases)
    case (1 hp u)
    have "l_hshtab st ! hp = None" using 1(1,3) by simp
    then have "(l_hshtab st)[hp := None] = l_hshtab st" by (metis list_update_id)
    with 1 inv ok show ?thesis
      by (auto simp: added_def enter_at_eq nth_append split: if_splits)
  next
    case (2 hp u k v)
    have kept: "kept_sym (l_symtab u ! k) v" if "ndef' = 0" using 2(7,8) that by (auto simp: kept_sym_def)
    have "l_symtab st' = (l_symtab st)[k := v]" "l_hshtab st' = l_hshtab st"
      using 2(1,6) by auto
    with 2(1,5,8) kept inv ok show ?thesis
      by (auto simp: added_def nth_updated intro: kept_sym_trans)
  qed
qed

lemma added_load1_syms:
  "added st0 locals ndef st \<Longrightarrow> load1_syms n locals ndef nloc st = Inr (locals', ndef', nloc', st') \<Longrightarrow> added st0 locals' ndef' st'"
proof (induction n arbitrary: locals ndef nloc st)
  case (Suc n)
  show ?case
  proof (cases "s_size (l_text st) > 0")
    case True
    then obtain xs u l d c v where r: "mget SZ_symbol st = Inr (xs, u)"
      "load1_sym locals ndef nloc (u\<lparr>l_cursym := dec_symbol xs\<rparr>) = Inr (l, d, c, v)"
      "load1_syms n l d c v = Inr (locals', ndef', nloc', st')"
      using Suc.prems(2) by (auto simp: error_simps)
    have "added st0 locals ndef (u\<lparr>l_cursym := dec_symbol xs\<rparr>)"
      using Suc.prems(1) core_eqD(1,2) [OF core_mget [OF r(1)]] table_ok_same [of u st] by (simp add: added_def)
    from added_load1_sym [OF this r(2)] show ?thesis using Suc.IH r(3) by blast
  qed (use Suc.prems in simp)
qed simp

text \<open>Then taking out the new entries gives the old table.\<close>

lemma rip_out_added:
  assumes "added st0 locals 0 st" "table_ok st0"
  shows "table_ok (rip_out (length (l_symtab st0)) locals st)"
    "l_hshtab (rip_out (length (l_symtab st0)) locals st) = l_hshtab st0"
    "list_all2 kept_sym (l_symtab st0) (l_symtab (rip_out (length (l_symtab st0)) locals st))"
  using assms by (auto simp: added_def rip_out_def table_ok_def list_all2_conv_all_nth)

section \<open>The first pass\<close>

lemma core_readhdr:
  "readhdr bno off st = Inr st' \<Longrightarrow> l_symtab st' = l_symtab st \<and> l_hshtab st' = l_hshtab st \<and>
     l_tsize st' = l_tsize st \<and> l_dsize st' = l_dsize st \<and> l_bsize st' = l_bsize st \<and> l_ssize st' = l_ssize st"
proof -
  have core: "l_tsize y = l_tsize x" "l_dsize y = l_dsize x" "l_bsize y = l_bsize x" "l_ssize y = l_ssize x"
    "l_symtab y = l_symtab x" "l_hshtab y = l_hshtab x" if "core y = core x" for x y
    using that unfolding core_def by (cases x; cases y; simp)+
  assume run: "readhdr bno off st = Inr st'"
  then obtain u where u: "dseek Text bno off (int SZ_filhdr) st = Inr u" by (auto simp: readhdr_def error_simps)
  with run obtain xs v where v: "mget SZ_filhdr u = Inr (xs, v)" by (auto simp: readhdr_def error_simps)
  show ?thesis
    using run u v core [OF core_dseek [OF u]] core [OF core_mget [OF v]]
    by (auto simp: readhdr_def Let_def split: if_splits)
qed

text \<open>What a module leaves in the table: if it is not loaded, what was there before.\<close>

lemma load1_table:
  assumes ok: "table_ok st" and run: "load1 libflg bno off st = Inr (b, st')"
  shows "table_ok st' \<and> (\<not> b \<longrightarrow> l_hshtab st' = l_hshtab st \<and> list_all2 kept_sym (l_symtab st) (l_symtab st'))"
proof -
  have refl: "list_all2 kept_sym ys ys" for ys by (rule list.rel_refl) (simp add: kept_sym_def)
  obtain u where u: "readhdr bno off st = Inr u" using run by (auto simp: load1_def error_simps)
  define v where "v = u\<lparr>l_ctrel := l_tsize u, l_cdrel := l_cdrel u + l_dsize u, l_cbrel := l_cbrel u + l_bsize u\<rparr>"
  have v: "l_symtab v = l_symtab st" "l_hshtab v = l_hshtab st" "l_filhdr v = l_filhdr u"
    using core_readhdr [OF u] by (simp_all add: v_def)
  show ?thesis
  proof (cases "f_relflg (l_filhdr u) AND RELFLG = 1")
    case True
    then have "b = False" "l_symtab st' = l_symtab v" "l_hshtab st' = l_hshtab v"
      using run u by (auto simp: load1_def Let_def error0_def ld_printf_def simp flip: v_def split: option.splits)
    with ok v refl show ?thesis by (simp add: table_ok_def)
  next
    case False
    note run' = run [unfolded load1_def u bindE.simps Let_def, folded v_def, folded v(3)]
    have False': "f_relflg (l_filhdr v) AND RELFLG \<noteq> 1" using False v(3) by simp
    note run' = run' [unfolded if_not_P [OF False']]
    obtain w where w: "dseek Text bno (off + 8 + sint (f_tsize (l_filhdr v)) + sint (f_dsize (l_filhdr v))) (sint (f_ssize (l_filhdr v))) v = Inr w"
      using run' by (auto simp: error_simps)
    obtain locals ndef nloc x where x: "load1_syms (nat (s_size (l_text w)) + 1) [] 0 (of_nat SZ_symbol) w = Inr (locals, ndef, nloc, x)"
      using run' w by (auto simp: error_simps simp del: load1_syms.simps)
    have st': "(libflg \<and> ndef = 0) \<and> b = False \<and> st' = rip_out (length (l_symtab v)) locals x \<or>
       b \<and> l_symtab st' = l_symtab x \<and> l_hshtab st' = l_hshtab x"
      using run' w x by (auto split: if_splits simp del: load1_syms.simps)
    have tab: "l_symtab w = l_symtab st" "l_hshtab w = l_hshtab st" "table_ok w"
      using core_eqD(1,2) [OF core_dseek [OF w]] v ok by (simp_all add: table_ok_def)
    have "added w [] 0 w" using tab(3) by (simp add: added_def kept_sym_def)
    note a = added_load1_syms [OF this x]
    have ok': "table_ok x" using a by (simp add: added_def)
    from st' show ?thesis
    proof
      assume *: "(libflg \<and> ndef = 0) \<and> b = False \<and> st' = rip_out (length (l_symtab v)) locals x"
      then show ?thesis using rip_out_added [of w locals x] a tab v by simp
    qed (use ok' in \<open>simp add: table_ok_def\<close>)
  qed
qed

lemma load1lib_table_ok:
  "table_ok st \<Longrightarrow> load1lib n nbno noff st = Inr st' \<Longrightarrow> table_ok st'"
proof (induction n arbitrary: nbno noff st)
  case (Suc n)
  obtain u where u: "dseek Text (sint nbno) (sint noff) (int SZ_archdr) st = Inr u"
    using Suc.prems(2) by (auto simp: error_simps)
  have ok: "table_ok u" using Suc.prems(1) core_eqD(1,2) [OF core_dseek [OF u]] table_ok_same by blast
  show ?case
  proof (cases "s_size (l_text u) \<le> 0")
    case True
    then show ?thesis using Suc.prems(2) u ok by (auto simp: table_ok_def split: if_splits)
  next
    case False
    note run = Suc.prems(2) [unfolded load1lib.simps u bindE.simps if_not_P [OF False]]
    obtain xs v where v: "mget SZ_archdr u = Inr (xs, v)" using run by (auto simp: error_simps)
    obtain b w where w: "load1 True (sint nbno) (sint noff + int SZ_archdr div 2) (v\<lparr>l_archdr := dec_archdr xs\<rparr>) = Inr (b, w)"
      using run v by (auto simp: error_simps)
    obtain x where x: "\<exists>ls. x = w\<lparr>l_liblist := ls\<rparr>" "\<exists>nb no. load1lib n nb no x = Inr st'"
    proof (cases b)
      case True
      then show ?thesis using run v w that by (auto simp: Let_def split: if_splits)
    next
      case False
      have "\<exists>ls. w = w\<lparr>l_liblist := ls\<rparr>" by (rule exI [of _ "l_liblist w"]) simp
      moreover have "\<exists>nb no. load1lib n nb no w = Inr st'" using False run v w by (auto simp: Let_def)
      ultimately show ?thesis by (rule that)
    qed
    have "table_ok (v\<lparr>l_archdr := dec_archdr xs\<rparr>)"
      using ok core_eqD(1,2) [OF core_mget [OF v]] by (simp add: table_ok_def)
    then have "table_ok w" using load1_table w by blast
    then have "table_ok x" using x(1) by (auto simp: table_ok_def)
    with x(2) show ?thesis using Suc.IH by blast
  qed
qed simp

lemma getfile_table:
  assumes "getfile files acp st = Inr (arc, st')"
  shows "l_symtab st' = l_symtab st" "l_hshtab st' = l_hshtab st"
proof -
  define g where "g f cp = st\<lparr>l_archdr := l_archdr st\<lparr>aname := (aname (l_archdr st))[0 := 0]\<rparr>, l_filname := Some cp,
    l_infil := f, l_pos := 0, l_page0 := l_page0 st\<lparr>p_bno := -1, nuser := 0\<rparr>,
    l_page1 := l_page1 st\<lparr>p_bno := -1, nuser := 0\<rparr>,
    l_text := l_text st\<lparr>s_pno := 2\<rparr>, l_reloc := l_reloc st\<lparr>s_pno := 2\<rparr>, l_fuser := 2\<rparr>" for f cp
  obtain f cp u x where u: "dseek Text 0 0 2 (g f cp) = Inr u" "v6_get Text u = Inr (x, st')"
    using assms by (auto simp: getfile_def Let_def g_def error_simps split: option.splits if_splits)
  show "l_symtab st' = l_symtab st" "l_hshtab st' = l_hshtab st"
    using core_eqD(1,2) [OF core_get [OF u(2)]] core_eqD(1,2) [OF core_dseek [OF u(1)]] by (simp_all add: g_def)
qed

lemma load1arg_table_ok:
  assumes "table_ok st" "load1arg files n acp st = Inr st'"
  shows "table_ok st'"
proof -
  obtain arc u where u: "getfile files acp st = Inr (arc, u)" using assms(2) by (auto simp: load1arg_def error_simps)
  have ok: "table_ok u" using getfile_table [OF u] assms(1) by (simp add: table_ok_def)
  show ?thesis
  proof (cases arc)
    case True
    then show ?thesis using assms(2) u load1lib_table_ok [OF ok] by (auto simp: load1arg_def)
  next
    case False
    then show ?thesis using assms(2) u load1_table [OF ok] by (fastforce simp: load1arg_def error_simps)
  qed
qed

lemma slookup_run:
  assumes "table_ok st"
  shows "\<exists>hp u. slookup s st = Inr (hp, u) \<and> hp < HSIZE \<and>
    u = st\<lparr>l_cursym := l_cursym st\<lparr>sname := cp8c s, stype := V_EXTERN + V_UNDEF, svalue := 0\<rparr>\<rparr>"
  using lookup_stops [of "st\<lparr>l_cursym := l_cursym st\<lparr>sname := cp8c s, stype := V_EXTERN + V_UNDEF, svalue := 0\<rparr>\<rparr>"] assms
  by (auto simp: slookup_def Let_def)

text \<open>\<open>*hp = symp; enter();\<close> of the option \<open>-u\<close>.\<close>

lemma undef_option:
  "bindE (enter (st\<lparr>l_hshtab := (l_hshtab st)[hp := Some (length (l_symtab st))]\<rparr>)) (\<lambda>(k, st). Inr st) = enter_at hp st"
  by (simp add: enter_def enter_at_def Let_def)

lemma set_flag_table: "set_flag c st = Some st' \<Longrightarrow> l_symtab st' = l_symtab st \<and> l_hshtab st' = l_hshtab st"
  by (auto simp: set_flag_def split: if_splits)

text \<open>What every step of the first pass keeps, the pass keeps.\<close>

definition undef_symbol :: "string \<Rightarrow> ld \<Rightarrow> ld_error + ld" where
  "undef_symbol s st =
     bindE (slookup (map of_char s) st) (\<lambda>(hp, st). if l_hshtab st ! hp = None then enter_at hp st else Inr st)"

lemma pass1_keeps:
  assumes name: "\<And>st. P st \<Longrightarrow> P (st\<lparr>l_filname := None\<rparr>)"
    and undef: "\<And>s st st'. P st \<Longrightarrow> undef_symbol s st = Inr st' \<Longrightarrow> P st'"
    and flag: "\<And>c st st'. P st \<Longrightarrow> set_flag c st = Some st' \<Longrightarrow> P st'"
    and arg: "\<And>acp st st'. P st \<Longrightarrow> load1arg files n acp st = Inr st' \<Longrightarrow> P st'"
  shows "P st \<Longrightarrow> pass1 files n args st = Inr st' \<Longrightarrow> P st'"
proof (induction args arbitrary: st rule: measure_induct_rule [of length])
  case (less all)
  note IH = less.IH and run = less.prems(2)
  show ?case
  proof (cases all)
    case (Cons ap args)
    define u where "u = st\<lparr>l_filname := None\<rparr>"
    have u: "P u" unfolding u_def by (rule name [OF less.prems(1)])
    show ?thesis
    proof (cases "take 1 ap = ''-'' \<and> arg_char ap = CHR ''u''")
      case True
      then obtain s args' where args: "args = s # args'" using run Cons by (cases args) (auto simp: Let_def)
      have "bindE (undef_symbol s u) (pass1 files n args') = Inr st'"
        using run Cons True args by (cases "slookup (map of_char s) u")
          (auto simp: Let_def undef_option undef_symbol_def simp flip: u_def)
      then obtain w where "undef_symbol s u = Inr w" "pass1 files n args' w = Inr st'" by (auto simp: error_simps)
      then show ?thesis using IH [of args' w] undef [OF u] Cons args by simp
    next
      case no_u: False
      show ?thesis
      proof (cases "if take 1 ap = ''-'' then set_flag (arg_char ap) u else None")
        case None
        then obtain w where w: "load1arg files n ap u = Inr w" "pass1 files n args w = Inr st'"
          using run Cons no_u by (auto simp: Let_def error_simps simp flip: u_def)
        then show ?thesis using IH [of args w] Cons arg [OF u] by auto
      next
        case (Some w)
        then have "pass1 files n args w = Inr st'" using run Cons no_u by (auto simp: Let_def simp flip: u_def)
        moreover have "P w" using Some flag [OF u] by (auto split: if_splits)
        ultimately show ?thesis using IH [of args w] Cons by auto
      qed
    qed
  qed (use less.prems in simp)
qed

lemma undef_symbol_table_ok:
  assumes "table_ok st" "undef_symbol s st = Inr st'"
  shows "table_ok st'"
proof -
  obtain hp v where v: "slookup (map of_char s) st = Inr (hp, v)" "hp < HSIZE" "table_ok v"
    using slookup_run [OF assms(1)] assms(1) by (metis cursym_simps(3))
  then show ?thesis
    using assms(2) table_ok_enter [OF v(3,2), of st'] by (auto simp: undef_symbol_def split: if_splits)
qed

lemma pass1_table_ok:
  assumes "table_ok st" "pass1 files n args st = Inr st'"
  shows "table_ok st'"
proof (rule pass1_keeps [where P = table_ok, OF _ _ _ _ assms])
  show "table_ok u" if "table_ok v" "set_flag c v = Some u" for c u v
    using that set_flag_table [of c v u] by (simp add: table_ok_def)
qed (auto simp: table_ok_def [of "_\<lparr>l_filname := None\<rparr>"] intro: undef_symbol_table_ok load1arg_table_ok,
     simp_all add: table_ok_def)

end
