(* ===== verification/V6_Pass2.thy ===== *)
theory V6_Pass2
  imports V6_Pass1
begin

text \<open>
  The addresses that the link editor assigns between its passes, and the fate of its temporary
  files: \<open>tcreat\<close> keeps the opened file to itself, so that the variable \<open>dout\<close> stays null to
  the end.
\<close>

section \<open>The common locations\<close>

definition is_common :: "symbol \<Rightarrow> bool" where
  "is_common y \<longleftrightarrow> stype y = V_EXTERN + V_UNDEF \<and> svalue y \<noteq> 0"

text \<open>The size of a common location, rounded up to whole words, and of the ones of a list.\<close>

definition common_size :: "symbol \<Rightarrow> nat" where
  "common_size y = (if is_common y then 2 * ((unat (svalue y) + 1) div 2) else 0)"

abbreviation common_total :: "symbol list \<Rightarrow> nat" where
  "common_total ys \<equiv> sum_list (map common_size ys)"

lemma unat_even_down: "unat (x AND NOT 1 :: u16) = 2 * (unat x div 2)"
proof -
  have "x AND NOT 1 = push_bit 1 (drop_bit 1 x)"
    by (rule bit_word_eqI) (simp only: bit_simps, auto simp: bit_simps)
  moreover have "unat x < 2 ^ LENGTH(16)" by (rule unsigned_less)
  then have "2 * (unat x div 2) < 2 ^ 16" by simp
  ultimately show ?thesis
    by (simp add: push_bit_eq_mult drop_bit_eq_div unat_word_ariths unat_div)
qed

lemma common_step:
  assumes "is_common y" "unat c + common_size y < 2 ^ 16"
  shows "unat (c + ((svalue y + 1) AND NOT 1)) = unat c + common_size y"
proof -
  have "unat (svalue y) + 1 \<le> 2 * ((unat (svalue y) + 1) div 2) + 1" by simp
  then have "unat (svalue y) + 1 < 2 ^ 16"
    using assms by (simp add: common_size_def) presburger
  then have "unat ((svalue y + 1) AND NOT 1) = common_size y"
    unfolding unat_even_down using assms(1) by (simp add: common_size_def unat_word_ariths)
  with assms(2) show ?thesis by (simp add: unat_word_ariths)
qed

text \<open>
  The common locations lie one behind the other, in the order of the table; the other symbols
  stay as they are. (\<open>sym_placed c ys zs\<close>: where \<open>c\<close> is the address of the first location.)
\<close>

definition placed :: "nat \<Rightarrow> symbol list \<Rightarrow> symbol list \<Rightarrow> bool" where
  "placed c ys zs \<longleftrightarrow> length zs = length ys \<and>
     (\<forall>k < length ys. if is_common (ys ! k)
        then stype (zs ! k) = V_EXTERN + V_COMM \<and> sname (zs ! k) = sname (ys ! k) \<and>
             unat (svalue (zs ! k)) = c + common_total (take k ys)
        else zs ! k = ys ! k)"

lemma common_loop_placed:
  "unat c + common_total ys < 2 ^ 16 \<Longrightarrow> common_loop ys c = (zs, c') \<Longrightarrow>
     placed (unat c) ys zs \<and> unat c' = unat c + common_total ys"
proof (induction ys arbitrary: c zs)
  case (Cons y ys)
  show ?case
  proof (cases "is_common y")
    case True
    let ?d = "c + ((svalue y + 1) AND NOT 1)"
    obtain us where us: "common_loop ys ?d = (us, c')" "zs = y\<lparr>svalue := c, stype := V_EXTERN + V_COMM\<rparr> # us"
      using Cons.prems(2) True by (auto simp: is_common_def Let_def split: prod.splits)
    have d: "unat ?d = unat c + common_size y" using Cons.prems(1) True by (intro common_step) simp_all
    then have "placed (unat ?d) ys us \<and> unat c' = unat ?d + common_total ys"
      using Cons.IH [OF _ us(1)] Cons.prems(1) by simp
    then show ?thesis
      using True d by (auto simp: placed_def us(2) nth_Cons split: nat.splits)
  next
    case False
    then obtain us where us: "common_loop ys c = (us, c')" "zs = y # us"
      using Cons.prems(2) by (auto simp: is_common_def split: prod.splits if_splits)
    have "common_size y = 0" using False by (simp add: common_size_def)
    then show ?thesis
      using Cons.IH [OF _ us(1)] Cons.prems(1) False by (auto simp: placed_def us(2) nth_Cons split: nat.splits)
  qed
qed (simp add: placed_def)

lemma common_total_take:
  assumes "i < j" "j \<le> length ys"
  shows "common_total (take i ys) + common_size (ys ! i) \<le> common_total (take j ys)"
proof -
  have "take j ys = take i ys @ ys ! i # drop (Suc i) (take j ys)"
    using assms id_take_nth_drop [of i "take j ys"] by simp
  then have "common_total (take j ys) = common_total (take i ys @ ys ! i # drop (Suc i) (take j ys))" by (rule arg_cong)
  then show ?thesis by (simp only: map_append sum_list.append list.map sum_list.Cons)
qed

section \<open>The assignment of addresses\<close>

lemma find_sym_run:
  assumes "table_ok st"
  shows "\<exists>p u. find_sym s st = Inr (p, u) \<and> table_ok u"
proof -
  obtain hp u where u: "slookup s st = Inr (hp, u)"
    "u = st\<lparr>l_cursym := l_cursym st\<lparr>sname := cp8c s, stype := V_EXTERN + V_UNDEF, svalue := 0\<rparr>\<rparr>"
    using slookup_run [OF assms, of s] by blast
  then show ?thesis using assms by (simp add: find_sym_def)
qed

lemma middle_run:
  assumes "table_ok st"
  shows "\<exists>st'. middle st = Inr st'"
proof -
  obtain p1 u1 where 1: "find_sym n_etext st = Inr (p1, u1)" "table_ok u1" using find_sym_run [OF assms] by blast
  obtain p2 u2 where 2: "find_sym n_edata u1 = Inr (p2, u2)" "table_ok u2" using find_sym_run [OF 1(2)] by blast
  obtain p3 u3 where 3: "find_sym n_end u2 = Inr (p3, u3)" using find_sym_run [OF 2(2)] by blast
  show ?thesis by (simp add: middle_def 1(1) 2(1) 3 Let_def split: prod.splits)
qed

section \<open>The data file\<close>

text \<open>
  The variable \<open>dout\<close> through the program. \<open>tcreat\<close> is called with its value, null, and
  opens the file for its own parameter only.
\<close>

named_theorems dout \<open>routines that leave the variable \<open>dout\<close> alone\<close>

lemma dout_core [dout]: "core st' = core st \<Longrightarrow> l_dout st' = l_dout st"
  by (rule core_eqD(4))

lemma dout_dseek [dout]: "dseek w ab off s st = Inr st' \<Longrightarrow> l_dout st' = l_dout st"
  by (intro dout_core core_dseek)

lemma dout_get [dout]: "v6_get w st = Inr (x, st') \<Longrightarrow> l_dout st' = l_dout st"
  by (intro dout_core core_get)

lemma dout_mget [dout]: "mget n st = Inr (x, st') \<Longrightarrow> l_dout st' = l_dout st"
  by (intro dout_core core_mget)

lemma dout_readhdr [dout]: "readhdr bno off st = Inr st' \<Longrightarrow> l_dout st' = l_dout st"
  by (auto simp: readhdr_def Let_def error_simps dest!: dout_dseek dout_mget split: if_splits)

lemma dout_getfile [dout]: "getfile files acp st = Inr (x, st') \<Longrightarrow> l_dout st' = l_dout st"
  by (auto simp: getfile_def Let_def error_simps dest!: dout_dseek dout_get split: option.splits if_splits)

lemma dout_load1_sym [dout]: "load1_sym l d c st = Inr (l', d', c', st') \<Longrightarrow> l_dout st' = l_dout st"
  by (auto dest: load1_sym_streams)

lemma dout_load1_syms [dout]: "load1_syms n l d c st = Inr (l', d', c', st') \<Longrightarrow> l_dout st' = l_dout st"
  by (induction n arbitrary: l d c st)
    (fastforce simp: error_simps dest!: dout_mget dout_load1_sym split: if_splits)+

lemma dout_error0 [simp]: "l_dout (error0 msg st) = l_dout st" "l_dout (ld_printf x st) = l_dout st"
  by (simp_all add: error0_def ld_printf_def Let_def split: option.split)

lemma dout_rip_out [simp]: "l_dout (rip_out n ls st) = l_dout st"
  by (simp add: rip_out_def)

lemma dout_load1 [dout]: "load1 f bno off st = Inr (b, st') \<Longrightarrow> l_dout st' = l_dout st"
  by (fastforce simp: load1_def Let_def error_simps dest!: dout_readhdr dout_dseek dout_load1_syms
      split: if_splits simp del: load1_syms.simps)

lemma dout_load1lib [dout]: "load1lib n nbno noff st = Inr st' \<Longrightarrow> l_dout st' = l_dout st"
proof (induction n arbitrary: nbno noff st)
  case (Suc n)
  then show ?case
    by (fastforce simp: error_simps Let_def dest!: dout_dseek dout_mget dout_load1 split: if_splits)
qed simp

lemma dout_load1arg [dout]: "load1arg files n acp st = Inr st' \<Longrightarrow> l_dout st' = l_dout st"
  by (auto simp: load1arg_def error_simps dest!: dout_getfile dout_load1lib dout_load1 split: if_splits)

lemma dout_slookup [dout]: "slookup s st = Inr (hp, st') \<Longrightarrow> l_dout st' = l_dout st"
  by (auto simp: slookup_def Let_def error_simps)

lemma dout_enter_at [dout]: "enter_at hp st = Inr st' \<Longrightarrow> l_dout st' = l_dout st"
  by (auto simp: enter_at_eq split: if_splits)

lemma dout_set_flag [dout]: "set_flag c st = Some st' \<Longrightarrow> l_dout st' = l_dout st"
  by (auto simp: set_flag_def split: if_splits)

lemma dout_pass1:
  assumes "pass1 files n args st = Inr st'" "l_dout st = x"
  shows "l_dout st' = x"
proof (rule pass1_keeps [where P = "\<lambda>st. l_dout st = x", OF _ _ _ _ assms(2,1)])
  show "l_dout u = x" if "l_dout v = x" "undef_symbol s v = Inr u" for s u v
    using that by (auto simp: undef_symbol_def error_simps dest!: dout_slookup dout_enter_at split: if_splits)
qed (auto dest: dout_set_flag dout_load1arg)

lemma dout_middle: "middle st = Inr st' \<Longrightarrow> l_dout st' = l_dout st"
proof -
  have rep: "l_dout (report_undefined ys k u) = l_dout u" for ys k u
    by (induction ys arbitrary: k u) (simp_all add: Let_def)
  have find: "l_dout u = l_dout v" if "find_sym s v = Inr (p, u)" for s v p u
    using that by (auto simp: find_sym_def error_simps dest!: dout_slookup)
  assume run: "middle st = Inr st'"
  obtain p1 u1 where 1: "find_sym n_etext st = Inr (p1, u1)" using run by (auto simp: middle_def error_simps)
  obtain p2 u2 where 2: "find_sym n_edata u1 = Inr (p2, u2)" using run 1 by (auto simp: middle_def error_simps)
  obtain p3 u3 where 3: "find_sym n_end u2 = Inr (p3, u3)" using run 1 2 by (auto simp: middle_def error_simps)
  have "l_dout (projr (middle st)) = l_dout u3"
    by (simp add: middle_def 1 2 3 Let_def case_prod_beta rep if_distrib [of l_dout])
  then have "l_dout st' = l_dout u3" using run by simp
  then show ?thesis using find [OF 1] find [OF 2] find [OF 3] by simp
qed

lemma setupout_null: "setupout ok_out ok_temp st = Inr st' \<Longrightarrow> l_dout st' = l_dout st"
  by (auto simp: setupout_def tcreat_def Let_def error_simps split: if_splits)

text \<open>Nothing is written to a null pointer.\<close>

lemma load2td_null: "load2td n ls creloc b1 b2 st = Inr (b1', b2', st') \<Longrightarrow> b1 = None \<Longrightarrow> b1' = None"
  by (cases n) (auto simp: error_simps put16_def fput_def split: option.splits)

lemma dout_load2td [dout]: "load2td n ls creloc b1 b2 st = Inr (b1', b2', st') \<Longrightarrow> l_dout st' = l_dout st"
proof (induction n arbitrary: b1 b2 st)
  case (Suc n)
  have pick: "l_dout v = l_dout u" if "pick_up w u = Inr (x, v)" for w u x v
    using that by (intro dout_core core_pick_up)
  obtain t u where t: "pick_up Text st = Inr (t, u)" using Suc.prems by (auto simp: error_simps)
  show ?case
  proof (cases t)
    case (Some t')
    then obtain r v where r: "pick_up Reloc u = Inr (Some r, v)"
      using Suc.prems t by (auto simp: error_simps split: option.splits)
    obtain c1 c2 where "load2td n ls creloc c1 c2 v = Inr (b1', b2', st')"
      using Suc.prems t Some r by (auto simp: error_simps)
    from Suc.IH [OF this] show ?thesis using pick [OF t] pick [OF r] by simp
  qed (use Suc.prems t pick [OF t] in simp)
qed simp

lemma load2td_dout:
  "load2td n ls creloc b1 b2 st = Inr (b1', b2', st') \<Longrightarrow> l_dout st' = l_dout st \<and> (b1 = None \<longrightarrow> b1' = None)"
  using dout_load2td load2td_null by blast

lemma dout_symreloc [simp]: "l_dout (symreloc st) = l_dout st"
  by (simp add: symreloc_eq)

lemma dout_load2_sym [dout]:
  assumes "load2_sym k st = Inr st'"
  shows "l_dout st' = l_dout st"
proof (cases "stype (l_cursym (symreloc st)) AND V_EXTERN = 0")
  case True
  then show ?thesis using assms by (auto simp: load2_sym_def Let_def error_simps split: if_splits)
next
  case False
  obtain hp where hp: "v6_lookup (symreloc st) = Inr hp"
    using False assms by (auto simp: load2_sym_def Let_def error_simps)
  obtain k where "l_hshtab (symreloc st) ! hp = Some k"
    using False assms hp by (cases "l_hshtab (symreloc st) ! hp") (simp_all add: load2_sym_def Let_def)
  then show ?thesis using False assms hp by (simp add: load2_sym_def Let_def split: if_splits) auto
qed

lemma dout_load2_syms [dout]: "load2_syms n k st = Inr st' \<Longrightarrow> l_dout st' = l_dout st"
  by (induction n arbitrary: k st)
    (fastforce simp: error_simps dest!: dout_mget dout_load2_sym split: if_splits)+

lemma dout_mkfsym [dout]: "mkfsym s st = Inr st' \<Longrightarrow> l_dout st' = l_dout st"
  by (auto simp: mkfsym_def Let_def error_simps split: if_splits)

lemma load2_null: "load2 bno off st = Inr st' \<Longrightarrow> l_dout st = None \<Longrightarrow> l_dout st' = None"
  by (auto simp: load2_def Let_def error_simps simp del: load2td.simps load2_syms.simps
      dest!: dout_readhdr dout_dseek dout_load2_syms load2td_dout)

lemma load2lib_null: "load2lib ls st = Inr (ls', st') \<Longrightarrow> l_dout st = None \<Longrightarrow> l_dout st' = None"
proof (induction ls arbitrary: st)
  case (Cons l ls)
  obtain off bno where l: "l = (off, bno)" by (cases l)
  show ?case
  proof (cases "bno = -1")
    case False
    then obtain u xs v w x where "dseek Text bno (sint off) (int SZ_archdr) st = Inr u" "mget SZ_archdr u = Inr (xs, v)"
      "mkfsym (aname (dec_archdr xs)) (v\<lparr>l_archdr := dec_archdr xs\<rparr>) = Inr w"
      "load2 bno (sint off + int SZ_archdr div 2) w = Inr x" "load2lib ls x = Inr (ls', st')"
      using Cons.prems(1) l by (auto simp: error_simps)
    then show ?thesis
      using Cons.IH [of x] Cons.prems(2) load2_null [of _ _ w x]
      by (auto dest!: dout_dseek dout_mget dout_mkfsym)
  qed (use Cons.prems l in simp)
qed simp

lemma load2arg_null: "load2arg files acp st = Inr st' \<Longrightarrow> l_dout st = None \<Longrightarrow> l_dout st' = None"
  by (auto simp: load2arg_def error_simps dest!: dout_getfile dout_mkfsym dest: load2_null load2lib_null split: if_splits)

lemma pass2_null: "pass2 files args st = Inr st' \<Longrightarrow> l_dout st = None \<Longrightarrow> l_dout st' = None"
proof (induction files args st rule: pass2.induct)
  case (2 files ap args st)
  show ?case
  proof (cases "take 1 ap = ''-'' \<and> arg_char ap \<noteq> CHR ''l''")
    case True
    then show ?thesis using 2 by simp
  next
    case False
    then obtain u where "load2arg files ap st = Inr u" "pass2 files args u = Inr st'"
      using "2.prems" by (auto simp: error_simps)
    then show ?thesis using 2(2) False "2.prems"(2) load2arg_null by blast
  qed
qed simp

lemma finishout_null: "l_dout st = None \<Longrightarrow> finishout st \<noteq> Inr st'"
  by (auto simp: finishout_def copy_temp_def error_simps)

lemma ld_main_null: "ld_main files ok_out ok_temp n args \<noteq> Inr st"
proof
  assume run: "ld_main files ok_out ok_temp n args = Inr st"
  then obtain s1 s2 s3 s4 where r: "pass1 files n args ld_init = Inr s1" "middle s1 = Inr s2"
    "setupout ok_out ok_temp s2 = Inr s3" "pass2 files args s3 = Inr s4" "finishout s4 = Inr st"
    by (auto simp: ld_main_def error_simps split: if_splits)
  have "l_dout ld_init = None" by (simp add: ld_init_def)
  then have "l_dout s3 = None"
    using dout_pass1 [OF r(1)] dout_middle [OF r(2)] setupout_null [OF r(3)] by simp
  then have "l_dout s4 = None" by (rule pass2_null [OF r(4)])
  then show False using finishout_null r(5) by blast
qed

end
