(* ===== verification/V6_Props.thy ===== *)
theory V6_Props
  imports V6_Pass2
begin

text \<open>
  The properties of the link editor \<open>v6/ld.c\<close>, each followed by an instance on a concrete
  input.
\<close>

section \<open>Sample states\<close>

text \<open>The state in which an input file has just been opened.\<close>

definition opened :: "bytes \<Rightarrow> ld" where
  "opened f = ld_init\<lparr>l_infil := f, l_page0 := empty_page\<lparr>p_bno := -1\<rparr>, l_page1 := empty_page\<lparr>p_bno := -1\<rparr>\<rparr>"

lemma cache_opened: "cache_inv (opened f)"
  by (simp add: cache_inv_def opened_def ld_init_def empty_page_def empty_stream_def page_ok_def users_on_def)

lemma infil_opened [simp]: "l_infil (opened f) = f"
  by (simp add: opened_def)

lemma tables_opened [simp]: "l_symtab (opened f) = []" "moves (opened f) = (0, 0, 0)" "l_ctrel (opened f) = 0"
  "l_rflag (opened f) = False"
  by (simp_all add: opened_def ld_init_def moves_def)

lemma sym_inv_opened: "sym_inv (opened f)"
  by (rule sym_inv_same [THEN iffD2, OF _ _ sym_inv_init]) (simp_all add: opened_def)

lemma table_ok_opened: "table_ok (opened f)"
  using sym_inv_opened by (simp add: sym_inv_def)

lemma sym_env_opened: "sym_env (opened f) s = None"
  by (simp add: sym_env_def dict_def)

section \<open>Reading\<close>

text \<open>
  C13. The page cache implements reading the file: a stream that has words left delivers the
  word of the file at its position and moves on by one, also where that needs another page, and
  the other stream stays at its position. The two copies of the reading code that the link editor has for speed
  do what \<open>get\<close> does: \<open>mget\<close> is the loop of calls of \<open>get\<close>, and the code in \<open>load2td\<close> is a call
  of \<open>get\<close>, but that it takes the end of the stream for an answer.
\<close>

theorem get_delivers_word:
  "(stream_at w p (Suc n) st \<longrightarrow> 2 * p + 2 \<le> length (l_infil st) \<longrightarrow> length (l_infil st) < 2 ^ 24 \<longrightarrow>
      (\<exists>st'. v6_get w st = Inr (file_word (l_infil st) p, st') \<and> stream_at w (p + 1) n st' \<and>
        (\<forall>q m. stream_at (other w) q m st \<longrightarrow> stream_at (other w) q m st'))) \<and>
   mget an st = get_words Text (an div 2) st \<and>
   pick_up w st =
     (if s_size (strm w st) \<le> 0 then Inr (None, set_strm w (strm w st\<lparr>s_size := s_size (strm w st) - 1\<rparr>) st)
      else bindE (v6_get w st) (\<lambda>(x, st). Inr (Some x, st)))"
  by (intro conjI impI get_at mget_words pick_up_get)

theorem get_delivers_word_witness:
  "\<exists>st st'. stream_at Text 1 1 st \<and> v6_get Text st = Inr (0x0403, st') \<and> stream_at Text (1 + 1) 0 st'"
proof -
  obtain st where st: "dseek Text 0 1 2 (opened [1, 2, 3, 4]) = Inr st" "stream_at Text 1 1 st"
    using dseek_at [OF cache_opened, of 0 1 2 Text "[1, 2, 3, 4]"] by auto
  have f: "l_infil st = [1, 2, 3, 4]" using core_eqD(3) [OF core_dseek [OF st(1)]] by simp
  have "file_word [1, 2, 3, 4] 1 = 0x0403" by (simp add: file_word_def get2_def uget2_def)
  then obtain st' where "v6_get Text st = Inr (0x0403, st')" "stream_at Text (1 + 1) 0 st'"
    using get_delivers_word [of Text 1 0 st 0] st(2) f by auto
  with st(2) show ?thesis by blast
qed

text \<open>
  C14. A seek never fails for lack of a page, and positions the stream on the word it asks for;
  behind the end of the file the stream is empty. The other stream is not disturbed.
\<close>

theorem dseek_positions:
  assumes "cache_inv st" "0 \<le> ab" "0 \<le> off" "off < 2 ^ 16" "ab + off div 256 < 2 ^ 15" "0 \<le> s" "s < 2 ^ 16"
  shows "\<exists>st'. dseek w ab off s st = Inr st' \<and>
    stream_at w (nat (256 * ab + off)) (if int (length (l_infil st) div 2) \<le> 256 * ab + off then 0 else nat (s div 2)) st' \<and>
    (\<forall>q m. stream_at (other w) q m st \<longrightarrow> stream_at (other w) q m st')"
  by (rule dseek_at [OF assms])

theorem dseek_positions_witness: "\<exists>st'. dseek Reloc 0 1 2 (opened [1, 2, 3, 4]) = Inr st' \<and> stream_at Reloc 1 1 st'"
  using dseek_positions [OF cache_opened, of 0 1 2 Reloc "[1, 2, 3, 4]"] by auto

section \<open>The symbol table\<close>

text \<open>
  C15. A search in the symbol table ends, and yields the slot of the entry that has the name, or
  an empty slot if none has it. Entering the name there extends the map that the table stands
  for by exactly this name, and keeps the invariant.
\<close>

theorem lookup_enter_map:
  assumes "sym_inv st" "cp8c (sname (l_cursym st)) = sname (l_cursym st)" "length (l_symtab st) < NSYM"
  shows "\<exists>hp. v6_lookup st = Inr hp \<and> l_hshtab st ! hp = dict st (sname (l_cursym st)) \<and>
    (dict st (sname (l_cursym st)) = None \<longrightarrow>
       (\<exists>st'. enter_at hp st = Inr st' \<and> sym_inv st' \<and> dict st' = (dict st)(sname (l_cursym st) \<mapsto> length (l_symtab st))))"
proof -
  obtain hp where hp: "v6_lookup st = Inr hp" "l_hshtab st ! hp = dict st (sname (l_cursym st))"
    using lookup_dict [OF assms(1)] by blast
  obtain st' where "enter_at hp st = Inr st'" using assms(3) by (simp add: enter_at_eq)
  with hp enter_at_dict [OF assms(1,2) hp(1)] show ?thesis by auto
qed

definition sample_sym :: symbol where
  "sample_sym = \<lparr>sname = [0x5f, 0x61, 0, 0, 0, 0, 0, 0], stype = V_EXTERN + V_TEXT, spad = 0, svalue = 4\<rparr>"

lemma cp8c_sample: "cp8c (sname sample_sym) = sname sample_sym"
  by code_simp

theorem lookup_enter_map_witness:
  "\<exists>hp st'. v6_lookup ((opened [])\<lparr>l_cursym := sample_sym\<rparr>) = Inr hp \<and>
     enter_at hp ((opened [])\<lparr>l_cursym := sample_sym\<rparr>) = Inr st' \<and> dict st' (sname sample_sym) = Some 0"
  using lookup_enter_map [of "(opened [])\<lparr>l_cursym := sample_sym\<rparr>"] cp8c_sample sym_inv_opened [of "[]"]
  by (force simp: NSYM_def dict_def)

text \<open>
  C16. The loop over the symbols of a module ends, and resolves every name by itself: the entry
  that a name has afterwards is the one it had before, resolved against the external symbols of
  the module that have this name, in their order.
\<close>

theorem load1_syms_resolve:
  assumes "stream_at Text p (6 * n) st" "2 * (p + 6 * n) \<le> length (l_infil st)" "length (l_infil st) < 2 ^ 24"
    "n < m" "sym_inv st" "\<forall>y \<in> set (syms_at (l_infil st) p n). plain_name y"
    "length (l_symtab st) + n \<le> NSYM" "n \<le> NSYMPR"
  shows "\<exists>l d c st'. load1_syms m [] 0 c0 st = Inr (l, d, c, st') \<and> sym_inv st' \<and>
    (\<forall>s. sym_env st' s =
       fold (\<lambda>y v. Some (resolve v (moved (moves st) y)))
         (filter (\<lambda>y. external y \<and> sname y = s) (syms_at (l_infil st) p n)) (sym_env st s))"
proof -
  obtain l d c st' where run: "load1_syms m [] 0 c0 st = Inr (l, d, c, st')"
    using load1_syms_progress [OF assms(1-7), of "[]" 0 c0] assms(8) by auto
  note e = load1_syms_env [OF assms(1-4) run assms(5,6)]
  show ?thesis using run e by (auto simp: sy.merged_def)
qed

definition sample_syms :: bytes where
  "sample_syms = [0x5f, 0x61, 0, 0, 0, 0, 0, 0, 0x22, 0, 4, 0]"

lemma sample_syms_at: "syms_at sample_syms 0 1 = [sample_sym]"
  by (simp add: syms_at_def sample_syms_def sample_sym_def words_from_def upt_rec file_word_def get2_def uget2_def
      dec_symbol_def words_bytes_def word_bytes_def V_EXTERN_def V_TEXT_def)

theorem load1_syms_resolve_witness:
  "\<exists>st l d c st'. load1_syms 2 [] 0 12 st = Inr (l, d, c, st') \<and> sym_env st' (sname sample_sym) = Some sample_sym"
proof -
  obtain st where st: "dseek Text 0 0 12 (opened sample_syms) = Inr st" "stream_at Text 0 6 st"
    using dseek_at [OF cache_opened, of 0 0 12 Text sample_syms] by (auto simp: sample_syms_def)
  note core = core_dseek [OF st(1)]
  have f: "l_infil st = sample_syms" "l_symtab st = []" using core_eqD(1,3) [OF core] by simp_all
  have inv: "sym_inv st" "moves st = (0, 0, 0)" "sym_env st s = None" for s
    using core sym_inv_opened sym_env_opened by (metis sym_inv_core(1), metis core_fields(5) tables_opened(2), metis sym_inv_core(2))
  have res: "resolve None (moved (0, 0, 0) sample_sym) = sample_sym"
    by (simp add: resolve_def moved_def cp8c_sample) (simp add: sample_sym_def)
  have "external sample_sym" by (simp add: external_def sample_sym_def V_EXTERN_def V_TEXT_def)
  then show ?thesis
    using load1_syms_resolve [of 0 1 st 2 12] st(2) f inv sample_syms_at cp8c_sample res
    by (fastforce simp: plain_name_def NSYM_def NSYMPR_def sample_syms_def)
qed

text \<open>
  C17. Whatever the files and the options are, the first pass leaves the symbol table in a state
  in which every search ends at a slot of the table, so that the assignment of addresses, which
  looks up the names it defines, always succeeds.
\<close>

theorem pass1_table:
  assumes "pass1 files n args ld_init = Inr st"
  shows "table_ok st \<and> (\<exists>hp < NSYM + 2. v6_lookup (st\<lparr>l_cursym := y\<rparr>) = Inr hp) \<and> (\<exists>st'. middle st = Inr st')"
proof (intro conjI)
  show ok: "table_ok st" by (rule pass1_table_ok [OF table_ok_init assms])
  show "\<exists>hp < NSYM + 2. v6_lookup (st\<lparr>l_cursym := y\<rparr>) = Inr hp"
  proof -
    obtain i where "v6_lookup (st\<lparr>l_cursym := y\<rparr>) = Inr (slot (sname y) i)"
      using lookup_stops [of "st\<lparr>l_cursym := y\<rparr>"] ok by auto
    with slot_less [of "sname y" i] show ?thesis unfolding HSIZE_def by blast
  qed
  show "\<exists>st'. middle st = Inr st'" by (rule middle_run [OF ok])
qed

theorem pass1_table_witness: "\<exists>st st'. pass1 (\<lambda>f. None) 0 [''-r''] ld_init = Inr st \<and> middle st = Inr st'"
proof -
  have "pass1 (\<lambda>f. None) 0 [''-r''] ld_init =
      Inr (ld_init\<lparr>l_filname := None\<rparr>\<lparr>l_rflag := True, l_arflag := True\<rparr>)"
    by (simp add: Let_def arg_char_def set_flag_def)
  with pass1_table [OF this] show ?thesis by blast
qed

text \<open>
  C18. A library member that is not loaded leaves the symbol table as it was: its own symbols are
  taken out of the hash table again, and of the old entries only the size of a symbol that is
  still undefined may have grown.
\<close>

theorem load1_unneeded:
  assumes "table_ok st" "load1 True bno off st = Inr (False, st')"
  shows "table_ok st' \<and> l_hshtab st' = l_hshtab st \<and>
    list_all2 (\<lambda>y z. z = y \<or> stype y = V_EXTERN + V_UNDEF \<and> z = y\<lparr>svalue := svalue z\<rparr> \<and>
       sint (svalue y) < sint (svalue z)) (l_symtab st) (l_symtab st')"
  using load1_table [OF assms] unfolding kept_sym_def by simp_all

definition sample_header :: bytes where
  "sample_header = [7, 1, 0, 0, 0, 0, 0, 0, 0, 0, 0, 0, 0, 0, 0, 0]"

theorem load1_unneeded_witness:
  "\<exists>st'. load1 True 0 0 (opened sample_header) = Inr (False, st') \<and> l_hshtab st' = l_hshtab (opened sample_header)"
proof -
  let ?f = sample_header
  have f: "length ?f = 16" by (simp add: sample_header_def)
  obtain u where u: "dseek Text 0 0 16 (opened ?f) = Inr u" "stream_at Text 0 8 u"
    using dseek_at [OF cache_opened, of 0 0 16 Text ?f] f by auto
  have fu: "l_infil u = ?f" using core_eqD(3) [OF core_dseek [OF u(1)]] by simp
  obtain v where v: "mget 16 u = Inr (words_from ?f 0 8, v)" "stream_at Text (0 + 8) 0 v"
    using mget_at [OF u(2), of 16] fu f by auto
  have h: "dec_filhdr (words_from ?f 0 8) = \<lparr>f_magic = FMAGIC, f_tsize = 0, f_dsize = 0, f_bsize = 0, f_ssize = 0,
      f_entry = 0, f_pad = 0, f_relflg = 0\<rparr>"
    by (simp add: dec_filhdr_def words_from_def upt_rec file_word_def get2_def uget2_def FMAGIC_def sample_header_def)
  define w where "w = v\<lparr>l_filhdr := dec_filhdr (words_from ?f 0 8), l_ctrel := l_tsize v, l_cdrel := l_dsize v, l_cbrel := l_bsize v\<rparr>"
  have "cache_inv v" using v(2) by (simp add: stream_at_def)
  then have w: "cache_inv w" "l_infil w = ?f"
    using core_eqD(3) [OF core_mget [OF v(1)]] fu
    by (simp_all add: w_def cache_inv_def page_ok_def users_on_def)
  obtain x where x: "dseek Text 0 8 0 w = Inr x" "stream_at Text 8 0 x"
    using dseek_at [OF w(1), of 0 8 0 Text] w(2) f by auto
  have "s_size (l_text x) = 0" using x(2) by (simp add: stream_at_def strm_Text)
  then have "load1 True 0 0 (opened ?f) = Inr (False, rip_out (length (l_symtab v)) [] x)"
    using u(1) v(1) x(1) by (simp add: load1_def readhdr_def SZ_filhdr_def h w_def Let_def)
  with load1_unneeded [OF table_ok_opened this] show ?thesis by blast
qed

section \<open>Relocation and addresses\<close>

text \<open>
  C19. The loop over a segment writes every word of it relocated by its relocation word, in
  order, and with \<open>-r\<close> the new relocation words too; it ends with the last word, whatever pages
  the two streams lie on.
\<close>

theorem load2td_relocates:
  assumes "stream_at Text p n st" "stream_at Reloc q n st" "2 * (p + n) \<le> length (l_infil st)"
    "2 * (q + n) \<le> length (l_infil st)" "length (l_infil st) < 2 ^ 24"
    "reloc_words ls creloc st (zip (words_from (l_infil st) p n) (words_from (l_infil st) q n)) = Inr ys"
    "l_rflag st \<Longrightarrow> b2 \<noteq> None"
  shows "\<exists>st'. load2td (n + 1) ls creloc (Some b1) b2 st =
    Inr (Some (b1 @ words_bytes (map fst ys)),
         map_option (\<lambda>c. c @ (if l_rflag st then words_bytes (map snd ys) else [])) b2, st') \<and>
    l_symtab st' = l_symtab st"
  using load2td_at [OF assms, of b1] core_eqD(1) by blast

theorem load2td_relocates_witness:
  "\<exists>st st'. load2td (1 + 1) [] 1 (Some []) None st = Inr (Some [0x33, 0x12], None, st')"
proof -
  let ?f = "[0x34, 0x12, 3, 0] :: bytes"
  obtain u where u: "dseek Text 0 0 2 (opened ?f) = Inr u" "stream_at Text 0 1 u"
    using dseek_at [OF cache_opened, of 0 0 2 Text ?f] by auto
  have fu: "l_infil u = ?f" "cache_inv u" using core_eqD(3) [OF core_dseek [OF u(1)]] u(2) by (simp_all add: stream_at_def)
  obtain v where v: "dseek Reloc 0 1 2 u = Inr v" "stream_at Reloc 1 1 v" "stream_at Text 0 1 v"
    using dseek_at [OF fu(2), of 0 1 2 Reloc] u(2) fu(1) by auto
  note c = core_eqD [OF core_dseek [OF v(1)]] core_eqD [OF core_dseek [OF u(1)]]
  have w: "words_from ?f 0 1 = [0x1234]" "words_from ?f 1 1 = [3]"
    by (simp_all add: words_from_def file_word_def get2_def uget2_def)
  have "l_rflag v = False" "l_ctrel v = 0" "l_infil v = ?f" using c by simp_all
  moreover have "reloc_words [] 1 v (zip [0x1234] [3]) = Inr [(0x1233, 3)]"
    using calculation(2) by (simp add: reloc_word_def RTEXT_def)
  moreover have "[] @ words_bytes (map fst [(0x1233, 3 :: u16)]) = [0x33, 0x12]"
    by (simp add: words_bytes_def word_bytes_def)
  ultimately show ?thesis
    using load2td_relocates [OF v(3,2), of "[]" 1 "[(0x1233, 3)]" None "[]"] w
    by (simp del: load2td.simps) blast
qed

text \<open>
  C20. The common locations are assigned one behind the other without overlapping: each symbol
  gets the address behind the sizes of the common symbols before it, rounded up to whole words,
  all lie below the size that the loop yields, and no other symbol is touched.
\<close>

theorem common_areas:
  assumes "common_total ys < 2 ^ 16" "common_loop ys 0 = (zs, c)"
  shows "length zs = length ys \<and> unat c = common_total ys \<and>
    (\<forall>k < length ys. \<not> is_common (ys ! k) \<longrightarrow> zs ! k = ys ! k) \<and>
    (\<forall>i < length ys. is_common (ys ! i) \<longrightarrow> even (unat (svalue (zs ! i))) \<and>
       unat (svalue (zs ! i)) + unat (svalue (ys ! i)) \<le> unat c \<and>
       (\<forall>j < length ys. i < j \<and> is_common (ys ! j) \<longrightarrow>
          unat (svalue (zs ! i)) + unat (svalue (ys ! i)) \<le> unat (svalue (zs ! j))))"
proof -
  have pl: "placed 0 ys zs" and c: "unat c = common_total ys"
    using common_loop_placed [of 0 ys zs c] assms by simp_all
  have le: "unat (svalue y) \<le> common_size y" if "is_common y" for y using that by (simp add: common_size_def)
  have ev: "even (common_total xs)" for xs by (induction xs) (simp_all add: common_size_def)
  have addr: "unat (svalue (zs ! i)) = common_total (take i ys)" if "i < length ys" "is_common (ys ! i)" for i
    using pl that by (simp add: placed_def)
  have below: "unat (svalue (zs ! i)) + unat (svalue (ys ! i)) \<le> common_total (take j ys)"
    if "i < length ys" "is_common (ys ! i)" "i < j" "j \<le> length ys" for i j
    using common_total_take [OF that(3,4)] le [OF that(2)] addr [OF that(1,2)] by simp
  show ?thesis
    using pl c ev below [of _ "length ys"] below addr by (auto simp: placed_def)
qed

definition sample_common :: "symbol list" where
  "sample_common = [sample_sym\<lparr>stype := V_EXTERN + V_UNDEF, svalue := 3\<rparr>, sample_sym\<lparr>stype := V_EXTERN + V_UNDEF, svalue := 2\<rparr>]"

theorem common_areas_witness: "\<exists>zs c. common_loop sample_common 0 = (zs, c) \<and> unat c = 6"
proof -
  obtain zs c where run: "common_loop sample_common 0 = (zs, c)" by fastforce
  have tot: "common_total sample_common = 6"
    by (simp add: sample_common_def common_size_def is_common_def V_EXTERN_def V_UNDEF_def)
  from common_areas [OF _ run] run tot show ?thesis by simp
qed


end
