(* ===== verification/Emu_State.thy ===== *)
theory Emu_State
  imports Prelude
begin

text \<open>
  The virtual machine of the emulator \<open>7run/i8086\<close>: its registers, flags and memory
  (\<open>VM.h\<close>, \<open>VMBase.h\<close>, \<open>VM.cpp\<close>) and the operands of its instructions (\<open>Operand\<close>).

  The two memories are functions on the addresses of 16 bits. With \<open>v_shared\<close> the text is the
  data (\<open>data == text\<close>). An access beyond the 64 kilobytes of a memory, which the program makes
  where it adds to an address in an \<open>int\<close> or reads a word at the last byte, is an error. The
  values of an \<open>int\<close> are integers; a conversion to a narrower type is written out.
\<close>

section \<open>The machine\<close>

datatype vm_error =
  Out_of_memory        \<comment> \<open>an access beyond the array\<close>
| Divide_trap          \<comment> \<open>a division by zero, or with a quotient beyond the type\<close>
| Undefined_shift      \<comment> \<open>a shift by the width of \<open>int\<close> or more\<close>
| Uninitialised        \<comment> \<open>the address of an operand that has none\<close>
| Vm_loops             \<comment> \<open>more rounds than the bound that was given\<close>

type_synonym memory = "u16 \<Rightarrow> byte"

record vm =
  v_IP :: u16
  v_r :: "nat \<Rightarrow> u16"
  v_OF :: bool
  v_DF :: bool
  v_SF :: bool
  v_ZF :: bool
  v_AF :: bool
  v_PF :: bool
  v_CF :: bool
  v_start_sp :: u16
  v_text :: memory
  v_data :: memory
  v_shared :: bool
  v_brksize :: u16
  v_exited :: bool
  v_exitcode :: int

text \<open>The numbers of the registers (\<open>regs.h\<close>).\<close>

definition AX :: nat where "AX = 0"
definition CX :: nat where "CX = 1"
definition DX :: nat where "DX = 2"
definition BX :: nat where "BX = 3"
definition SP :: nat where "SP = 4"
definition BP :: nat where "BP = 5"
definition SI :: nat where "SI = 6"
definition DI :: nat where "DI = 7"
definition AL :: nat where "AL = 0"
definition CL :: nat where "CL = 1"
definition AH :: nat where "AH = 4"

lemmas reg_defs = AX_def CX_def DX_def BX_def SP_def BP_def SI_def DI_def AL_def CL_def AH_def

definition set_r :: "nat \<Rightarrow> u16 \<Rightarrow> vm \<Rightarrow> vm" where
  "set_r i x st = st\<lparr>v_r := (v_r st)(i := x)\<rparr>"

text \<open>The byte registers: the pointers \<open>r8\<close> into the array \<open>r\<close>, on a little-endian machine.\<close>

definition r8 :: "nat \<Rightarrow> vm \<Rightarrow> byte" where
  "r8 i st = (if i < 4 then ucast (v_r st i) else ucast (drop_bit 8 (v_r st (i - 4))))"

definition set_r8 :: "nat \<Rightarrow> byte \<Rightarrow> vm \<Rightarrow> vm" where
  "set_r8 i x st =
     (if i < 4 then set_r i ((v_r st i AND 0xff00) OR ucast x) st
      else set_r (i - 4) ((v_r st (i - 4) AND 0xff) OR push_bit 8 (ucast x)) st)"

text \<open>Conversions to the types of 8 and 16 bits.\<close>

definition sx :: "bool \<Rightarrow> int \<Rightarrow> int" where
  "sx w x = signed_take_bit (if w then 15 else 7) x"

definition ux :: "bool \<Rightarrow> int \<Rightarrow> int" where
  "ux w x = take_bit (if w then 16 else 8) x"

section \<open>Memory\<close>

definition mem8 :: "memory \<Rightarrow> int \<Rightarrow> vm_error + byte" where
  "mem8 mem i = (if 0 \<le> i \<and> i < 0x10000 then Inr (mem (word_of_int i)) else Inl Out_of_memory)"

text \<open>\<open>::read16(mem + i)\<close>, low byte first.\<close>

definition mem16 :: "memory \<Rightarrow> int \<Rightarrow> vm_error + u16" where
  "mem16 mem i = bindE (mem8 mem i) (\<lambda>a. bindE (mem8 mem (i + 1)) (\<lambda>b. Inr (ucast a OR push_bit 8 (ucast b))))"

definition text_mem :: "vm \<Rightarrow> memory" where
  "text_mem st = (if v_shared st then v_data st else v_text st)"

definition code8 :: "int \<Rightarrow> vm \<Rightarrow> vm_error + byte" where
  "code8 i st = mem8 (text_mem st) i"

definition code16 :: "int \<Rightarrow> vm \<Rightarrow> vm_error + u16" where
  "code16 i st = mem16 (text_mem st) i"

definition vm_read8 :: "int \<Rightarrow> vm \<Rightarrow> vm_error + byte" where
  "vm_read8 i st = mem8 (v_data st) i"

definition vm_read16 :: "u16 \<Rightarrow> vm \<Rightarrow> vm_error + u16" where
  "vm_read16 a st = mem16 (v_data st) (uint a)"

definition vm_write8 :: "u16 \<Rightarrow> byte \<Rightarrow> vm \<Rightarrow> vm" where
  "vm_write8 a x st = st\<lparr>v_data := (v_data st)(a := x)\<rparr>"

definition vm_write16 :: "u16 \<Rightarrow> u16 \<Rightarrow> vm \<Rightarrow> vm_error + vm" where
  "vm_write16 a x st =
     (if a = 0xffff then Inl Out_of_memory
      else Inr (vm_write8 (a + 1) (ucast (drop_bit 8 x)) (vm_write8 a (ucast x) st)))"

section \<open>Flags\<close>

definition ptable :: "byte \<Rightarrow> bool" where
  "ptable b = even (length (filter (bit b) [0, 1, 2, 3, 4, 5, 6, 7]))"

text \<open>\<open>setf8\<close> and \<open>setf16\<close>; they return the value they are given.\<close>

definition set_flags :: "bool \<Rightarrow> int \<Rightarrow> vm \<Rightarrow> vm" where
  "set_flags w value st =
     (let v = sx w value
      in st\<lparr>v_OF := value \<noteq> v, v_SF := v < 0, v_ZF := v = 0, v_PF := ptable (word_of_int value)\<rparr>)"

definition getf :: "vm \<Rightarrow> u16" where
  "getf st = 0xf002 OR push_bit 11 (of_bool (v_OF st)) OR push_bit 10 (of_bool (v_DF st)) OR
     push_bit 7 (of_bool (v_SF st)) OR push_bit 6 (of_bool (v_ZF st)) OR push_bit 4 (of_bool (v_AF st)) OR
     push_bit 2 (of_bool (v_PF st)) OR of_bool (v_CF st)"

definition setf :: "u16 \<Rightarrow> vm \<Rightarrow> vm" where
  "setf f st = st\<lparr>v_CF := f AND 0x001 \<noteq> 0, v_PF := f AND 0x004 \<noteq> 0, v_AF := f AND 0x010 \<noteq> 0,
     v_ZF := f AND 0x040 \<noteq> 0, v_SF := f AND 0x080 \<noteq> 0, v_DF := f AND 0x400 \<noteq> 0, v_OF := f AND 0x800 \<noteq> 0\<rparr>"

section \<open>Jumps and the stack\<close>

definition ip_add :: "int \<Rightarrow> vm \<Rightarrow> vm" where
  "ip_add n st = st\<lparr>v_IP := v_IP st + word_of_int n\<rparr>"

definition jumpif :: "byte \<Rightarrow> bool \<Rightarrow> vm \<Rightarrow> vm" where
  "jumpif offset c st = (if c then ip_add (2 + sint offset) st else ip_add 2 st)"

definition vm_push :: "u16 \<Rightarrow> vm \<Rightarrow> vm_error + vm" where
  "vm_push x st = (let st = set_r SP (v_r st SP - 2) st in vm_write16 (v_r st SP) x st)"

definition vm_pop :: "vm \<Rightarrow> vm_error + u16 \<times> vm" where
  "vm_pop st = bindE (vm_read16 (v_r st SP) st) (\<lambda>x. Inr (x, set_r SP (v_r st SP + 2) st))"

section \<open>Operands\<close>

datatype optype = Reg | SReg | Imm | Addr | Far | Ptr | ModRM nat

text \<open>
  \<open>o_addr\<close> is \<open>None\<close> where the constructor leaves it uninitialised. \<open>o_len\<close> and \<open>o_seg\<close> are set
  by the disassembler only.
\<close>

record operand =
  o_len :: int
  o_w :: bool
  o_type :: optype
  o_value :: int
  o_addr :: "u16 option"
  o_seg :: int

definition opr_addr :: "optype \<Rightarrow> int \<Rightarrow> vm \<Rightarrow> u16 option" where
  "opr_addr t v st = (case t of
     Ptr \<Rightarrow> Some (word_of_int v)
   | ModRM n \<Rightarrow> Some (word_of_int v +
       (if n = 0 then v_r st BX + v_r st SI
        else if n = 1 then v_r st BX + v_r st DI
        else if n = 2 then v_r st BP + v_r st SI
        else if n = 3 then v_r st BP + v_r st DI
        else if n = 4 then v_r st SI
        else if n = 5 then v_r st DI
        else if n = 6 then v_r st BP
        else v_r st BX))
   | _ \<Rightarrow> None)"

definition opr_set :: "optype \<Rightarrow> bool \<Rightarrow> int \<Rightarrow> vm \<Rightarrow> operand" where
  "opr_set t w v st = \<lparr>o_len = -1, o_w = w, o_type = t, o_value = v, o_addr = opr_addr t v st, o_seg = -1\<rparr>"

text \<open>The value of an operand, unsigned (\<open>u\<close>) and signed (\<open>operator *\<close>).\<close>

definition opr_u :: "operand \<Rightarrow> vm \<Rightarrow> vm_error + int" where
  "opr_u p st =
     (if o_type p = Reg then
        Inr (if o_w p then uint (v_r st (nat (o_value p))) else uint (r8 (nat (o_value p)) st))
      else if o_type p = Imm then Inr (o_value p)
      else case o_addr p of
        None \<Rightarrow> Inl Uninitialised
      | Some a \<Rightarrow>
          if o_w p then bindE (vm_read16 a st) (\<lambda>x. Inr (uint x)) else bindE (vm_read8 (uint a) st) (\<lambda>x. Inr (uint x)))"

definition opr_get :: "operand \<Rightarrow> vm \<Rightarrow> vm_error + int" where
  "opr_get p st = bindE (opr_u p st) (\<lambda>x. Inr (sx (o_w p) x))"

definition opr_assign :: "operand \<Rightarrow> int \<Rightarrow> vm \<Rightarrow> vm_error + vm" where
  "opr_assign p x st =
     (if o_type p = Reg then
        Inr (if o_w p then set_r (nat (o_value p)) (word_of_int x) st else set_r8 (nat (o_value p)) (word_of_int x) st)
      else case o_addr p of
        None \<Rightarrow> Inl Uninitialised
      | Some a \<Rightarrow> if o_w p then vm_write16 a (word_of_int x) st else Inr (vm_write8 a (word_of_int x) st))"

text \<open>\<open>modrm\<close>: the operand of the mode byte at \<open>p + 1\<close>, and the length of the instruction so far.\<close>

definition modrm :: "int \<Rightarrow> bool \<Rightarrow> vm \<Rightarrow> vm_error + operand \<times> int" where
  "modrm p w st =
     bindE (code8 (p + 1) st) (\<lambda>b.
       let m = drop_bit 6 b; rm = unat (b AND 7)
       in if m = 0 then
            if rm = 6 then bindE (code16 (p + 2) st) (\<lambda>a. Inr (opr_set Ptr w (uint a) st, 4))
            else Inr (opr_set (ModRM rm) w 0 st, 2)
          else if m = 1 then bindE (code8 (p + 2) st) (\<lambda>d. Inr (opr_set (ModRM rm) w (sint d) st, 3))
          else if m = 2 then bindE (code16 (p + 2) st) (\<lambda>d. Inr (opr_set (ModRM rm) w (sint d) st, 4))
          else Inr (opr_set Reg w (int rm) st, 2))"

text \<open>\<open>regrm\<close>: both operands, the first one being the destination.\<close>

definition reg_field :: "byte \<Rightarrow> nat" where
  "reg_field b = unat (drop_bit 3 b AND 7)"

definition regrm :: "int \<Rightarrow> bool \<Rightarrow> bool \<Rightarrow> vm \<Rightarrow> vm_error + operand \<times> operand \<times> int" where
  "regrm p dir w st =
     bindE (code8 (p + 1) st) (\<lambda>b.
     bindE (modrm p w st) (\<lambda>(m, len).
       let reg = opr_set Reg w (int (reg_field b)) st
       in Inr (if dir then (reg, m, len) else (m, reg, len))))"

definition aimm :: "bool \<Rightarrow> int \<Rightarrow> vm \<Rightarrow> vm_error + operand \<times> operand \<times> int" where
  "aimm w p st =
     bindE (if w then bindE (code16 p st) (\<lambda>x. Inr (uint x)) else bindE (code8 p st) (\<lambda>x. Inr (uint x))) (\<lambda>v.
       Inr (opr_set Reg w 0 st, opr_set Imm w v st, 2 + of_bool w))"

definition getopr :: "byte \<Rightarrow> int \<Rightarrow> vm \<Rightarrow> vm_error + operand \<times> operand \<times> int" where
  "getopr b p st = (if bit b 2 then aimm (bit b 0) (p + 1) st else regrm p (bit b 1) (bit b 0) st)"

end
