(* ===== verification/Emu_Run.thy ===== *)
theory Emu_Run
  imports Emu_State "HOL-Library.Signed_Division"
begin

text \<open>
  The interpreter of the emulator, \<open>7run/i8086/VM.inst.cpp\<close>: \<open>run1\<close> executes the instruction at
  \<open>IP\<close>. The cases of its \<open>switch\<close> are grouped by the opcode; a group yields whether the case
  returned (\<open>True\<close>) or fell out of the \<open>switch\<close> (\<open>False\<close>), where the instruction is reported as not
  implemented. In all groups \<open>p\<close> is the address of the opcode.
\<close>

section \<open>Arithmetic\<close>

text \<open>What the cases that are written with \<open>opr1\<close> and \<open>opr2\<close> have in common: both values.\<close>

definition both :: "operand \<Rightarrow> operand \<Rightarrow> vm \<Rightarrow> (int \<Rightarrow> int \<Rightarrow> int \<Rightarrow> vm_error + 'a) \<Rightarrow> vm_error + 'a" where
  "both o1 o2 st f = bindE (opr_get o1 st) (\<lambda>dst. bindE (opr_get o2 st) (\<lambda>src. bindE (opr_u o1 st) (\<lambda>u. f dst src u)))"

definition alu_add :: "operand \<Rightarrow> operand \<Rightarrow> vm \<Rightarrow> vm_error + vm" where
  "alu_add o1 o2 st = both o1 o2 st (\<lambda>dst src u.
     let val = dst + src;
         st = st\<lparr>v_AF := (dst AND 15) + (src AND 15) > 15, v_CF := u > ux (o_w o1) val\<rparr>
     in opr_assign o1 val (set_flags (o_w o1) val st))"

definition alu_adc :: "operand \<Rightarrow> operand \<Rightarrow> vm \<Rightarrow> vm_error + vm" where
  "alu_adc o1 o2 st = both o1 o2 st (\<lambda>dst src u.
     let c = of_bool (v_CF st); val = dst + src + c;
         st = st\<lparr>v_AF := (dst AND 15) + (src AND 15) + c > 15,
                 v_CF := u > ux (o_w o1) val \<or> v_CF st \<and> src + 1 = 0\<rparr>
     in opr_assign o1 val (set_flags (o_w o1) val st))"

definition alu_sbb :: "operand \<Rightarrow> operand \<Rightarrow> vm \<Rightarrow> vm_error + vm" where
  "alu_sbb o1 o2 st = both o1 o2 st (\<lambda>dst src u.
     let c = of_bool (v_CF st); val = dst - src - c;
         st = st\<lparr>v_AF := (dst AND 15) - (src AND 15) - c < 0,
                 v_CF := u < ux (o_w o1) (src + c) \<or> v_CF st \<and> src + 1 = 0\<rparr>
     in opr_assign o1 val (set_flags (o_w o1) val st))"

text \<open>\<open>cmp\<close> is \<open>sub\<close> without the store.\<close>

definition sub_flags :: "bool \<Rightarrow> int \<Rightarrow> int \<Rightarrow> int \<Rightarrow> vm \<Rightarrow> vm" where
  "sub_flags w dst src u st =
     set_flags w (dst - src) (st\<lparr>v_AF := (dst AND 15) - (src AND 15) < 0, v_CF := u < ux w src\<rparr>)"

definition alu_sub :: "operand \<Rightarrow> operand \<Rightarrow> vm \<Rightarrow> vm_error + vm" where
  "alu_sub o1 o2 st = both o1 o2 st (\<lambda>dst src u. opr_assign o1 (dst - src) (sub_flags (o_w o1) dst src u st))"

definition alu_cmp :: "operand \<Rightarrow> operand \<Rightarrow> vm \<Rightarrow> vm_error + vm" where
  "alu_cmp o1 o2 st = both o1 o2 st (\<lambda>dst src u. Inr (sub_flags (o_w o1) dst src u st))"

definition alu_logic :: "(int \<Rightarrow> int \<Rightarrow> int) \<Rightarrow> operand \<Rightarrow> operand \<Rightarrow> vm \<Rightarrow> vm_error + vm" where
  "alu_logic f o1 o2 st = both o1 o2 st (\<lambda>dst src u.
     opr_assign o1 (f dst src) (set_flags (o_w o1) (f dst src) (st\<lparr>v_CF := False\<rparr>)))"

definition alu_test :: "operand \<Rightarrow> operand \<Rightarrow> vm \<Rightarrow> vm_error + vm" where
  "alu_test o1 o2 st = both o1 o2 st (\<lambda>dst src u. Inr (set_flags (o_w o1) (dst AND src) (st\<lparr>v_CF := False\<rparr>)))"

definition alu :: "nat \<Rightarrow> operand \<Rightarrow> operand \<Rightarrow> vm \<Rightarrow> vm_error + vm" where
  "alu k o1 o2 st =
     (if k = 0 then alu_add o1 o2 st else if k = 1 then alu_logic (OR) o1 o2 st
      else if k = 2 then alu_adc o1 o2 st else if k = 3 then alu_sbb o1 o2 st
      else if k = 4 then alu_logic (AND) o1 o2 st else if k = 5 then alu_sub o1 o2 st
      else if k = 6 then alu_logic (XOR) o1 o2 st else alu_cmp o1 o2 st)"

text \<open>Decimal adjustment.\<close>

definition adjust_decimal :: "int \<Rightarrow> vm \<Rightarrow> vm" where
  "adjust_decimal s st =
     (let al = uint (r8 AL st);
          af = (al AND 15 > 9 \<or> v_AF st); cf = (al > 0x99 \<or> v_CF st);
          val = of_bool af * 6 + of_bool cf * 0x60;
          st = set_flags False (al + s * val) (st\<lparr>v_AF := af, v_CF := cf\<rparr>)
      in set_r8 AL (word_of_int (al + s * val)) st)"

definition adjust_ascii :: "byte \<Rightarrow> byte \<Rightarrow> vm \<Rightarrow> vm" where
  "adjust_ascii d h st =
     (let c = (uint (r8 AL st) AND 15 > 9 \<or> v_AF st);
          st = st\<lparr>v_AF := c, v_CF := c\<rparr>;
          st = (if c then set_r8 AH (r8 AH st + h) (set_r8 AL (r8 AL st + d) st) else st)
      in set_r8 AL (r8 AL st AND 15) st)"

text \<open>The groups below start with this: the step that returns.\<close>

definition ret_ok :: "vm_error + vm \<Rightarrow> vm_error + bool \<times> vm" where
  "ret_ok m = bindE m (\<lambda>st. Inr (True, st))"

text \<open>Opcodes below 0x40: the arithmetic on two operands and the adjustments.\<close>

definition run_arith :: "byte \<Rightarrow> int \<Rightarrow> vm \<Rightarrow> vm_error + bool \<times> vm" where
  "run_arith b p st =
     (if unat (b AND 7) < 6 then
        ret_ok (bindE (getopr b p st) (\<lambda>(o1, o2, len). alu (reg_field b) o1 o2 (ip_add len st)))
      else if b = 0x27 then Inr (True, adjust_decimal 1 (ip_add 1 st))
      else if b = 0x2f then Inr (True, adjust_decimal (-1) (ip_add 1 st))
      else if b = 0x37 then Inr (True, adjust_ascii 6 1 (ip_add 1 st))
      else if b = 0x3f then Inr (True, adjust_ascii (-6) (-1) (ip_add 1 st))
      else Inr (False, st))"

text \<open>\<open>inc\<close> and \<open>dec\<close>.\<close>

definition inc_flags :: "bool \<Rightarrow> int \<Rightarrow> vm \<Rightarrow> vm" where
  "inc_flags w val st = (set_flags w val st)\<lparr>v_AF := val AND 15 = 0\<rparr>"

definition dec_flags :: "bool \<Rightarrow> int \<Rightarrow> vm \<Rightarrow> vm" where
  "dec_flags w val st = (set_flags w val st)\<lparr>v_AF := val AND 15 = 15\<rparr>"

text \<open>0x40 .. 0x5f: \<open>inc\<close>, \<open>dec\<close>, \<open>push\<close>, \<open>pop\<close> of a register.\<close>

definition run_reg :: "byte \<Rightarrow> vm \<Rightarrow> vm_error + bool \<times> vm" where
  "run_reg b st =
     (let i = unat (b AND 7); st = ip_add 1 st; v = sint (v_r st i)
      in if b < 0x48 then Inr (True, set_r i (word_of_int (v + 1)) (inc_flags True (v + 1) st))
         else if b < 0x50 then Inr (True, set_r i (word_of_int (v - 1)) (dec_flags True (v - 1) st))
         else if b < 0x58 then
           (let st = set_r SP (v_r st SP - 2) st in ret_ok (vm_write16 (v_r st SP) (v_r st i) st))
         else ret_ok (bindE (vm_pop st) (\<lambda>(x, st). Inr (set_r i x st))))"

text \<open>0x70 .. 0x7f: the conditional jumps.\<close>

definition jump_cond :: "nat \<Rightarrow> vm \<Rightarrow> bool" where
  "jump_cond k st =
     (let c = (if k div 2 = 0 then v_OF st
               else if k div 2 = 1 then v_CF st
               else if k div 2 = 2 then v_ZF st
               else if k div 2 = 3 then v_CF st \<or> v_ZF st
               else if k div 2 = 4 then v_SF st
               else if k div 2 = 5 then v_PF st
               else if k div 2 = 6 then v_SF st \<noteq> v_OF st
               else v_ZF st \<or> v_SF st \<noteq> v_OF st)
      in if even k then c else \<not> c)"

definition run_jcc :: "byte \<Rightarrow> int \<Rightarrow> vm \<Rightarrow> vm_error + bool \<times> vm" where
  "run_jcc b p st = bindE (code8 (p + 1) st) (\<lambda>d. Inr (True, jumpif d (jump_cond (unat (b AND 15)) st) st))"

section \<open>Moves\<close>

text \<open>0x80 .. 0x83: arithmetic with an immediate operand.\<close>

definition run_alu_imm :: "byte \<Rightarrow> int \<Rightarrow> vm \<Rightarrow> vm_error + bool \<times> vm" where
  "run_alu_imm b p st =
     bindE (modrm p (bit b 0) st) (\<lambda>(o1, len).
       let st = ip_add len st
       in bindE (if b = 0x80 then bindE (code8 (uint (v_IP st)) st) (\<lambda>x. Inr (opr_set Imm False (uint x) st))
                 else if b = 0x81 then bindE (code16 (uint (v_IP st)) st) (\<lambda>x. Inr (opr_set Imm True (uint x) st))
                 else bindE (code8 (uint (v_IP st)) st) (\<lambda>x. Inr (opr_set Imm False (sint x) st))) (\<lambda>o2.
          let st = ip_add (1 + of_bool (o_w o2)) st
          in bindE (code8 (p + 1) st) (\<lambda>m. ret_ok (alu (reg_field m) o1 o2 st))))"

text \<open>0x80 .. 0x8f\<close>

definition run_80 :: "byte \<Rightarrow> int \<Rightarrow> vm \<Rightarrow> vm_error + bool \<times> vm" where
  "run_80 b p st =
     (if b = 0x80 \<or> b = 0x81 \<or> b = 0x83 then run_alu_imm b p st
      else if b = 0x84 \<or> b = 0x85 then
        ret_ok (bindE (regrm p False (bit b 0) st) (\<lambda>(o1, o2, len). alu_test o1 o2 (ip_add len st)))
      else if b = 0x86 \<or> b = 0x87 then
        ret_ok (bindE (regrm p False (bit b 0) st) (\<lambda>(o1, o2, len).
          let st = ip_add len st
          in bindE (opr_get o2 st) (\<lambda>val. bindE (opr_get o1 st) (\<lambda>x.
             bindE (opr_assign o2 x st) (opr_assign o1 val)))))
      else if 0x88 \<le> b \<and> b \<le> 0x8b then
        ret_ok (bindE (regrm p (bit b 1) (bit b 0) st) (\<lambda>(o1, o2, len).
          let st = ip_add len st in bindE (opr_get o2 st) (\<lambda>x. opr_assign o1 x st)))
      else if b = 0x8d then
        ret_ok (bindE (regrm p True True st) (\<lambda>(o1, o2, len).
          case o_addr o2 of None \<Rightarrow> Inl Uninitialised | Some a \<Rightarrow> opr_assign o1 (uint a) (ip_add len st)))
      else if b = 0x8f then
        ret_ok (bindE (modrm p True st) (\<lambda>(o1, len).
          bindE (vm_pop (ip_add len st)) (\<lambda>(x, st). opr_assign o1 (uint x) st)))
      else Inr (False, st))"

text \<open>0x90 .. 0x9f\<close>

definition run_90 :: "byte \<Rightarrow> vm \<Rightarrow> vm_error + bool \<times> vm" where
  "run_90 b st =
     (let st1 = ip_add 1 st
      in if b < 0x98 then
           (if b = 0x90 then Inr (True, st1)
            else let i = unat (b AND 7); val = v_r st1 AX in Inr (True, set_r i val (set_r AX (v_r st1 i) st1)))
         else if b = 0x98 then Inr (True, set_r AX (scast (r8 AL st1)) st1)
         else if b = 0x99 then Inr (True, set_r DX (if sint (v_r st1 AX) < 0 then 0xffff else 0) st1)
         else if b = 0x9c then ret_ok (vm_push (getf st1) st1)
         else if b = 0x9d then ret_ok (bindE (vm_pop st1) (\<lambda>(x, st). Inr (setf x st)))
         else if b = 0x9e then Inr (True, setf ((getf st1 AND 0xff00) OR ucast (r8 AH st1)) st1)
         else if b = 0x9f then Inr (True, set_r8 AH (ucast (getf st1)) st1)
         else Inr (False, st))"

section \<open>Strings\<close>

text \<open>
  \<open>do step while (rep && --CX && cont)\<close>. The bound is 65536 rounds; \<open>CX\<close> is not zero at the start.
\<close>

fun rep_loop :: "nat \<Rightarrow> byte \<Rightarrow> (vm \<Rightarrow> bool) \<Rightarrow> (vm \<Rightarrow> vm_error + vm) \<Rightarrow> vm \<Rightarrow> vm_error + vm" where
  "rep_loop 0 rep cont f st = Inl Vm_loops"
| "rep_loop (Suc n) rep cont f st =
     bindE (f st) (\<lambda>st.
       if rep = 0 then Inr st
       else let st = set_r CX (v_r st CX - 1) st
            in if v_r st CX \<noteq> 0 \<and> cont st then rep_loop n rep cont f st else Inr st)"

definition string_op :: "byte \<Rightarrow> (vm \<Rightarrow> bool) \<Rightarrow> (vm \<Rightarrow> vm_error + vm) \<Rightarrow> vm \<Rightarrow> vm_error + bool \<times> vm" where
  "string_op rep cont f st =
     (let st = ip_add 1 st
      in if rep \<noteq> 0 \<and> v_r st CX = 0 then Inr (True, st) else ret_ok (rep_loop 0x10000 rep cont f st))"

text \<open>An index register moves by \<open>k\<close> bytes, in the direction of \<open>DF\<close>.\<close>

definition step_index :: "nat \<Rightarrow> u16 \<Rightarrow> vm \<Rightarrow> vm" where
  "step_index i k st = set_r i (if v_DF st then v_r st i - k else v_r st i + k) st"

text \<open>\<open>repnz\<close> and \<open>repz\<close> go on while the values differ, or agree.\<close>

definition rep_cond :: "byte \<Rightarrow> vm \<Rightarrow> bool" where
  "rep_cond rep st \<longleftrightarrow> rep = 0xf2 \<and> \<not> v_ZF st \<or> rep = 0xf3 \<and> v_ZF st"

definition compare_flags :: "bool \<Rightarrow> int \<Rightarrow> int \<Rightarrow> vm \<Rightarrow> vm" where
  "compare_flags w dst src st =
     set_flags w (sx w dst - sx w src) (st\<lparr>v_AF := (dst AND 15) - (src AND 15) < 0, v_CF := dst < src\<rparr>)"

definition movs8 :: "vm \<Rightarrow> vm_error + vm" where
  "movs8 st = Inr (step_index DI 1 (step_index SI 1 (vm_write8 (v_r st DI) (v_data st (v_r st SI)) st)))"

definition movs16 :: "vm \<Rightarrow> vm_error + vm" where
  "movs16 st = bindE (vm_read16 (v_r st SI) st) (\<lambda>x. bindE (vm_write16 (v_r st DI) x st) (\<lambda>st.
     Inr (step_index DI 2 (step_index SI 2 st))))"

definition cmps8 :: "vm \<Rightarrow> vm_error + vm" where
  "cmps8 st = Inr (step_index DI 1 (step_index SI 1
     (compare_flags False (uint (v_data st (v_r st SI))) (uint (v_data st (v_r st DI))) st)))"

definition cmps16 :: "vm \<Rightarrow> vm_error + vm" where
  "cmps16 st = bindE (vm_read16 (v_r st SI) st) (\<lambda>x. bindE (vm_read16 (v_r st DI) st) (\<lambda>y.
     Inr (step_index DI 2 (step_index SI 2 (compare_flags True (uint x) (uint y) st)))))"

definition stos8 :: "vm \<Rightarrow> vm_error + vm" where
  "stos8 st = Inr (step_index DI 1 (vm_write8 (v_r st DI) (r8 AL st) st))"

definition stos16 :: "vm \<Rightarrow> vm_error + vm" where
  "stos16 st = bindE (vm_write16 (v_r st DI) (v_r st AX) st) (\<lambda>st. Inr (step_index DI 2 st))"

definition lods8 :: "vm \<Rightarrow> vm_error + vm" where
  "lods8 st = Inr (step_index SI 1 (set_r8 AL (v_data st (v_r st SI)) st))"

definition lods16 :: "vm \<Rightarrow> vm_error + vm" where
  "lods16 st = bindE (vm_read16 (v_r st SI) st) (\<lambda>x. Inr (step_index SI 2 (set_r AX x st)))"

definition scas8 :: "vm \<Rightarrow> vm_error + vm" where
  "scas8 st = Inr (step_index DI 1 (compare_flags False (uint (r8 AL st)) (uint (v_data st (v_r st DI))) st))"

definition scas16 :: "vm \<Rightarrow> vm_error + vm" where
  "scas16 st = bindE (vm_read16 (v_r st DI) st) (\<lambda>y.
     Inr (step_index DI 2 (compare_flags True (uint (v_r st AX)) (uint y) st)))"

text \<open>0xa0 .. 0xaf\<close>

definition run_a0 :: "byte \<Rightarrow> byte \<Rightarrow> int \<Rightarrow> vm \<Rightarrow> vm_error + bool \<times> vm" where
  "run_a0 rep b p st =
     (if b < 0xa4 then
        bindE (code16 (p + 1) (ip_add 3 st)) (\<lambda>a.
          let st = ip_add 3 st
          in if b = 0xa0 then Inr (True, set_r8 AL (v_data st a) st)
             else if b = 0xa1 then ret_ok (bindE (vm_read16 a st) (\<lambda>x. Inr (set_r AX x st)))
             else if b = 0xa2 then Inr (True, vm_write8 a (r8 AL st) st)
             else ret_ok (vm_write16 a (v_r st AX) st))
      else if b = 0xa4 then string_op rep (\<lambda>st. True) movs8 st
      else if b = 0xa5 then string_op rep (\<lambda>st. True) movs16 st
      else if b = 0xa6 then string_op rep (rep_cond rep) cmps8 st
      else if b = 0xa7 then string_op rep (rep_cond rep) cmps16 st
      else if b < 0xaa then
        ret_ok (bindE (aimm (bit b 0) (p + 1) st) (\<lambda>(o1, o2, len). alu_test o1 o2 (ip_add len st)))
      else if b = 0xaa then string_op rep (\<lambda>st. True) stos8 st
      else if b = 0xab then string_op rep (\<lambda>st. True) stos16 st
      else if b = 0xac then string_op rep (\<lambda>st. True) lods8 st
      else if b = 0xad then string_op rep (\<lambda>st. True) lods16 st
      else if b = 0xae then string_op rep (rep_cond rep) scas8 st
      else string_op rep (rep_cond rep) scas16 st)"

text \<open>0xb0 .. 0xbf\<close>

definition run_b0 :: "byte \<Rightarrow> int \<Rightarrow> vm \<Rightarrow> vm_error + bool \<times> vm" where
  "run_b0 b p st =
     (if b < 0xb8 then bindE (code8 (p + 1) st) (\<lambda>x. Inr (True, set_r8 (unat (b AND 7)) x (ip_add 2 st)))
      else bindE (code16 (p + 1) st) (\<lambda>x. Inr (True, set_r (unat (b AND 7)) x (ip_add 3 st))))"

section \<open>Shifts\<close>

text \<open>The top bit of an operand.\<close>

definition top_bit :: "bool \<Rightarrow> u32" where
  "top_bit w = (if w then 0x8000 else 0x80)"

text \<open>The loops of \<open>rol\<close>, \<open>ror\<close>, \<open>rcl\<close> and \<open>rcr\<close> on the value, an \<open>int\<close>, and \<open>CF\<close>.\<close>

fun rol_loop :: "nat \<Rightarrow> u32 \<Rightarrow> u32 \<Rightarrow> bool \<Rightarrow> u32 \<times> bool" where
  "rol_loop 0 m val cf = (val, cf)"
| "rol_loop (Suc n) m val cf = (let c = val AND m \<noteq> 0 in rol_loop n m (push_bit 1 val OR of_bool c) c)"

fun ror_loop :: "nat \<Rightarrow> u32 \<Rightarrow> u32 \<Rightarrow> bool \<Rightarrow> u32 \<times> bool" where
  "ror_loop 0 m val cf = (val, cf)"
| "ror_loop (Suc n) m val cf =
     (let c = val AND 1 \<noteq> 0 in ror_loop n m (signed_drop_bit 1 val OR (if c then m else 0)) c)"

fun rcl_loop :: "nat \<Rightarrow> u32 \<Rightarrow> u32 \<Rightarrow> bool \<Rightarrow> u32 \<times> bool" where
  "rcl_loop 0 m val cf = (val, cf)"
| "rcl_loop (Suc n) m val cf =
     (let val = push_bit 1 val OR of_bool cf in rcl_loop n m val (val AND push_bit 1 m \<noteq> 0))"

fun rcr_loop :: "nat \<Rightarrow> u32 \<Rightarrow> u32 \<Rightarrow> bool \<Rightarrow> bool \<Rightarrow> u32 \<times> bool \<times> bool" where
  "rcr_loop 0 m val cf ovf = (val, cf, ovf)"
| "rcr_loop (Suc n) m val cf ovf =
     (let f1 = val AND 1 \<noteq> 0; f2 = val AND m \<noteq> 0
      in rcr_loop n m (signed_drop_bit 1 val OR (if cf then m else 0)) f1 (cf \<noteq> f2))"

definition vm_shift :: "operand \<Rightarrow> nat \<Rightarrow> int \<Rightarrow> vm \<Rightarrow> vm_error + vm" where
  "vm_shift o1 c p st =
     bindE (code8 (p + 1) st) (\<lambda>b.
       let k = reg_field b; m = top_bit (o_w o1)
       in if k = 0 then bindE (opr_u o1 st) (\<lambda>u.
            let (val, cf) = rol_loop c m (word_of_int u) (v_CF st)
            in opr_assign o1 (sint val) (st\<lparr>v_CF := cf, v_OF := cf \<noteq> (val AND m \<noteq> 0)\<rparr>))
          else if k = 1 then bindE (opr_u o1 st) (\<lambda>u.
            let (val, cf) = ror_loop c m (word_of_int u) (v_CF st)
            in opr_assign o1 (sint val) (st\<lparr>v_CF := cf, v_OF := cf \<noteq> (val AND drop_bit 1 m \<noteq> 0)\<rparr>))
          else if k = 2 then bindE (opr_u o1 st) (\<lambda>u.
            let (val, cf) = rcl_loop c m (word_of_int u) (v_CF st)
            in opr_assign o1 (sint val) (st\<lparr>v_CF := cf, v_OF := cf \<noteq> (val AND m \<noteq> 0)\<rparr>))
          else if k = 3 then bindE (opr_u o1 st) (\<lambda>u.
            let (val, cf, ovf) = rcr_loop c m (word_of_int u) (v_CF st) (v_OF st)
            in opr_assign o1 (sint val) (st\<lparr>v_CF := cf, v_OF := ovf\<rparr>))
          else if k = 6 \<or> c = 0 then Inr st
          else if k = 4 then
            (if c \<ge> 32 then Inl Undefined_shift
             else bindE (opr_u o1 st) (\<lambda>u.
               let val = push_bit c (word_of_int u :: u32)
               in bindE (opr_assign o1 (sint val) (set_flags (o_w o1) (sint val) st)) (\<lambda>st.
                  let cf = val AND push_bit 1 m \<noteq> 0
                  in Inr (st\<lparr>v_CF := cf, v_OF := cf \<noteq> (val AND m \<noteq> 0)\<rparr>))))
          else if c - 1 \<ge> 32 then Inl Undefined_shift
          else if k = 5 then bindE (opr_u o1 st) (\<lambda>u.
            let val = drop_bit (c - 1) u
            in bindE (opr_assign o1 (drop_bit 1 val) (set_flags (o_w o1) (drop_bit 1 val) st)) (\<lambda>st.
               Inr (st\<lparr>v_CF := val AND 1 \<noteq> 0, v_OF := val AND uint m \<noteq> 0\<rparr>)))
          else bindE (opr_get o1 st) (\<lambda>x.
            let val = drop_bit (c - 1) x
            in bindE (opr_assign o1 (drop_bit 1 val) (set_flags (o_w o1) (drop_bit 1 val) st)) (\<lambda>st.
               Inr (st\<lparr>v_CF := val AND 1 \<noteq> 0, v_OF := False\<rparr>))))"

section \<open>Calls and the remaining groups\<close>

text \<open>The loop of \<open>enter\<close>, that copies the frame pointers of the enclosing levels.\<close>

fun enter_loop :: "nat \<Rightarrow> vm \<Rightarrow> vm_error + vm" where
  "enter_loop 0 st = Inr st"
| "enter_loop (Suc n) st =
     (let st = set_r BP (v_r st BP - 2) st
      in bindE (vm_read16 (v_r st BP) st) (\<lambda>x. bindE (vm_push x st) (enter_loop n)))"

definition vm_enter :: "int \<Rightarrow> vm \<Rightarrow> vm_error + vm" where
  "vm_enter p st =
     (let st = ip_add 4 st
      in bindE (code8 (p + 3) st) (\<lambda>b.
           let lv = unat (b AND 31)
           in bindE (vm_push (v_r st BP) st) (\<lambda>st.
              let fp = v_r st SP
              in bindE (if lv > 0 then bindE (enter_loop (lv - 1) st) (vm_push fp) else Inr st) (\<lambda>st.
                 let st = set_r BP fp st
                 in bindE (code16 (p + 1) st) (\<lambda>n. Inr (set_r SP (v_r st SP - n) st))))))"

text \<open>0xc0 .. 0xcf; \<open>sys\<close> is the system call, \<open>None\<close> where it is not one.\<close>

definition run_c0 :: "(byte \<Rightarrow> vm \<Rightarrow> vm option) \<Rightarrow> byte \<Rightarrow> int \<Rightarrow> vm \<Rightarrow> vm_error + bool \<times> vm" where
  "run_c0 sys b p st =
     (if b = 0xc0 \<or> b = 0xc1 then
        ret_ok (bindE (modrm p (bit b 0) st) (\<lambda>(o1, len).
          let st = ip_add (len + 1) st
          in bindE (code8 (uint (v_IP st) - 1) st) (\<lambda>c. vm_shift o1 (unat c) p st)))
      else if b = 0xc2 then
        ret_ok (bindE (vm_pop st) (\<lambda>(x, st).
          bindE (code16 (p + 1) st) (\<lambda>n. Inr (set_r SP (v_r st SP + n) (st\<lparr>v_IP := x\<rparr>)))))
      else if b = 0xc3 then
        (if v_r st SP = v_start_sp st then Inr (True, st\<lparr>v_exited := True\<rparr>)
         else ret_ok (bindE (vm_pop st) (\<lambda>(x, st). Inr (st\<lparr>v_IP := x\<rparr>))))
      else if b = 0xc6 then
        ret_ok (bindE (modrm p False st) (\<lambda>(o1, len).
          let st = ip_add (len + 1) st
          in bindE (code8 (uint (v_IP st) - 1) st) (\<lambda>x. opr_assign o1 (uint x) st)))
      else if b = 0xc7 then
        ret_ok (bindE (modrm p True st) (\<lambda>(o1, len).
          let st = ip_add (len + 2) st
          in bindE (code16 (uint (v_IP st) - 2) st) (\<lambda>x. opr_assign o1 (uint x) st)))
      else if b = 0xc8 then ret_ok (vm_enter p st)
      else if b = 0xc9 then
        (let st = ip_add 1 st; st = set_r SP (v_r st BP) st
         in ret_ok (bindE (vm_pop st) (\<lambda>(x, st). Inr (set_r BP x st))))
      else if b = 0xcd then
        bindE (code8 (p + 1) (ip_add 2 st)) (\<lambda>n.
          case sys n (ip_add 2 st) of Some st \<Rightarrow> Inr (True, st) | None \<Rightarrow> Inr (False, ip_add 2 st))
      else Inr (False, st))"

text \<open>0xd0 .. 0xdf\<close>

definition run_d0 :: "byte \<Rightarrow> int \<Rightarrow> vm \<Rightarrow> vm_error + bool \<times> vm" where
  "run_d0 b p st =
     (if b < 0xd4 then
        ret_ok (bindE (modrm p (bit b 0) st) (\<lambda>(o1, len).
          let st = ip_add len st in vm_shift o1 (if b < 0xd2 then 1 else unat (r8 CL st)) p st))
      else if b = 0xd4 then
        bindE (code8 (p + 1) st) (\<lambda>d.
          if d = 0 then Inl Divide_trap
          else let st = ip_add 2 st; al = r8 AL st; st = set_r8 AH (al div d) st; m = r8 AL st mod d
               in Inr (True, set_r8 AL m (set_flags False (uint m) st)))
      else if b = 0xd5 then
        bindE (code8 (p + 1) st) (\<lambda>d.
          let st = ip_add 2 st; val = uint (r8 AL st) + uint (r8 AH st) * uint d
          in Inr (True, set_r8 AH 0 (set_r8 AL (word_of_int val) (set_flags False val st))))
      else if b = 0xd7 then
        (let st = ip_add 1 st
         in ret_ok (bindE (vm_read8 (uint (v_r st BX) + uint (r8 AL st)) st) (\<lambda>x. Inr (set_r8 AL x st))))
      else if b \<ge> 0xd8 then Inr (True, ip_add 2 st)
      else Inr (False, st))"

text \<open>0xe0 .. 0xef\<close>

definition run_e0 :: "byte \<Rightarrow> int \<Rightarrow> vm \<Rightarrow> vm_error + bool \<times> vm" where
  "run_e0 b p st =
     (if b < 0xe3 then
        bindE (code8 (p + 1) st) (\<lambda>d.
          let st = set_r CX (v_r st CX - 1) st; more = (v_r st CX \<noteq> 0)
          in Inr (True, jumpif d (if b = 0xe0 then more \<and> \<not> v_ZF st else if b = 0xe1 then more \<and> v_ZF st else more) st))
      else if b = 0xe3 then bindE (code8 (p + 1) st) (\<lambda>d. Inr (True, jumpif d (v_r st CX = 0) st))
      else if b = 0xe8 then
        ret_ok (bindE (vm_push (v_IP st + 3) st) (\<lambda>st.
          bindE (code16 (p + 1) st) (\<lambda>d. Inr (ip_add (3 + uint d) st))))
      else if b = 0xe9 then ret_ok (bindE (code16 (p + 1) st) (\<lambda>d. Inr (ip_add (3 + uint d) st)))
      else if b = 0xeb then ret_ok (bindE (code8 (p + 1) st) (\<lambda>d. Inr (ip_add (2 + sint d) st)))
      else Inr (False, st))"

text \<open>\<open>neg\<close>, the multiplications and the divisions, for bytes (0xf6) and words (0xf7).\<close>

definition vm_neg :: "bool \<Rightarrow> operand \<Rightarrow> vm \<Rightarrow> vm_error + vm" where
  "vm_neg w o1 st = bindE (opr_get o1 st) (\<lambda>src.
     opr_assign o1 (- src) (set_flags w (- src) (st\<lparr>v_AF := src AND 15 \<noteq> 0, v_CF := src \<noteq> 0\<rparr>)))"

definition vm_mul8 :: "operand \<Rightarrow> vm \<Rightarrow> vm_error + vm" where
  "vm_mul8 o1 st = bindE (opr_get o1 st) (\<lambda>x.
     let st = set_r AX (word_of_int (uint (r8 AL st) * ux False x)) st; c = (r8 AH st \<noteq> 0)
     in Inr (st\<lparr>v_CF := c, v_OF := c\<rparr>))"

definition vm_imul8 :: "operand \<Rightarrow> vm \<Rightarrow> vm_error + vm" where
  "vm_imul8 o1 st = bindE (opr_get o1 st) (\<lambda>x.
     let st = set_r AX (word_of_int (sint (r8 AL st) * x)) st; c = (r8 AH st \<noteq> 0)
     in Inr (st\<lparr>v_CF := c, v_OF := c\<rparr>))"

definition vm_div8 :: "operand \<Rightarrow> vm \<Rightarrow> vm_error + vm" where
  "vm_div8 o1 st = bindE (opr_get o1 st) (\<lambda>x.
     let dst = uint (v_r st AX); src = ux False x
     in if src = 0 then Inl Divide_trap
        else Inr (set_r8 AH (word_of_int (dst mod src)) (set_r8 AL (word_of_int (dst div src)) st)))"

definition vm_idiv8 :: "operand \<Rightarrow> vm \<Rightarrow> vm_error + vm" where
  "vm_idiv8 o1 st = bindE (opr_get o1 st) (\<lambda>y.
     let val = sint (v_r st AX)
     in if y = 0 then Inl Divide_trap
        else Inr (set_r8 AH (word_of_int (val smod y)) (set_r8 AL (word_of_int (val sdiv y)) st)))"

text \<open>The product of two words is computed in an \<open>int\<close> that wraps around.\<close>

definition vm_mul16 :: "operand \<Rightarrow> vm \<Rightarrow> vm_error + vm" where
  "vm_mul16 o1 st = bindE (opr_get o1 st) (\<lambda>x.
     let v = uint (v_r st AX) * ux True x;
         st = set_r AX (word_of_int v) (set_r DX (word_of_int (v div 0x10000)) st); c = (v_r st DX \<noteq> 0)
     in Inr (st\<lparr>v_CF := c, v_OF := c\<rparr>))"

definition vm_imul16 :: "operand \<Rightarrow> vm \<Rightarrow> vm_error + vm" where
  "vm_imul16 o1 st = bindE (opr_get o1 st) (\<lambda>x.
     let val = sint (v_r st AX) * x;
         st = set_r AX (word_of_int val) (set_r DX (word_of_int (val div 0x10000)) st); c = (v_r st DX \<noteq> 0)
     in Inr (st\<lparr>v_CF := c, v_OF := c\<rparr>))"

definition vm_div16 :: "operand \<Rightarrow> vm \<Rightarrow> vm_error + vm" where
  "vm_div16 o1 st = bindE (opr_get o1 st) (\<lambda>y.
     let x = uint (v_r st DX) * 0x10000 + uint (v_r st AX); src = ux True y
     in if src = 0 then Inl Divide_trap
        else Inr (set_r DX (word_of_int (x mod src)) (set_r AX (word_of_int (x div src)) st)))"

definition vm_idiv16 :: "operand \<Rightarrow> vm \<Rightarrow> vm_error + vm" where
  "vm_idiv16 o1 st = bindE (opr_get o1 st) (\<lambda>y.
     let x = sint (v_r st DX) * 0x10000 + uint (v_r st AX)
     in if y = 0 \<or> x = - (2 ^ 31) \<and> y = -1 then Inl Divide_trap
        else Inr (set_r DX (word_of_int (x smod y)) (set_r AX (word_of_int (x sdiv y)) st)))"

definition vm_not :: "operand \<Rightarrow> vm \<Rightarrow> vm_error + vm" where
  "vm_not o1 st = bindE (opr_get o1 st) (\<lambda>x. opr_assign o1 (NOT x) st)"

text \<open>0xf6 and 0xf7\<close>

definition run_f6 :: "int \<Rightarrow> vm \<Rightarrow> vm_error + bool \<times> vm" where
  "run_f6 p st =
     bindE (modrm p False st) (\<lambda>(o1, len).
       let st = ip_add len st
       in bindE (code8 (p + 1) st) (\<lambda>b.
            let k = reg_field b
            in if k = 0 then
                 (let st = st\<lparr>v_CF := False\<rparr>
                  in bindE (opr_get o1 st) (\<lambda>x. bindE (code8 (uint (v_IP st)) st) (\<lambda>y.
                     Inr (True, set_flags False (x AND sint y) (ip_add 1 st)))))
               else if k = 2 then ret_ok (vm_not o1 st)
               else if k = 3 then ret_ok (vm_neg False o1 st)
               else if k = 4 then ret_ok (vm_mul8 o1 st)
               else if k = 5 then ret_ok (vm_imul8 o1 st)
               else if k = 6 then ret_ok (vm_div8 o1 st)
               else if k = 7 then ret_ok (vm_idiv8 o1 st)
               else Inr (False, st)))"

definition run_f7 :: "int \<Rightarrow> vm \<Rightarrow> vm_error + bool \<times> vm" where
  "run_f7 p st =
     bindE (modrm p True st) (\<lambda>(o1, len).
       let st = ip_add len st
       in bindE (code8 (p + 1) st) (\<lambda>b.
            let k = reg_field b
            in if k = 0 then
                 (let st = ip_add 2 (st\<lparr>v_CF := False\<rparr>)
                  in bindE (opr_get o1 st) (\<lambda>x. bindE (code16 (uint (v_IP st) - 2) st) (\<lambda>y.
                     Inr (True, set_flags True (x AND sint y) st))))
               else if k = 2 then ret_ok (vm_not o1 st)
               else if k = 3 then ret_ok (vm_neg True o1 st)
               else if k = 4 then ret_ok (vm_mul16 o1 st)
               else if k = 5 then ret_ok (vm_imul16 o1 st)
               else if k = 6 then ret_ok (vm_div16 o1 st)
               else if k = 7 then ret_ok (vm_idiv16 o1 st)
               else Inr (False, st)))"

text \<open>0xfe and 0xff\<close>

definition run_fe :: "byte \<Rightarrow> int \<Rightarrow> vm \<Rightarrow> vm_error + bool \<times> vm" where
  "run_fe b p st =
     bindE (modrm p (b = 0xff) st) (\<lambda>(o1, len).
       let st = ip_add len st
       in bindE (code8 (p + 1) st) (\<lambda>m.
            let k = reg_field m
            in if k = 0 then ret_ok (bindE (opr_get o1 st) (\<lambda>x.
                 let st' = set_flags (b = 0xff) (x + 1) st
                 in bindE (opr_assign o1 (x + 1) st') (\<lambda>st. Inr (st\<lparr>v_AF := (x + 1) AND 15 = 0\<rparr>))))
               else if k = 1 then ret_ok (bindE (opr_get o1 st) (\<lambda>x.
                 let st' = set_flags (b = 0xff) (x - 1) st
                 in bindE (opr_assign o1 (x - 1) st') (\<lambda>st. Inr (st\<lparr>v_AF := (x - 1) AND 15 = 15\<rparr>))))
               else if b = 0xff \<and> k = 2 then
                 ret_ok (bindE (vm_push (v_IP st) st) (\<lambda>st. bindE (opr_get o1 st) (\<lambda>x. Inr (st\<lparr>v_IP := word_of_int x\<rparr>))))
               else if b = 0xff \<and> k = 4 then
                 ret_ok (bindE (opr_get o1 st) (\<lambda>x. Inr (st\<lparr>v_IP := word_of_int x\<rparr>)))
               else if b = 0xff \<and> k = 6 then ret_ok (bindE (opr_get o1 st) (\<lambda>x. vm_push (word_of_int x) st))
               else Inr (False, st)))"

text \<open>0xf0 .. 0xff; \<open>rec\<close> is \<open>run1\<close>, that a repeat prefix calls for the next instruction.\<close>

definition run_f0 :: "(byte \<Rightarrow> vm \<Rightarrow> vm_error + vm) \<Rightarrow> byte \<Rightarrow> int \<Rightarrow> vm \<Rightarrow> vm_error + bool \<times> vm" where
  "run_f0 rec b p st =
     (if b = 0xf2 \<or> b = 0xf3 then ret_ok (rec b (ip_add 1 st))
      else if b = 0xf5 then Inr (True, (ip_add 1 st)\<lparr>v_CF := \<not> v_CF st\<rparr>)
      else if b = 0xf6 then run_f6 p st
      else if b = 0xf7 then run_f7 p st
      else if b = 0xf8 then Inr (True, (ip_add 1 st)\<lparr>v_CF := False\<rparr>)
      else if b = 0xf9 then Inr (True, (ip_add 1 st)\<lparr>v_CF := True\<rparr>)
      else if b = 0xfc then Inr (True, (ip_add 1 st)\<lparr>v_DF := False\<rparr>)
      else if b = 0xfd then Inr (True, (ip_add 1 st)\<lparr>v_DF := True\<rparr>)
      else if b = 0xfe \<or> b = 0xff then run_fe b p st
      else Inr (False, st))"

section \<open>One instruction\<close>

definition run_switch :: "(byte \<Rightarrow> vm \<Rightarrow> vm option) \<Rightarrow> (byte \<Rightarrow> vm \<Rightarrow> vm_error + vm) \<Rightarrow> byte \<Rightarrow> byte \<Rightarrow> vm \<Rightarrow>
    vm_error + bool \<times> vm" where
  "run_switch sys rec rep b st =
     (let p = uint (v_IP st)
      in if b < 0x40 then run_arith b p st
         else if b < 0x60 then run_reg b st
         else if b < 0x70 then Inr (False, st)
         else if b < 0x80 then run_jcc b p st
         else if b < 0x90 then run_80 b p st
         else if b < 0xa0 then run_90 b st
         else if b < 0xb0 then run_a0 rep b p st
         else if b < 0xc0 then run_b0 b p st
         else if b < 0xd0 then run_c0 sys b p st
         else if b < 0xe0 then run_d0 b p st
         else if b < 0xf0 then run_e0 b p st
         else run_f0 rec b p st)"

text \<open>
  \<open>run1\<close>, without its trace. The bound is on the repeat prefixes in a row: a memory full of them
  makes the program call itself without end.
\<close>

fun run1 :: "nat \<Rightarrow> (byte \<Rightarrow> vm \<Rightarrow> vm option) \<Rightarrow> byte \<Rightarrow> vm \<Rightarrow> vm_error + vm" where
  "run1 0 sys rep st = Inl Vm_loops"
| "run1 (Suc n) sys rep st =
     (if v_r st SP < v_brksize st then Inr (st\<lparr>v_exited := True\<rparr>)
      else
        bindE (run_switch sys (run1 n sys) rep (text_mem st (v_IP st)) st) (\<lambda>(done, st).
          Inr (if done then st else st\<lparr>v_exitcode := -1, v_exited := True\<rparr>)))"

text \<open>\<open>run2\<close>, for at most \<open>n\<close> instructions.\<close>

fun run2 :: "nat \<Rightarrow> nat \<Rightarrow> (byte \<Rightarrow> vm \<Rightarrow> vm option) \<Rightarrow> vm \<Rightarrow> vm_error + vm" where
  "run2 0 k sys st = (if v_exited st then Inr st else Inl Vm_loops)"
| "run2 (Suc n) k sys st = (if v_exited st then Inr st else bindE (run1 k sys 0 st) (run2 n k sys))"

end
