(* ===== verification/Emu_Alu.thy ===== *)
theory Emu_Alu
  imports Emu_Run
begin

text \<open>
  The arithmetic of the emulator against the arithmetic of words: the flags of the additions and
  subtractions are those of the processor, the conditional jumps after a comparison decide the
  order of the operands, and the rotations are rotations of words.
\<close>

section \<open>Values of operands\<close>

text \<open>The two operands have the values \<open>a\<close> and \<open>b\<close>, words of the width of the first one.\<close>

definition operands :: "operand \<Rightarrow> operand \<Rightarrow> 'a::len word \<Rightarrow> 'a word \<Rightarrow> vm \<Rightarrow> bool" where
  "operands o1 o2 a b st \<longleftrightarrow> LENGTH('a) = (if o_w o1 then 16 else 8) \<and>
     opr_get o1 st = Inr (sint a) \<and> opr_u o1 st = Inr (uint a) \<and> opr_get o2 st = Inr (sint b)"

lemma both_operands: "operands o1 o2 a b st \<Longrightarrow> both o1 o2 st f = f (sint a) (sint b) (uint a)"
  by (simp add: operands_def both_def)

lemma ux_word: "LENGTH('a) = (if w then 16 else 8) \<Longrightarrow> ux w x = uint (word_of_int x :: 'a::len word)"
  by (cases w) (simp_all add: ux_def unsigned_of_int)

lemma sx_word: "LENGTH('a) = (if w then 16 else 8) \<Longrightarrow> sx w x = sint (word_of_int x :: 'a::len word)"
  by (cases w) (simp_all add: sx_def signed_of_int)

lemma low_nibble: "sint a AND 15 = uint a mod 16" if "4 \<le> LENGTH('a)" for a :: "'a::len word"
proof -
  have "sint a AND 15 = take_bit 4 (sint a)" by (simp add: take_bit_eq_mask mask_eq_exp_minus_1)
  also have "\<dots> = take_bit 4 (take_bit LENGTH('a) (sint a))" using that by (simp add: take_bit_take_bit min_def)
  also have "take_bit LENGTH('a) (sint a) = uint a" by (simp add: uint_sint)
  finally show ?thesis by (simp add: take_bit_eq_mod)
qed

text \<open>Storing a value depends on its low bits only.\<close>

lemma word_of_int_sint:
  "LENGTH('a) = LENGTH('b) \<Longrightarrow> (word_of_int (sint (word_of_int x :: 'a::len word)) :: 'b::len word) = word_of_int x"
  by (simp add: word_of_int_eq_iff signed_of_int take_bit_signed_take_bit)

lemma opr_assign_word:
  assumes "LENGTH('a) = (if o_w p then 16 else 8)"
  shows "opr_assign p x st = opr_assign p (sint (word_of_int x :: 'a::len word)) st"
proof (cases "o_w p")
  case True
  then have "(word_of_int (sint (word_of_int x :: 'a word)) :: u16) = word_of_int x"
    using assms by (intro word_of_int_sint) simp
  with True show ?thesis by (simp add: opr_assign_def split: option.split)
next
  case False
  then have "(word_of_int (sint (word_of_int x :: 'a word)) :: byte) = word_of_int x"
    using assms by (intro word_of_int_sint) simp
  with False show ?thesis by (simp add: opr_assign_def split: option.split)
qed

section \<open>The flags of the processor\<close>

definition arith_flags :: "bool \<Rightarrow> bool \<Rightarrow> bool \<Rightarrow> 'a::len word \<Rightarrow> vm \<Rightarrow> vm" where
  "arith_flags cf af ovf r st = st\<lparr>v_OF := ovf, v_SF := r <s 0, v_ZF := r = 0, v_AF := af, v_PF := ptable (ucast r), v_CF := cf\<rparr>"

lemma set_flags_word:
  assumes "LENGTH('a) = (if w then 16 else 8)"
  shows "set_flags w x (st\<lparr>v_AF := af, v_CF := cf\<rparr>) =
    arith_flags cf af (x \<noteq> sint (word_of_int x :: 'a::len word)) (word_of_int x :: 'a word) st"
proof -
  have "(word_of_int x :: byte) = ucast (word_of_int x :: 'a word)"
    using assms by (intro bit_word_eqI) (auto simp: bit_simps split: if_splits)
  then show ?thesis
    using sx_word [OF assms, of x]
    by (cases st) (simp add: set_flags_def arith_flags_def Let_def word_sless_alt signed_eq_0_iff)
qed

lemma mod_once: "N \<le> x \<Longrightarrow> x < 2 * N \<Longrightarrow> x mod N = x - N" for x N :: int
  using mod_pos_pos_trivial [of "x - N" N] by simp

lemma uint_add_carry:
  fixes a b :: "'a::len word"
  shows "uint (a + b + of_bool c) = (if uint a + uint b + of_bool c < 2 ^ LENGTH('a) then uint a + uint b + of_bool c
    else uint a + uint b + of_bool c - 2 ^ LENGTH('a))"
proof -
  have m: "uint (a + b + of_bool c) = (uint a + uint b + of_bool c) mod 2 ^ LENGTH('a)"
    by (cases c) (simp_all add: uint_word_ariths mod_add_left_eq mod_add_right_eq)
  have "0 \<le> uint a" "0 \<le> uint b" "uint a < 2 ^ LENGTH('a)" "uint b < 2 ^ LENGTH('a)" "0 \<le> (of_bool c :: int)" "of_bool c \<le> (1 :: int)"
    by simp_all
  then have "uint a + uint b + of_bool c < 2 * 2 ^ LENGTH('a)" "0 \<le> uint a + uint b + of_bool c" by linarith+
  then show ?thesis unfolding m using mod_once [of "2 ^ LENGTH('a)" "uint a + uint b + of_bool c"]
      mod_pos_pos_trivial [of "uint a + uint b + of_bool c" "2 ^ LENGTH('a)"] by (auto simp: not_less)
qed

lemma sint_minus_1: "sint b + 1 = 0 \<longleftrightarrow> uint b = 2 ^ LENGTH('a) - 1" for b :: "'a::len word"
proof -
  have "sint b + 1 = 0 \<longleftrightarrow> b = -1" by (metis add.commute add_eq_0_iff2 signed_word_eqI sint_n1)
  also have "\<dots> \<longleftrightarrow> uint b = uint (-1 :: 'a word)" by (simp add: word_uint_eq_iff)
  also have "uint (-1 :: 'a word) = 2 ^ LENGTH('a) - 1" by (simp only: unsigned_minus_1_eq_mask mask_eq_exp_minus_1)
  finally show ?thesis .
qed

section \<open>Additions and subtractions\<close>

text \<open>The carry: the emulator finds it by comparing the result with the first operand.\<close>

lemma carry_int:
  fixes A B N :: int
  assumes "0 \<le> A" "0 \<le> B" "A < N" "B < N"
  shows "A > (if A + B + of_bool c < N then A + B + of_bool c else A + B + of_bool c - N) \<or> c \<and> B = N - 1 \<longleftrightarrow>
      N \<le> A + B + of_bool c"
    "A < (if B + of_bool c < N then B + of_bool c else B + of_bool c - N) \<or> c \<and> B = N - 1 \<longleftrightarrow> A < B + of_bool c"
  using assms by (cases c; auto)+

lemma carry_add:
  fixes a b :: "'a::len word"
  shows "uint a > uint (a + b + of_bool c) \<or> c \<and> sint b + 1 = 0 \<longleftrightarrow> 2 ^ LENGTH('a) \<le> uint a + uint b + of_bool c"
  unfolding uint_add_carry sint_minus_1 by (rule carry_int(1)) simp_all

lemma borrow_sub:
  fixes a b :: "'a::len word"
  shows "uint a < uint (b + of_bool c) \<or> c \<and> sint b + 1 = 0 \<longleftrightarrow> uint a < uint b + of_bool c"
proof -
  have "uint (b + of_bool c) = (if uint b + of_bool c < 2 ^ LENGTH('a) then uint b + of_bool c
      else uint b + of_bool c - 2 ^ LENGTH('a))"
    using uint_add_carry [of b 0 c] by simp
  then show ?thesis unfolding sint_minus_1 using carry_int(2) [of "uint a" "uint b" "2 ^ LENGTH('a)" c] by simp
qed

section \<open>The operations on words\<close>

lemma arith_result:
  assumes "operands o1 o2 (a :: 'a::len word) b st"
  shows "opr_assign o1 x (set_flags (o_w o1) x (st\<lparr>v_AF := af, v_CF := cf\<rparr>)) =
    opr_assign o1 (sint (word_of_int x :: 'a word)) (arith_flags cf af (x \<noteq> sint (word_of_int x :: 'a word)) (word_of_int x :: 'a word) st)"
proof -
  have w: "LENGTH('a) = (if o_w o1 then 16 else 8)" using assms by (simp add: operands_def)
  show ?thesis unfolding set_flags_word [OF w] by (rule opr_assign_word [OF w])
qed

lemma word_of_sint_add [simp]: "word_of_int (sint a + sint b) = a + b" for a b :: "'a::len word"
  by (simp flip: wi_hom_add)

lemma word_of_sint_sub [simp]: "word_of_int (sint a - sint b) = a - b" for a b :: "'a::len word"
  by (simp flip: wi_hom_sub)

lemma word_of_bool [simp]: "word_of_int (of_bool c) = (of_bool c :: 'a::len word)"
  by (cases c) simp_all

lemma word_of_sint_add_c [simp]: "word_of_int (sint a + sint b + of_bool c) = a + b + of_bool c" for a b :: "'a::len word"
  by (simp flip: wi_hom_add)

lemma word_of_sint_sub_c [simp]: "word_of_int (sint a - sint b - of_bool c) = a - b - of_bool c" for a b :: "'a::len word"
  by (simp flip: wi_hom_sub)

lemma word_of_sint_c [simp]: "word_of_int (sint b + of_bool c) = b + of_bool c" for b :: "'a::len word"
  by (simp flip: wi_hom_add)

lemma ops_len: "operands o1 o2 (a :: 'a::len word) b st \<Longrightarrow> LENGTH('a) = (if o_w o1 then 16 else 8)"
  by (simp add: operands_def)

lemma ops_nibble:
  assumes ops: "operands o1 o2 (a :: 'a::len word) b st"
  shows "sint a AND 15 = uint a mod 16" "sint b AND 15 = uint b mod 16"
  using ops_len [OF ops] by (auto intro!: low_nibble split: if_splits)

lemma alu_adc_words:
  assumes ops: "operands o1 o2 (a :: 'a::len word) b st"
  shows "alu_adc o1 o2 st = opr_assign o1 (sint (a + b + of_bool (v_CF st)))
    (arith_flags (2 ^ LENGTH('a) \<le> uint a + uint b + of_bool (v_CF st)) (15 < uint a mod 16 + uint b mod 16 + of_bool (v_CF st))
      (sint a + sint b + of_bool (v_CF st) \<noteq> sint (a + b + of_bool (v_CF st))) (a + b + of_bool (v_CF st)) st)"
  unfolding alu_adc_def both_operands [OF ops] Let_def arith_result [OF ops] ux_word [OF ops_len [OF ops]] word_of_sint_add_c
    ops_nibble [OF ops] carry_add ..

lemma alu_sbb_words:
  assumes ops: "operands o1 o2 (a :: 'a::len word) b st"
  shows "alu_sbb o1 o2 st = opr_assign o1 (sint (a - b - of_bool (v_CF st)))
    (arith_flags (uint a < uint b + of_bool (v_CF st)) (uint a mod 16 - uint b mod 16 - of_bool (v_CF st) < 0)
      (sint a - sint b - of_bool (v_CF st) \<noteq> sint (a - b - of_bool (v_CF st))) (a - b - of_bool (v_CF st)) st)"
  unfolding alu_sbb_def both_operands [OF ops] Let_def arith_result [OF ops] ux_word [OF ops_len [OF ops]] word_of_sint_sub_c word_of_sint_c
    ops_nibble [OF ops] borrow_sub ..

lemma alu_add_words:
  assumes ops: "operands o1 o2 (a :: 'a::len word) b st"
  shows "alu_add o1 o2 st = opr_assign o1 (sint (a + b))
    (arith_flags (2 ^ LENGTH('a) \<le> uint a + uint b) (15 < uint a mod 16 + uint b mod 16)
      (sint a + sint b \<noteq> sint (a + b)) (a + b) st)"
  using carry_add [of a b False]
  unfolding alu_add_def both_operands [OF ops] Let_def arith_result [OF ops] ux_word [OF ops_len [OF ops]] word_of_sint_add ops_nibble [OF ops]
  by simp

lemma sub_flags_words:
  assumes ops: "operands o1 o2 (a :: 'a::len word) b st"
  shows "sub_flags (o_w o1) (sint a) (sint b) (uint a) st =
    arith_flags (a < b) (uint a mod 16 - uint b mod 16 < 0) (sint a - sint b \<noteq> sint (a - b)) (a - b) st"
  unfolding sub_flags_def ux_word [OF ops_len [OF ops]] set_flags_word [OF ops_len [OF ops]] word_of_sint_sub ops_nibble [OF ops]
  by (simp add: word_less_def)

lemma alu_sub_words:
  assumes ops: "operands o1 o2 (a :: 'a::len word) b st"
  shows "alu_sub o1 o2 st = opr_assign o1 (sint (a - b))
    (arith_flags (a < b) (uint a mod 16 - uint b mod 16 < 0) (sint a - sint b \<noteq> sint (a - b)) (a - b) st)"
  unfolding alu_sub_def both_operands [OF ops] sub_flags_words [OF ops]
  using opr_assign_word [OF ops_len [OF ops], of "sint a - sint b"] by simp

lemma alu_cmp_words:
  assumes ops: "operands o1 o2 (a :: 'a::len word) b st"
  shows "alu_cmp o1 o2 st = Inr
    (arith_flags (a < b) (uint a mod 16 - uint b mod 16 < 0) (sint a - sint b \<noteq> sint (a - b)) (a - b) st)"
  unfolding alu_cmp_def both_operands [OF ops] sub_flags_words [OF ops] ..

section \<open>Orders\<close>

lemma signed_wrap:
  "2 ^ n \<le> x \<Longrightarrow> x < 2 * 2 ^ n \<Longrightarrow> signed_take_bit n x = x - 2 * 2 ^ n"
  "x < - (2 ^ n) \<Longrightarrow> - (2 * 2 ^ n) \<le> x \<Longrightarrow> signed_take_bit n x = x + 2 * 2 ^ n" for x :: int
proof -
  have s: "signed_take_bit n x = signed_take_bit n y" if "x = y + 2 ^ Suc n \<or> y = x + 2 ^ Suc n" for y
    using that by (auto simp: signed_take_bit_eq_iff_take_bit_eq take_bit_eq_mod)
  show "2 ^ n \<le> x \<Longrightarrow> x < 2 * 2 ^ n \<Longrightarrow> signed_take_bit n x = x - 2 * 2 ^ n"
    using s [of "x - 2 * 2 ^ n"] signed_take_bit_int_eq_self [of n "x - 2 * 2 ^ n"] by simp
  show "x < - (2 ^ n) \<Longrightarrow> - (2 * 2 ^ n) \<le> x \<Longrightarrow> signed_take_bit n x = x + 2 * 2 ^ n"
    using s [of "x + 2 * 2 ^ n"] signed_take_bit_int_eq_self [of n "x + 2 * 2 ^ n"] by simp
qed

text \<open>The sign of the difference, corrected by the overflow, is the signed order.\<close>

lemma signed_less_flags: "((a - b) <s 0) \<noteq> (sint a - sint b \<noteq> sint (a - b)) \<longleftrightarrow> a <s b" for a b :: "'a::len word"
proof -
  define n where "n = LENGTH('a) - Suc 0"
  have d: "sint (a - b) = signed_take_bit n (sint a - sint b)"
    unfolding n_def word_of_sint_sub [symmetric] by (simp only: signed_of_int of_int_eq_id id_apply)
  have r: "- (2 ^ n) \<le> sint x" "sint x < 2 ^ n" for x :: "'a word"
    using sint_ge [of x] sint_lt [of x] by (simp_all add: n_def)
  have "(signed_take_bit n (sint a - sint b) < 0) \<noteq> (sint a - sint b \<noteq> signed_take_bit n (sint a - sint b)) \<longleftrightarrow> sint a - sint b < 0"
  proof (cases "- (2 ^ n) \<le> sint a - sint b \<and> sint a - sint b < 2 ^ n")
    case True
    then show ?thesis by (simp add: signed_take_bit_int_eq_self)
  next
    case False
    then show ?thesis
      using signed_wrap [where n = n and x = "sint a - sint b"] r [of a] r [of b] by fastforce
  qed
  then show ?thesis unfolding word_sless_alt d by simp
qed

lemma jump_cond_cmp:
  fixes a b :: "'a::len word"
  assumes st': "st' = arith_flags (a < b) af (sint a - sint b \<noteq> sint (a - b)) (a - b) st"
  shows "jump_cond 2 st' \<longleftrightarrow> a < b" "jump_cond 3 st' \<longleftrightarrow> \<not> a < b" "jump_cond 4 st' \<longleftrightarrow> a = b" "jump_cond 5 st' \<longleftrightarrow> a \<noteq> b"
    "jump_cond 6 st' \<longleftrightarrow> a \<le> b" "jump_cond 7 st' \<longleftrightarrow> \<not> a \<le> b" "jump_cond 12 st' \<longleftrightarrow> a <s b" "jump_cond 13 st' \<longleftrightarrow> \<not> a <s b"
    "jump_cond 14 st' \<longleftrightarrow> a \<le>s b" "jump_cond 15 st' \<longleftrightarrow> \<not> a \<le>s b"
proof -
  have le: "a \<le> b \<longleftrightarrow> a < b \<or> a = b" by auto
  have sle: "a \<le>s b \<longleftrightarrow> a = b \<or> a <s b" by (auto simp: word_sle_eq word_sless_alt signed_word_eqI)
  show "jump_cond 2 st' \<longleftrightarrow> a < b" "jump_cond 3 st' \<longleftrightarrow> \<not> a < b" "jump_cond 4 st' \<longleftrightarrow> a = b" "jump_cond 5 st' \<longleftrightarrow> a \<noteq> b"
    "jump_cond 6 st' \<longleftrightarrow> a \<le> b" "jump_cond 7 st' \<longleftrightarrow> \<not> a \<le> b"
    unfolding le by (simp_all add: jump_cond_def st' arith_flags_def)
  show "jump_cond 12 st' \<longleftrightarrow> a <s b" "jump_cond 13 st' \<longleftrightarrow> \<not> a <s b" "jump_cond 14 st' \<longleftrightarrow> a \<le>s b" "jump_cond 15 st' \<longleftrightarrow> \<not> a \<le>s b"
    using signed_less_flags [of a b] unfolding sle by (simp_all add: jump_cond_def st' arith_flags_def)
qed

lemma code_arith_flags [simp]: "code8 i (arith_flags cf af ovf r st) = code8 i st"
  by (simp add: code8_def arith_flags_def text_mem_def)

lemma IP_arith_flags [simp]: "v_IP (arith_flags cf af ovf r st) = v_IP st"
  by (simp add: arith_flags_def)

text \<open>A conditional jump, where its offset is in memory.\<close>

lemma run_jcc_eq:
  assumes "code8 (p + 1) st = Inr d"
  shows "run_jcc b p st = Inr (True, st\<lparr>v_IP := v_IP st + (if jump_cond (unat (b AND 15)) st then 2 + scast d else 2)\<rparr>)"
  using assms by (simp add: run_jcc_def jumpif_def ip_add_def)

end
