(* ===== verification/Emu_String.thy ===== *)
theory Emu_String
  imports Emu_Run
begin

text \<open>
  The string instructions of the emulator: the repeated instructions end, since they count \<open>CX\<close>
  down, and \<open>rep movsb\<close> copies a block.
\<close>

section \<open>The repeated instructions end\<close>

definition keeps_count :: "(vm \<Rightarrow> vm_error + vm) \<Rightarrow> bool" where
  "keeps_count f \<longleftrightarrow> (\<forall>st. f st \<noteq> Inl Vm_loops \<and> (\<forall>st'. f st = Inr st' \<longrightarrow> v_r st' CX = v_r st CX))"

lemma unat_u16: "unat x < 65536" for x :: u16
proof -
  have "unat x < 2 ^ LENGTH(16)" by (rule unsigned_less)
  then show ?thesis by simp
qed

lemma rep_loop_ends:
  assumes "keeps_count f"
  shows "v_r st CX = 0 \<and> 65536 \<le> n \<or> v_r st CX \<noteq> 0 \<and> unat (v_r st CX) \<le> n \<or> rep = 0 \<and> 0 < n \<Longrightarrow>
    rep_loop n rep cont f st \<noteq> Inl Vm_loops"
proof (induction n arbitrary: st)
  case 0
  then show ?case by (auto simp: unat_eq_zero)
next
  case (Suc n)
  show ?case
  proof (cases "f st")
    case (Inl e)
    then show ?thesis using assms by (auto simp: keeps_count_def)
  next
    case (Inr st')
    then have c: "v_r st' CX = v_r st CX" using assms by (auto simp: keeps_count_def)
    define st2 where "st2 = set_r CX (v_r st' CX - 1) st'"
    have c2: "v_r st2 CX = v_r st CX - 1" by (simp add: st2_def set_r_def c)
    have "rep_loop n rep cont f st2 \<noteq> Inl Vm_loops" if "rep \<noteq> 0" "v_r st2 CX \<noteq> 0"
    proof (rule Suc.IH)
      have "unat (v_r st CX - 1) \<le> n"
      proof (cases "v_r st CX = 0")
        case True
        then show ?thesis using Suc.prems that unat_u16 [of "v_r st CX - 1"] by auto
      next
        case False
        then show ?thesis using Suc.prems that unat_minus_one [of "v_r st CX"] by auto
      qed
      then show "v_r st2 CX = 0 \<and> 65536 \<le> n \<or> v_r st2 CX \<noteq> 0 \<and> unat (v_r st2 CX) \<le> n \<or> rep = 0 \<and> 0 < n"
        using that c2 by simp
    qed
    then show ?thesis using Inr by (auto simp: Let_def simp flip: st2_def)
  qed
qed

lemma string_op_ends: "keeps_count f \<Longrightarrow> string_op rep cont f st \<noteq> Inl Vm_loops"
  using rep_loop_ends [of f "ip_add 1 st" 65536 rep cont] unat_u16 [of "v_r (ip_add 1 st) CX"]
  by (cases "rep_loop 65536 rep cont f (ip_add 1 st)") (auto simp: string_op_def ret_ok_def Let_def)

lemma CX_moves [simp]:
  "v_r (step_index SI k st) CX = v_r st CX" "v_r (step_index DI k st) CX = v_r st CX" "v_r (vm_write8 a x st) CX = v_r st CX"
  "v_r (set_r8 AL x st) CX = v_r st CX" "v_r (set_r AX y st) CX = v_r st CX" "v_r (compare_flags w i j st) CX = v_r st CX"
  by (simp_all add: step_index_def set_r_def set_r8_def reg_defs vm_write8_def compare_flags_def set_flags_def Let_def)

lemma no_loop_mem [simp]: "vm_read16 a st \<noteq> Inl Vm_loops" "vm_write16 a x st \<noteq> Inl Vm_loops"
  by (auto simp: vm_read16_def mem16_def mem8_def vm_write16_def)

lemma CX_write16: "vm_write16 a x st = Inr st' \<Longrightarrow> v_r st' CX = v_r st CX"
  by (auto simp: vm_write16_def split: if_splits)

lemma keeps_count_string:
  "keeps_count movs8" "keeps_count cmps8" "keeps_count stos8" "keeps_count lods8" "keeps_count scas8"
  "keeps_count movs16" "keeps_count cmps16" "keeps_count stos16" "keeps_count lods16" "keeps_count scas16"
  by (auto simp: keeps_count_def movs8_def cmps8_def stos8_def lods8_def scas8_def movs16_def cmps16_def stos16_def
      lods16_def scas16_def error_simps CX_write16)

section \<open>No instruction runs for ever\<close>

named_theorems no_loop \<open>what never exhausts the bound of a loop\<close>

lemma no_loop_bind:
  "m \<noteq> Inl Vm_loops \<Longrightarrow> (\<And>x. m = Inr x \<Longrightarrow> f x \<noteq> Inl Vm_loops) \<Longrightarrow> bindE m f \<noteq> Inl Vm_loops"
  by (cases m) auto

lemma no_loop_access [no_loop]:
  "code8 i st \<noteq> Inl Vm_loops" "code16 i st \<noteq> Inl Vm_loops" "vm_read8 i st \<noteq> Inl Vm_loops"
  "vm_read16 a st \<noteq> Inl Vm_loops" "vm_write16 a x st \<noteq> Inl Vm_loops"
  by (auto simp: code8_def code16_def vm_read8_def mem16_def mem8_def)

lemma no_loop_operand [no_loop]:
  "vm_push x st \<noteq> Inl Vm_loops" "vm_pop st \<noteq> Inl Vm_loops" "opr_u p st \<noteq> Inl Vm_loops" "opr_assign p i st \<noteq> Inl Vm_loops"
  by (auto simp: vm_push_def vm_pop_def opr_u_def opr_assign_def error_simps no_loop Let_def split: option.splits if_splits)

lemma no_loop_modrm [no_loop]:
  "opr_get p st \<noteq> Inl Vm_loops" "modrm q w st \<noteq> Inl Vm_loops" "aimm w q st \<noteq> Inl Vm_loops"
  by (auto simp: opr_get_def modrm_def aimm_def error_simps no_loop Let_def)

lemma no_loop_getopr [no_loop]: "regrm q d w st \<noteq> Inl Vm_loops" "getopr b q st \<noteq> Inl Vm_loops"
  by (auto simp: getopr_def regrm_def error_simps no_loop Let_def)

lemma no_loop_alu [no_loop]: "alu k o1 o2 st \<noteq> Inl Vm_loops" "alu_test o1 o2 st \<noteq> Inl Vm_loops"
  by (auto simp: alu_def alu_add_def alu_logic_def alu_adc_def alu_sbb_def alu_sub_def alu_cmp_def alu_test_def both_def
      error_simps no_loop Let_def)

lemma no_loop_ret [no_loop]: "m \<noteq> Inl Vm_loops \<Longrightarrow> ret_ok m \<noteq> Inl Vm_loops"
  by (auto simp: ret_ok_def error_simps)

lemma no_loop_shift [no_loop]: "vm_shift o1 c q st \<noteq> Inl Vm_loops"
  by (auto simp: vm_shift_def error_simps no_loop Let_def split: prod.splits)

lemma no_loop_enter_loop: "enter_loop n st \<noteq> Inl Vm_loops"
  by (induction n arbitrary: st) (auto simp: error_simps no_loop Let_def)

lemma no_loop_enter [no_loop]: "vm_enter q st \<noteq> Inl Vm_loops"
  by (auto simp: vm_enter_def error_simps no_loop no_loop_enter_loop Let_def)

lemma no_loop_muldiv [no_loop]:
  "vm_neg w o1 st \<noteq> Inl Vm_loops" "vm_not o1 st \<noteq> Inl Vm_loops"
  "vm_mul8 o1 st \<noteq> Inl Vm_loops" "vm_imul8 o1 st \<noteq> Inl Vm_loops" "vm_div8 o1 st \<noteq> Inl Vm_loops" "vm_idiv8 o1 st \<noteq> Inl Vm_loops"
  "vm_mul16 o1 st \<noteq> Inl Vm_loops" "vm_imul16 o1 st \<noteq> Inl Vm_loops" "vm_div16 o1 st \<noteq> Inl Vm_loops" "vm_idiv16 o1 st \<noteq> Inl Vm_loops"
  by (auto simp: vm_neg_def vm_not_def vm_mul8_def vm_imul8_def vm_div8_def vm_idiv8_def vm_mul16_def vm_imul16_def
      vm_div16_def vm_idiv16_def error_simps no_loop Let_def)

lemma no_loop_groups_low [no_loop]:
  "run_arith b q st \<noteq> Inl Vm_loops" "run_reg b st \<noteq> Inl Vm_loops" "run_jcc b q st \<noteq> Inl Vm_loops"
  "run_alu_imm b q st \<noteq> Inl Vm_loops" "run_90 b st \<noteq> Inl Vm_loops" "run_b0 b q st \<noteq> Inl Vm_loops"
  by (auto simp: run_arith_def run_reg_def run_jcc_def run_alu_imm_def run_90_def run_b0_def error_simps no_loop Let_def
      intro!: no_loop_ret)

lemma no_loop_80 [no_loop]: "run_80 b q st \<noteq> Inl Vm_loops"
  by (auto simp: run_80_def error_simps no_loop Let_def intro!: no_loop_ret split: option.splits)

lemma no_loop_a0 [no_loop]: "run_a0 rep b q st \<noteq> Inl Vm_loops"
  using keeps_count_string by (auto simp: run_a0_def error_simps no_loop Let_def string_op_ends intro!: no_loop_ret)

lemma no_loop_c0 [no_loop]: "run_c0 sys b q st \<noteq> Inl Vm_loops"
  by (auto simp: run_c0_def error_simps no_loop Let_def intro!: no_loop_ret split: option.splits)

lemma no_loop_groups_high [no_loop]:
  "run_d0 b q st \<noteq> Inl Vm_loops" "run_e0 b q st \<noteq> Inl Vm_loops"
  "run_f6 q st \<noteq> Inl Vm_loops" "run_f7 q st \<noteq> Inl Vm_loops" "run_fe b q st \<noteq> Inl Vm_loops"
  by (auto simp: run_d0_def run_e0_def run_f6_def run_f7_def run_fe_def error_simps no_loop Let_def intro!: no_loop_ret)

lemma run_switch_loops:
  assumes "run_switch sys rec rep b st = Inl Vm_loops"
  shows "(b = 0xf2 \<or> b = 0xf3) \<and> rec b (ip_add 1 st) = Inl Vm_loops"
proof (cases "b = 0xf2 \<or> b = 0xf3")
  case True
  then have "run_switch sys rec rep b st = ret_ok (rec b (ip_add 1 st))" by (auto simp: run_switch_def run_f0_def)
  with True assms show ?thesis by (auto simp: ret_ok_def error_simps)
next
  case False
  then have "run_switch sys rec rep b st \<noteq> Inl Vm_loops" by (simp add: run_switch_def run_f0_def no_loop Let_def)
  with assms show ?thesis by simp
qed

lemma run1_ends:
  "\<exists>k<n. text_mem st (v_IP st + of_nat k) \<notin> {0xf2, 0xf3} \<Longrightarrow> run1 n sys rep st \<noteq> Inl Vm_loops"
proof (induction n arbitrary: rep st)
  case 0
  then show ?case by simp
next
  case (Suc n)
  show ?case
  proof
    assume r: "run1 (Suc n) sys rep st = Inl Vm_loops"
    have s: "run_switch sys (run1 n sys) rep (text_mem st (v_IP st)) st = Inl Vm_loops"
      using r by (auto simp: error_simps split: if_splits)
    from run_switch_loops [OF this]
    have b: "text_mem st (v_IP st) \<in> {0xf2, 0xf3}" "run1 n sys (text_mem st (v_IP st)) (ip_add 1 st) = Inl Vm_loops"
      by auto
    obtain k where k: "k < Suc n" "text_mem st (v_IP st + of_nat k) \<notin> {0xf2, 0xf3}" using Suc.prems by blast
    with b(1) obtain j where "k = Suc j" by (cases k) auto
    with k have "\<exists>j<n. text_mem (ip_add 1 st) (v_IP (ip_add 1 st) + of_nat j) \<notin> {0xf2, 0xf3}"
      by (intro exI [of _ j]) (auto simp: ip_add_def text_mem_def add.assoc split: if_splits)
    from Suc.IH [OF this] b(2) show False by simp
  qed
qed

text \<open>A row of prefixes makes the program call itself, as often as there are prefixes.\<close>

lemma run1_loops:
  "\<forall>k<n. text_mem st (v_IP st + of_nat k) \<in> {0xf2, 0xf3} \<Longrightarrow> \<not> v_r st SP < v_brksize st \<Longrightarrow> run1 n sys rep st = Inl Vm_loops"
proof (induction n arbitrary: rep st)
  case 0
  then show ?case by simp
next
  case (Suc n)
  let ?b = "text_mem st (v_IP st)"
  have b: "?b = 0xf2 \<or> ?b = 0xf3" using Suc.prems(1) [rule_format, of 0] by simp
  have "text_mem (ip_add 1 st) (v_IP (ip_add 1 st) + of_nat k) \<in> {0xf2, 0xf3}" if "k < n" for k
    using Suc.prems(1) [rule_format, of "Suc k"] that by (auto simp: ip_add_def text_mem_def add.assoc split: if_splits)
  then have "run1 n sys ?b (ip_add 1 st) = Inl Vm_loops"
    using Suc.prems(2) by (intro Suc.IH) (simp_all add: ip_add_def)
  then show ?case using Suc.prems(2) b by (auto simp: run_switch_def run_f0_def ret_ok_def)
qed

section \<open>Copying a block\<close>

text \<open>\<open>n\<close> bytes, one after the other.\<close>

fun copy_block :: "u16 \<Rightarrow> u16 \<Rightarrow> u16 \<Rightarrow> nat \<Rightarrow> memory \<Rightarrow> memory" where
  "copy_block d s t 0 m = m"
| "copy_block d s t (Suc k) m = copy_block d (s + d) (t + d) k (m(t := m s))"

definition direction :: "vm \<Rightarrow> u16" where
  "direction st = (if v_DF st then -1 else 1)"

lemma movs8_eq:
  "movs8 st = Inr (st\<lparr>v_r := (v_r st)(SI := v_r st SI + direction st, DI := v_r st DI + direction st),
    v_data := (v_data st)(v_r st DI := v_data st (v_r st SI))\<rparr>)"
  by (simp add: movs8_def step_index_def set_r_def vm_write8_def direction_def reg_defs)

lemma rep_movs8:
  "v_r st CX = of_nat (Suc n) \<Longrightarrow> n < N \<Longrightarrow> Suc n < 65536 \<Longrightarrow> rep \<noteq> 0 \<Longrightarrow>
    rep_loop N rep (\<lambda>st. True) movs8 st = Inr (st\<lparr>v_r := (v_r st)(CX := 0, SI := v_r st SI + direction st * of_nat (Suc n),
        DI := v_r st DI + direction st * of_nat (Suc n)),
      v_data := copy_block (direction st) (v_r st SI) (v_r st DI) (Suc n) (v_data st)\<rparr>)"
proof (induction n arbitrary: N st)
  case 0
  then obtain M where "N = Suc M" by (cases N) auto
  with 0 show ?case by (simp add: movs8_eq set_r_def reg_defs fun_eq_iff)
next
  case (Suc n)
  then obtain M where M: "N = Suc M" "n < M" by (cases N) auto
  define st' where "st' = st\<lparr>v_r := (v_r st)(SI := v_r st SI + direction st, DI := v_r st DI + direction st, CX := of_nat (Suc n)),
    v_data := (v_data st)(v_r st DI := v_data st (v_r st SI))\<rparr>"
  have nz: "(of_nat (Suc n) :: u16) \<noteq> 0"
    using Suc.prems unfolding word_of_nat_eq_0_iff by (auto dest: dvd_imp_le)
  have "rep_loop N rep (\<lambda>st. True) movs8 st = rep_loop M rep (\<lambda>st. True) movs8 st'"
    using M Suc.prems nz by (cases st) (simp add: movs8_eq set_r_def st'_def reg_defs direction_def)
  also have "\<dots> = Inr (st'\<lparr>v_r := (v_r st')(CX := 0, SI := v_r st' SI + direction st' * of_nat (Suc n),
        DI := v_r st' DI + direction st' * of_nat (Suc n)),
      v_data := copy_block (direction st') (v_r st' SI) (v_r st' DI) (Suc n) (v_data st')\<rparr>)"
    using M Suc.prems by (intro Suc.IH) (auto simp: st'_def)
  also have "\<dots> = Inr (st\<lparr>v_r := (v_r st)(CX := 0, SI := v_r st SI + direction st * of_nat (Suc (Suc n)),
        DI := v_r st DI + direction st * of_nat (Suc (Suc n))),
      v_data := copy_block (direction st) (v_r st SI) (v_r st DI) (Suc (Suc n)) (v_data st)\<rparr>)"
    by (simp add: st'_def reg_defs direction_def fun_eq_iff algebra_simps)
  finally show ?case .
qed

text \<open>What the copy holds, where no byte is read after it was overwritten.\<close>

lemma copy_block_other: "(\<And>i. i < n \<Longrightarrow> a \<noteq> t + d * of_nat i) \<Longrightarrow> copy_block d s t n m a = m a"
proof (induction n arbitrary: s t m)
  case 0
  then show ?case by simp
next
  case (Suc n)
  have "copy_block d (s + d) (t + d) n (m(t := m s)) a = (m(t := m s)) a"
  proof (rule Suc.IH)
    fix i assume "i < n"
    then show "a \<noteq> t + d + d * of_nat i" using Suc.prems [of "Suc i"] by (simp add: algebra_simps)
  qed
  with Suc.prems [of 0] show ?case by simp
qed

lemma copy_block_target:
  assumes "\<And>i j. i < n \<Longrightarrow> j < i \<Longrightarrow> s + d * of_nat i \<noteq> t + d * of_nat j" "n < 65536" "d = 1 \<or> d = -1"
  shows "i < n \<Longrightarrow> copy_block d s t n m (t + d * of_nat i) = m (s + d * of_nat i)"
  using assms(1,2)
proof (induction n arbitrary: s t m i)
  case 0
  then show ?case by simp
next
  case (Suc n)
  show ?case
  proof (cases i)
    case 0
    have "copy_block d (s + d) (t + d) n (m(t := m s)) t = (m(t := m s)) t"
    proof (rule copy_block_other)
      fix j assume "j < n"
      then have "(of_nat (Suc j) :: u16) \<noteq> 0"
        using Suc.prems unfolding word_of_nat_eq_0_iff by (auto dest: dvd_imp_le)
      then have "d * of_nat (Suc j) \<noteq> 0" using assms(3) by (elim disjE) (simp_all del: of_nat_Suc)
      moreover have "t + d + d * of_nat j = t + d * of_nat (Suc j)" by (simp add: algebra_simps)
      ultimately show "t \<noteq> t + d + d * of_nat j" by (metis add_cancel_left_right)
    qed
    with 0 show ?thesis by simp
  next
    case (Suc k)
    have "copy_block d (s + d) (t + d) n (m(t := m s)) (t + d + d * of_nat k) = (m(t := m s)) (s + d + d * of_nat k)"
    proof (rule Suc.IH)
      fix i' j assume "i' < n" "j < i'"
      then show "s + d + d * of_nat i' \<noteq> t + d + d * of_nat j" using Suc.prems(2) [of "Suc i'" "Suc j"] by (simp add: algebra_simps)
    qed (use Suc Suc.prems in auto)
    moreover have "s + d + d * of_nat k \<noteq> t" using Suc.prems(2) [of "Suc k" 0] Suc.prems(1) \<open>i = Suc k\<close> by (simp add: algebra_simps)
    ultimately show ?thesis using \<open>i = Suc k\<close> by (simp add: algebra_simps)
  qed
qed

end
