(* ===== verification/Emu_Shift.thy ===== *)
theory Emu_Shift
  imports Emu_Alu
begin

text \<open>
  The shifts and rotations of the emulator against those of words. The loops of the program work
  on an \<open>int\<close> of 32 bits, whose bits above the width of the operand are left as they come.
\<close>

section \<open>Rotations\<close>

lemma rotl_rotl: "word_rotl m (word_rotl n w) = word_rotl (m + n) w"
  by (simp add: word_rotl_rev word_rotr_word_rotr_eq)

lemma rot_0 [simp]: "word_rotl 0 w = w" "word_rotr 0 w = w"
  by (auto intro!: bit_word_eqI simp: bit_word_rotl_iff bit_word_rotr_iff)

lemma bit_rotl_1: "Suc 0 < LENGTH('a) \<Longrightarrow> bit (word_rotl (Suc 0) w) n \<longleftrightarrow> n < LENGTH('a) \<and> bit w (if n = 0 then LENGTH('a) - 1 else n - 1)"
  for w :: "'a::len word"
  by (cases n) (auto simp: bit_word_rotl_iff)

lemma bit_rotr_1: "Suc 0 < LENGTH('a) \<Longrightarrow> bit (word_rotr (Suc 0) w) n \<longleftrightarrow> n < LENGTH('a) \<and> bit w (if n = LENGTH('a) - 1 then 0 else n + 1)"
  for w :: "'a::len word"
  by (cases "n = LENGTH('a) - 1") (auto simp: bit_word_rotr_iff)

lemma top_bit_eq: "LENGTH('a::len) = (if w then 16 else 8) \<Longrightarrow> top_bit w = 2 ^ (LENGTH('a) - 1)"
  by (cases w) (simp_all add: top_bit_def)

lemma and_exp_neq_0: "x AND 2 ^ n \<noteq> 0 \<longleftrightarrow> n < LENGTH('a) \<and> bit x n" for x :: "'a::len word"
  by (auto simp: and_exp_eq_0_iff_not_bit bit_imp_le_length)

lemma rol_step:
  assumes "Suc 0 < LENGTH('a)" "LENGTH('a) < 32"
  shows "ucast ((push_bit 1 x :: u32) OR of_bool (x AND 2 ^ (LENGTH('a) - 1) \<noteq> 0)) = word_rotl (Suc 0) (ucast x :: 'a::len word)"
proof (rule bit_word_eqI)
  fix n assume "n < LENGTH('a)"
  with assms show "bit (ucast ((push_bit 1 x :: u32) OR of_bool (x AND 2 ^ (LENGTH('a) - 1) \<noteq> 0)) :: 'a word) n =
      bit (word_rotl (Suc 0) (ucast x :: 'a word)) n"
    unfolding bit_rotl_1 [OF assms(1)] bit_unsigned_iff bit_or_iff bit_push_bit_iff bit_of_bool_iff and_exp_neq_0 by auto
qed

lemma rol_loop_word:
  assumes "Suc 0 < LENGTH('a)" "LENGTH('a) < 32"
  shows "ucast (fst (rol_loop c (2 ^ (LENGTH('a) - 1)) x cf)) = word_rotl c (ucast x :: 'a::len word) \<and>
    snd (rol_loop c (2 ^ (LENGTH('a) - 1)) x cf) = (if c = 0 then cf else bit (word_rotl c (ucast x :: 'a word)) 0)"
proof (induction c arbitrary: x cf)
  case 0
  then show ?case by simp
next
  case (Suc c)
  let ?c = "x AND 2 ^ (LENGTH('a) - 1) \<noteq> 0" let ?x = "push_bit 1 x OR of_bool ?c"
  have "bit (word_rotl (Suc 0) (ucast x :: 'a word)) 0 = ?c"
    using assms unfolding bit_rotl_1 [OF assms(1)] and_exp_neq_0 by (simp add: bit_simps)
  with Suc [of ?x ?c] show ?case
    unfolding rol_step [OF assms] rotl_rotl by (auto simp: Let_def)
qed

lemma ror_step:
  fixes v :: "'a::len word"
  assumes "Suc 0 < LENGTH('a)" "LENGTH('a) < 32"
  shows "signed_drop_bit 1 (ucast v :: u32) OR (if bit v 0 then 2 ^ (LENGTH('a) - 1) else 0) = ucast (word_rotr (Suc 0) v)"
proof (rule bit_word_eqI)
  fix n assume "n < LENGTH(32)"
  with assms show "bit (signed_drop_bit 1 (ucast v :: u32) OR (if bit v 0 then 2 ^ (LENGTH('a) - 1) else 0)) n =
      bit (ucast (word_rotr (Suc 0) v) :: u32) n"
    unfolding bit_unsigned_iff bit_rotr_1 [OF assms(1)] bit_or_iff bit_signed_drop_bit_iff
    by (auto simp: bit_exp_iff dest: bit_imp_le_length)
qed

lemma rotr_rotr: "word_rotr m (word_rotr n w) = word_rotr (m + n) w"
  by (rule word_rotr_word_rotr_eq)

lemma ror_loop_word:
  fixes v :: "'a::len word"
  assumes "Suc 0 < LENGTH('a)" "LENGTH('a) < 32"
  shows "ror_loop c (2 ^ (LENGTH('a) - 1)) (ucast v) cf =
    (ucast (word_rotr c v), if c = 0 then cf else bit (word_rotr c v) (LENGTH('a) - 1))"
proof (induction c arbitrary: v cf)
  case 0
  then show ?case by simp
next
  case (Suc c)
  have c: "(ucast v :: u32) AND 1 \<noteq> 0 \<longleftrightarrow> bit v 0"
    using and_exp_neq_0 [of "ucast v :: u32" 0] by (simp add: bit_unsigned_iff)
  have t: "bit (word_rotr (Suc 0) v) (LENGTH('a) - 1) = bit v 0"
    using assms by (simp add: bit_rotr_1)
  show ?case
    using Suc [of "word_rotr (Suc 0) v" "bit v 0"] t
    by (cases c) (simp_all only: ror_loop.simps Let_def c ror_step [OF assms] rotr_rotr, simp_all)
qed

section \<open>Shifts of operands\<close>

lemma opr_assign_flags:
  "bindE (opr_assign o1 x st) (\<lambda>st. Inr (st\<lparr>v_CF := cf, v_OF := ovf\<rparr>)) = opr_assign o1 x (st\<lparr>v_CF := cf, v_OF := ovf\<rparr>)"
  by (auto simp: opr_assign_def set_r_def set_r8_def vm_write16_def vm_write8_def split: option.splits)

lemma opr_assign_ucast:
  fixes x :: u32
  assumes "LENGTH('a) = (if o_w o1 then 16 else 8)"
  shows "opr_assign o1 (sint x) st = opr_assign o1 (sint (ucast x :: 'a::len word)) st"
proof -
  have "(word_of_int (sint x) :: 'a word) = ucast x"
    using assms by (intro bit_word_eqI) (auto simp: bit_simps split: if_splits)
  then show ?thesis using opr_assign_word [OF assms, of "sint x" st] by simp
qed

text \<open>An operand with the value \<open>a\<close>, and the mode byte that selects the shift \<open>k\<close>.\<close>

definition shift_operand :: "nat \<Rightarrow> operand \<Rightarrow> 'a::len word \<Rightarrow> int \<Rightarrow> vm \<Rightarrow> bool" where
  "shift_operand k o1 a p st \<longleftrightarrow> LENGTH('a) = (if o_w o1 then 16 else 8) \<and> opr_u o1 st = Inr (uint a) \<and>
     opr_get o1 st = Inr (sint a) \<and> (\<exists>b. code8 (p + 1) st = Inr b \<and> reg_field b = k)"

lemma shift_operandD:
  assumes "shift_operand k o1 (a :: 'a::len word) p st"
  shows "LENGTH('a) = (if o_w o1 then 16 else 8)" "Suc 0 < LENGTH('a)" "LENGTH('a) < 32" "opr_u o1 st = Inr (uint a)"
    "opr_get o1 st = Inr (sint a)" "\<exists>b. code8 (p + 1) st = Inr b \<and> reg_field b = k"
  using assms by (auto simp: shift_operand_def split: if_splits)

lemma vm_rol:
  fixes c :: nat
  assumes a: "shift_operand 0 o1 (a :: 'a::len word) p st"
  defines "cf \<equiv> (if c = 0 then v_CF st else bit (word_rotl c a) 0)"
  shows "vm_shift o1 c p st = opr_assign o1 (sint (word_rotl c a)) (st\<lparr>v_CF := cf, v_OF := cf \<noteq> bit (word_rotl c a) (LENGTH('a) - 1)\<rparr>)"
proof -
  note D = shift_operandD [OF a]
  let ?x = "ucast a :: u32"
  obtain val cf' where r: "rol_loop c (2 ^ (LENGTH('a) - 1)) ?x (v_CF st) = (val, cf')" by fastforce
  have u: "(ucast ?x :: 'a word) = a" using D(3) by (intro bit_word_eqI) (auto simp: bit_simps)
  have v: "ucast val = word_rotl c a" "cf' = cf"
    using rol_loop_word [OF D(2,3), of c ?x "v_CF st"] unfolding r u cf_def by simp_all
  have t: "val AND 2 ^ (LENGTH('a) - 1) = 0 \<longleftrightarrow> \<not> bit (word_rotl c a) (LENGTH('a) - 1)"
    using D(2,3) and_exp_neq_0 [of val "LENGTH('a) - 1"] unfolding v(1) [symmetric] by (auto simp: bit_simps)
  show ?thesis
    using D(4,6) by (auto simp: vm_shift_def Let_def top_bit_eq [OF D(1)] r opr_assign_ucast [OF D(1)] v t simp del: One_nat_def)
qed

lemma vm_ror:
  fixes c :: nat
  assumes a: "shift_operand 1 o1 (a :: 'a::len word) p st"
  defines "cf \<equiv> (if c = 0 then v_CF st else bit (word_rotr c a) (LENGTH('a) - 1))"
  shows "vm_shift o1 c p st = opr_assign o1 (sint (word_rotr c a)) (st\<lparr>v_CF := cf, v_OF := cf \<noteq> bit (word_rotr c a) (LENGTH('a) - 2)\<rparr>)"
proof -
  note D = shift_operandD [OF a]
  have r: "ror_loop c (2 ^ (LENGTH('a) - 1)) (ucast a) (v_CF st) = (ucast (word_rotr c a), cf)"
    unfolding ror_loop_word [OF D(2,3)] cf_def ..
  have u: "ucast (ucast (word_rotr c a) :: u32) = word_rotr c a"
    using D(3) by (intro bit_word_eqI) (auto simp: bit_simps)
  have m: "drop_bit 1 (2 ^ (LENGTH('a) - 1) :: u32) = 2 ^ (LENGTH('a) - 2)"
    using D(1) by (cases "o_w o1") simp_all
  have t: "(ucast (word_rotr c a) :: u32) AND 2 ^ (LENGTH('a) - 2) = 0 \<longleftrightarrow> \<not> bit (word_rotr c a) (LENGTH('a) - 2)"
    using D(2,3) and_exp_neq_0 [of "ucast (word_rotr c a) :: u32" "LENGTH('a) - 2"] by (auto simp: bit_unsigned_iff)
  show ?thesis
    using D(4,6) by (auto simp: vm_shift_def Let_def top_bit_eq [OF D(1)] r m opr_assign_ucast [OF D(1)] u t simp del: One_nat_def)
qed

text \<open>\<open>shl\<close>, \<open>shr\<close> and \<open>sar\<close> set the flags of their result and keep \<open>AF\<close>.\<close>

lemma set_flags_result:
  assumes "LENGTH('a) = (if w then 16 else 8)" "word_of_int x = (r :: 'a::len word)"
  shows "(set_flags w x st)\<lparr>v_CF := cf, v_OF := ovf\<rparr> = arith_flags cf (v_AF st) ovf r st"
  using set_flags_word [OF assms(1), where x = x and st = st and af = "v_AF st" and cf = "v_CF st"] assms(2)
  by (cases st) (simp add: arith_flags_def)

lemma shift_result:
  assumes "LENGTH('a) = (if o_w o1 then 16 else 8)" "word_of_int x = (r :: 'a::len word)"
  shows "bindE (opr_assign o1 x (set_flags (o_w o1) x st)) (\<lambda>st. Inr (st\<lparr>v_CF := cf, v_OF := ovf\<rparr>)) =
    opr_assign o1 (sint r) (arith_flags cf (v_AF st) ovf r st)"
  unfolding opr_assign_flags set_flags_result [OF assms] using opr_assign_word [OF assms(1), of x] assms(2) by simp

lemma vm_shl:
  assumes a: "shift_operand 4 o1 (a :: 'a::len word) p st" and c: "0 < c" "c < 32"
  shows "vm_shift o1 c p st = opr_assign o1 (sint (push_bit c a))
    (arith_flags (c \<le> LENGTH('a) \<and> bit a (LENGTH('a) - c)) (v_AF st)
      ((c \<le> LENGTH('a) \<and> bit a (LENGTH('a) - c)) \<noteq> bit (push_bit c a) (LENGTH('a) - 1)) (push_bit c a) st)"
proof -
  note D = shift_operandD [OF a]
  let ?val = "push_bit c (ucast a :: u32)"
  have r: "word_of_int (sint ?val) = push_bit c a"
    using D(3) by (intro bit_word_eqI) (auto simp: bit_simps min_def)
  have cf: "?val AND push_bit 1 (top_bit (o_w o1)) \<noteq> 0 \<longleftrightarrow> c \<le> LENGTH('a) \<and> bit a (LENGTH('a) - c)"
    using D(1,3) and_exp_neq_0 [of ?val "LENGTH('a)"] by (cases "o_w o1") (auto simp: top_bit_def bit_simps)
  have t: "?val AND top_bit (o_w o1) = 0 \<longleftrightarrow> \<not> bit (push_bit c a) (LENGTH('a) - 1)"
    using D(2,3) and_exp_neq_0 [of ?val "LENGTH('a) - 1"] unfolding top_bit_eq [OF D(1)] by (auto simp: bit_simps)
  have "vm_shift o1 c p st = bindE (opr_assign o1 (sint ?val) (set_flags (o_w o1) (sint ?val) st)) (\<lambda>st.
      Inr (st\<lparr>v_CF := ?val AND push_bit 1 (top_bit (o_w o1)) \<noteq> 0,
        v_OF := (?val AND push_bit 1 (top_bit (o_w o1)) \<noteq> 0) = (?val AND top_bit (o_w o1) = 0)\<rparr>))"
    using D(4,6) c by (auto simp: vm_shift_def Let_def)
  then show ?thesis unfolding cf t shift_result [OF D(1) r] by simp
qed

lemma and_1_drop_uint: "drop_bit n (uint a) AND 1 \<noteq> 0 \<longleftrightarrow> bit a n" for a :: "'a::len word"
proof -
  have "drop_bit n (uint a) AND 1 \<noteq> 0 \<longleftrightarrow> bit (uint a) n" by (simp add: bit_iff_odd_drop_bit and_one_eq odd_iff_mod_2_eq_one)
  then show ?thesis by (auto simp: bit_uint_iff dest: bit_imp_le_length)
qed

lemma vm_shr:
  assumes a: "shift_operand 5 o1 (a :: 'a::len word) p st" and c: "0 < c" "c < 32"
  shows "vm_shift o1 c p st = opr_assign o1 (sint (drop_bit c a))
    (arith_flags (bit a (c - 1)) (v_AF st) (c = 1 \<and> bit a (LENGTH('a) - 1)) (drop_bit c a) st)"
proof -
  note D = shift_operandD [OF a]
  let ?val = "drop_bit (c - 1) (uint a)"
  have x: "drop_bit 1 ?val = drop_bit c (uint a)" using c by (simp add: drop_bit_drop_bit)
  have r: "word_of_int (drop_bit 1 ?val) = drop_bit c a"
    unfolding x by (intro bit_word_eqI) (auto simp: bit_simps)
  have cf: "?val AND 1 \<noteq> 0 \<longleftrightarrow> bit a (c - 1)" by (rule and_1_drop_uint)
  have t: "?val AND uint (top_bit (o_w o1)) \<noteq> 0 \<longleftrightarrow> c = 1 \<and> bit a (LENGTH('a) - 1)"
  proof -
    have "uint (top_bit (o_w o1)) = 2 ^ (LENGTH('a) - 1)" using D(1) by (cases "o_w o1") (simp_all add: top_bit_def)
    moreover have "?val AND 2 ^ n \<noteq> 0 \<longleftrightarrow> bit ?val n" for n
      by (simp add: and_exp_eq_0_iff_not_bit)
    ultimately show ?thesis using c D(2) by (cases "c = 1") (auto simp: bit_simps dest!: bit_imp_le_length)
  qed
  have "vm_shift o1 c p st = bindE (opr_assign o1 (drop_bit 1 ?val) (set_flags (o_w o1) (drop_bit 1 ?val) st)) (\<lambda>st.
      Inr (st\<lparr>v_CF := ?val AND 1 \<noteq> 0, v_OF := ?val AND uint (top_bit (o_w o1)) \<noteq> 0\<rparr>))"
    using D(4,6) c by (auto simp: vm_shift_def Let_def)
  then show ?thesis unfolding cf t shift_result [OF D(1) r] .
qed

lemma vm_sar:
  assumes a: "shift_operand 7 o1 (a :: 'a::len word) p st" and c: "0 < c" "c < 32"
  shows "vm_shift o1 c p st = opr_assign o1 (sint (signed_drop_bit c a))
    (arith_flags (bit (sint a) (c - 1)) (v_AF st) False (signed_drop_bit c a) st)"
proof -
  note D = shift_operandD [OF a]
  let ?val = "drop_bit (c - 1) (sint a)"
  have x: "drop_bit 1 ?val = drop_bit c (sint a)" using c by (simp add: drop_bit_drop_bit)
  have r: "word_of_int (drop_bit 1 ?val) = signed_drop_bit c a"
  proof (unfold x, rule bit_word_eqI)
    fix n assume "n < LENGTH('a)"
    moreover have "c + n = LENGTH('a) - Suc 0 \<or> LENGTH('a) - c \<le> n \<or> c + n < LENGTH('a) - Suc 0" by arith
    ultimately show "bit (word_of_int (drop_bit c (sint a)) :: 'a word) n = bit (signed_drop_bit c a) n"
      by (elim disjE) (auto simp: bit_simps min_def)
  qed
  have cf: "?val AND 1 \<noteq> 0 \<longleftrightarrow> bit (sint a) (c - 1)" by (simp add: bit_iff_odd_drop_bit and_one_eq odd_iff_mod_2_eq_one)
  have "vm_shift o1 c p st = bindE (opr_assign o1 (drop_bit 1 ?val) (set_flags (o_w o1) (drop_bit 1 ?val) st)) (\<lambda>st.
      Inr (st\<lparr>v_CF := ?val AND 1 \<noteq> 0, v_OF := False\<rparr>))"
    using D(4,5,6) c by (auto simp: vm_shift_def Let_def)
  then show ?thesis unfolding cf shift_result [OF D(1) r] .
qed

end
