(* ===== verification/Emu_Mul.thy ===== *)
theory Emu_Mul
  imports Emu_Run
begin

text \<open>
  The multiplications and divisions of the emulator for words: products and quotients of the
  numbers that the registers hold.
\<close>

text \<open>The number in \<open>DX:AX\<close>, unsigned and signed.\<close>

definition udxax :: "vm \<Rightarrow> int" where
  "udxax st = uint (v_r st DX) * 2 ^ 16 + uint (v_r st AX)"

definition sdxax :: "vm \<Rightarrow> int" where
  "sdxax st = sint (v_r st DX) * 2 ^ 16 + uint (v_r st AX)"

lemma regs_neq [simp]: "AX \<noteq> DX" "DX \<noteq> AX" by (simp_all add: reg_defs)

lemma u16_range: "0 \<le> uint a" "uint a < 65536" "- 32768 \<le> sint a" "sint a < 32768" for a :: u16
  using uint_ge_0 [of a] unsigned_less [of a, where 'a = int] sint_ge [of a] sint_lt [of a] by simp_all

lemma ux_sint: "ux True (sint a) = uint a" for a :: u16
  by (simp add: ux_def uint_sint)

lemma uint_wi: "0 \<le> x \<Longrightarrow> x < 65536 \<Longrightarrow> uint (word_of_int x :: u16) = x"
  by (simp add: unsigned_of_int take_bit_int_eq_self)

lemma sint_wi: "- 32768 \<le> x \<Longrightarrow> x < 32768 \<Longrightarrow> sint (word_of_int x :: u16) = x"
  by (simp add: signed_of_int signed_take_bit_int_eq_self)

lemma wi_neq_0: "- 32768 \<le> x \<Longrightarrow> x < 32768 \<Longrightarrow> (word_of_int x :: u16) \<noteq> 0 \<longleftrightarrow> x \<noteq> 0"
  using sint_wi [of x] signed_eq_0_iff [of "word_of_int x :: u16", where 'a = int] by auto

lemma product_bound: "- 32768 \<le> x \<Longrightarrow> x < 32768 \<Longrightarrow> - 32768 \<le> y \<Longrightarrow> y < 32768 \<Longrightarrow> \<bar>x * y\<bar> \<le> 1073741824" for x y :: int
  using mult_mono [of "\<bar>x\<bar>" 32768 "\<bar>y\<bar>" 32768] by (simp add: abs_mult abs_le_iff)

lemma quotient_less: "x div u < n" if "0 < u" "x < n * u" for x u n :: int
proof (rule ccontr)
  assume "\<not> x div u < n"
  then have "n * u \<le> x div u * u" using that(1) by (intro mult_right_mono) auto
  moreover have "x div u * u + x mod u = x" "0 \<le> x mod u" using that(1) by simp_all
  ultimately show False using that(2) by linarith
qed

lemma mul16_eq:
  assumes "opr_get o1 st = Inr (sint (a :: u16))"
  shows "\<exists>st'. vm_mul16 o1 st = Inr st' \<and> udxax st' = uint (v_r st AX) * uint a \<and>
    v_CF st' = (65536 \<le> uint (v_r st AX) * uint a) \<and> v_OF st' = v_CF st'"
proof -
  define v where "v = uint (v_r st AX) * uint a"
  have v: "0 \<le> v" "v < 65536 * 65536"
    using u16_range [of a] u16_range [of "v_r st AX"] mult_strict_mono [of "uint (v_r st AX)" 65536 "uint a" 65536] by (simp_all add: v_def)
  then have d: "0 \<le> v div 65536" "v div 65536 < 65536" by auto
  have lo: "uint (v_r st AX * a) = v mod 65536" by (simp add: v_def uint_word_ariths)
  have c: "(word_of_int (v div 65536) :: u16) \<noteq> 0 \<longleftrightarrow> 65536 \<le> v"
    using uint_wi [OF d] v by (auto simp: unsigned_eq_0_iff pos_imp_zdiv_nonneg_iff simp flip: unsigned_eq_0_iff [where 'a = int])
  show ?thesis
    using uint_wi [OF d] c by (simp add: vm_mul16_def assms Let_def ux_sint udxax_def set_r_def lo flip: v_def)
qed

lemma imul16_eq:
  assumes "opr_get o1 st = Inr (sint (a :: u16))"
  shows "\<exists>st'. vm_imul16 o1 st = Inr st' \<and> sdxax st' = sint (v_r st AX) * sint a \<and>
    v_CF st' = (\<not> (0 \<le> sint (v_r st AX) * sint a \<and> sint (v_r st AX) * sint a < 65536)) \<and> v_OF st' = v_CF st'"
proof -
  define v where "v = sint (v_r st AX) * sint a"
  have v: "\<bar>v\<bar> \<le> 1073741824"
    using product_bound [of "sint (v_r st AX)" "sint a"] u16_range [of a] u16_range [of "v_r st AX"] by (simp add: v_def)
  then have d: "- 32768 \<le> v div 65536" "v div 65536 < 32768" by auto
  have "v_r st AX * a = word_of_int v" by (simp add: v_def)
  then have lo: "uint (v_r st AX * a) = v mod 65536" by (simp add: unsigned_of_int take_bit_eq_mod)
  have c: "(word_of_int (v div 65536) :: u16) \<noteq> 0 \<longleftrightarrow> \<not> (0 \<le> v \<and> v < 65536)"
    using wi_neq_0 [OF d] v by (auto simp: div_eq_0_iff)
  show ?thesis
    using sint_wi [OF d] c by (simp add: vm_imul16_def assms Let_def sdxax_def set_r_def lo flip: v_def)
qed

lemma div16_eq:
  assumes "opr_get o1 st = Inr (sint (a :: u16))"
  shows "vm_div16 o1 st = (if a = 0 then Inl Divide_trap
    else Inr (set_r DX (word_of_int (udxax st mod uint a)) (set_r AX (word_of_int (udxax st div uint a)) st)))"
  by (simp add: vm_div16_def assms ux_sint udxax_def unsigned_eq_0_iff Let_def)

lemma div16_exact:
  assumes "opr_get o1 st = Inr (sint (a :: u16))" "v_r st DX < a"
  shows "\<exists>st'. vm_div16 o1 st = Inr st' \<and> udxax st = uint (v_r st' AX) * uint a + uint (v_r st' DX) \<and> v_r st' DX < a"
proof -
  have a: "0 < uint a" "uint (v_r st DX) < uint a" "a \<noteq> 0"
    using assms(2) by (auto simp: word_less_def u16_range intro: le_less_trans [OF u16_range(1)])
  have x: "0 \<le> udxax st" "udxax st < 65536 * uint a"
    using a u16_range [of "v_r st AX"] u16_range [of "v_r st DX"] by (simp_all add: udxax_def)
  then have q: "0 \<le> udxax st div uint a" "udxax st div uint a < 65536"
    using a by (auto simp: pos_imp_zdiv_nonneg_iff intro: quotient_less)
  have r: "0 \<le> udxax st mod uint a" "udxax st mod uint a < uint a" "udxax st mod uint a < 65536"
    using a u16_range(2) [of a] pos_mod_bound [of "uint a" "udxax st"] by (simp_all, linarith)
  show ?thesis
    using a(3) r(2) by (simp add: div16_eq [OF assms(1)] set_r_def uint_wi [OF q] uint_wi [OF r(1,3)] word_less_def)
qed

lemma idiv16_exact:
  assumes "opr_get o1 st = Inr (sint (a :: u16))" "a \<noteq> 0" "\<bar>sdxax st\<bar> < 32768 * \<bar>sint a\<bar>"
  shows "\<exists>st'. vm_idiv16 o1 st = Inr st' \<and> sdxax st = sint (v_r st' AX) * sint a + sint (v_r st' DX) \<and>
    \<bar>sint (v_r st' DX)\<bar> < \<bar>sint a\<bar> \<and> (sint (v_r st' DX) \<noteq> 0 \<longrightarrow> sgn (sint (v_r st' DX)) = sgn (sdxax st))"
proof -
  have a: "sint a \<noteq> 0" using assms(2) by (simp add: signed_eq_0_iff)
  define q where "q = sdxax st sdiv sint a"
  define r where "r = sdxax st smod sint a"
  have "\<bar>q\<bar> = \<bar>sdxax st\<bar> div \<bar>sint a\<bar>"
    using a by (cases "sdxax st = 0") (simp_all add: q_def signed_divide_int_def abs_mult abs_sgn_eq pos_imp_zdiv_nonneg_iff)
  also have "\<dots> < 32768" using a assms(3) by (intro quotient_less) simp_all
  finally have q: "- 32768 \<le> q" "q < 32768" by auto
  have e: "sdxax st = q * sint a + r" unfolding q_def r_def by (rule sdiv_mult_smod_eq [symmetric])
  have r: "\<bar>r\<bar> < \<bar>sint a\<bar>"
    using smod_int_range [OF a, of "sdxax st"] by (simp flip: r_def, arith)
  have s: "r \<noteq> 0 \<longrightarrow> sgn r = sgn (sdxax st)"
  proof -
    define m where "m = \<bar>sdxax st\<bar> mod \<bar>sint a\<bar>"
    have "0 \<le> m" unfolding m_def using a by (intro pos_mod_sign) simp
    moreover have "r = sgn (sdxax st) * m" by (simp add: r_def smod_int_alt_def m_def)
    ultimately show ?thesis by (auto simp: sgn_mult sgn_if split: if_splits)
  qed
  from r have r': "- 32768 \<le> r" "r < 32768" using u16_range [of a] by linarith+
  have "\<not> (sdxax st = - (2 ^ 31) \<and> sint a = -1)" using assms(3) by auto
  then have "vm_idiv16 o1 st = Inr (set_r DX (word_of_int r) (set_r AX (word_of_int q) st))"
    using a by (simp add: vm_idiv16_def assms(1) sdxax_def q_def r_def Let_def)
  then show ?thesis
    using e r s by (simp add: set_r_def sint_wi [OF q] sint_wi [OF r'])
qed

end
