(* ===== verification/Emu_Dis.thy ===== *)
theory Emu_Dis
  imports Emu_Run
begin

text \<open>
  The disassembler of the emulator: \<open>disasm1\<close> (\<open>7run/i8086/disasm.cpp\<close>), the operands and
  instructions as text (\<open>Operand.cpp\<close>, \<open>OpCode.cpp\<close>) and the listing (\<open>disasm\<close>, \<open>disout\<close>). The
  text is a memory of 64 kilobytes, as the machine has it.
\<close>

section \<open>Instructions\<close>

record emu_op =
  op_prefix :: "string option"
  op_len :: nat
  op_mne :: string
  op_1 :: operand
  op_2 :: operand

definition mk_opr :: "int \<Rightarrow> bool \<Rightarrow> optype \<Rightarrow> int \<Rightarrow> operand" where
  "mk_opr len w t v = \<lparr>o_len = len, o_w = w, o_type = t, o_value = v, o_addr = None, o_seg = -1\<rparr>"

definition noopr :: operand where "noopr = mk_opr (-1) False Reg 0"
definition opr_dx :: operand where "opr_dx = mk_opr 0 True Reg 2"
definition opr_cl :: operand where "opr_cl = mk_opr 0 False Reg 1"
definition opr_es :: operand where "opr_es = mk_opr 0 True SReg 0"
definition opr_cs :: operand where "opr_cs = mk_opr 0 True SReg 1"
definition opr_ss :: operand where "opr_ss = mk_opr 0 True SReg 2"
definition opr_ds :: operand where "opr_ds = mk_opr 0 True SReg 3"

definition opr_empty :: "operand \<Rightarrow> bool" where
  "opr_empty p \<longleftrightarrow> o_len p < 0"

definition undefop :: emu_op where
  "undefop = \<lparr>op_prefix = None, op_len = 1, op_mne = ''(undefined)'', op_1 = noopr, op_2 = noopr\<rparr>"

text \<open>\<open>getop\<close> with two operands, and the one for prefixes.\<close>

definition getop :: "nat \<Rightarrow> string \<Rightarrow> operand \<Rightarrow> operand \<Rightarrow> emu_op" where
  "getop len mne o1 o2 = \<lparr>op_prefix = None, op_len = len, op_mne = mne, op_1 = o1, op_2 = o2\<rparr>"

definition getop_prefix :: "string \<Rightarrow> operand \<Rightarrow> emu_op" where
  "getop_prefix mne p = \<lparr>op_prefix = Some mne, op_len = 1, op_mne = mne, op_1 = noopr, op_2 = p\<rparr>"

abbreviation getop0 :: "nat \<Rightarrow> string \<Rightarrow> emu_op" where "getop0 len mne \<equiv> getop len mne noopr noopr"
abbreviation getop1 :: "nat \<Rightarrow> string \<Rightarrow> operand \<Rightarrow> emu_op" where "getop1 len mne p \<equiv> getop len mne p noopr"

section \<open>Operands\<close>

definition dis_reg :: "nat \<Rightarrow> bool \<Rightarrow> operand" where "dis_reg r w = mk_opr 0 w Reg (int r)"
definition opr_imm16 :: "u16 \<Rightarrow> operand" where "opr_imm16 v = mk_opr 2 True Imm (uint v)"
definition opr_imm8 :: "byte \<Rightarrow> operand" where "opr_imm8 v = mk_opr 1 False Imm (uint v)"
definition dis_far :: "u32 \<Rightarrow> operand" where "dis_far a = mk_opr 4 False Far (sint a)"
definition dis_ptr :: "u16 \<Rightarrow> bool \<Rightarrow> operand" where "dis_ptr a w = mk_opr 2 w Ptr (uint a)"

text \<open>The targets of jumps; \<open>a\<close> is the address of the displacement.\<close>

definition disp8 :: "byte \<Rightarrow> u16 \<Rightarrow> operand" where
  "disp8 d a = mk_opr 1 False Addr (uint (a + 1 + scast d))"

definition disp16 :: "u16 \<Rightarrow> u16 \<Rightarrow> operand" where
  "disp16 d a = mk_opr 2 True Addr (uint (a + 2 + d))"

text \<open>The operand of the mode byte; \<open>o_len\<close> counts the mode byte and the displacement.\<close>

definition dis_modrm :: "memory \<Rightarrow> int \<Rightarrow> bool \<Rightarrow> vm_error + operand" where
  "dis_modrm mem p w =
     bindE (mem8 mem (p + 1)) (\<lambda>b.
       let m = drop_bit 6 b; rm = unat (b AND 7)
       in if m = 0 then
            if rm = 6 then bindE (mem16 mem (p + 2)) (\<lambda>a. Inr (mk_opr 3 w Ptr (uint a)))
            else Inr (mk_opr 1 w (ModRM rm) 0)
          else if m = 1 then bindE (mem8 mem (p + 2)) (\<lambda>d. Inr (mk_opr 2 w (ModRM rm) (sint d)))
          else if m = 2 then bindE (mem16 mem (p + 2)) (\<lambda>d. Inr (mk_opr 3 w (ModRM rm) (sint d)))
          else Inr (mk_opr 1 w Reg (int rm)))"

definition modrm_op :: "memory \<Rightarrow> int \<Rightarrow> string \<Rightarrow> bool \<Rightarrow> vm_error + emu_op" where
  "modrm_op mem p mne w = bindE (dis_modrm mem p w) (\<lambda>x. Inr (getop1 (nat (1 + o_len x)) mne x))"

text \<open>\<open>regrm\<close>; the width 2 stands for a segment register.\<close>

definition regrm_op :: "memory \<Rightarrow> int \<Rightarrow> string \<Rightarrow> bool \<Rightarrow> nat \<Rightarrow> vm_error + emu_op" where
  "regrm_op mem p mne d w =
     bindE (modrm_op mem p mne (w \<noteq> 0)) (\<lambda>op.
     bindE (mem8 mem (p + 1)) (\<lambda>b.
       let r = (if w = 2 then mk_opr 0 True SReg (uint (drop_bit 3 b AND 3)) else mk_opr 0 (w \<noteq> 0) Reg (int (reg_field b)))
       in Inr (if d then op\<lparr>op_1 := r, op_2 := op_1 op\<rparr> else op\<lparr>op_2 := r\<rparr>)))"

text \<open>An immediate operand of the width \<open>w\<close> at \<open>p\<close>.\<close>

definition dis_imm :: "memory \<Rightarrow> int \<Rightarrow> bool \<Rightarrow> vm_error + operand" where
  "dis_imm mem p w = (if w then bindE (mem16 mem p) (\<lambda>x. Inr (opr_imm16 x)) else bindE (mem8 mem p) (\<lambda>x. Inr (opr_imm8 x)))"

definition aimm_op :: "memory \<Rightarrow> int \<Rightarrow> string \<Rightarrow> bool \<Rightarrow> vm_error + emu_op" where
  "aimm_op mem p mne w = bindE (dis_imm mem (p + 1) w) (\<lambda>x. Inr (getop (2 + of_bool w) mne (dis_reg 0 w) x))"

text \<open>An immediate operand behind the mode byte, of an instruction that starts at \<open>p\<close>.\<close>

definition add_imm :: "memory \<Rightarrow> int \<Rightarrow> bool \<Rightarrow> emu_op \<Rightarrow> vm_error + emu_op" where
  "add_imm mem p w op =
     bindE (dis_imm mem (p + int (op_len op)) w) (\<lambda>x. Inr (op\<lparr>op_2 := x, op_len := op_len op + nat (o_len x)\<rparr>))"

definition far_op :: "memory \<Rightarrow> int \<Rightarrow> string \<Rightarrow> vm_error + emu_op" where
  "far_op mem p mne =
     bindE (mem16 mem (p + 1)) (\<lambda>lo. bindE (mem16 mem (p + 3)) (\<lambda>hi.
       Inr (getop1 5 mne (dis_far (ucast lo OR push_bit 16 (ucast hi))))))"

section \<open>The mnemonics\<close>

definition mne_alu :: "string list" where
  "mne_alu = [''add'', ''or'', ''adc'', ''sbb'', ''and'', ''sub'', ''xor'', ''cmp'']"

definition mne_jcc :: "string list" where
  "mne_jcc = [''jo'', ''jno'', ''jb'', ''jnb'', ''je'', ''jne'', ''jbe'', ''jnbe'',
     ''js'', ''jns'', ''jp'', ''jnp'', ''jl'', ''jnl'', ''jle'', ''jnle'']"

definition mne_shift :: "string option list" where
  "mne_shift = [Some ''rol'', Some ''ror'', Some ''rcl'', Some ''rcr'', Some ''shl'', Some ''shr'', None, Some ''sar'']"

definition mne_f6 :: "string option list" where
  "mne_f6 = [Some ''test'', None, Some ''not'', Some ''neg'', Some ''mul'', Some ''imul'', Some ''div'', Some ''idiv'']"

definition mne_ff :: "string option list" where
  "mne_ff = [Some ''inc'', Some ''dec'', Some ''call'', Some ''callf'', Some ''jmp'', Some ''jmpf'', Some ''push'', None]"

section \<open>The opcodes\<close>

text \<open>
  The cases of the \<open>switch\<close>, grouped by the opcode; \<open>p\<close> is its address as a number, \<open>a\<close> the
  argument \<open>addr\<close>. Opcodes below 0x40: eight rows of the same shape.
\<close>

definition dis_arith :: "memory \<Rightarrow> int \<Rightarrow> byte \<Rightarrow> vm_error + emu_op" where
  "dis_arith mem p b =
     (let k = unat (b AND 7); mne = mne_alu ! reg_field b
      in if k < 4 then regrm_op mem p mne (bit b 1) (of_bool (bit b 0))
         else if k < 6 then aimm_op mem p mne (bit b 0)
         else Inr
           (if b = 0x06 then getop1 1 ''push'' opr_es
            else if b = 0x07 then getop1 1 ''pop'' opr_es
            else if b = 0x0e then getop1 1 ''push'' opr_cs
            else if b = 0x16 then getop1 1 ''push'' opr_ss
            else if b = 0x17 then getop1 1 ''pop'' opr_ss
            else if b = 0x1e then getop1 1 ''push'' opr_ds
            else if b = 0x1f then getop1 1 ''pop'' opr_ds
            else if b = 0x26 then getop_prefix ''es:'' opr_es
            else if b = 0x27 then getop0 1 ''daa''
            else if b = 0x2e then getop_prefix ''cs:'' opr_cs
            else if b = 0x2f then getop0 1 ''das''
            else if b = 0x36 then getop_prefix ''ss:'' opr_ss
            else if b = 0x37 then getop0 1 ''aaa''
            else if b = 0x3e then getop_prefix ''ds:'' opr_ds
            else if b = 0x3f then getop0 1 ''aas''
            else undefop))"

text \<open>0x40 .. 0x5f\<close>

definition dis_reg1 :: "byte \<Rightarrow> emu_op" where
  "dis_reg1 b = getop1 1 (if b < 0x48 then ''inc'' else if b < 0x50 then ''dec'' else if b < 0x58 then ''push'' else ''pop'')
     (dis_reg (unat (b AND 7)) True)"

text \<open>The short jumps: two bytes, the displacement in the second.\<close>

definition dis_jump8 :: "memory \<Rightarrow> int \<Rightarrow> u16 \<Rightarrow> string \<Rightarrow> vm_error + emu_op" where
  "dis_jump8 mem p a mne = bindE (mem8 mem (p + 1)) (\<lambda>d. Inr (getop1 2 mne (disp8 d (a + 1))))"

definition dis_jump16 :: "memory \<Rightarrow> int \<Rightarrow> u16 \<Rightarrow> string \<Rightarrow> vm_error + emu_op" where
  "dis_jump16 mem p a mne = bindE (mem16 mem (p + 1)) (\<lambda>d. Inr (getop1 3 mne (disp16 d (a + 1))))"

text \<open>0x80 .. 0x83: the immediate operand has the sign extended for 0x82 and 0x83.\<close>

definition dis_alu_imm :: "memory \<Rightarrow> int \<Rightarrow> byte \<Rightarrow> vm_error + emu_op" where
  "dis_alu_imm mem p b =
     bindE (mem8 mem (p + 1)) (\<lambda>m.
     bindE (modrm_op mem p (mne_alu ! reg_field m) (bit b 0)) (\<lambda>op.
       if bit b 1 then
         bindE (mem8 mem (p + int (op_len op))) (\<lambda>x.
           Inr (op\<lparr>op_len := op_len op + 1, op_2 := mk_opr 1 False Imm (sint x)\<rparr>))
       else add_imm mem p (bit b 0) op))"

text \<open>0x80 .. 0x8f\<close>

definition dis_80 :: "memory \<Rightarrow> int \<Rightarrow> byte \<Rightarrow> vm_error + emu_op" where
  "dis_80 mem p b =
     (if b < 0x84 then dis_alu_imm mem p b
      else if b < 0x86 then regrm_op mem p ''test'' False (of_bool (bit b 0))
      else if b < 0x88 then regrm_op mem p ''xchg'' False (of_bool (bit b 0))
      else if b < 0x8c then regrm_op mem p ''mov'' (bit b 1) (of_bool (bit b 0))
      else if b = 0x8c then regrm_op mem p ''mov'' False 2
      else if b = 0x8d then regrm_op mem p ''lea'' True 1
      else if b = 0x8e then regrm_op mem p ''mov'' True 2
      else modrm_op mem p ''pop'' True)"

text \<open>0x90 .. 0x9f\<close>

definition dis_90 :: "memory \<Rightarrow> int \<Rightarrow> byte \<Rightarrow> vm_error + emu_op" where
  "dis_90 mem p b =
     (if b = 0x90 then Inr (getop0 1 ''nop'')
      else if b < 0x98 then Inr (getop 1 ''xchg'' (dis_reg (unat (b AND 7)) True) (dis_reg 0 True))
      else if b = 0x9a then far_op mem p ''callf''
      else Inr (getop0 1
        (if b = 0x98 then ''cbw'' else if b = 0x99 then ''cwd'' else if b = 0x9b then ''wait''
         else if b = 0x9c then ''pushf'' else if b = 0x9d then ''popf'' else if b = 0x9e then ''sahf'' else ''lahf'')))"

text \<open>0xa0 .. 0xaf\<close>

definition dis_a0 :: "memory \<Rightarrow> int \<Rightarrow> byte \<Rightarrow> vm_error + emu_op" where
  "dis_a0 mem p b =
     (let w = bit b 0
      in if b < 0xa4 then
           bindE (mem16 mem (p + 1)) (\<lambda>x.
             Inr (if b < 0xa2 then getop 3 ''mov'' (dis_reg 0 w) (dis_ptr x w) else getop 3 ''mov'' (dis_ptr x w) (dis_reg 0 w)))
         else if b = 0xa8 \<or> b = 0xa9 then aimm_op mem p ''test'' w
         else Inr (getop0 1
           (if b = 0xa4 then ''movsb'' else if b = 0xa5 then ''movsw'' else if b = 0xa6 then ''cmpsb''
            else if b = 0xa7 then ''cmpsw'' else if b = 0xaa then ''stosb'' else if b = 0xab then ''stosw''
            else if b = 0xac then ''lodsb'' else if b = 0xad then ''lodsw'' else if b = 0xae then ''scasb'' else ''scasw'')))"

text \<open>0xb0 .. 0xbf\<close>

definition dis_b0 :: "memory \<Rightarrow> int \<Rightarrow> byte \<Rightarrow> vm_error + emu_op" where
  "dis_b0 mem p b =
     (let w = 0xb8 \<le> b
      in bindE (dis_imm mem (p + 1) w) (\<lambda>x. Inr (getop (2 + of_bool w) ''mov'' (dis_reg (unat (b AND 7)) w) x)))"

text \<open>0xc0 .. 0xcf\<close>

definition dis_c0 :: "memory \<Rightarrow> int \<Rightarrow> byte \<Rightarrow> vm_error + emu_op" where
  "dis_c0 mem p b =
     (if b = 0xc2 then bindE (mem16 mem (p + 1)) (\<lambda>x. Inr (getop1 3 ''ret'' (opr_imm16 x)))
      else if b = 0xc3 then Inr (getop0 1 ''ret'')
      else if b = 0xc4 then regrm_op mem p ''les'' True 1
      else if b = 0xc5 then regrm_op mem p ''lds'' True 1
      else if b = 0xc6 \<or> b = 0xc7 then bindE (modrm_op mem p ''mov'' (bit b 0)) (add_imm mem p (bit b 0))
      else if b = 0xca then bindE (mem16 mem (p + 1)) (\<lambda>x. Inr (getop1 3 ''retf'' (opr_imm16 x)))
      else if b = 0xcb then Inr (getop0 1 ''retf'')
      else if b = 0xcc then Inr (getop0 1 ''int3'')
      else if b = 0xcd then bindE (mem8 mem (p + 1)) (\<lambda>x. Inr (getop1 2 ''int'' (opr_imm8 x)))
      else if b = 0xce then Inr (getop0 1 ''into'')
      else if b = 0xcf then Inr (getop0 1 ''iret'')
      else Inr undefop)"

text \<open>0xd0 .. 0xdf\<close>

definition dis_d0 :: "memory \<Rightarrow> int \<Rightarrow> byte \<Rightarrow> vm_error + emu_op" where
  "dis_d0 mem p b =
     (if b < 0xd4 then
        bindE (mem8 mem (p + 1)) (\<lambda>m.
          case mne_shift ! reg_field m of
            None \<Rightarrow> Inr undefop
          | Some mne \<Rightarrow> bindE (modrm_op mem p mne (bit b 0)) (\<lambda>op.
              Inr (op\<lparr>op_2 := if bit b 1 then opr_cl else mk_opr 0 False Imm 1\<rparr>)))
      else if b = 0xd4 then bindE (mem8 mem (p + 1)) (\<lambda>x. Inr (if x = 0x0a then getop0 2 ''aam'' else undefop))
      else if b = 0xd5 then bindE (mem8 mem (p + 1)) (\<lambda>x. Inr (if x = 0x0a then getop0 2 ''aad'' else undefop))
      else if b = 0xd7 then Inr (getop0 1 ''xlat'')
      else Inr undefop)"

text \<open>0xe0 .. 0xef\<close>

definition dis_e0 :: "memory \<Rightarrow> int \<Rightarrow> u16 \<Rightarrow> byte \<Rightarrow> vm_error + emu_op" where
  "dis_e0 mem p a b =
     (let acc = dis_reg 0 (bit b 0)
      in if b = 0xe0 then dis_jump8 mem p a ''loopnz''
         else if b = 0xe1 then dis_jump8 mem p a ''loopz''
         else if b = 0xe2 then dis_jump8 mem p a ''loop''
         else if b = 0xe3 then dis_jump8 mem p a ''jcxz''
         else if b < 0xe6 then bindE (mem8 mem (p + 1)) (\<lambda>x. Inr (getop 2 ''in'' acc (opr_imm8 x)))
         else if b < 0xe8 then bindE (mem8 mem (p + 1)) (\<lambda>x. Inr (getop 2 ''out'' (opr_imm8 x) acc))
         else if b = 0xe8 then dis_jump16 mem p a ''call''
         else if b = 0xe9 then dis_jump16 mem p a ''jmp''
         else if b = 0xea then far_op mem p ''jmpf''
         else if b = 0xeb then dis_jump8 mem p a ''jmp short''
         else if b < 0xee then Inr (getop 1 ''in'' acc opr_dx)
         else Inr (getop 1 ''out'' opr_dx acc))"

text \<open>0xf0 .. 0xff\<close>

definition dis_f0 :: "memory \<Rightarrow> int \<Rightarrow> byte \<Rightarrow> vm_error + emu_op" where
  "dis_f0 mem p b =
     (if b = 0xf0 then Inr (getop_prefix ''lock'' noopr)
      else if b = 0xf2 then Inr (getop_prefix ''repnz'' noopr)
      else if b = 0xf3 then Inr (getop_prefix ''repz'' noopr)
      else if b = 0xf6 \<or> b = 0xf7 then
        bindE (mem8 mem (p + 1)) (\<lambda>m.
          case mne_f6 ! reg_field m of
            None \<Rightarrow> Inr undefop
          | Some mne \<Rightarrow> bindE (modrm_op mem p mne (bit b 0)) (\<lambda>op.
              if reg_field m > 0 then Inr op else add_imm mem p (bit b 0) op))
      else if b = 0xfe \<or> b = 0xff then
        bindE (mem8 mem (p + 1)) (\<lambda>m.
          case mne_ff ! reg_field m of None \<Rightarrow> Inr undefop | Some mne \<Rightarrow> modrm_op mem p mne (bit b 0))
      else Inr
        (if b = 0xf4 then getop0 1 ''hlt'' else if b = 0xf5 then getop0 1 ''cmc'' else if b = 0xf8 then getop0 1 ''clc''
         else if b = 0xf9 then getop0 1 ''stc'' else if b = 0xfa then getop0 1 ''cli'' else if b = 0xfb then getop0 1 ''sti''
         else if b = 0xfc then getop0 1 ''cld'' else if b = 0xfd then getop0 1 ''std'' else undefop))"

definition disasm1 :: "memory \<Rightarrow> u16 \<Rightarrow> vm_error + emu_op" where
  "disasm1 mem a =
     (let p = uint a; b = mem a
      in if b < 0x40 then dis_arith mem p b
         else if b < 0x60 then Inr (dis_reg1 b)
         else if b < 0x70 then Inr undefop
         else if b < 0x80 then dis_jump8 mem p a (mne_jcc ! unat (b AND 15))
         else if b < 0x90 then dis_80 mem p b
         else if b < 0xa0 then dis_90 mem p b
         else if b < 0xb0 then dis_a0 mem p b
         else if b < 0xc0 then dis_b0 mem p b
         else if b < 0xd0 then dis_c0 mem p b
         else if b < 0xe0 then dis_d0 mem p b
         else if b < 0xf0 then dis_e0 mem p a b
         else dis_f0 mem p b)"

text \<open>
  A prefix is joined with the instruction behind it, where both lie in the text: a segment prefix
  with the memory operand, any other one with the mnemonic.
\<close>

definition is_mem :: "operand \<Rightarrow> bool" where
  "is_mem p \<longleftrightarrow> (case o_type p of Ptr \<Rightarrow> True | ModRM _ \<Rightarrow> True | _ \<Rightarrow> False)"

definition disasm1_size :: "memory \<Rightarrow> u16 \<Rightarrow> nat \<Rightarrow> vm_error + emu_op" where
  "disasm1_size mem a sz =
     bindE (disasm1 mem a) (\<lambda>x1.
       let a2 = a + of_nat (op_len x1)
       in if unat a2 > sz then Inr undefop
          else if op_prefix x1 = None then Inr x1
          else bindE (disasm1 mem a2) (\<lambda>x2.
            if op_prefix x2 \<noteq> None \<or> unat a2 + op_len x2 > sz then Inr x1
            else let x2 = x2\<lparr>op_len := op_len x2 + op_len x1\<rparr>
                 in Inr (if \<not> opr_empty (op_2 x1) \<and> is_mem (op_1 x2) then x2\<lparr>op_1 := (op_1 x2)\<lparr>o_seg := o_value (op_2 x1)\<rparr>\<rparr>
                         else if \<not> opr_empty (op_2 x1) \<and> is_mem (op_2 x2) then x2\<lparr>op_2 := (op_2 x2)\<lparr>o_seg := o_value (op_2 x1)\<rparr>\<rparr>
                         else x2\<lparr>op_prefix := op_prefix x1\<rparr>)))"

section \<open>Instructions as text\<close>

definition regs8_names :: "string list" where
  "regs8_names = [''al'', ''cl'', ''dl'', ''bl'', ''ah'', ''ch'', ''dh'', ''bh'']"

definition regs16_names :: "string list" where
  "regs16_names = [''ax'', ''cx'', ''dx'', ''bx'', ''sp'', ''bp'', ''si'', ''di'']"

definition sregs_names :: "string list" where
  "sregs_names = [''es'', ''cs'', ''ss'', ''ds'']"

definition emu_hex :: "int \<Rightarrow> nat \<Rightarrow> string" where
  "emu_hex v len =
     (if v < 0 then ''-'' @ fmt_x 0 (nat (- v)) else if 0 < len \<and> len < 32 then fmt_x len (nat v) else fmt_x 0 (nat v))"

definition emu_hexdump :: "memory \<Rightarrow> u16 \<Rightarrow> nat \<Rightarrow> string" where
  "emu_hexdump mem a len = concat (map (\<lambda>i. fmt_x 2 (unat (mem (a + of_nat i)))) [0..<len])"

definition opr_str :: "operand \<Rightarrow> string" where
  "opr_str p = (case o_type p of
     Reg \<Rightarrow> (if o_w p then regs16_names else regs8_names) ! nat (o_value p)
   | SReg \<Rightarrow> sregs_names ! nat (o_value p)
   | Imm \<Rightarrow> emu_hex (o_value p) (if o_len p = 2 then 4 else 0)
   | Addr \<Rightarrow> emu_hex (o_value p) 4
   | Far \<Rightarrow> emu_hex (take_bit 16 (drop_bit 16 (o_value p))) 4 @ '':'' @ emu_hex (take_bit 16 (o_value p)) 4
   | Ptr \<Rightarrow> ''['' @ (if o_seg p \<ge> 0 then sregs_names ! nat (o_seg p) @ '':'' else []) @ emu_hex (o_value p) 4 @ '']''
   | ModRM n \<Rightarrow> ''['' @ (if o_seg p \<ge> 0 then sregs_names ! nat (o_seg p) @ '':'' else []) @
       [''bx+si'', ''bx+di'', ''bp+si'', ''bp+di'', ''si'', ''di'', ''bp'', ''bx''] ! n @
       (if o_value p > 0 then ''+'' @ emu_hex (o_value p) 0 else if o_value p < 0 then emu_hex (o_value p) 0 else []) @ '']'')"

definition starts_with :: "string \<Rightarrow> string \<Rightarrow> bool" where
  "starts_with s prefix \<longleftrightarrow> length prefix \<le> length s \<and> take (length prefix) s = prefix"

definition op_str :: "emu_op \<Rightarrow> string" where
  "op_str x =
     (let mne = (case op_prefix x of
                   None \<Rightarrow> op_mne x
                 | Some pfx \<Rightarrow>
                     if op_mne x \<noteq> ''cmps'' \<and> op_mne x \<noteq> ''scas'' \<and> starts_with pfx ''rep'' then ''rep '' @ op_mne x
                     else pfx @ '' '' @ op_mne x);
          s1 = (if is_mem (op_1 x) \<and> \<not> o_w (op_1 x) \<and> (opr_empty (op_2 x) \<or> o_type (op_2 x) = Imm) then ''byte '' else []) @
               opr_str (op_1 x)
      in if opr_empty (op_1 x) then mne
         else if opr_empty (op_2 x) then mne @ '' '' @ s1
         else mne @ '' '' @ s1 @ '', '' @ opr_str (op_2 x))"

definition op_undef :: "emu_op \<Rightarrow> bool" where
  "op_undef x \<longleftrightarrow> op_mne x = op_mne undefop"

section \<open>The listing\<close>

text \<open>A field of twelve columns, and the lines of one instruction, six bytes each.\<close>

definition pad12 :: "string \<Rightarrow> string" where
  "pad12 s = s @ replicate (12 - length s) (CHR '' '')"

function disout_from :: "memory \<Rightarrow> u16 \<Rightarrow> nat \<Rightarrow> string \<Rightarrow> nat \<Rightarrow> string" where
  "disout_from mem a len ops i =
     (if len \<le> i then []
      else let h = pad12 (emu_hexdump mem (a + of_nat i) (min 6 (len - i)))
           in (if i = 0 then fmt_x 4 (unat a) @ '': '' @ h @ ''  '' @ ops @ [NL] else ''      '' @ h @ [NL]) @
              disout_from mem a len ops (i + 6))"
  by pat_completeness auto
termination by (relation "measure (\<lambda>(_, _, len, _, i). len - i)") auto

declare disout_from.simps [simp del]

definition disout :: "memory \<Rightarrow> u16 \<Rightarrow> nat \<Rightarrow> string \<Rightarrow> string" where
  "disout mem a len ops = disout_from mem a len ops 0"

text \<open>The symbols of the program: files (\<open>syms[0]\<close>) and other names (\<open>syms[1]\<close>) by their address.\<close>

type_synonym symbols = "int \<Rightarrow> string option"

definition no_symbols :: symbols where
  "no_symbols = (\<lambda>_. None)"

definition showsym :: "symbols \<Rightarrow> symbols \<Rightarrow> u16 \<Rightarrow> string" where
  "showsym s0 s1 a =
     (case s0 (uint a) of None \<Rightarrow> [] | Some n \<Rightarrow> NL # ''['' @ n @ '']'' @ [NL]) @
     (case s1 (uint a) of None \<Rightarrow> [] | Some n \<Rightarrow> n @ '':'' @ [NL])"

definition disstr :: "symbols \<Rightarrow> emu_op \<Rightarrow> string" where
  "disstr s1 x =
     (let note = (\<lambda>p. if o_type p = Addr then (case s1 (o_value p) of None \<Rightarrow> [] | Some n \<Rightarrow> '' ; '' @ n) else [])
      in op_str x @ note (op_1 x) @ note (op_2 x))"

text \<open>
  The listing of the whole text, and the number of undefined instructions; \<open>sz - addr\<close> bounds the
  rounds, since every instruction takes at least one byte.
\<close>

fun disasm_loop :: "nat \<Rightarrow> symbols \<Rightarrow> symbols \<Rightarrow> memory \<Rightarrow> nat \<Rightarrow> nat \<Rightarrow> vm_error + string \<times> nat" where
  "disasm_loop 0 s0 s1 mem sz addr = (if addr < sz then Inl Vm_loops else Inr ([], 0))"
| "disasm_loop (Suc n) s0 s1 mem sz addr =
     (if addr < sz then
        bindE (disasm1_size mem (of_nat addr) sz) (\<lambda>x.
        bindE (disasm_loop n s0 s1 mem sz (addr + op_len x)) (\<lambda>(s, k).
          Inr (showsym s0 s1 (of_nat addr) @ disout mem (of_nat addr) (op_len x) (disstr s1 x) @ s, k + of_bool (op_undef x))))
      else Inr ([], 0))"

text \<open>\<open>VM::disasm\<close>; \<open>i8086::disasm\<close> is the one without symbols.\<close>

definition vm_disasm :: "symbols \<Rightarrow> symbols \<Rightarrow> memory \<Rightarrow> nat \<Rightarrow> vm_error + string" where
  "vm_disasm s0 s1 mem sz =
     bindE (disasm_loop sz s0 s1 mem sz 0) (\<lambda>(s, k).
       Inr (s @ (if k > 0 then ''undefined: '' @ fmt_d (int k) @ [NL] else [])))"

definition emu_disasm :: "memory \<Rightarrow> nat \<Rightarrow> vm_error + string" where
  "emu_disasm = vm_disasm no_symbols no_symbols"

text \<open>The address an operand is at, for the trace of the machine (\<open>VM::addr\<close>).\<close>

definition vm_addr :: "operand \<Rightarrow> vm \<Rightarrow> int" where
  "vm_addr p st = (case opr_addr (o_type p) (o_value p) st of None \<Rightarrow> -1 | Some a \<Rightarrow> uint a)"

end
