(* ===== verification/Emu_Agree.thy ===== *)
theory Emu_Agree
  imports Emu_Dis
begin

text \<open>
  The disassembler of the emulator against its interpreter: an instruction takes as many bytes as
  the disassembler says, and a jump goes where its operand says.
\<close>

section \<open>Where a step ends\<close>

definition ip_is :: "u16 \<Rightarrow> vm_error + vm \<Rightarrow> bool" where
  "ip_is a m \<longleftrightarrow> (\<forall>st'. m = Inr st' \<longrightarrow> v_IP st' = a)"

definition ends_at :: "u16 \<Rightarrow> vm_error + bool \<times> vm \<Rightarrow> bool" where
  "ends_at a m \<longleftrightarrow> (\<forall>st'. m = Inr (True, st') \<longrightarrow> v_IP st' = a)"

named_theorems ip_simps \<open>where the instruction pointer is after a step\<close>

lemma ip_is_Inr [ip_simps]: "ip_is a (Inr st) \<longleftrightarrow> v_IP st = a" "ip_is a (Inl e)"
  by (auto simp: ip_is_def)

lemma ip_is_bind: "(\<And>x. m = Inr x \<Longrightarrow> ip_is a (f x)) \<Longrightarrow> ip_is a (bindE m f)"
  by (cases m) (auto simp: ip_is_def)

lemma ends_at_Inr [ip_simps]: "ends_at a (Inr (c, st)) \<longleftrightarrow> (c \<longrightarrow> v_IP st = a)" "ends_at a (Inl e)"
  by (auto simp: ends_at_def)

lemma ends_at_bind: "(\<And>x. m = Inr x \<Longrightarrow> ends_at a (f x)) \<Longrightarrow> ends_at a (bindE m f)"
  by (cases m) (auto simp: ends_at_def)

lemma ends_at_ret [ip_simps]: "ends_at a (ret_ok m) \<longleftrightarrow> ip_is a m"
  by (auto simp: ret_ok_def ends_at_def ip_is_def error_simps)

lemma IP_simps [ip_simps]:
  "v_IP (set_r i x st) = v_IP st" "v_IP (set_r8 i b st) = v_IP st" "v_IP (vm_write8 a b st) = v_IP st"
  "v_IP (set_flags w v st) = v_IP st" "v_IP (setf y st) = v_IP st" "v_IP (ip_add n st) = v_IP st + word_of_int n"
  "v_IP (step_index i x st) = v_IP st" "v_IP (sub_flags w d s u st) = v_IP st" "v_IP (compare_flags w d s st) = v_IP st"
  by (simp_all add: set_r_def set_r8_def vm_write8_def set_flags_def setf_def ip_add_def step_index_def sub_flags_def
      compare_flags_def Let_def)

lemma IP_adjust [ip_simps]:
  "v_IP (adjust_decimal s st) = v_IP st" "v_IP (adjust_ascii d h st) = v_IP st"
  by (simp_all add: adjust_decimal_def adjust_ascii_def Let_def IP_simps)

lemma ip_assign [ip_simps]:
  "ip_is a (vm_write16 b x st) \<longleftrightarrow> b = 0xffff \<or> v_IP st = a"
  "v_IP st = a \<Longrightarrow> ip_is a (opr_assign p i st)" "v_IP st = a \<Longrightarrow> ip_is a (vm_push x st)"
  by (auto simp: vm_write16_def opr_assign_def vm_push_def Let_def ip_simps split: option.splits)

lemma IP_pop: "vm_pop st = Inr (x, st') \<Longrightarrow> v_IP st' = v_IP st"
  by (auto simp: vm_pop_def error_simps ip_simps)

lemma ip_is_both: "(\<And>d s u. ip_is a (f d s u)) \<Longrightarrow> ip_is a (both o1 o2 st f)"
  by (auto simp: both_def intro!: ip_is_bind)

lemma ip_alu: "v_IP st = a \<Longrightarrow> ip_is a (alu k o1 o2 st)" "v_IP st = a \<Longrightarrow> ip_is a (alu_test o1 o2 st)"
  by (auto simp: alu_def alu_add_def alu_logic_def alu_adc_def alu_sbb_def alu_sub_def alu_cmp_def alu_test_def Let_def ip_simps
      intro!: ip_is_both)

lemma IP_assign: "opr_assign p i st = Inr st' \<Longrightarrow> v_IP st' = v_IP st" "vm_push x st = Inr st' \<Longrightarrow> v_IP st' = v_IP st"
  using ip_assign(2,3) [of st "v_IP st"] by (auto simp: ip_is_def)

lemmas ip_dest = IP_assign IP_pop

lemma ip_shift: "v_IP st = a \<Longrightarrow> ip_is a (vm_shift o1 c p st)"
  by (auto simp: vm_shift_def Let_def ip_simps split: prod.splits intro!: ip_is_bind dest!: ip_dest)

lemma ip_muldiv:
  "v_IP st = a \<Longrightarrow> ip_is a (vm_neg w o1 st)" "v_IP st = a \<Longrightarrow> ip_is a (vm_not o1 st)"
  "v_IP st = a \<Longrightarrow> ip_is a (vm_mul8 o1 st)" "v_IP st = a \<Longrightarrow> ip_is a (vm_imul8 o1 st)"
  "v_IP st = a \<Longrightarrow> ip_is a (vm_div8 o1 st)" "v_IP st = a \<Longrightarrow> ip_is a (vm_idiv8 o1 st)"
  "v_IP st = a \<Longrightarrow> ip_is a (vm_mul16 o1 st)" "v_IP st = a \<Longrightarrow> ip_is a (vm_imul16 o1 st)"
  "v_IP st = a \<Longrightarrow> ip_is a (vm_div16 o1 st)" "v_IP st = a \<Longrightarrow> ip_is a (vm_idiv16 o1 st)"
  by (auto simp: vm_neg_def vm_not_def vm_mul8_def vm_imul8_def vm_div8_def vm_idiv8_def vm_mul16_def vm_imul16_def
      vm_div16_def vm_idiv16_def Let_def ip_simps intro!: ip_is_bind)

text \<open>The string instructions.\<close>

lemma IP_string:
  "movs8 st = Inr st' \<Longrightarrow> v_IP st' = v_IP st" "cmps8 st = Inr st' \<Longrightarrow> v_IP st' = v_IP st"
  "stos8 st = Inr st' \<Longrightarrow> v_IP st' = v_IP st" "lods8 st = Inr st' \<Longrightarrow> v_IP st' = v_IP st"
  "scas8 st = Inr st' \<Longrightarrow> v_IP st' = v_IP st" "movs16 st = Inr st' \<Longrightarrow> v_IP st' = v_IP st"
  "cmps16 st = Inr st' \<Longrightarrow> v_IP st' = v_IP st" "stos16 st = Inr st' \<Longrightarrow> v_IP st' = v_IP st"
  "lods16 st = Inr st' \<Longrightarrow> v_IP st' = v_IP st" "scas16 st = Inr st' \<Longrightarrow> v_IP st' = v_IP st"
  by (auto simp: movs8_def cmps8_def stos8_def lods8_def scas8_def movs16_def cmps16_def stos16_def lods16_def scas16_def
      error_simps ip_simps vm_write16_def split: if_splits)

lemma IP_rep:
  assumes "\<And>st st'. f st = Inr st' \<Longrightarrow> v_IP st' = v_IP st"
  shows "rep_loop n rep cont f st = Inr st' \<Longrightarrow> v_IP st' = v_IP st"
  by (induction n arbitrary: st) (auto simp: error_simps Let_def ip_simps dest!: assms split: if_splits)

lemma ends_string:
  assumes "\<And>st st'. f st = Inr st' \<Longrightarrow> v_IP st' = v_IP st"
  shows "ends_at (v_IP st + 1) (string_op rep cont f st)"
  using IP_rep [of f, OF assms] by (fastforce simp: string_op_def Let_def ip_simps ip_is_def)

section \<open>Operands and lengths\<close>

text \<open>Both read the same operand; the interpreter counts the opcode too.\<close>

lemma modrm_dis:
  "modrm p w st = bindE (dis_modrm (text_mem st) p w) (\<lambda>x. Inr (opr_set (o_type x) w (o_value x) st, 1 + o_len x))"
  by (cases "mem8 (text_mem st) (p + 1)"; cases "mem8 (text_mem st) (p + 2)"; cases "mem16 (text_mem st) (p + 2)")
    (simp_all add: modrm_def dis_modrm_def code8_def code16_def Let_def mk_opr_def)

lemma dis_modrm_len: "dis_modrm mem p w = Inr x \<Longrightarrow> o_len x \<in> {1, 2, 3} \<and> o_type x \<noteq> Addr"
  by (auto simp: dis_modrm_def error_simps Let_def mk_opr_def split: if_splits)

lemma modrm_op_Inr:
  "modrm_op mem p mne w = Inr op \<longleftrightarrow> (\<exists>x. dis_modrm mem p w = Inr x \<and> op = getop1 (nat (1 + o_len x)) mne x)"
  by (auto simp: modrm_op_def error_simps)

lemma text_mem_simps [simp]:
  "text_mem (ip_add n st) = text_mem st" "text_mem (set_r i x st) = text_mem st" "text_mem (set_r8 i y st) = text_mem st"
  "text_mem (set_flags w v st) = text_mem st" "text_mem (st\<lparr>v_CF := c\<rparr>) = text_mem st"
  by (simp_all add: text_mem_def ip_add_def set_r_def set_r8_def set_flags_def Let_def)

text \<open>The low bits of an opcode.\<close>

lemma low3: "unat (b AND 7) = of_bool (bit b 0) + 2 * of_bool (bit b 1) + 4 * of_bool (bit b 2)" for b :: byte
proof -
  have "b AND 7 = take_bit 3 b" by (simp add: take_bit_eq_mask mask_eq_exp_minus_1)
  then have "unat (b AND 7) = take_bit 3 (unat b)" by (simp add: unsigned_take_bit_eq)
  moreover have "even (unat b) \<longleftrightarrow> even b" using bit_unsigned_iff [of b 0, where 'a = nat] by (simp add: bit_0)
  moreover have "bit b (Suc (Suc 0)) = bit b 2" by (simp only: numeral_2_eq_2)
  ultimately show ?thesis
    by (simp add: numeral_3_eq_3 take_bit_Suc_from_most bit_unsigned_iff of_bool_def bit_0)
qed

lemma bit2_low3: "bit b 2 \<longleftrightarrow> \<not> unat (b AND 7) < 4" for b :: byte
  unfolding low3 by auto

lemma modrm_Inr:
  "dis_modrm (text_mem st) p w = Inr y \<Longrightarrow> modrm p w st = Inr (opr_set (o_type y) w (o_value y) st, 1 + o_len y)"
  by (simp add: modrm_dis)

lemma dis_modrm_nat: "dis_modrm mem p w = Inr y \<Longrightarrow> \<exists>k. o_len y = int k"
  using dis_modrm_len [of mem p w y] by (intro exI [of _ "nat (o_len y)"]) auto

lemma ip_regrm:
  assumes "dis_modrm (text_mem st) p w = Inr y" "\<And>o1 o2. ip_is a (f (o1, o2, 1 + o_len y))"
  shows "ip_is a (bindE (regrm p d w st) f)"
  using assms(2) by (cases "code8 (p + 1) st") (simp_all add: regrm_def modrm_Inr [OF assms(1)] Let_def ip_simps)

lemma regrm_op_Inr:
  assumes "regrm_op mem p mne d w = Inr op"
  shows "\<exists>y k. dis_modrm mem p (w \<noteq> 0) = Inr y \<and> o_len y = int k \<and> op_len op = Suc k \<and> op_prefix op = None \<and> o_type (op_1 op) \<noteq> Addr"
proof -
  from assms obtain y where y: "dis_modrm mem p (w \<noteq> 0) = Inr y"
    "op_len op = nat (1 + o_len y) \<and> op_prefix op = None \<and> o_type (op_1 op) \<noteq> Addr"
    by (auto simp: regrm_op_def modrm_op_Inr error_simps Let_def getop_def mk_opr_def dest: dis_modrm_len split: if_splits)
  moreover obtain k where "o_len y = int k" using dis_modrm_nat [OF y(1)] by blast
  ultimately show ?thesis by (auto simp: nat_add_distrib)
qed

lemma aimm_op_Inr:
  "aimm_op mem p mne w = Inr op \<Longrightarrow> op_len op = 2 + of_bool w \<and> op_prefix op = None \<and> o_type (op_1 op) \<noteq> Addr"
  by (auto simp: aimm_op_def error_simps getop_def dis_reg_def mk_opr_def)

lemma ip_aimm: "(\<And>o1 o2. ip_is a (f (o1, o2, 2 + of_bool w))) \<Longrightarrow> ip_is a (bindE (aimm w p st) f)"
  by (auto simp: aimm_def bindE_assoc ip_simps intro!: ip_is_bind)

lemmas dis_opr_defs = getop_def getop_prefix_def undefop_def noopr_def opr_es_def opr_cs_def opr_ss_def opr_ds_def opr_dx_def
  opr_cl_def dis_reg_def opr_imm16_def opr_imm8_def dis_far_def dis_ptr_def mk_opr_def

section \<open>The groups\<close>

text \<open>The step \<open>m\<close> from \<open>st\<close> ends behind the instruction \<open>x\<close>, which is not a jump.\<close>

definition falls_through :: "vm \<Rightarrow> emu_op \<Rightarrow> vm_error + bool \<times> vm \<Rightarrow> bool" where
  "falls_through st x m \<longleftrightarrow> o_type (op_1 x) \<noteq> Addr \<and> ends_at (v_IP st + of_nat (op_len x)) m"

lemma agree_arith:
  assumes "dis_arith (text_mem st) p b = Inr x" "op_prefix x = None"
  shows "falls_through st x (run_arith b p st)"
proof (cases "unat (b AND 7) < 4")
  case True
  then have "\<not> bit b 2" by (simp add: bit2_low3)
  moreover obtain y k where "dis_modrm (text_mem st) p (bit b 0) = Inr y" "o_len y = int k" "op_len x = Suc k" "o_type (op_1 x) \<noteq> Addr"
    using assms True regrm_op_Inr [of "text_mem st" p "mne_alu ! reg_field b" "bit b 1" "of_bool (bit b 0)" x]
    by (auto simp: dis_arith_def Let_def)
  ultimately show ?thesis
    using True by (auto simp: falls_through_def run_arith_def getopr_def ip_simps intro!: ip_regrm ip_alu)
next
  case False
  then have "bit b 2" by (simp add: bit2_low3)
  with False assms show ?thesis
    by (cases "unat (b AND 7) < 6")
      (auto simp: falls_through_def run_arith_def getopr_def dis_arith_def ip_simps Let_def dis_opr_defs
        dest!: aimm_op_Inr intro!: ip_aimm ip_alu split: if_splits)
qed

lemma agree_reg: "falls_through st (dis_reg1 b) (run_reg b st)"
  by (auto simp: falls_through_def dis_reg1_def run_reg_def dis_opr_defs ip_simps Let_def inc_flags_def dec_flags_def
      intro!: ip_is_bind dest!: ip_dest)

lemma add_imm_Inr:
  "add_imm mem p w op = Inr x \<Longrightarrow>
    \<exists>y. dis_imm mem (p + int (op_len op)) w = Inr y \<and> op_len x = op_len op + 1 + of_bool w \<and> op_1 x = op_1 op"
  by (auto simp: add_imm_def dis_imm_def error_simps opr_imm8_def opr_imm16_def mk_opr_def split: if_splits)

lemma agree_alu_imm:
  assumes "dis_alu_imm (text_mem st) p b = Inr x" "b = 0x80 \<or> b = 0x81 \<or> b = 0x83"
  shows "falls_through st x (run_alu_imm b p st)"
proof -
  obtain m y op where m: "mem8 (text_mem st) (p + 1) = Inr m" "dis_modrm (text_mem st) p (bit b 0) = Inr y"
    "op = getop1 (nat (1 + o_len y)) (mne_alu ! reg_field m) y"
    using assms(1) by (auto simp: dis_alu_imm_def error_simps modrm_op_Inr)
  obtain k where k: "o_len y = int k" using dis_modrm_nat [OF m(2)] by blast
  have t: "o_type y \<noteq> Addr" using dis_modrm_len [OF m(2)] by simp
  show ?thesis
    using assms t
    by (auto simp: falls_through_def run_alu_imm_def modrm_Inr [OF m(2)] dis_alu_imm_def modrm_op_def m(1,2) k
        bindE_assoc code8_def opr_set_def error_simps ip_simps Let_def nat_add_distrib getop_def
        dest!: add_imm_Inr intro!: ends_at_bind ip_alu split: if_splits)
qed

lemma falls_regrm:
  assumes "regrm_op (text_mem st) p mne d' w = Inr x"
    "\<And>o1 o2 len. v_IP st + word_of_int len = a \<Longrightarrow> ip_is a (f (o1, o2, len))" "a = v_IP st + of_nat (op_len x)"
  shows "ip_is a (bindE (regrm p d (w \<noteq> 0) st) f)"
proof -
  obtain y k where "dis_modrm (text_mem st) p (w \<noteq> 0) = Inr y" "o_len y = int k" "op_len x = Suc k"
    using regrm_op_Inr [OF assms(1)] by blast
  then show ?thesis using assms(2,3) by (auto intro!: ip_regrm)
qed

lemma falls_modrm:
  assumes "modrm_op (text_mem st) p mne w = Inr x"
    "\<And>o1 len. v_IP st + word_of_int len = a \<Longrightarrow> ip_is a (f (o1, len))" "a = v_IP st + of_nat (op_len x)"
  shows "ip_is a (bindE (modrm p w st) f)"
proof -
  obtain y where y: "dis_modrm (text_mem st) p w = Inr y" "op_len x = nat (1 + o_len y)"
    using assms(1) by (auto simp: modrm_op_Inr getop_def)
  obtain k where "o_len y = int k" using dis_modrm_nat [OF y(1)] by blast
  then show ?thesis using assms(2,3) y by (simp add: modrm_Inr nat_add_distrib)
qed

lemma dis_op1: "regrm_op mem p mne d w = Inr x \<Longrightarrow> o_type (op_1 x) \<noteq> Addr" "modrm_op mem p mne v = Inr x \<Longrightarrow> o_type (op_1 x) \<noteq> Addr"
  using regrm_op_Inr [of mem p mne d w x] by (auto simp: modrm_op_Inr getop_def dest: dis_modrm_len)

lemma ip_moves:
  "v_IP st = a \<Longrightarrow> ip_is a (bindE (opr_get o2 st) (\<lambda>x. opr_assign o1 x st))"
  "v_IP st = a \<Longrightarrow> ip_is a (bindE (opr_get o2 st) (\<lambda>y. bindE (opr_get o1 st) (\<lambda>x. bindE (opr_assign o2 x st) (opr_assign o1 y))))"
  "v_IP st = a \<Longrightarrow> ip_is a (bindE (vm_pop st) (\<lambda>(x, st). opr_assign o1 (uint x) st))"
  by (auto simp: ip_simps intro!: ip_is_bind dest!: ip_dest)

lemma agree_80:
  assumes x: "dis_80 (text_mem st) p b = Inr x" and b: "0x80 \<le> b" "b < 0x90"
  shows "falls_through st x (run_80 b p st)"
proof -
  have cases: "b = 0x80 \<or> b = 0x81 \<or> b = 0x82 \<or> b = 0x83 \<or> b = 0x84 \<or> b = 0x85 \<or> b = 0x86 \<or> b = 0x87 \<or>
      0x88 \<le> b \<and> b \<le> 0x8b \<or> b = 0x8c \<or> b = 0x8d \<or> b = 0x8e \<or> b = 0x8f"
    using b by (simp add: word_less_nat_alt word_le_nat_alt word_unat_eq_iff) arith
  have o1: "o_type (op_1 x) \<noteq> Addr"
    using x unfolding dis_80_def by (auto dest: dis_op1 simp: dis_alu_imm_def error_simps modrm_op_Inr getop_def add_imm_Inr
       dest!: add_imm_Inr dis_modrm_len split: if_splits)
  note fr = falls_regrm [where w = "of_bool (bit b 0)" and st = st and p = p and x = x, simplified]
    falls_regrm [where w = 0 and st = st and p = p and x = x, simplified]
    falls_regrm [where w = 1 and st = st and p = p and x = x, simplified]
  consider "b = 0x80 \<or> b = 0x81 \<or> b = 0x83" | "b = 0x84 \<or> b = 0x85" | "b = 0x86 \<or> b = 0x87" | "0x88 \<le> b \<and> b \<le> 0x8b"
    | "b = 0x82 \<or> b = 0x8c \<or> b = 0x8e" | "b = 0x8d" | "b = 0x8f" using cases by blast
  then show ?thesis
  proof cases
    case 1
    then show ?thesis using x agree_alu_imm [of st p b x] by (auto simp: dis_80_def run_80_def)
  next
    case 2
    then show ?thesis using x o1 by (auto simp: falls_through_def dis_80_def run_80_def ip_simps intro!: fr ip_alu)
  next
    case 3
    then show ?thesis using x o1
      by (auto simp: falls_through_def dis_80_def run_80_def ip_simps Let_def intro!: fr ip_moves)
  next
    case 4
    then have "\<not> b < 0x84" "\<not> b < 0x86" "\<not> b < 0x88" "b < 0x8c" "b \<notin> {0x80, 0x81, 0x83, 0x84, 0x85, 0x86, 0x87}"
      by (simp_all add: word_less_nat_alt word_le_nat_alt word_unat_eq_iff)
    with 4 show ?thesis using x o1
      by (auto simp: falls_through_def dis_80_def run_80_def ip_simps Let_def intro!: fr ip_moves)
  next
    case 5
    then show ?thesis using o1 by (auto simp: falls_through_def run_80_def ip_simps)
  next
    case 6
    then show ?thesis using x o1
      by (auto simp: falls_through_def dis_80_def run_80_def ip_simps Let_def intro!: fr split: option.splits)
  next
    case 7
    then show ?thesis using x o1
      by (auto simp: falls_through_def dis_80_def run_80_def ip_simps Let_def intro!: falls_modrm ip_moves)
  qed
qed

lemma agree_90:
  assumes "dis_90 (text_mem st) p b = Inr x" "0x90 \<le> b" "b < 0xa0"
  shows "falls_through st x (run_90 b st)"
  using assms
  by (auto simp: falls_through_def dis_90_def far_op_def error_simps run_90_def dis_opr_defs ip_simps Let_def
      intro!: ip_is_bind dest!: ip_dest split: if_splits)

lemma ends_strings:
  "ends_at (v_IP st + 1) (string_op rep cont movs8 st)" "ends_at (v_IP st + 1) (string_op rep cont cmps8 st)"
  "ends_at (v_IP st + 1) (string_op rep cont stos8 st)" "ends_at (v_IP st + 1) (string_op rep cont lods8 st)"
  "ends_at (v_IP st + 1) (string_op rep cont scas8 st)" "ends_at (v_IP st + 1) (string_op rep cont movs16 st)"
  "ends_at (v_IP st + 1) (string_op rep cont cmps16 st)" "ends_at (v_IP st + 1) (string_op rep cont stos16 st)"
  "ends_at (v_IP st + 1) (string_op rep cont lods16 st)" "ends_at (v_IP st + 1) (string_op rep cont scas16 st)"
  by (rule ends_string, erule IP_string)+

lemma agree_a0:
  assumes "dis_a0 (text_mem st) p b = Inr x" "0xa0 \<le> b" "b < 0xb0"
  shows "falls_through st x (run_a0 rep b p st)"
proof (cases "b < 0xa4")
  case True
  then show ?thesis
    using assms by (auto simp: falls_through_def dis_a0_def run_a0_def error_simps dis_opr_defs ip_simps Let_def
        intro!: ends_at_bind ip_is_bind dest!: ip_dest split: if_splits)
next
  case b: False
  show ?thesis
  proof (cases "b = 0xa8 \<or> b = 0xa9")
    case True
    then show ?thesis
      using assms by (auto simp: falls_through_def dis_a0_def run_a0_def ip_simps Let_def intro!: ip_aimm ip_alu dest!: aimm_op_Inr)
  next
    case False
    then have "op_len x = 1 \<and> o_type (op_1 x) \<noteq> Addr"
      using assms b by (simp add: dis_a0_def Let_def) (auto simp: dis_opr_defs)
    moreover have "\<not> b < 0xaa \<or> b = 0xa4 \<or> b = 0xa5 \<or> b = 0xa6 \<or> b = 0xa7"
      using b False by (simp add: word_less_nat_alt word_unat_eq_iff) arith
    ultimately show ?thesis
      using b False by (auto simp: falls_through_def run_a0_def ends_strings)
  qed
qed

lemma agree_b0:
  assumes "dis_b0 (text_mem st) p b = Inr x"
  shows "falls_through st x (run_b0 b p st)"
  using assms
  by (auto simp: falls_through_def dis_b0_def run_b0_def dis_imm_def error_simps dis_opr_defs ip_simps Let_def
      intro!: ends_at_bind split: if_splits)

lemma op_undef_undefop [simp]: "op_undef undefop"
  by (simp add: op_undef_def)

text \<open>A mode byte and an immediate operand behind it.\<close>

lemma imm_modrm:
  assumes "bindE (modrm_op (text_mem st) p mne w) (add_imm (text_mem st) p v) = Inr x"
  shows "o_type (op_1 x) \<noteq> Addr"
    "\<exists>y k. dis_modrm (text_mem st) p w = Inr y \<and> o_len y = int k \<and> op_len x = k + 2 + of_bool v"
proof -
  obtain op where op: "modrm_op (text_mem st) p mne w = Inr op" "add_imm (text_mem st) p v op = Inr x"
    using assms by (auto simp: error_simps)
  obtain y where y: "dis_modrm (text_mem st) p w = Inr y" "op = getop1 (nat (1 + o_len y)) mne y"
    using op(1) by (auto simp: modrm_op_Inr)
  obtain k where "o_len y = int k" using dis_modrm_nat [OF y(1)] by blast
  with y add_imm_Inr [OF op(2)] dis_modrm_len [OF y(1)]
  show "o_type (op_1 x) \<noteq> Addr" "\<exists>y k. dis_modrm (text_mem st) p w = Inr y \<and> o_len y = int k \<and> op_len x = k + 2 + of_bool v"
    by (auto simp: getop_def nat_add_distrib)
qed

lemma agree_c0:
  assumes x: "dis_c0 (text_mem st) p b = Inr x" "\<not> op_undef x" and b: "b \<notin> {0xc2, 0xc3, 0xcd}"
  shows "falls_through st x (run_c0 sys b p st)"
proof (cases "b = 0xc6 \<or> b = 0xc7")
  case True
  then have "bindE (modrm_op (text_mem st) p ''mov'' (bit b 0)) (add_imm (text_mem st) p (bit b 0)) = Inr x"
    using x by (auto simp: dis_c0_def)
  from imm_modrm [OF this] obtain y k where y: "o_type (op_1 x) \<noteq> Addr" "dis_modrm (text_mem st) p (bit b 0) = Inr y"
    "o_len y = int k" "op_len x = k + 2 + of_bool (bit b 0)" by blast
  then show ?thesis using True
    by (auto simp: falls_through_def run_c0_def modrm_Inr ip_simps Let_def intro!: ip_is_bind)
next
  case False
  then show ?thesis using x b
    by (auto simp: falls_through_def dis_c0_def run_c0_def error_simps ip_simps op_undef_def dis_opr_defs dest: dis_op1 split: if_splits)
qed

lemma agree_d0:
  assumes x: "dis_d0 (text_mem st) p b = Inr x" "\<not> op_undef x" and b: "0xd0 \<le> b"
  shows "falls_through st x (run_d0 b p st)"
proof (cases "b < 0xd4")
  case True
  then obtain mne op where m: "modrm_op (text_mem st) p mne (bit b 0) = Inr op" "op_len x = op_len op" "op_1 x = op_1 op"
    using x by (auto simp: dis_d0_def error_simps split: option.splits)
  then show ?thesis using True dis_op1(2) [OF m(1)]
    by (auto simp: falls_through_def run_d0_def ip_simps Let_def intro!: falls_modrm [OF m(1)] ip_shift)
next
  case False
  then show ?thesis using x
    by (auto simp: falls_through_def dis_d0_def run_d0_def error_simps ip_simps op_undef_def dis_opr_defs Let_def intro!: ends_at_bind ip_is_bind
        split: if_splits)
qed

lemma agree_f6:
  assumes x: "dis_f0 (text_mem st) p b = Inr x" "\<not> op_undef x" and b: "b = 0xf6 \<or> b = 0xf7"
  shows "falls_through st x (if b = 0xf7 then run_f7 p st else run_f6 p st)"
proof -
  obtain m mne op where m: "mem8 (text_mem st) (p + 1) = Inr m" "modrm_op (text_mem st) p mne (bit b 0) = Inr op"
    "if reg_field m > 0 then x = op else add_imm (text_mem st) p (bit b 0) op = Inr x"
    using x b by (auto simp: dis_f0_def error_simps split: option.splits if_splits)
  obtain y where y: "dis_modrm (text_mem st) p (bit b 0) = Inr y" "op = getop1 (nat (1 + o_len y)) mne y"
    using m(2) by (auto simp: modrm_op_Inr)
  obtain k where k: "o_len y = int k" using dis_modrm_nat [OF y(1)] by blast
  have op: "op_len op = Suc k" "o_type (op_1 op) \<noteq> Addr"
    using y k dis_op1(2) [OF m(2)] by (auto simp: getop_def nat_add_distrib)
  have c: "code8 (p + 1) (ip_add n st) = Inr m" for n using m(1) by (simp add: code8_def)
  show ?thesis
  proof (cases "reg_field m = 0")
    case True
    then obtain z where "op_len x = op_len op + 1 + of_bool (bit b 0)" "op_1 x = op_1 op"
      using m(3) add_imm_Inr [of "text_mem st" p "bit b 0" op x] by auto
    then show ?thesis using True b op y(1) k
      by (auto simp: falls_through_def run_f7_def run_f6_def modrm_Inr c ip_simps Let_def intro!: ends_at_bind)
  next
    case False
    then show ?thesis using m(3) b op y(1) k
      by (auto simp: falls_through_def run_f7_def run_f6_def modrm_Inr c ip_simps Let_def intro!: ip_muldiv)
  qed
qed

lemma agree_fe:
  assumes x: "dis_f0 (text_mem st) p b = Inr x" "\<not> op_undef x" and b: "b = 0xfe \<or> b = 0xff"
    and k: "\<And>m. mem8 (text_mem st) (p + 1) = Inr m \<Longrightarrow> b = 0xff \<Longrightarrow> reg_field m \<noteq> 2 \<and> reg_field m \<noteq> 4"
  shows "falls_through st x (run_fe b p st)"
proof -
  obtain m mne where m: "mem8 (text_mem st) (p + 1) = Inr m" "modrm_op (text_mem st) p mne (bit b 0) = Inr x"
    using x b by (auto simp: dis_f0_def error_simps split: option.splits if_splits)
  have c: "code8 (p + 1) (ip_add n st) = Inr m" for n using m(1) by (simp add: code8_def)
  obtain y where y: "dis_modrm (text_mem st) p (bit b 0) = Inr y" "x = getop1 (nat (1 + o_len y)) mne y"
    using m(2) by (auto simp: modrm_op_Inr)
  obtain n where n: "o_len y = int n" using dis_modrm_nat [OF y(1)] by blast
  have o1: "op_len x = Suc n" "o_type (op_1 x) \<noteq> Addr"
    using y n dis_op1(2) [OF m(2)] by (auto simp: getop_def nat_add_distrib)
  have w: "bit b 0 = (b = 0xff)" using b by auto
  show ?thesis using o1 k [OF m(1)] y(1) n b
    by (auto simp: falls_through_def run_fe_def modrm_Inr [of st p "b = 0xff" y] w c ip_simps Let_def
        intro!: ip_is_bind dest!: ip_dest)
qed

lemma agree_f0:
  assumes x: "dis_f0 (text_mem st) p b = Inr x" "\<not> op_undef x" "op_prefix x = None"
    and b: "0xf0 \<le> b" and k: "\<And>m. mem8 (text_mem st) (p + 1) = Inr m \<Longrightarrow> b = 0xff \<Longrightarrow> reg_field m \<noteq> 2 \<and> reg_field m \<noteq> 4"
  shows "falls_through st x (run_f0 rec b p st)"
proof -
  consider "b = 0xf6 \<or> b = 0xf7" | "b = 0xfe \<or> b = 0xff" | "b \<notin> {0xf6, 0xf7, 0xfe, 0xff}" by blast
  then show ?thesis
  proof cases
    case 1
    then show ?thesis using agree_f6 [OF x(1,2) 1] by (auto simp: run_f0_def)
  next
    case 2
    then show ?thesis using agree_fe [OF x(1,2) 2 k] by (auto simp: run_f0_def)
  next
    case 3
    then show ?thesis using x
      by (auto simp: falls_through_def dis_f0_def run_f0_def error_simps ip_simps dis_opr_defs split: if_splits)
  qed
qed

section \<open>Jumps\<close>

text \<open>The step ends at the target of the jump, or behind it where it is conditional.\<close>

definition jumps :: "bool \<Rightarrow> vm \<Rightarrow> emu_op \<Rightarrow> vm_error + bool \<times> vm \<Rightarrow> bool" where
  "jumps always st x m \<longleftrightarrow> o_type (op_1 x) = Addr \<and>
     (\<exists>c. (always \<longrightarrow> c) \<and> ends_at (if c then word_of_int (o_value (op_1 x)) else v_IP st + of_nat (op_len x)) m)"

lemma jumps_jumpif:
  assumes "dis_jump8 (text_mem st) (uint (v_IP st)) (v_IP st) mne = Inr x"
  shows "\<exists>d. code8 (uint (v_IP st) + 1) st = Inr d \<and> (\<forall>st' c. v_IP st' = v_IP st \<longrightarrow> jumps False st x (Inr (True, jumpif d c st')))"
proof -
  obtain d where d: "mem8 (text_mem st) (uint (v_IP st) + 1) = Inr d" "x = getop1 2 mne (disp8 d (v_IP st + 1))"
    using assms by (auto simp: dis_jump8_def error_simps)
  then have "jumps False st x (Inr (True, jumpif d c st'))" if "v_IP st' = v_IP st" for st' c
    unfolding jumps_def using that
    by (intro conjI exI [of _ c]) (simp_all add: disp8_def dis_opr_defs jumpif_def ip_simps)
  with d(1) show ?thesis by (auto simp: code8_def)
qed

lemma agree_jcc:
  assumes "dis_jump8 (text_mem st) (uint (v_IP st)) (v_IP st) mne = Inr x"
  shows "jumps False st x (run_jcc b (uint (v_IP st)) st)"
  using jumps_jumpif [OF assms] by (auto simp: run_jcc_def)

lemma agree_loop:
  assumes "dis_jump8 (text_mem st) (uint (v_IP st)) (v_IP st) mne = Inr x" and b: "b \<in> {0xe0, 0xe1, 0xe2, 0xe3}"
  shows "jumps False st x (run_e0 b (uint (v_IP st)) st)"
proof -
  obtain d where d: "code8 (uint (v_IP st) + 1) st = Inr d"
    "\<And>st' c. v_IP st' = v_IP st \<Longrightarrow> jumps False st x (Inr (True, jumpif d c st'))"
    using jumps_jumpif [OF assms(1)] by blast
  show ?thesis
  proof (cases "b = 0xe3")
    case True
    then show ?thesis using d(2) [of st] by (simp add: run_e0_def d(1))
  next
    case False
    then show ?thesis using b d(2) [of "set_r CX (v_r st CX - 1) st"] by (auto simp: run_e0_def d(1) ip_simps Let_def)
  qed
qed

lemma jumps_always:
  "o_type (op_1 x) = Addr \<Longrightarrow> ends_at (word_of_int (o_value (op_1 x))) m \<Longrightarrow> jumps True st x m"
  by (auto simp: jumps_def)

lemma agree_goto:
  assumes x: "dis_e0 (text_mem st) (uint (v_IP st)) (v_IP st) b = Inr x" and b: "b \<in> {0xe8, 0xe9, 0xeb}"
    and s: "b = 0xe8 \<Longrightarrow> \<not> v_shared st"
  shows "jumps True st x (run_e0 b (uint (v_IP st)) st)"
proof (rule jumps_always)
  show "o_type (op_1 x) = Addr"
    using x b by (auto simp: dis_e0_def dis_jump8_def dis_jump16_def error_simps disp8_def disp16_def dis_opr_defs)
  have t: "text_mem st' = text_mem st" if "vm_push y st = Inr st'" "\<not> v_shared st" for st' y
    using that by (auto simp: vm_push_def vm_write16_def vm_write8_def set_r_def text_mem_def Let_def split: if_splits)
  consider "b = 0xe8" | "b = 0xe9" | "b = 0xeb" using b by blast
  then show "ends_at (word_of_int (o_value (op_1 x))) (run_e0 b (uint (v_IP st)) st)"
  proof cases
    case 1
    then obtain d where d: "mem16 (text_mem st) (uint (v_IP st) + 1) = Inr d" "op_1 x = disp16 d (v_IP st + 1)"
      using x by (auto simp: dis_e0_def dis_jump16_def error_simps getop_def)
    have "code16 (uint (v_IP st) + 1) st' = Inr d \<and> v_IP st' = v_IP st" if "vm_push y st = Inr st'" for st' y
      using d(1) t [OF that s [OF 1]] IP_assign(2) [OF that] by (simp add: code16_def)
    with 1 show ?thesis
      by (auto simp: run_e0_def ip_simps d(2) disp16_def dis_opr_defs intro!: ip_is_bind)
  next
    case 2
    then obtain d where d: "mem16 (text_mem st) (uint (v_IP st) + 1) = Inr d" "op_1 x = disp16 d (v_IP st + 1)"
      using x by (auto simp: dis_e0_def dis_jump16_def error_simps getop_def)
    with 2 show ?thesis by (simp add: run_e0_def ip_simps code16_def disp16_def dis_opr_defs)
  next
    case 3
    then obtain d where d: "mem8 (text_mem st) (uint (v_IP st) + 1) = Inr d" "op_1 x = disp8 d (v_IP st + 1)"
      using x by (auto simp: dis_e0_def dis_jump8_def error_simps getop_def)
    with 3 show ?thesis by (simp add: run_e0_def ip_simps code8_def disp8_def dis_opr_defs)
  qed
qed

text \<open>The opcodes whose successor is not in the instruction: returns, system calls, calls and jumps through an operand.\<close>

definition indirect :: "memory \<Rightarrow> u16 \<Rightarrow> bool" where
  "indirect mem a \<longleftrightarrow> mem a \<in> {0xc2, 0xc3, 0xcd} \<or>
     mem a = 0xff \<and> (\<exists>m. mem8 mem (uint a + 1) = Inr m \<and> reg_field m \<in> {2, 4})"

lemma agree_switch:
  assumes x: "disasm1 (text_mem st) (v_IP st) = Inr x" "\<not> op_undef x" "op_prefix x = None"
    and i: "\<not> indirect (text_mem st) (v_IP st)" and b: "b = text_mem st (v_IP st)" and s: "b = 0xe8 \<Longrightarrow> \<not> v_shared st"
  shows "if o_type (op_1 x) = Addr then jumps (b \<in> {0xe8, 0xe9, 0xeb}) st x (run_switch sys rec rep b st)
    else falls_through st x (run_switch sys rec rep b st)"
proof -
  let ?m = "text_mem st" and ?p = "uint (v_IP st)"
  have ft: ?thesis if "falls_through st x (run_switch sys rec rep b st)"
    using that by (simp add: falls_through_def)
  have jp: ?thesis if "jumps (b \<in> {0xe8, 0xe9, 0xeb}) st x (run_switch sys rec rep b st)"
    using that by (simp add: jumps_def)
  consider "b < 0x40" | "0x40 \<le> b" "b < 0x60" | "0x60 \<le> b" "b < 0x70" | "0x70 \<le> b" "b < 0x80" | "0x80 \<le> b" "b < 0x90"
    | "0x90 \<le> b" "b < 0xa0" | "0xa0 \<le> b" "b < 0xb0" | "0xb0 \<le> b" "b < 0xc0" | "0xc0 \<le> b" "b < 0xd0"
    | "0xd0 \<le> b" "b < 0xe0" | "0xe0 \<le> b" "b < 0xf0" | "0xf0 \<le> b"
    by (meson not_less)
  then show ?thesis
  proof cases
    case 1
    then show ?thesis using x b by (intro ft) (simp add: run_switch_def disasm1_def Let_def agree_arith)
  next
    case 2
    then show ?thesis using x b by (intro ft) (auto simp: run_switch_def disasm1_def Let_def agree_reg)
  next
    case 3
    then have "x = undefop" using x b by (simp add: disasm1_def Let_def word_less_nat_alt word_le_nat_alt)
    then show ?thesis using x(2) by simp
  next
    case 4
    then have "dis_jump8 ?m ?p (v_IP st) (mne_jcc ! unat (b AND 15)) = Inr x" "run_switch sys rec rep b st = run_jcc b ?p st"
      using x b by (simp_all add: run_switch_def disasm1_def Let_def word_less_nat_alt word_le_nat_alt)
    moreover have "b \<notin> {0xe8, 0xe9, 0xeb}" using 4 by auto
    ultimately show ?thesis using agree_jcc [of st _ x b] by (intro jp) auto
  next
    case 5
    then have "dis_80 ?m ?p b = Inr x" "run_switch sys rec rep b st = run_80 b ?p st"
      using x b by (simp_all add: run_switch_def disasm1_def Let_def word_less_nat_alt word_le_nat_alt)
    then show ?thesis using agree_80 [of st ?p b x] 5 by (intro ft) simp
  next
    case 6
    then have "dis_90 ?m ?p b = Inr x" "run_switch sys rec rep b st = run_90 b st"
      using x b by (simp_all add: run_switch_def disasm1_def Let_def word_less_nat_alt word_le_nat_alt)
    then show ?thesis using agree_90 [of st ?p b x] 6 by (intro ft) simp
  next
    case 7
    then have "dis_a0 ?m ?p b = Inr x" "run_switch sys rec rep b st = run_a0 rep b ?p st"
      using x b by (simp_all add: run_switch_def disasm1_def Let_def word_less_nat_alt word_le_nat_alt)
    then show ?thesis using agree_a0 [of st ?p b x] 7 by (intro ft) simp
  next
    case 8
    then have "dis_b0 ?m ?p b = Inr x" "run_switch sys rec rep b st = run_b0 b ?p st"
      using x b by (simp_all add: run_switch_def disasm1_def Let_def word_less_nat_alt word_le_nat_alt)
    then show ?thesis using agree_b0 [of st ?p b x] by (intro ft) simp
  next
    case 9
    then have "dis_c0 ?m ?p b = Inr x" "run_switch sys rec rep b st = run_c0 sys b ?p st"
      using x b by (simp_all add: run_switch_def disasm1_def Let_def word_less_nat_alt word_le_nat_alt)
    then show ?thesis using agree_c0 [of st ?p b x] x(2) i b by (intro ft) (auto simp: indirect_def)
  next
    case 10
    then have "dis_d0 ?m ?p b = Inr x" "run_switch sys rec rep b st = run_d0 b ?p st"
      using x b by (simp_all add: run_switch_def disasm1_def Let_def word_less_nat_alt word_le_nat_alt)
    then show ?thesis using agree_d0 [of st ?p b x] x(2) 10 by (intro ft) simp
  next
    case 11
    then have "dis_e0 ?m ?p (v_IP st) b = Inr x" "run_switch sys rec rep b st = run_e0 b ?p st"
      using x b by (simp_all add: run_switch_def disasm1_def Let_def word_less_nat_alt word_le_nat_alt)
    moreover have "b \<in> {0xe0, 0xe1, 0xe2, 0xe3} \<or> b \<in> {0xe8, 0xe9, 0xeb} \<or>
        b \<notin> {0xe0, 0xe1, 0xe2, 0xe3, 0xe8, 0xe9, 0xeb} \<and> o_type (op_1 x) \<noteq> Addr"
      using calculation(1) 11 by (auto simp: dis_e0_def far_op_def error_simps dis_opr_defs Let_def split: if_splits)
    moreover have "\<exists>mne. dis_jump8 ?m ?p (v_IP st) mne = Inr x" if "b \<in> {0xe0, 0xe1, 0xe2, 0xe3}"
      using calculation(1) that by (auto simp: dis_e0_def Let_def)
    moreover have "falls_through st x (run_e0 b ?p st)"
      if "b \<notin> {0xe0, 0xe1, 0xe2, 0xe3, 0xe8, 0xe9, 0xeb}" "o_type (op_1 x) \<noteq> Addr"
      using that 11 by (auto simp: falls_through_def run_e0_def ip_simps word_less_nat_alt word_le_nat_alt word_unat_eq_iff)
    ultimately show ?thesis
      using agree_loop [of st _ x b] agree_goto [of st b x] s ft jp by fastforce
  next
    case 12
    then have "dis_f0 ?m ?p b = Inr x" "run_switch sys rec rep b st = run_f0 rec b ?p st"
      using x b by (simp_all add: run_switch_def disasm1_def Let_def word_less_nat_alt word_le_nat_alt)
    then show ?thesis using agree_f0 [of st ?p b x rec] x(2,3) i b 12 by (intro ft) (auto simp: indirect_def)
  qed
qed

end
