(* ===== verification/Emu_Props.thy ===== *)
theory Emu_Props
  imports Emu_Alu Emu_String Emu_Shift Emu_Mul Emu_Agree
begin

text \<open>
  The properties of the emulator (\<open>7run/i8086\<close>), C30 to C36, each with the theorem that states it
  and a run at a concrete input.
\<close>

section \<open>A machine to run the witnesses on\<close>

definition vm0 :: vm where
  "vm0 = \<lparr>v_IP = 0, v_r = (\<lambda>_. 0), v_OF = False, v_DF = False, v_SF = False, v_ZF = False, v_AF = False,
     v_PF = False, v_CF = False, v_start_sp = 0, v_text = (\<lambda>_. 0), v_data = (\<lambda>_. 0), v_shared = False,
     v_brksize = 0, v_exited = False, v_exitcode = 0\<rparr>"

lemmas emu_eval = vm0_def opr_set_def opr_addr_def opr_get_def opr_u_def sx_def ux_def set_r_def reg_defs

section \<open>Arithmetic\<close>

text \<open>
  C22. The arithmetic of the emulator is that of words of the width of the operands: \<open>add\<close>, \<open>adc\<close>,
  \<open>sub\<close> and \<open>sbb\<close> store the sum or the difference of the words, with the carry added or
  subtracted, and \<open>cmp\<close> stores nothing. The flags are those of the processor: \<open>CF\<close> is the
  carry out of, or the borrow into the top bit of the unsigned values, \<open>AF\<close> the one of the low
  nibble, \<open>OF\<close> says that the signed result is not the one of the integers, and \<open>SF\<close>, \<open>ZF\<close> and
  \<open>PF\<close> are those of the word stored, although the code computes in an \<open>int\<close> with the signed
  values and finds \<open>CF\<close> by comparing truncated results.
\<close>

theorem alu_words:
  assumes "operands o1 o2 (a :: 'a::len word) b st"
  shows "alu_add o1 o2 st = opr_assign o1 (sint (a + b))
      (arith_flags (2 ^ LENGTH('a) \<le> uint a + uint b) (15 < uint a mod 16 + uint b mod 16)
        (sint a + sint b \<noteq> sint (a + b)) (a + b) st) \<and>
    alu_adc o1 o2 st = opr_assign o1 (sint (a + b + of_bool (v_CF st)))
      (arith_flags (2 ^ LENGTH('a) \<le> uint a + uint b + of_bool (v_CF st)) (15 < uint a mod 16 + uint b mod 16 + of_bool (v_CF st))
        (sint a + sint b + of_bool (v_CF st) \<noteq> sint (a + b + of_bool (v_CF st))) (a + b + of_bool (v_CF st)) st) \<and>
    alu_sub o1 o2 st = opr_assign o1 (sint (a - b))
      (arith_flags (a < b) (uint a mod 16 - uint b mod 16 < 0) (sint a - sint b \<noteq> sint (a - b)) (a - b) st) \<and>
    alu_sbb o1 o2 st = opr_assign o1 (sint (a - b - of_bool (v_CF st)))
      (arith_flags (uint a < uint b + of_bool (v_CF st)) (uint a mod 16 - uint b mod 16 - of_bool (v_CF st) < 0)
        (sint a - sint b - of_bool (v_CF st) \<noteq> sint (a - b - of_bool (v_CF st))) (a - b - of_bool (v_CF st)) st) \<and>
    alu_cmp o1 o2 st = Inr
      (arith_flags (a < b) (uint a mod 16 - uint b mod 16 < 0) (sint a - sint b \<noteq> sint (a - b)) (a - b) st)"
  using alu_add_words [OF assms] alu_adc_words [OF assms] alu_sub_words [OF assms] alu_sbb_words [OF assms]
    alu_cmp_words [OF assms] by blast

text \<open>\<open>adc AL, 0x80\<close> with \<open>AL = 0x7f\<close> and the carry set: 0 with a carry and no overflow.\<close>

theorem alu_words_witness:
  "alu_adc (opr_set Reg False 0 vm0) (opr_set Imm False 0x80 vm0) (vm0\<lparr>v_CF := True, v_r := (\<lambda>_. 0x7f)\<rparr>) =
    Inr (arith_flags True True False (0 :: byte) (vm0\<lparr>v_r := (\<lambda>_. 0x7f)(0 := 0)\<rparr>))"
proof -
  let ?st = "vm0\<lparr>v_CF := True, v_r := (\<lambda>_. 0x7f)\<rparr>"
  have "operands (opr_set Reg False 0 vm0) (opr_set Imm False 0x80 vm0) (0x7f :: byte) 0x80 ?st"
    by (simp add: operands_def emu_eval r8_def)
  note alu_words [THEN conjunct2, THEN conjunct1, OF this]
  moreover have "(256 :: byte) = 0" by simp
  ultimately show ?thesis
    by (simp add: opr_assign_def emu_eval set_r8_def r8_def arith_flags_def)
qed

text \<open>
  C23. After \<open>cmp\<close> of two operands the conditional jumps decide their order: \<open>jb\<close>, \<open>je\<close> and \<open>jbe\<close>
  that of the unsigned, \<open>jl\<close> and \<open>jle\<close> that of the signed words, and the jump with the next
  opcode is taken exactly when the one before it is not. The destination is \<open>2 + offset\<close> beyond
  the jump, with the signed offset, and the next instruction where it is not taken.
\<close>

theorem compare_and_jump:
  assumes "operands o1 o2 (a :: 'a::len word) b st"
  shows "\<exists>st'. alu_cmp o1 o2 st = Inr st' \<and> v_IP st' = v_IP st \<and>
    (\<forall>d. code8 (uint (v_IP st) + 1) st = Inr d \<longrightarrow>
      (\<forall>(k, taken) \<in> set [(2, a < b), (3, \<not> a < b), (4, a = b), (5, a \<noteq> b), (6, a \<le> b), (7, \<not> a \<le> b),
          (12, a <s b), (13, \<not> a <s b), (14, a \<le>s b), (15, \<not> a \<le>s b)].
        run_jcc (0x70 + k) (uint (v_IP st)) st' =
          Inr (True, st'\<lparr>v_IP := v_IP st + (if taken then 2 + scast d else 2)\<rparr>)))"
  unfolding alu_cmp_words [OF assms]
  by (auto simp: run_jcc_eq jump_cond_cmp [OF refl])


theorem compare_and_jump_witness:
  "\<exists>st'. alu_cmp (opr_set Reg True 0 vm0) (opr_set Imm True 1 vm0) (vm0\<lparr>v_r := (\<lambda>_. 0xffff), v_text := (\<lambda>_. 0x10)\<rparr>) = Inr st' \<and>
    run_jcc 0x7c 0 st' = Inr (True, st'\<lparr>v_IP := 0x12\<rparr>) \<and> run_jcc 0x72 0 st' = Inr (True, st'\<lparr>v_IP := 2\<rparr>)"
proof -
  let ?st = "vm0\<lparr>v_r := (\<lambda>_. 0xffff), v_text := (\<lambda>_. 0x10)\<rparr>"
  have o: "operands (opr_set Reg True 0 vm0) (opr_set Imm True 1 vm0) (0xffff :: u16) 1 ?st"
    by (simp add: operands_def emu_eval)
  have c: "code8 (uint (v_IP ?st) + 1) ?st = Inr 0x10" by (simp add: code8_def mem8_def text_mem_def vm0_def)
  have w: "\<not> (0xffff :: u16) < 1" "(0xffff :: u16) <s 1" by (simp_all add: word_sless_alt)
  obtain st' where st': "alu_cmp (opr_set Reg True 0 vm0) (opr_set Imm True 1 vm0) ?st = Inr st'"
    and j: "\<forall>(k, taken) \<in> set [(2, (0xffff :: u16) < 1), (3, \<not> (0xffff :: u16) < 1), (4, (0xffff :: u16) = 1), (5, (0xffff :: u16) \<noteq> 1),
          (6, (0xffff :: u16) \<le> 1), (7, \<not> (0xffff :: u16) \<le> 1), (12, (0xffff :: u16) <s 1), (13, \<not> (0xffff :: u16) <s 1),
          (14, (0xffff :: u16) \<le>s 1), (15, \<not> (0xffff :: u16) \<le>s 1)].
        run_jcc (0x70 + k) (uint (v_IP ?st)) st' = Inr (True, st'\<lparr>v_IP := v_IP ?st + (if taken then 2 + scast (0x10 :: byte) else 2)\<rparr>)"
    using compare_and_jump [OF o] c by blast
  have "run_jcc 0x7c 0 st' = Inr (True, st'\<lparr>v_IP := 0x12\<rparr>)" "run_jcc 0x72 0 st' = Inr (True, st'\<lparr>v_IP := 2\<rparr>)"
    using j w by (simp_all add: vm0_def)
  with st' show ?thesis by blast
qed

section \<open>The disassembler\<close>

text \<open>
  C24. The interpreter and the disassembler agree: where an instruction that the disassembler knows
  is executed, the instruction pointer ends behind the bytes the disassembler counts, or, for a
  jump or call with a displacement, at the address the disassembler prints, which is always the
  case for \<open>call\<close>, \<open>jmp\<close> and \<open>jmp short\<close>. Excluded are the prefixes, and the instructions whose
  successor is not in their bytes: returns, \<open>int\<close>, and calls and jumps through an operand. A
  \<open>call\<close> pushes before it reads its displacement, so that its text must not be its stack.
\<close>

theorem disassembler_agrees:
  assumes "disasm1 (text_mem st) (v_IP st) = Inr x" "\<not> op_undef x" "op_prefix x = None"
    "\<not> indirect (text_mem st) (v_IP st)" "text_mem st (v_IP st) = 0xe8 \<Longrightarrow> \<not> v_shared st"
    "run_switch sys rec rep (text_mem st (v_IP st)) st = Inr (True, st')"
  shows "if o_type (op_1 x) = Addr
    then v_IP st' = word_of_int (o_value (op_1 x)) \<or>
      text_mem st (v_IP st) \<notin> {0xe8, 0xe9, 0xeb} \<and> v_IP st' = v_IP st + of_nat (op_len x)
    else v_IP st' = v_IP st + of_nat (op_len x)"
  using agree_switch [OF assms(1,2,3,4) refl assms(5), of sys rec rep] assms(6)
  by (auto simp: jumps_def falls_through_def ends_at_def split: if_splits)

theorem disassembler_agrees_witness:
  "disasm1 (\<lambda>_. 0xeb) 0 = Inr (getop 2 ''jmp short'' (mk_opr 1 False Addr 0xffed) noopr) \<and>
   run_switch (\<lambda>_ _. None) (\<lambda>_ _. Inl Vm_loops) 0 0xeb (vm0\<lparr>v_text := (\<lambda>_. 0xeb)\<rparr>) =
     Inr (True, vm0\<lparr>v_text := (\<lambda>_. 0xeb), v_IP := 0xffed\<rparr>) \<and> (0xffed :: u16) = word_of_int 0xffed"
proof -
  let ?st = "vm0\<lparr>v_text := (\<lambda>_. 0xeb)\<rparr>" and ?x = "getop 2 ''jmp short'' (mk_opr 1 False Addr 0xffed) noopr"
  have d: "disasm1 (\<lambda>_. 0xeb) 0 = Inr ?x"
    by (simp add: disasm1_def dis_e0_def dis_jump8_def disp8_def mem8_def Let_def mk_opr_def)
  have r: "run_switch (\<lambda>_ _. None) (\<lambda>_ _. Inl Vm_loops) 0 0xeb ?st = Inr (True, ?st\<lparr>v_IP := 0xffed\<rparr>)"
    by (simp add: run_switch_def run_e0_def code8_def mem8_def text_mem_def vm0_def ip_add_def ret_ok_def Let_def)
  have t: "text_mem ?st = (\<lambda>_. 0xeb)" "v_IP ?st = 0" by (simp_all add: text_mem_def vm0_def)
  have "if o_type (op_1 ?x) = Addr
    then v_IP (?st\<lparr>v_IP := 0xffed\<rparr>) = word_of_int (o_value (op_1 ?x)) \<or>
      text_mem ?st (v_IP ?st) \<notin> {0xe8, 0xe9, 0xeb} \<and> v_IP (?st\<lparr>v_IP := 0xffed\<rparr>) = v_IP ?st + of_nat (op_len ?x)
    else v_IP (?st\<lparr>v_IP := 0xffed\<rparr>) = v_IP ?st + of_nat (op_len ?x)"
    by (rule disassembler_agrees [of _ _ "\<lambda>_ _. None" "\<lambda>_ _. Inl Vm_loops" 0])
      (simp_all add: t d r op_undef_def undefop_def getop_def indirect_def)
  then show ?thesis using d r t by (simp add: getop_def mk_opr_def)
qed

section \<open>Strings\<close>

text \<open>
  C25. \<open>rep movsb\<close> copies a block of \<open>CX\<close> bytes, upwards or downwards as \<open>DF\<close> says: it returns,
  with \<open>CX\<close> zero and \<open>SI\<close> and \<open>DI\<close> behind the blocks (round the 64 kilobytes of the memory), the
  target holds the bytes of the source, and every other byte is as it was. No byte of the source
  may lie on a byte of the target that was written before.
\<close>

theorem rep_movsb:
  fixes n :: nat
  assumes "rep \<noteq> 0" "n = unat (v_r st CX)"
    "\<forall>i<n. \<forall>j<i. v_r st SI + direction st * of_nat i \<noteq> v_r st DI + direction st * of_nat j"
  shows "\<exists>m. run_a0 rep 0xa4 p st = Inr (True, (ip_add 1 st)\<lparr>v_r := (v_r st)(CX := 0,
        SI := v_r st SI + direction st * of_nat n, DI := v_r st DI + direction st * of_nat n), v_data := m\<rparr>) \<and>
    (\<forall>i<n. m (v_r st DI + direction st * of_nat i) = v_data st (v_r st SI + direction st * of_nat i)) \<and>
    (\<forall>a. (\<forall>i<n. a \<noteq> v_r st DI + direction st * of_nat i) \<longrightarrow> m a = v_data st a)"
proof (intro exI conjI allI impI)
  let ?d = "direction st" and ?st = "ip_add 1 st"
  let ?m = "copy_block ?d (v_r st SI) (v_r st DI) n (v_data st)"
  have n: "n < 65536" using unat_u16 assms(2) by simp
  have cx: "v_r st CX = of_nat n" using assms(2) by simp
  have d: "?d = 1 \<or> ?d = -1" by (simp add: direction_def)
  show "run_a0 rep 0xa4 p st = Inr (True, ?st\<lparr>v_r := (v_r st)(CX := 0, SI := v_r st SI + ?d * of_nat n,
      DI := v_r st DI + ?d * of_nat n), v_data := ?m\<rparr>)"
  proof (cases n)
    case 0
    then show ?thesis using assms(1) cx by (simp add: run_a0_def string_op_def ip_add_def Let_def reg_defs fun_upd_idem)
  next
    case (Suc k)
    have r: "rep_loop 65536 rep (\<lambda>st. True) movs8 ?st = Inr (?st\<lparr>v_r := (v_r ?st)(CX := 0,
        SI := v_r ?st SI + direction ?st * of_nat (Suc k), DI := v_r ?st DI + direction ?st * of_nat (Suc k)),
        v_data := copy_block (direction ?st) (v_r ?st SI) (v_r ?st DI) (Suc k) (v_data ?st)\<rparr>)"
      using assms(1) cx n Suc by (intro rep_movs8) (simp_all add: ip_add_def)
    have "v_r st CX \<noteq> 0" using assms(2) Suc by auto
    then show ?thesis unfolding Suc using r by (simp add: run_a0_def string_op_def ip_add_def ret_ok_def direction_def)
  qed
  show "?m (v_r st DI + ?d * of_nat i) = v_data st (v_r st SI + ?d * of_nat i)" if "i < n" for i
    using assms(3) n d that by (intro copy_block_target) auto
  show "?m a = v_data st a" if "\<forall>i<n. a \<noteq> v_r st DI + ?d * of_nat i" for a
    using that by (intro copy_block_other) auto
qed

text \<open>Two bytes copied downwards.\<close>

theorem rep_movsb_witness:
  "\<exists>m. run_a0 0xf3 0xa4 0 (vm0\<lparr>v_DF := True, v_r := (\<lambda>_. 0)(CX := 2, SI := 9, DI := 20), v_data := ucast\<rparr>) =
      Inr (True, (ip_add 1 vm0)\<lparr>v_DF := True, v_r := (\<lambda>_. 0)(CX := 0, SI := 7, DI := 18), v_data := m\<rparr>) \<and>
    m 20 = 9 \<and> m 19 = 8 \<and> m 21 = 21"
proof -
  let ?st = "vm0\<lparr>v_DF := True, v_r := (\<lambda>_. 0)(CX := 2, SI := 9, DI := 20), v_data := ucast\<rparr>"
  have d: "direction ?st = -1" "v_r ?st CX = 2" "v_r ?st SI = 9" "v_r ?st DI = 20" by (simp_all add: direction_def vm0_def reg_defs)
  have o: "\<forall>i<2. \<forall>j<i. v_r ?st SI + direction ?st * of_nat i \<noteq> v_r ?st DI + direction ?st * of_nat j"
    unfolding d by (auto dest!: less_2_cases)
  obtain m where m: "run_a0 0xf3 0xa4 0 ?st = Inr (True, (ip_add 1 ?st)\<lparr>v_r := (v_r ?st)(CX := 0,
        SI := v_r ?st SI + direction ?st * of_nat 2, DI := v_r ?st DI + direction ?st * of_nat 2), v_data := m\<rparr>)"
    "\<forall>i<2. m (v_r ?st DI + direction ?st * of_nat i) = v_data ?st (v_r ?st SI + direction ?st * of_nat i)"
    "\<forall>a. (\<forall>i<2. a \<noteq> v_r ?st DI + direction ?st * of_nat i) \<longrightarrow> m a = v_data ?st a"
    using rep_movsb [where rep = "0xf3" and n = 2 and st = ?st and p = 0] d(2) o by auto
  have "m 20 = 9" "m 19 = 8" using m(2) [rule_format, of 0] m(2) [rule_format, of 1] unfolding d by simp_all
  moreover have "m 21 = v_data ?st 21"
  proof (rule m(3) [rule_format])
    show "21 \<noteq> v_r ?st DI + direction ?st * of_nat i" if "i < 2" for i
      unfolding d using less_2_cases [OF that] by auto
  qed
  ultimately show ?thesis using m(1) unfolding d by (intro exI [of _ m]) (simp add: ip_add_def vm0_def reg_defs)
qed

section \<open>Shifts\<close>

text \<open>
  C26. The rotations and shifts of an operand with the value \<open>a\<close> are those of the word \<open>a\<close>, for
  every count: \<open>rol\<close> and \<open>ror\<close> rotate it, and \<open>CF\<close> is the bit that came round last; \<open>shl\<close>, \<open>shr\<close> and
  \<open>sar\<close> shift it, with the last bit shifted out in \<open>CF\<close> and the other flags of the result, for
  counts up to 31 (\<open>int\<close> has 32 bits). A rotation by zero keeps \<open>CF\<close>, but not \<open>OF\<close>.
\<close>

theorem shifts_words:
  assumes "shift_operand k o1 (a :: 'a::len word) p st" "k \<in> {0, 1, 4, 5, 7}" "k \<noteq> 0 \<and> k \<noteq> 1 \<longrightarrow> 0 < c \<and> c < 32"
  shows "vm_shift o1 c p st = (
    if k = 0 then
      (let r = word_rotl c a; cf = (if c = 0 then v_CF st else bit r 0)
       in opr_assign o1 (sint r) (st\<lparr>v_CF := cf, v_OF := cf \<noteq> bit r (LENGTH('a) - 1)\<rparr>))
    else if k = 1 then
      (let r = word_rotr c a; cf = (if c = 0 then v_CF st else bit r (LENGTH('a) - 1))
       in opr_assign o1 (sint r) (st\<lparr>v_CF := cf, v_OF := cf \<noteq> bit r (LENGTH('a) - 2)\<rparr>))
    else if k = 4 then
      (let r = push_bit c a; cf = (c \<le> LENGTH('a) \<and> bit a (LENGTH('a) - c))
       in opr_assign o1 (sint r) (arith_flags cf (v_AF st) (cf \<noteq> bit r (LENGTH('a) - 1)) r st))
    else if k = 5 then
      opr_assign o1 (sint (drop_bit c a)) (arith_flags (bit a (c - 1)) (v_AF st) (c = 1 \<and> bit a (LENGTH('a) - 1)) (drop_bit c a) st)
    else
      opr_assign o1 (sint (signed_drop_bit c a)) (arith_flags (bit (sint a) (c - 1)) (v_AF st) False (signed_drop_bit c a) st))"
proof -
  consider "k = 0" | "k = 1" | "k = 4" | "k = 5" | "k = 7" using assms(2) by auto
  then show ?thesis
    by cases (use assms(1,3) vm_rol [of o1 a p st c] vm_ror [of o1 a p st c] vm_shl [of o1 a p st c] vm_shr [of o1 a p st c]
      vm_sar [of o1 a p st c] in \<open>auto simp: Let_def\<close>)
qed

text \<open>\<open>rol al, 4\<close> swaps the halves of \<open>al\<close>.\<close>

theorem shifts_words_witness:
  "vm_shift (opr_set Reg False 0 vm0) 4 0 (vm0\<lparr>v_r := (\<lambda>_. 0x12)\<rparr>) =
    opr_assign (opr_set Reg False 0 vm0) (sint (0x21 :: byte)) (vm0\<lparr>v_r := (\<lambda>_. 0x12), v_CF := True, v_OF := True\<rparr>)"
proof -
  let ?st = "vm0\<lparr>v_r := (\<lambda>_. 0x12)\<rparr>"
  have s: "shift_operand 0 (opr_set Reg False 0 vm0) (0x12 :: byte) 0 ?st"
    by (simp add: shift_operand_def emu_eval r8_def code8_def mem8_def text_mem_def reg_field_def)
  have r: "word_rotl 4 (0x12 :: byte) = 0x21" "bit (0x21 :: byte) 0" "\<not> bit (0x21 :: byte) 7"
    by code_simp+
  show ?thesis using shifts_words [OF s, of 4] by (simp add: r Let_def vm0_def)
qed

section \<open>Multiplication and division\<close>

text \<open>
  C27. The multiplications leave the product of the words in \<open>DX:AX\<close>, of the unsigned (\<open>mul\<close>) or
  the signed values (\<open>imul\<close>), and \<open>CF\<close> and \<open>OF\<close> say whether \<open>DX\<close> is not zero: for \<open>mul\<close> that
  the product does not fit in \<open>AX\<close>, but for \<open>imul\<close> that it is not in 0 .. 65535, where the
  processor says that it is not in -32768 .. 32767. The divisions stop at a divisor of zero;
  otherwise, where the quotient fits in \<open>AX\<close>, quotient and remainder give back \<open>DX:AX\<close> with a
  remainder below the divisor, for \<open>idiv\<close> with the sign of the dividend.
\<close>

theorem multiply_divide:
  assumes "opr_get o1 st = Inr (sint (a :: u16))"
  shows "(\<exists>st'. vm_mul16 o1 st = Inr st' \<and> udxax st' = uint (v_r st AX) * uint a \<and>
      v_CF st' = (65536 \<le> uint (v_r st AX) * uint a) \<and> v_OF st' = v_CF st') \<and>
    (\<exists>st'. vm_imul16 o1 st = Inr st' \<and> sdxax st' = sint (v_r st AX) * sint a \<and>
      v_CF st' = (\<not> (0 \<le> sint (v_r st AX) * sint a \<and> sint (v_r st AX) * sint a < 65536)) \<and> v_OF st' = v_CF st') \<and>
    (a = 0 \<longrightarrow> vm_div16 o1 st = Inl Divide_trap \<and> vm_idiv16 o1 st = Inl Divide_trap) \<and>
    (v_r st DX < a \<longrightarrow> (\<exists>st'. vm_div16 o1 st = Inr st' \<and>
      udxax st = uint (v_r st' AX) * uint a + uint (v_r st' DX) \<and> v_r st' DX < a)) \<and>
    (a \<noteq> 0 \<and> \<bar>sdxax st\<bar> < 32768 * \<bar>sint a\<bar> \<longrightarrow> (\<exists>st'. vm_idiv16 o1 st = Inr st' \<and>
      sdxax st = sint (v_r st' AX) * sint a + sint (v_r st' DX) \<and> \<bar>sint (v_r st' DX)\<bar> < \<bar>sint a\<bar> \<and>
      (sint (v_r st' DX) \<noteq> 0 \<longrightarrow> sgn (sint (v_r st' DX)) = sgn (sdxax st))))"
  using mul16_eq [OF assms] imul16_eq [OF assms] div16_eq [OF assms] div16_exact [OF assms] idiv16_exact [OF assms] assms
  by (simp add: vm_idiv16_def)

text \<open>\<open>imul\<close> of 1 and -1: the product is -1, and the flags are set.\<close>

theorem multiply_divide_witness:
  "\<exists>st'. vm_imul16 (opr_set Reg True 3 vm0) (vm0\<lparr>v_r := (\<lambda>_. 0)(AX := 1, BX := 0xffff)\<rparr>) = Inr st' \<and> sdxax st' = -1 \<and> v_CF st'"
proof -
  let ?st = "vm0\<lparr>v_r := (\<lambda>_. 0)(AX := 1, BX := 0xffff)\<rparr>"
  have "opr_get (opr_set Reg True 3 vm0) ?st = Inr (sint (0xffff :: u16))" by (simp add: emu_eval)
  note multiply_divide [THEN conjunct2, THEN conjunct1, OF this]
  then show ?thesis by (auto simp: reg_defs)
qed

section \<open>Termination\<close>

text \<open>
  C28. One instruction of the emulator returns: the repeated string instructions and the shifts end,
  whatever the registers hold. The only way to run for ever is a row of repeat prefixes, each of
  which calls the interpreter again: the calls nest exactly as deep as the prefixes go, and do not
  end where the whole memory is filled with them.
\<close>

theorem run1_returns:
  assumes "\<not> v_r st SP < v_brksize st"
  shows "run1 n sys rep st = Inl Vm_loops \<longleftrightarrow> (\<forall>k<n. text_mem st (v_IP st + of_nat k) \<in> {0xf2, 0xf3})"
  using run1_loops [of n st sys rep] run1_ends [of n st sys rep] assms by blast

theorem run1_returns_witness:
  "run1 9 (\<lambda>_ _. None) 0 (vm0\<lparr>v_text := (\<lambda>_. 0xf3)\<rparr>) = Inl Vm_loops \<and> run1 1 (\<lambda>_ _. None) 0 vm0 \<noteq> Inl Vm_loops"
proof
  show "run1 9 (\<lambda>_ _. None) 0 (vm0\<lparr>v_text := (\<lambda>_. 0xf3)\<rparr>) = Inl Vm_loops"
    by (subst run1_returns) (simp_all add: vm0_def text_mem_def)
  show "run1 1 (\<lambda>_ _. None) 0 vm0 \<noteq> Inl Vm_loops"
    by (subst run1_returns) (simp_all add: vm0_def text_mem_def)
qed

end
