(* ===== verification/Cv_Ix.thy ===== *)
theory Cv_Ix
  imports Obj_Read "HOL-Library.Signed_Division"
begin

text \<open>
  The converter of the kit (\<open>Ack-5.5/cv/cv-i86.c\<close>): it reads a linked object file with the routines of the object
  library and writes an executable of PC/IX and Minix, with a name list. The object file is the state
  \<open>rd\<close> of the library, the output the bytes written to it; a call of \<open>fatal\<close> is an error, after which
  the output file is removed.
\<close>

section \<open>Errors and output\<close>

text \<open>
  Beside the messages: a remainder by zero, and a read beyond the string area (which the program does
  not notice). \<open>rd_fatal\<close> of the program is the message on a read error.
\<close>

datatype cv_error = Cv_fatal string | Cv_trap | Cv_overrun

fun cv_lib_error :: "obj_error \<Rightarrow> cv_error" where
  "cv_lib_error Rd_fatal = Cv_fatal ''read error''"
| "cv_lib_error Wr_fatal = Cv_fatal ''read error''"
| "cv_lib_error Out_of_bounds = Cv_overrun"

definition cv_lib :: "obj_error + 'a \<Rightarrow> cv_error + 'a" where
  "cv_lib m = map_sum cv_lib_error id m"

definition cv_int2 :: "u32 \<Rightarrow> bytes" where
  "cv_int2 n = [ucast n, ucast (signed_drop_bit 8 n)]"

definition cv_long :: "u32 \<Rightarrow> bytes" where
  "cv_long l = [ucast l, ucast (signed_drop_bit 8 l), ucast (signed_drop_bit 16 l), ucast (signed_drop_bit 24 l)]"

section \<open>The layout\<close>

text \<open>The header; the fields that are not set are zero.\<close>

record cv_exec =
  x_flags :: byte
  x_text :: u32
  x_data :: u32
  x_bss :: u32
  x_entry :: u32
  x_misc :: u32
  x_syms :: u32

definition cv_header :: "cv_exec \<Rightarrow> bytes" where
  "cv_header e =
     [1, 3, x_flags e, 4, 32, 0] @ cv_int2 0 @ cv_long (x_text e) @ cv_long (x_data e) @ cv_long (x_bss e) @
     cv_long (x_entry e) @ cv_long (x_misc e) @ cv_long (x_syms e)"

text \<open>Sections by their numbers, and the size of an entry of the name list (\<open>long\<close> having four bytes).\<close>

definition TEXTSG :: nat where "TEXTSG = 0"
definition ROMSG :: nat where "ROMSG = 1"
definition DATASG :: nat where "DATASG = 2"
definition BSSSG :: nat where "BSSSG = 3"
definition LSECT :: nat where "LSECT = 4"
definition NSECT :: nat where "NSECT = 5"
definition SZ_IX :: nat where "SZ_IX = 16"

lemmas SG_defs = TEXTSG_def ROMSG_def DATASG_def BSSSG_def LSECT_def NSECT_def

definition cv_align :: "u32 \<Rightarrow> u32 \<Rightarrow> cv_error + u32" where
  "cv_align a b =
     (let a = a + (b - 1)
      in if b = 0 \<or> b = -1 \<and> a = 0x80000000 then Inl Cv_trap
         else Inr (a - word_of_int (sint a smod sint b)))"

definition cv_follows :: "outsect \<Rightarrow> outsect \<Rightarrow> cv_error + bool" where
  "cv_follows pa pb = bindE (cv_align (os_base pb + os_size pb) (os_lign pa)) (\<lambda>x. Inr (os_base pa = x))"

definition cv_require :: "outsect \<Rightarrow> outsect \<Rightarrow> string \<Rightarrow> cv_error + unit" where
  "cv_require pa pb msg = bindE (cv_follows pa pb) (\<lambda>b. checkE b (Cv_fatal msg))"

definition set_size :: "nat \<Rightarrow> u32 \<Rightarrow> outsect list \<Rightarrow> outsect list" where
  "set_size i n sects = sects[i := (sects ! i)\<lparr>os_size := n\<rparr>]"

text \<open>The size of the text: up to the next sixteen bytes where instructions and data are separate, else up to the rom.\<close>

definition cv_text_size :: "outsect list \<Rightarrow> cv_error + byte \<times> outsect list" where
  "cv_text_size sects =
     (if os_base (sects ! ROMSG) = 0 then
        bindE (cv_align (os_size (sects ! TEXTSG)) 16) (\<lambda>n. Inr (0x20, set_size TEXTSG n sects))
      else
        let sects = set_size TEXTSG (os_base (sects ! ROMSG) - os_base (sects ! TEXTSG)) sects
        in bindE (cv_require (sects ! ROMSG) (sects ! TEXTSG) ''rom segment must follow text'') (\<lambda>_.
             Inr (0x10, sects)))"

text \<open>The checks, the new sizes and the header (\<open>main\<close>, between reading the sections and writing).\<close>

definition cv_layout :: "outhead \<Rightarrow> outsect list \<Rightarrow> cv_error + cv_exec \<times> outsect list" where
  "cv_layout h sects =
     (if os_base (sects ! TEXTSG) \<noteq> 0 then
        Inl (Cv_fatal (''text must start at 0 not at 0x'' @ fmt_x 0 (unat (os_base (sects ! TEXTSG)))))
      else if os_flen (sects ! BSSSG) \<noteq> 0 then Inl (Cv_fatal ''bss space contains initialized data'')
      else
        bindE (cv_require (sects ! BSSSG) (sects ! DATASG) ''bss segment must follow data segment'') (\<lambda>_.
        bindE (cv_require (sects ! DATASG) (sects ! ROMSG) ''data segment must follow rom'') (\<lambda>_.
        let sects = set_size ROMSG (os_base (sects ! DATASG) - os_base (sects ! ROMSG)) sects;
            sects = set_size DATASG (os_base (sects ! BSSSG) - os_base (sects ! DATASG)) sects
        in bindE (cv_text_size sects) (\<lambda>(flags, sects).
           bindE (if unat (oh_nsect h) = NSECT then
                    bindE (cv_require (sects ! LSECT) (sects ! BSSSG) ''end segment must follow bss'') (\<lambda>_.
                      checkE (os_size (sects ! LSECT) = 0) (Cv_fatal ''end segment must be empty''))
                  else Inr ()) (\<lambda>_.
             Inr (\<lparr>x_flags = flags, x_text = os_size (sects ! TEXTSG),
                   x_data = os_base (sects ! BSSSG) - os_base (sects ! ROMSG), x_bss = os_size (sects ! BSSSG),
                   x_entry = os_base (sects ! TEXTSG), x_misc = 0x10000,
                   x_syms = ucast (oh_nname h) * of_nat SZ_IX\<rparr>, sects))))))"

section \<open>The contents\<close>

definition CV_BUFSIZ :: int where "CV_BUFSIZ = 512"

text \<open>\<open>emits\<close>: the contents of the section in blocks, and zeros up to its size.\<close>

function cv_copy :: "int \<Rightarrow> rd \<Rightarrow> obj_error + bytes \<times> rd" where
  "cv_copy n s =
     (if n \<le> 0 then Inr ([], s)
      else let blk = (if n > CV_BUFSIZ then CV_BUFSIZ else n)
           in bindE (rd_emit blk s) (\<lambda>(b, s). bindE (cv_copy (n - blk) s) (\<lambda>(bs, s). Inr (b @ bs, s))))"
  by pat_completeness auto
termination by (relation "measure (\<lambda>(n, s). nat n)") (auto simp: CV_BUFSIZ_def)

function cv_zeros :: "int \<Rightarrow> bytes" where
  "cv_zeros n =
     (if n \<le> 0 then []
      else let blk = (if n > CV_BUFSIZ then CV_BUFSIZ else n) in replicate (nat blk) 0 @ cv_zeros (n - blk))"
  by pat_completeness auto
termination by (relation "measure nat") (auto simp: CV_BUFSIZ_def)

declare cv_copy.simps [simp del] cv_zeros.simps [simp del]

definition cv_emits :: "nat \<Rightarrow> outsect list \<Rightarrow> rd \<Rightarrow> obj_error + bytes \<times> rd" where
  "cv_emits i sects s =
     bindE (rd_outsect i s) (\<lambda>s.
     bindE (cv_copy (sint (os_flen (sects ! i))) s) (\<lambda>(b, s).
       Inr (b @ cv_zeros (sint (os_size (sects ! i) - os_flen (sects ! i))), s)))"

section \<open>The name list\<close>

text \<open>The storage class; that of an unknown type is the one of the symbol before.\<close>

definition cv_sclass :: "u16 \<Rightarrow> byte \<Rightarrow> byte" where
  "cv_sclass t old =
     (let k = t AND S_TYP
      in (if k = S_UND then 0 else if k = S_ABS then 1 else if k = S_MIN + of_nat TEXTSG then 2
          else if k = S_MIN + of_nat ROMSG \<or> k = S_MIN + of_nat DATASG then 3
          else if k = S_MIN + of_nat BSSSG \<or> k = S_MIN + of_nat LSECT then 4 else old)
         OR (if t AND S_EXT \<noteq> 0 then 16 else 0))"

text \<open>The first eight bytes of a string, padded with zeros; the first byte is taken whatever it is.\<close>

fun cv_name8 :: "nat \<Rightarrow> bytes \<Rightarrow> cv_error + bytes" where
  "cv_name8 0 p = Inr []"
| "cv_name8 (Suc k) (c # d # p) =
     (if d = 0 then Inr (c # replicate k 0) else bindE (cv_name8 k (d # p)) (\<lambda>s. Inr (c # s)))"
| "cv_name8 (Suc k) p = Inl Cv_overrun"

definition cv_name_at :: "outhead \<Rightarrow> bytes \<Rightarrow> outname \<Rightarrow> cv_error + bytes" where
  "cv_name_at h chars n =
     (if on_foff n = 0 then Inr [0, 0, 0]
      else let l = long (sint (on_foff n) - OFF_CHAR h)
           in if l < 0 \<or> l \<ge> sint (oh_nchar h) then Inl (Cv_fatal (''bad on_off: '' @ fmt_d l))
              else Inr (drop (nat l) chars))"

definition cv_symbol :: "outhead \<Rightarrow> bytes \<Rightarrow> outname \<Rightarrow> byte \<Rightarrow> cv_error + bytes \<times> byte" where
  "cv_symbol h chars n old =
     (let c = cv_sclass (on_type n) old
      in bindE (cv_name_at h chars n) (\<lambda>p.
         bindE (cv_name8 8 p) (\<lambda>name.
           Inr (name @ cv_long (on_valu n) @ [c, 0] @ cv_int2 0, c))))"

fun cv_symbols :: "nat \<Rightarrow> outhead \<Rightarrow> bytes \<Rightarrow> byte \<Rightarrow> rd \<Rightarrow> cv_error + bytes" where
  "cv_symbols 0 h chars old s = Inr []"
| "cv_symbols (Suc k) h chars old s =
     bindE (cv_lib (rd_name 1 s)) (\<lambda>(ns, s).
     bindE (cv_symbol h chars (ns ! 0) old) (\<lambda>(b, c).
     bindE (cv_symbols k h chars c s) (\<lambda>bs. Inr (b @ bs))))"

definition cv_symtab :: "outhead \<Rightarrow> rd \<Rightarrow> cv_error + bytes" where
  "cv_symtab h s =
     bindE (cv_lib (rd_string (sint (oh_nchar h)) s)) (\<lambda>(chars, s).
       cv_symbols (unat (oh_nname h)) h chars 0 s)"

section \<open>The program\<close>

text \<open>\<open>main\<close> from the header on; \<open>alloc\<close> tells whether \<open>malloc\<close> yields so many bytes.\<close>

definition cv_convert :: "(nat \<Rightarrow> bool) \<Rightarrow> rd \<Rightarrow> cv_error + bytes" where
  "cv_convert alloc s =
     bindE (cv_lib (rd_ohead s)) (\<lambda>(h, s).
       if BADMAGIC h then Inl (Cv_fatal ''Not an ack object file.'')
       else if oh_flags h AND HF_LINK \<noteq> 0 then Inl (Cv_fatal ''Contains unresolved references.'')
       else if unat (oh_nsect h) \<noteq> LSECT \<and> unat (oh_nsect h) \<noteq> NSECT then
         Inl (Cv_fatal (''Input file must have 5 sections, not '' @ fmt_d (uint (oh_nsect h))))
       else
         bindE (cv_lib (rd_sect (unat (oh_nsect h)) s)) (\<lambda>(sects, s).
         bindE (cv_layout h sects) (\<lambda>(e, sects).
         let e = (if oh_nchar h \<noteq> 0 \<and> \<not> alloc (unat (oh_nchar h)) then e\<lparr>x_syms := 0\<rparr> else e)
         in bindE (cv_lib (cv_emits TEXTSG sects s)) (\<lambda>(t, s).
            bindE (cv_lib (cv_emits ROMSG sects s)) (\<lambda>(r, s).
            bindE (cv_lib (cv_emits DATASG sects s)) (\<lambda>(d, s).
            bindE (if x_syms e \<noteq> 0 then cv_symtab h s else Inr []) (\<lambda>y.
              Inr (cv_header e @ t @ r @ d @ y))))))))"

text \<open>
  \<open>main\<close>: the arguments after the name of the program, the files by their names (the others cannot be opened), the
  names that can be created, and the descriptor 0. The result is the name of the output, \<open>None\<close> for
  the standard output, and what is written there. A failing \<open>rd_fdopen\<close> is not noticed.
\<close>

definition cv_main ::
    "(nat \<Rightarrow> bool) \<Rightarrow> string list \<Rightarrow> (string \<Rightarrow> bytes option) \<Rightarrow> (string \<Rightarrow> bool) \<Rightarrow> fd \<Rightarrow> cv_error + string option \<times> bytes" where
  "cv_main alloc args files can_create stdin =
     (let args = (if args \<noteq> [] \<and> hd args \<noteq> [] \<and> hd (hd args) = CHR ''-'' then tl args else args)
      in case args of
           [] \<Rightarrow> bindE (cv_convert alloc (snd (rd_fdopen stdin rd_init))) (\<lambda>out. Inr (None, out))
         | [f] \<Rightarrow>
             (let (ok, s) = rd_open (files f) rd_init
              in if ok = 0 then Inl (Cv_fatal (''Can'' @ [CHR 0x27] @ ''t read '' @ f @ ''.''))
                 else bindE (cv_convert alloc s) (\<lambda>out. Inr (None, out)))
         | [f, g] \<Rightarrow>
             if \<not> can_create g then Inl (Cv_fatal (''Can'' @ [CHR 0x27] @ ''t write '' @ g @ ''.''))
             else let (ok, s) = rd_open ((files(g \<mapsto> [])) f) rd_init
                  in if ok = 0 then Inl (Cv_fatal (''Can'' @ [CHR 0x27] @ ''t read '' @ f @ ''.''))
                     else bindE (cv_convert alloc s) (\<lambda>out. Inr (Some g, out))
         | _ \<Rightarrow> Inl (Cv_fatal ''Usage: <as object> <dl object>.''))"

end
