(* ===== verification/Cv_Lemmas.thy ===== *)
theory Cv_Lemmas
  imports Cv_Ix
begin

text \<open>
  Lemmas on the converter: the numbers it writes, the layout of a linked object, the contents of a section
  copied in blocks, and the name list as a function of the names.
\<close>

section \<open>Numbers and blocks\<close>

lemma cv_put: "cv_int2 x = put2 x" "cv_long x = put4 x"
proof -
  show "cv_int2 x = put2 x" by (simp add: cv_int2_def put2_def)
  have "(ucast (signed_drop_bit 8 (signed_drop_bit 16 x)) :: byte) = ucast (signed_drop_bit 24 x)"
    by (rule bit_word_eqI) (auto simp: bit_simps bit_signed_drop_bit_iff)
  then show "cv_long x = put4 x" by (simp add: cv_long_def put4_def put2_def)
qed

lemma length_cv_header [simp]: "length (cv_header e) = 32"
  by (simp add: cv_header_def cv_put)

lemma cv_zeros_eq: "cv_zeros n = replicate (nat n) 0"
proof (induction n rule: cv_zeros.induct)
  case (1 n)
  have "replicate (nat CV_BUFSIZ) x @ replicate (nat (n - CV_BUFSIZ)) x = replicate (nat n) x" if "CV_BUFSIZ < n" for x :: byte
  proof -
    have "nat n = nat CV_BUFSIZ + nat (n - CV_BUFSIZ)" using that by (simp add: CV_BUFSIZ_def)
    then show ?thesis by (simp only: replicate_add)
  qed
  with 1 show ?case by (subst cv_zeros.simps) (auto simp: Let_def cv_zeros.simps [of 0])
qed

text \<open>A copy is one slice of the file, at the cursor of the contents.\<close>

definition rd_keeps :: "nat \<Rightarrow> rd \<Rightarrow> rd \<Rightarrow> bool" where
  "rd_keeps i s t \<longleftrightarrow> rd_frame s t \<and> (\<forall>p. p \<noteq> RD_PARTEMIT \<longrightarrow> rd_cur t p = rd_cur s p) \<and>
     (\<forall>j. j \<noteq> i \<longrightarrow> rd_offset t ! j = rd_offset s ! j)"

lemma rd_keeps_trans: "rd_keeps i s t \<Longrightarrow> rd_keeps i t u \<Longrightarrow> rd_keeps i s u"
  by (auto simp: rd_keeps_def intro: rd_frame_trans)

lemma rd_emit_ok:
  assumes s: "rd_inv s" "rd_cur s RD_PARTEMIT + n \<le> length (rd_content s)"
  shows "\<exists>t. rd_emit (int n) s = Inr (seg (rd_content s) (rd_cur s RD_PARTEMIT) n, t) \<and> rd_keeps (rd_sectionnr s) s t \<and>
    rd_cur t RD_PARTEMIT = rd_cur s RD_PARTEMIT + n \<and> rd_sectionnr t = rd_sectionnr s"
proof -
  obtain u where u: "OUTREAD RD_PARTEMIT (int n) s = Inr (seg (rd_content s) (rd_cur s RD_PARTEMIT) n, u)"
      "rd_frame s u" "rd_cur u = (rd_cur s)(RD_PARTEMIT := rd_cur s RD_PARTEMIT + n)"
      "rd_offset u = rd_offset s" "rd_sectionnr u = rd_sectionnr s"
    using OUTREAD_ok [OF s(1) _ s(2)] by (auto simp: RD_PART_lt)
  let ?t = "u\<lparr>rd_offset := (rd_offset u)[rd_sectionnr u := long (rd_offset u ! rd_sectionnr u + int n)]\<rparr>"
  have f: "rd_frame u ?t" "rd_cur ?t = rd_cur u"
    using rd_frameD(1) [OF u(2)] by (simp_all add: rd_frame_def rd_inv_def rd_content_def rd_cur_def fun_eq_iff)
  have "rd_emit (int n) s = Inr (seg (rd_content s) (rd_cur s RD_PARTEMIT) n, ?t)"
    by (simp add: rd_emit_def u(1) Let_def)
  moreover have "rd_keeps (rd_sectionnr s) s ?t"
    using rd_frame_trans [OF u(2) f(1)] f(2) u(3-5) by (simp add: rd_keeps_def)
  ultimately show ?thesis using f(2) u(3,5) by (intro exI [of _ ?t]) simp
qed

lemma cv_copy_ok:
  assumes "rd_inv s" "rd_cur s RD_PARTEMIT + n \<le> length (rd_content s)"
  shows "\<exists>t. cv_copy (int n) s = Inr (seg (rd_content s) (rd_cur s RD_PARTEMIT) n, t) \<and> rd_keeps (rd_sectionnr s) s t"
  using assms
proof (induction n arbitrary: s rule: less_induct)
  case (less n)
  show ?case
  proof (cases "n = 0")
    case True
    then show ?thesis using less.prems by (simp add: cv_copy.simps rd_keeps_def rd_frame_refl)
  next
    case False
    define m where "m = min n 512"
    have m: "0 < m" "m \<le> n" "(if int n > CV_BUFSIZ then CV_BUFSIZ else int n) = int m"
      using False by (auto simp: m_def CV_BUFSIZ_def)
    obtain t where t: "rd_emit (int m) s = Inr (seg (rd_content s) (rd_cur s RD_PARTEMIT) m, t)" "rd_keeps (rd_sectionnr s) s t"
        "rd_cur t RD_PARTEMIT = rd_cur s RD_PARTEMIT + m" "rd_sectionnr t = rd_sectionnr s"
      using rd_emit_ok [OF less.prems(1), of m] less.prems(2) m(2) by auto
    have c: "rd_inv t" "rd_content t = rd_content s" using t(2) rd_frameD by (auto simp: rd_keeps_def)
    obtain u where u: "cv_copy (int (n - m)) t = Inr (seg (rd_content s) (rd_cur s RD_PARTEMIT + m) (n - m), u)"
        "rd_keeps (rd_sectionnr s) t u"
      using less.IH [of "n - m" t] m c t(3,4) less.prems(2) by auto
    have e: "int n - int m = int (n - m)" using m(2) by simp
    have p: "\<not> int n \<le> 0" using False by simp
    have "cv_copy (int n) s = Inr (seg (rd_content s) (rd_cur s RD_PARTEMIT) m @
        seg (rd_content s) (rd_cur s RD_PARTEMIT + m) (n - m), u)"
      unfolding cv_copy.simps [of "int n"] Let_def m(3) e if_not_P [OF p] t(1) bindE.simps prod.case u(1) by (rule refl)
    moreover have "seg (rd_content s) (rd_cur s RD_PARTEMIT) m @ seg (rd_content s) (rd_cur s RD_PARTEMIT + m) (n - m) =
        seg (rd_content s) (rd_cur s RD_PARTEMIT) n"
      using seg_split [of "rd_content s" "rd_cur s RD_PARTEMIT" m "n - m"] m(2) by simp
    ultimately show ?thesis using rd_keeps_trans [OF t(2) u(2)] by simp
  qed
qed

text \<open>The contents of a section as they are written: padded with zeros to the size.\<close>

definition padded :: "nat \<Rightarrow> bytes \<Rightarrow> bytes" where
  "padded n bs = bs @ replicate (n - length bs) 0"

lemma length_padded [simp]: "length bs \<le> n \<Longrightarrow> length (padded n bs) = n"
  by (simp add: padded_def)

lemma cv_emits_ok:
  assumes ob: "obj_at ob b s" and i: "i < length (ob_sects ob)" "rd_offset s ! i = int (b + emit_off ob i)"
    and n: "os_flen (sects ! i) = os_flen (ob_sects ob ! i)" "length (ob_emits ob ! i) \<le> unat (os_size (sects ! i))"
      "unat (os_size (sects ! i)) < 2 ^ 31"
  shows "\<exists>t. cv_emits i sects s = Inr (padded (unat (os_size (sects ! i))) (ob_emits ob ! i), t) \<and> rd_keeps i s t"
proof -
  note bnd = obj_at_bounds [OF ob]
  have fl: "unat (os_flen (sects ! i)) = length (ob_emits ob ! i)"
    using obj_at_wf(1) [OF ob] i n(1) by (simp add: wf_obj_def)
  have le: "b + emit_off ob i + length (ob_emits ob ! i) \<le> length (rd_content s)"
    using bnd(7) [OF i(1)] bnd(1) by (simp add: char_off_def name_off_def)
  define t where "t = s\<lparr>rd_outseek := (rd_outseek s)[RD_PARTEMIT := rd_offset s ! i], rd_sectionnr := i\<rparr>"
  have t: "rd_outsect i s = Inr t" "rd_frame s t" "rd_cur t = (rd_cur s)(RD_PARTEMIT := b + emit_off ob i)"
    "rd_offset t = rd_offset s" "rd_sectionnr t = i"
    using obj_at_counts(2) [OF ob] i rd_cur_seek [OF obj_at_wf(2) [OF ob] RD_PART_lt(1), of "int (b + emit_off ob i)"]
      obj_at_wf(2) [OF ob]
    by (simp_all add: t_def rd_outsect_def rd_frame_def rd_inv_def rd_content_def rd_cur_def fun_eq_iff nat_int_add)
  have k: "rd_keeps i s t" using t(2-4) by (simp add: rd_keeps_def)
  obtain u where u: "cv_copy (int (length (ob_emits ob ! i))) t = Inr (ob_emits ob ! i, u)" "rd_keeps i t u"
    using cv_copy_ok [OF rd_frameD(1) [OF t(2)], of "length (ob_emits ob ! i)"] le t(3,5) rd_frameD(2) [OF t(2)]
      obj_at_segs(3) [OF ob i(1)] by auto
  have sl: "sint (os_flen (sects ! i)) = int (length (ob_emits ob ! i))"
    using fl n(2,3) by (simp add: sint_u32_small)
  have "unat (os_size (sects ! i) - os_flen (sects ! i)) = unat (os_size (sects ! i)) - length (ob_emits ob ! i)"
    using fl n(2) by (simp add: unat_sub word_le_nat_alt)
  then have "sint (os_size (sects ! i) - os_flen (sects ! i)) = int (unat (os_size (sects ! i)) - length (ob_emits ob ! i))"
    using n(3) by (simp add: sint_u32_small)
  then have "cv_emits i sects s = Inr (padded (unat (os_size (sects ! i))) (ob_emits ob ! i), u)"
    using t(1) u(1) by (simp add: cv_emits_def sl cv_zeros_eq padded_def)
  then show ?thesis using rd_keeps_trans [OF k u(2)] by blast
qed

section \<open>The layout of a linked object\<close>

definition sect_base :: "obj \<Rightarrow> nat \<Rightarrow> nat" where "sect_base ob i = unat (os_base (ob_sects ob ! i))"
definition sect_size :: "obj \<Rightarrow> nat \<Rightarrow> nat" where "sect_size ob i = unat (os_size (ob_sects ob ! i))"
definition sect_lign :: "obj \<Rightarrow> nat \<Rightarrow> nat" where "sect_lign ob i = unat (os_lign (ob_sects ob ! i))"

lemmas sect_defs = sect_base_def sect_size_def sect_lign_def

definition align_up :: "nat \<Rightarrow> nat \<Rightarrow> nat" where
  "align_up a b = (a + (b - 1)) div b * b"

lemma align_up_ge: "0 < b \<Longrightarrow> a \<le> align_up a b"
proof -
  assume "0 < b"
  then have "(a + (b - 1)) mod b \<le> b - 1" using mod_less_divisor [of b "a + (b - 1)"] by linarith
  then show ?thesis unfolding align_up_def minus_mod_eq_div_mult [symmetric] by linarith
qed

lemma align_up_less: "0 < b \<Longrightarrow> align_up a b < a + b"
proof -
  assume "0 < b"
  moreover have "align_up a b \<le> a + (b - 1)" unfolding align_up_def by (rule div_times_less_eq_dividend)
  ultimately show ?thesis by linarith
qed

lemma align_up_twice: "0 < b \<Longrightarrow> align_up (align_up a b) b = align_up a b"
proof -
  assume b: "0 < b"
  then have "(b - 1) div b = 0" by simp
  then have "(k * b + (b - 1)) div b = k" for k
    using div_mult_self3 [of b k "b - 1"] b by linarith
  then show ?thesis unfolding align_up_def by (simp only:)
qed

lemma cv_align_ok:
  assumes "0 < unat b" "unat a + unat b < 2 ^ 31"
  shows "\<exists>w. cv_align a b = Inr w \<and> unat w = align_up (unat a) (unat b)"
proof -
  let ?x = "a + (b - 1)" and ?n = "unat a + (unat b - 1)"
  have b1: "unat (b - 1) = unat b - 1" using assms(1) by (simp add: unat_minus_one unat_gt_0)
  have x: "unat ?x = ?n" using assms by (subst unat_plus_if_size) (simp add: b1 word_size)
  have s: "sint ?x = int ?n" "sint b = int (unat b)"
    using assms x by (simp_all add: sint_u32_small)
  have m: "sint ?x smod sint b = int (?n mod unat b)"
    unfolding s by (simp only: smod_mod_positive of_nat_0_le_iff zmod_int)
  have nz: "b \<noteq> 0" "\<not> (b = -1 \<and> ?x = 0x80000000)"
    using assms by auto
  have le: "(of_nat (?n mod unat b) :: u32) \<le> ?x" "unat (of_nat (?n mod unat b) :: u32) = ?n mod unat b"
  proof -
    have l: "?n mod unat b \<le> ?n" "?n < 2 ^ 32" using assms by simp_all
    then have "?n mod unat b < 2 ^ 32" by (rule le_less_trans)
    then show "unat (of_nat (?n mod unat b) :: u32) = ?n mod unat b" by (simp add: unat_of_nat)
    then show "(of_nat (?n mod unat b) :: u32) \<le> ?x" using l(1) x by (simp add: word_le_nat_alt)
  qed
  have "unat (?x - of_nat (?n mod unat b)) = align_up (unat a) (unat b)"
    using le x by (simp add: unat_sub align_up_def minus_mod_eq_div_mult)
  moreover have "cv_align a b = Inr (?x - of_nat (?n mod unat b))"
    using nz unfolding cv_align_def Let_def m by simp
  ultimately show ?thesis by blast
qed

definition after :: "obj \<Rightarrow> nat \<Rightarrow> nat \<Rightarrow> bool" where
  "after ob i j \<longleftrightarrow> 0 < sect_lign ob i \<and> sect_base ob j + sect_size ob j + 2 * sect_lign ob i < 2 ^ 31 \<and>
     sect_base ob i = align_up (sect_base ob j + sect_size ob j) (sect_lign ob i)"

lemma cv_require_ok:
  assumes "0 < unat (os_lign pa)" "unat (os_base pb) + unat (os_size pb) + unat (os_lign pa) < 2 ^ 31"
    "unat (os_base pa) = align_up (unat (os_base pb) + unat (os_size pb)) (unat (os_lign pa))"
  shows "cv_require pa pb msg = Inr ()"
proof -
  have s: "unat (os_base pb + os_size pb) = unat (os_base pb) + unat (os_size pb)"
    using assms(2) by (subst unat_plus_if_size) (simp add: word_size)
  obtain w where "cv_align (os_base pb + os_size pb) (os_lign pa) = Inr w" "unat w = unat (os_base pa)"
    using cv_align_ok [of "os_lign pa" "os_base pb + os_size pb"] assms s by auto
  moreover from this have "os_base pa = w" by (metis unsigned_word_eqI)
  ultimately show ?thesis by (simp add: cv_require_def cv_follows_def)
qed

lemma after_order:
  assumes "after ob i j"
  shows "sect_base ob j + sect_size ob j \<le> sect_base ob i" "sect_base ob i < 2 ^ 31"
  using assms align_up_ge [of "sect_lign ob i" "sect_base ob j + sect_size ob j"]
    align_up_less [of "sect_lign ob i" "sect_base ob j + sect_size ob j"] by (simp_all add: after_def)

text \<open>A name that is a string of the file, or has none.\<close>

definition name_str :: "obj \<Rightarrow> outname \<Rightarrow> bytes" where
  "name_str ob n = (if on_foff n = 0 then [0, 0, 0] else drop (unat (on_foff n) - char_off ob) (ob_chars ob))"

definition name_ok :: "obj \<Rightarrow> outname \<Rightarrow> bool" where
  "name_ok ob n \<longleftrightarrow> on_foff n = 0 \<or> char_off ob \<le> unat (on_foff n) \<and> unat (on_foff n) < char_off ob + length (ob_chars ob) \<and>
     (8 < length (name_str ob n) \<or> 0 \<in> set (tl (name_str ob n)))"

text \<open>What the converter needs of an object: linked, of four or five sections that follow each other.\<close>

definition cv_linked :: "obj \<Rightarrow> bool" where
  "cv_linked ob \<longleftrightarrow> wf_obj ob \<and> oh_magic (ob_head ob) = O_MAGIC \<and> oh_flags (ob_head ob) AND HF_LINK = 0 \<and>
     length (ob_sects ob) \<in> {LSECT, NSECT} \<and> sect_base ob TEXTSG = 0 \<and> ob_emits ob ! BSSSG = [] \<and>
     after ob BSSSG DATASG \<and> after ob DATASG ROMSG \<and>
     (length (ob_sects ob) = NSECT \<longrightarrow> after ob LSECT BSSSG \<and> sect_size ob LSECT = 0) \<and>
     (if sect_base ob ROMSG = 0 then sect_size ob TEXTSG + 16 < 2 ^ 31 else after ob ROMSG TEXTSG) \<and>
     (\<forall>i < BSSSG. length (ob_emits ob ! i) \<le> sect_size ob i) \<and> (\<forall>n \<in> set (ob_names ob). name_ok ob n)"

definition text_size :: "obj \<Rightarrow> nat" where
  "text_size ob = (if sect_base ob ROMSG = 0 then align_up (sect_size ob TEXTSG) 16 else sect_base ob ROMSG)"

definition linked_exec :: "obj \<Rightarrow> cv_exec" where
  "linked_exec ob =
     \<lparr>x_flags = (if sect_base ob ROMSG = 0 then 0x20 else 0x10), x_text = of_nat (text_size ob),
      x_data = of_nat (sect_base ob BSSSG - sect_base ob ROMSG), x_bss = os_size (ob_sects ob ! BSSSG), x_entry = 0,
      x_misc = 0x10000, x_syms = of_nat (length (ob_names ob) * SZ_IX)\<rparr>"

text \<open>The checks pass, and the sizes are those of the header.\<close>

lemma unat_minus_u32: "unat b \<le> unat a \<Longrightarrow> unat (a - b :: u32) = unat a - unat b"
  by (simp add: unat_sub word_le_nat_alt)

lemma unat_of_nat_u32: "n < 2 ^ 32 \<Longrightarrow> unat (of_nat n :: u32) = n"
  by (simp add: unat_of_nat)

lemma unat_eq_of_nat: "unat w = n \<Longrightarrow> w = (of_nat n :: u32)"
  by auto

lemma cv_layout_ok:
  assumes "cv_linked ob"
  shows "\<exists>sects. cv_layout (ob_head ob) (ob_sects ob) = Inr (linked_exec ob, sects) \<and>
    unat (os_size (sects ! TEXTSG)) = text_size ob \<and>
    unat (os_size (sects ! ROMSG)) = sect_base ob DATASG - sect_base ob ROMSG \<and>
    unat (os_size (sects ! DATASG)) = sect_base ob BSSSG - sect_base ob DATASG \<and>
    (\<forall>i. os_flen (sects ! i) = os_flen (ob_sects ob ! i))"
proof -
  let ?s = "ob_sects ob"
  define s1 where "s1 = set_size ROMSG (os_base (?s ! DATASG) - os_base (?s ! ROMSG)) ?s"
  define s2 where "s2 = set_size DATASG (os_base (s1 ! BSSSG) - os_base (s1 ! DATASG)) s1"
  have len: "length ?s = 4 \<or> length ?s = 5" using assms by (auto simp: cv_linked_def SG_defs)
  have n: "unat (oh_nsect (ob_head ob)) = length ?s" using assms by (simp add: cv_linked_def wf_obj_def)
  have nm: "x_syms (linked_exec ob) = ucast (oh_nname (ob_head ob)) * of_nat SZ_IX"
  proof -
    have "unat (oh_nname (ob_head ob)) = length (ob_names ob)" using assms by (simp add: cv_linked_def wf_obj_def)
    then have "(ucast (oh_nname (ob_head ob)) :: u32) = of_nat (length (ob_names ob))" by (metis of_nat_unat)
    then show ?thesis by (simp add: linked_exec_def)
  qed
  have s2: "length s2 = length ?s" "s2 ! 0 = ?s ! 0" "s2 ! 3 = ?s ! 3" "length ?s = 5 \<Longrightarrow> s2 ! 4 = ?s ! 4"
    "os_base (s2 ! i) = os_base (?s ! i)" "os_flen (s2 ! i) = os_flen (?s ! i)" "os_lign (s2 ! i) = os_lign (?s ! i)"
    "os_size (s2 ! 1) = os_base (?s ! 2) - os_base (?s ! 1)" "os_size (s2 ! 2) = os_base (?s ! 3) - os_base (?s ! 2)" for i
    using len by (auto simp: s1_def s2_def set_size_def SG_defs nth_list_update)
  have r: "cv_require (?s ! BSSSG) (?s ! DATASG) m = Inr ()" "cv_require (?s ! DATASG) (?s ! ROMSG) m = Inr ()" for m
    using assms by (auto simp: cv_linked_def after_def sect_defs intro!: cv_require_ok)
  note o = after_order [of ob BSSSG DATASG] after_order [of ob DATASG ROMSG]
  have ord: "sect_base ob ROMSG \<le> sect_base ob DATASG" "sect_base ob DATASG \<le> sect_base ob BSSSG" "sect_base ob BSSSG < 2 ^ 31"
    using assms o by (simp_all add: cv_linked_def)
  have sz: "unat (os_size (s2 ! 1)) = sect_base ob DATASG - sect_base ob ROMSG"
    "unat (os_size (s2 ! 2)) = sect_base ob BSSSG - sect_base ob DATASG"
    using ord by (simp_all add: s2 s2(8) [unfolded One_nat_def] unat_minus_u32 sect_defs SG_defs)
  have xd: "os_base (?s ! BSSSG) - os_base (?s ! ROMSG) = x_data (linked_exec ob)"
    using ord by (auto simp: linked_exec_def sect_defs unat_minus_u32 intro!: unat_eq_of_nat)
  have b0: "os_base (?s ! TEXTSG) = 0" "os_flen (?s ! BSSSG) = 0"
  proof -
    show "os_base (?s ! TEXTSG) = 0" using assms by (simp add: cv_linked_def sect_defs unat_eq_zero)
    have "BSSSG < length ?s" using len by (auto simp: SG_defs)
    then have "unat (os_flen (?s ! BSSSG)) = length (ob_emits ob ! BSSSG)" using assms by (simp add: cv_linked_def wf_obj_def)
    then show "os_flen (?s ! BSSSG) = 0" using assms by (simp add: cv_linked_def unat_eq_zero)
  qed
  obtain w where w: "cv_text_size s2 = Inr (x_flags (linked_exec ob), set_size TEXTSG w s2)" "unat w = text_size ob"
  proof (cases "os_base (?s ! ROMSG) = 0")
    case True
    then have "sect_base ob ROMSG = 0" by (simp add: sect_defs)
    moreover from this obtain w where "cv_align (os_size (s2 ! 0)) 16 = Inr w" "unat w = text_size ob"
      using cv_align_ok [of 16 "os_size (?s ! 0)"] assms s2(2)
      by (auto simp: cv_linked_def sect_defs text_size_def SG_defs)
    ultimately show ?thesis using that True s2(5) by (simp add: cv_text_size_def linked_exec_def SG_defs)
  next
    case False
    then have f: "sect_base ob ROMSG \<noteq> 0" by (simp add: sect_defs unat_eq_zero)
    then have a: "after ob ROMSG TEXTSG" using assms by (simp add: cv_linked_def)
    let ?w = "os_base (?s ! ROMSG) - os_base (?s ! TEXTSG)"
    have u: "unat ?w = text_size ob" using f b0 by (simp add: text_size_def sect_defs)
    let ?t = "set_size TEXTSG ?w s2"
    have t: "?t ! 1 = s2 ! 1" "os_base (?t ! 0) = 0" "os_size (?t ! 0) = os_base (?s ! ROMSG)"
      using len s2(1) s2(5) [of 0] b0 by (auto simp: set_size_def SG_defs)
    have "cv_require (?t ! ROMSG) (?t ! TEXTSG) m = Inr ()" for m
    proof (rule cv_require_ok)
      show "0 < unat (os_lign (?t ! ROMSG))" using a t(1) s2(7) [of 1] by (simp add: after_def sect_defs SG_defs)
      show "unat (os_base (?t ! TEXTSG)) + unat (os_size (?t ! TEXTSG)) + unat (os_lign (?t ! ROMSG)) < 2 ^ 31"
        using a t s2(7) [of 1] align_up_less [of "sect_lign ob ROMSG" "sect_base ob TEXTSG + sect_size ob TEXTSG"]
        by (simp add: after_def sect_defs SG_defs)
      show "unat (os_base (?t ! ROMSG)) =
          align_up (unat (os_base (?t ! TEXTSG)) + unat (os_size (?t ! TEXTSG))) (unat (os_lign (?t ! ROMSG)))"
        using a t s2(5,7) [of 1] align_up_twice by (simp add: after_def sect_defs SG_defs)
    qed
    then have "cv_text_size s2 = Inr (x_flags (linked_exec ob), ?t)"
      using False f s2(5) by (simp add: cv_text_size_def linked_exec_def Let_def)
    then show ?thesis using that u by blast
  qed
  let ?t = "set_size TEXTSG w s2"
  have t: "?t ! i = s2 ! i" if "i \<noteq> 0" for i using that by (simp add: set_size_def SG_defs)
  have t0: "os_base (?t ! 0) = 0" "os_size (?t ! 0) = w" "os_flen (?t ! i) = os_flen (?s ! i)" for i
    using len s2(1) s2(5) [of 0] s2(6) b0 by (auto simp: set_size_def SG_defs nth_list_update)
  have e: "(if unat (oh_nsect (ob_head ob)) = NSECT then
      bindE (cv_require (?t ! LSECT) (?t ! BSSSG) m) (\<lambda>_. checkE (os_size (?t ! LSECT) = 0) f) else Inr ()) = Inr ()" for m f
  proof (cases "length ?s = NSECT")
    case True
    then have a: "after ob LSECT BSSSG" "sect_size ob LSECT = 0" using assms by (simp_all add: cv_linked_def)
    have l: "?t ! LSECT = ?s ! LSECT" "?t ! BSSSG = ?s ! BSSSG" using t s2(3,4) True by (simp_all add: SG_defs)
    have "cv_require (?s ! LSECT) (?s ! BSSSG) m = Inr ()" using a by (auto simp: after_def sect_defs intro!: cv_require_ok)
    moreover have "os_size (?s ! LSECT) = 0" using a(2) by (simp add: sect_defs unat_eq_zero)
    ultimately show ?thesis unfolding l by simp
  qed (simp add: n)
  have "cv_layout (ob_head ob) ?s = Inr (\<lparr>x_flags = x_flags (linked_exec ob), x_text = os_size (?t ! TEXTSG),
      x_data = os_base (?t ! BSSSG) - os_base (?t ! ROMSG), x_bss = os_size (?t ! BSSSG), x_entry = os_base (?t ! TEXTSG),
      x_misc = 0x10000, x_syms = ucast (oh_nname (ob_head ob)) * of_nat SZ_IX\<rparr>, ?t)"
    unfolding cv_layout_def Let_def by (simp add: b0 r flip: s1_def s2_def) (simp add: w e)
  moreover have "\<lparr>x_flags = x_flags (linked_exec ob), x_text = os_size (?t ! TEXTSG),
      x_data = os_base (?t ! BSSSG) - os_base (?t ! ROMSG), x_bss = os_size (?t ! BSSSG), x_entry = os_base (?t ! TEXTSG),
      x_misc = 0x10000, x_syms = ucast (oh_nname (ob_head ob)) * of_nat SZ_IX\<rparr> = linked_exec ob"
    using t0 t [of 1] t [of 3] s2(3) s2(5) [of 1] s2(5) [of 3] xd unat_eq_of_nat [OF w(2)] nm by (auto simp: linked_exec_def SG_defs)
  ultimately show ?thesis using t0 t [of 1] t [of 2] w(2) sz by (simp add: SG_defs)
qed

section \<open>The name list\<close>

definition short_name :: "bytes \<Rightarrow> bytes" where
  "short_name p = padded 8 (take 8 (hd p # takeWhile (\<lambda>x. x \<noteq> 0) (tl p)))"

lemma cv_name8_ok:
  "p \<noteq> [] \<Longrightarrow> k < length p \<or> 0 \<in> set (tl p) \<Longrightarrow>
   cv_name8 k p = Inr (padded k (take k (hd p # takeWhile (\<lambda>x. x \<noteq> 0) (tl p))))"
proof (induction k p rule: cv_name8.induct)
  case (2 k c d p)
  show ?case
  proof (cases "d = 0")
    case False
    then have "cv_name8 k (d # p) = Inr (padded k (take k (d # takeWhile (\<lambda>x. x \<noteq> 0) p)))"
      using 2 by (auto simp: Suc_less_eq2)
    then show ?thesis using False by (simp add: padded_def)
  qed (simp add: padded_def)
qed (auto simp: padded_def)

lemma length_short_name [simp]: "length (short_name p) = 8"
  by (simp add: short_name_def del: takeWhile.simps)

lemma name_str_ok:
  assumes ob: "obj_at ob b s" and n: "name_ok ob n"
  shows "cv_name_at (ob_head ob) (ob_chars ob) n = Inr (name_str ob n)" "cv_name8 8 (name_str ob n) = Inr (short_name (name_str ob n))"
proof -
  have ch: "sint (oh_nchar (ob_head ob)) = int (length (ob_chars ob))" "OFF_CHAR (ob_head ob) = int (char_off ob)"
    using obj_at_counts(7) [OF ob] obj_at_bounds(6) [OF ob] by simp_all
  have len: "char_off ob + length (ob_chars ob) < 2 ^ 31" using obj_at_bounds(1,2) [OF ob] by simp
  show "cv_name_at (ob_head ob) (ob_chars ob) n = Inr (name_str ob n)"
  proof (cases "on_foff n = 0")
    case False
    then have f: "char_off ob \<le> unat (on_foff n)" "unat (on_foff n) < char_off ob + length (ob_chars ob)"
      using n by (auto simp: name_ok_def)
    let ?d = "unat (on_foff n) - char_off ob"
    have "unat (on_foff n) < 2 ^ 31" using f len by simp
    then have "sint (on_foff n) - OFF_CHAR (ob_head ob) = int ?d"
      unfolding ch(2) using f(1) by (simp only: sint_u32_small of_nat_diff)
    moreover have "?d < 2 ^ 31" using f len by simp
    then have "long (int ?d) = int ?d" by (intro long_id) simp_all
    ultimately have "long (sint (on_foff n) - OFF_CHAR (ob_head ob)) = int ?d" by (simp only:)
    then show ?thesis using False f ch(1) by (simp add: cv_name_at_def name_str_def Let_def del: of_nat_diff)
  qed (simp add: cv_name_at_def name_str_def)
  have "name_str ob n \<noteq> []" "8 < length (name_str ob n) \<or> 0 \<in> set (tl (name_str ob n))"
    using n by (auto simp: name_ok_def name_str_def)
  then show "cv_name8 8 (name_str ob n) = Inr (short_name (name_str ob n))" by (simp add: cv_name8_ok short_name_def)
qed

definition ix_entry :: "obj \<Rightarrow> byte \<Rightarrow> outname \<Rightarrow> bytes" where
  "ix_entry ob c n = short_name (name_str ob n) @ put4 (on_valu n) @ [c, 0, 0, 0]"

fun ix_list :: "obj \<Rightarrow> byte \<Rightarrow> outname list \<Rightarrow> bytes" where
  "ix_list ob old [] = []"
| "ix_list ob old (n # ns) = ix_entry ob (cv_sclass (on_type n) old) n @ ix_list ob (cv_sclass (on_type n) old) ns"

lemma length_ix_list: "length (ix_list ob old ns) = length ns * SZ_IX"
  by (induction ns arbitrary: old) (simp_all add: ix_entry_def SZ_IX_def)

lemma name_seg:
  assumes ob: "obj_at ob b s" and i: "i < length (ob_names ob)"
  shows "seg (rd_content s) (b + name_off ob + i * SZ_NAME) SZ_NAME = enc_outname (ob_names ob ! i)"
proof -
  let ?ns = "ob_names ob"
  have "?ns = take i ?ns @ ?ns ! i # drop (Suc i) ?ns" using i by (rule id_take_nth_drop)
  then have e: "enc_array enc_outname ?ns =
      enc_array enc_outname (take i ?ns) @ enc_outname (?ns ! i) @ enc_array enc_outname (drop (Suc i) ?ns)"
    by (metis enc_array_simps(2,3))
  have "i * SZ_NAME + SZ_NAME \<le> length ?ns * SZ_NAME" using i by (simp add: SZ_defs)
  then have "seg (rd_content s) (b + name_off ob + i * SZ_NAME) SZ_NAME =
      seg (seg (rd_content s) (b + name_off ob) (length ?ns * SZ_NAME)) (i * SZ_NAME) SZ_NAME"
    by (rule seg_seg [symmetric])
  also have "\<dots> = enc_outname (?ns ! i)"
    unfolding obj_at_segs(5) [OF ob] e using i
    by (intro seg_append_exact) (simp_all add: outname.length_enc_array outname.length_enc)
  finally show ?thesis .
qed

lemma rd_name_one:
  assumes ob: "obj_at ob b s" and i: "i < length (ob_names ob)" "rd_cur s RD_PARTNAME = b + name_off ob + i * SZ_NAME"
  shows "\<exists>t. rd_name 1 s = Inr ([ob_names ob ! i], t) \<and> obj_at ob b t \<and> rd_cur t RD_PARTNAME = b + name_off ob + Suc i * SZ_NAME"
proof -
  have "b + name_off ob + Suc i * SZ_NAME \<le> length (rd_content s)"
  proof -
    have "Suc i * SZ_NAME \<le> length (ob_names ob) * SZ_NAME" using i(1) by (intro mult_le_mono1) simp
    then show ?thesis using obj_at_bounds(1) [OF ob] by (simp add: char_off_def)
  qed
  then have "rd_cur s RD_PARTNAME + SZ_NAME \<le> length (rd_content s)" using i(2) by simp
  from OUTREAD_ok [OF obj_at_wf(2) [OF ob] RD_PART_lt(3) this] obtain t where
    t: "OUTREAD RD_PARTNAME (int SZ_NAME) s = Inr (seg (rd_content s) (rd_cur s RD_PARTNAME) SZ_NAME, t)"
      "rd_frame s t" "rd_cur t RD_PARTNAME = rd_cur s RD_PARTNAME + SZ_NAME" by auto
  have "dec_array SZ_NAME dec_outname 1 (enc_outname (ob_names ob ! i)) = [ob_names ob ! i]"
    using outname.dec_array_enc_array [of "[ob_names ob ! i]" "[]"] by simp
  then have "rd_name 1 s = Inr ([ob_names ob ! i], t)"
    by (simp add: rd_name_def t(1) i(2) name_seg [OF ob i(1)])
  then show ?thesis using obj_at_frame [OF ob t(2)] t(3) i(2) by simp
qed

lemma cv_symbols_ok:
  assumes "obj_at ob b s" "i + k = length (ob_names ob)" "rd_cur s RD_PARTNAME = b + name_off ob + i * SZ_NAME"
    "\<forall>n \<in> set (ob_names ob). name_ok ob n"
  shows "cv_symbols k (ob_head ob) (ob_chars ob) old s = Inr (ix_list ob old (drop i (ob_names ob)))"
  using assms(1-3)
proof (induction k arbitrary: i s old)
  case (Suc k)
  then have i: "i < length (ob_names ob)" by simp
  obtain t where t: "rd_name 1 s = Inr ([ob_names ob ! i], t)" "obj_at ob b t" "rd_cur t RD_PARTNAME = b + name_off ob + Suc i * SZ_NAME"
    using rd_name_one [OF Suc.prems(1) i Suc.prems(3)] by auto
  let ?n = "ob_names ob ! i" let ?c = "cv_sclass (on_type ?n) old"
  have ok: "name_ok ob ?n" using assms(4) i by simp
  have "cv_symbol (ob_head ob) (ob_chars ob) ?n old = Inr (ix_entry ob ?c ?n, ?c)"
    by (simp add: cv_symbol_def Let_def name_str_ok [OF Suc.prems(1) ok] ix_entry_def cv_put put2_def)
  moreover have "cv_symbols k (ob_head ob) (ob_chars ob) ?c t = Inr (ix_list ob ?c (drop (Suc i) (ob_names ob)))"
    using Suc.IH [OF t(2) _ t(3)] Suc.prems(2) by simp
  moreover have "drop i (ob_names ob) = ?n # drop (Suc i) (ob_names ob)" using i by (rule Cons_nth_drop_Suc [symmetric])
  ultimately show ?case using t(1) by (simp add: cv_lib_def)
qed simp

lemma cv_symtab_ok:
  assumes ob: "obj_at ob b s" and cur: "rd_cur s RD_PARTNAME = b + name_off ob" "rd_cur s RD_PARTCHAR = b + char_off ob"
    and ok: "\<forall>n \<in> set (ob_names ob). name_ok ob n"
  shows "cv_symtab (ob_head ob) s = Inr (ix_list ob 0 (ob_names ob))"
proof -
  have "rd_cur s RD_PARTCHAR + length (ob_chars ob) \<le> length (rd_content s)"
    using obj_at_bounds(1) [OF ob] cur(2) by simp
  from OUTREAD_ok [OF obj_at_wf(2) [OF ob] RD_PART_lt(4) this] obtain t where
    t: "rd_string (int (length (ob_chars ob))) s = Inr (ob_chars ob, t)" "rd_frame s t"
      "rd_cur t RD_PARTNAME = b + name_off ob"
    using cur obj_at_segs(6) [OF ob] by (auto simp: rd_string_def)
  show ?thesis
    using cv_symbols_ok [OF obj_at_frame [OF ob t(2)], of 0 "length (ob_names ob)" 0] t ok
    by (simp add: cv_symtab_def obj_at_counts [OF ob] cv_lib_def)
qed

section \<open>The whole conversion\<close>

definition cv_image :: "obj \<Rightarrow> bytes" where
  "cv_image ob = cv_header (linked_exec ob) @ padded (text_size ob) (ob_emits ob ! TEXTSG) @
     padded (sect_base ob DATASG - sect_base ob ROMSG) (ob_emits ob ! ROMSG) @
     padded (sect_base ob BSSSG - sect_base ob DATASG) (ob_emits ob ! DATASG) @ ix_list ob 0 (ob_names ob)"

text \<open>The sizes that are written hold the contents.\<close>

lemma linked_sizes:
  assumes "cv_linked ob"
  shows "length (ob_emits ob ! TEXTSG) \<le> text_size ob" "text_size ob < 2 ^ 31"
    "sect_base ob ROMSG \<le> sect_base ob DATASG" "sect_base ob DATASG \<le> sect_base ob BSSSG" "sect_base ob BSSSG < 2 ^ 31"
    "length (ob_emits ob ! ROMSG) \<le> sect_base ob DATASG - sect_base ob ROMSG"
    "length (ob_emits ob ! DATASG) \<le> sect_base ob BSSSG - sect_base ob DATASG"
proof -
  have le: "length (ob_emits ob ! TEXTSG) \<le> sect_size ob TEXTSG" "length (ob_emits ob ! ROMSG) \<le> sect_size ob ROMSG"
    "length (ob_emits ob ! DATASG) \<le> sect_size ob DATASG"
    using assms by (simp_all add: cv_linked_def SG_defs)
  have o: "sect_base ob DATASG + sect_size ob DATASG \<le> sect_base ob BSSSG" "sect_base ob BSSSG < 2 ^ 31"
    "sect_base ob ROMSG + sect_size ob ROMSG \<le> sect_base ob DATASG"
    using assms after_order [of ob BSSSG DATASG] after_order [of ob DATASG ROMSG] by (simp_all add: cv_linked_def)
  then show "sect_base ob ROMSG \<le> sect_base ob DATASG" "sect_base ob DATASG \<le> sect_base ob BSSSG" "sect_base ob BSSSG < 2 ^ 31"
    "length (ob_emits ob ! ROMSG) \<le> sect_base ob DATASG - sect_base ob ROMSG"
    "length (ob_emits ob ! DATASG) \<le> sect_base ob BSSSG - sect_base ob DATASG" using le by simp_all
  have "sect_size ob TEXTSG \<le> text_size ob \<and> text_size ob < 2 ^ 31"
  proof (cases "sect_base ob ROMSG = 0")
    case True
    then show ?thesis using assms align_up_ge [of 16 "sect_size ob TEXTSG"] align_up_less [of 16 "sect_size ob TEXTSG"]
      by (simp add: cv_linked_def text_size_def)
  next
    case False
    then have "after ob ROMSG TEXTSG" "sect_base ob TEXTSG = 0" using assms by (simp_all add: cv_linked_def)
    then show ?thesis using False after_order [of ob ROMSG TEXTSG] by (simp add: text_size_def)
  qed
  then show "length (ob_emits ob ! TEXTSG) \<le> text_size ob" "text_size ob < 2 ^ 31" using le by simp_all
qed

lemma cv_convert_ok:
  assumes ob: "obj_at ob b s" and s: "rd_cur s RD_PARTEMIT = b" "rd_offcnt s = 0" and l: "cv_linked ob"
    and a: "ob_chars ob \<noteq> [] \<longrightarrow> alloc (length (ob_chars ob))"
  shows "cv_convert alloc s = Inr (cv_image ob)"
proof -
  have n: "length (ob_sects ob) = LSECT \<or> length (ob_sects ob) = NSECT" using l by (auto simp: cv_linked_def)
  obtain s1 where s1: "rd_ohead s = Inr (ob_head ob, s1)" "rd_frame s s1" "rd_offcnt s1 = 0"
    "rd_cur s1 RD_PARTEMIT = b + SZ_HEAD" "rd_cur s1 RD_PARTNAME = b + name_off ob" "rd_cur s1 RD_PARTCHAR = b + char_off ob"
    using obj_at_ohead [OF ob s] by blast
  note ob1 = obj_at_frame [OF ob s1(2)]
  obtain s2 where s2: "rd_sect (length (ob_sects ob)) s1 = Inr (ob_sects ob, s2)" "rd_frame s1 s2"
    "\<forall>p. p \<noteq> RD_PARTEMIT \<longrightarrow> rd_cur s2 p = rd_cur s1 p"
    "\<forall>i < length (ob_sects ob). rd_offset s2 ! i = int (b + emit_off ob i)"
    using obj_at_sect [OF ob1 s1(4,3)] by blast
  note ob2 = obj_at_frame [OF ob1 s2(2)]
  obtain sects where y: "cv_layout (ob_head ob) (ob_sects ob) = Inr (linked_exec ob, sects)"
    "unat (os_size (sects ! TEXTSG)) = text_size ob"
    "unat (os_size (sects ! ROMSG)) = sect_base ob DATASG - sect_base ob ROMSG"
    "unat (os_size (sects ! DATASG)) = sect_base ob BSSSG - sect_base ob DATASG"
    "\<forall>i. os_flen (sects ! i) = os_flen (ob_sects ob ! i)"
    using cv_layout_ok [OF l] by blast
  note sz = linked_sizes [OF l]
  have i: "TEXTSG < length (ob_sects ob)" "ROMSG < length (ob_sects ob)" "DATASG < length (ob_sects ob)"
    using n by (auto simp: SG_defs)
  obtain s3 where s3: "cv_emits TEXTSG sects s2 = Inr (padded (text_size ob) (ob_emits ob ! TEXTSG), s3)" "rd_keeps TEXTSG s2 s3"
    using cv_emits_ok [OF ob2 i(1), of sects] s2(4) i(1) y(2,5) sz(1,2) by auto
  note ob3 = obj_at_frame [OF ob2 s3(2) [unfolded rd_keeps_def, THEN conjunct1]]
  have o3: "rd_offset s3 ! ROMSG = int (b + emit_off ob ROMSG)" "rd_offset s3 ! DATASG = int (b + emit_off ob DATASG)"
    using s3(2) s2(4) i by (simp_all add: rd_keeps_def SG_defs)
  have lt: "sect_base ob DATASG - sect_base ob ROMSG < 2 ^ 31" "sect_base ob BSSSG - sect_base ob DATASG < 2 ^ 31"
    using sz(3-5) by linarith+
  obtain s4 where s4: "cv_emits ROMSG sects s3 = Inr (padded (sect_base ob DATASG - sect_base ob ROMSG) (ob_emits ob ! ROMSG), s4)"
      "rd_keeps ROMSG s3 s4"
    using cv_emits_ok [OF ob3 i(2), of sects] o3(1) y(3,5) sz(6) lt(1) by auto
  note ob4 = obj_at_frame [OF ob3 s4(2) [unfolded rd_keeps_def, THEN conjunct1]]
  have o4: "rd_offset s4 ! DATASG = int (b + emit_off ob DATASG)" using s4(2) o3(2) by (simp add: rd_keeps_def SG_defs)
  obtain s5 where s5: "cv_emits DATASG sects s4 = Inr (padded (sect_base ob BSSSG - sect_base ob DATASG) (ob_emits ob ! DATASG), s5)"
      "rd_keeps DATASG s4 s5"
    using cv_emits_ok [OF ob4 i(3), of sects] o4 y(4,5) sz(7) lt(2) by auto
  note ob5 = obj_at_frame [OF ob4 s5(2) [unfolded rd_keeps_def, THEN conjunct1]]
  have c5: "rd_cur s5 RD_PARTNAME = b + name_off ob" "rd_cur s5 RD_PARTCHAR = b + char_off ob"
    using s5(2) s4(2) s3(2) s2(3) s1(5,6) by (simp_all add: rd_keeps_def)
  have y5: "cv_symtab (ob_head ob) s5 = Inr (ix_list ob 0 (ob_names ob))"
    using cv_symtab_ok [OF ob5 c5] l by (simp add: cv_linked_def)
  have "x_syms (linked_exec ob) = 0 \<longleftrightarrow> ob_names ob = []"
  proof -
    have "length (ob_names ob) < 2 ^ 16" using uint_lt2p [of "oh_nname (ob_head ob)"] obj_at_counts(6) [OF ob] by simp
    then have "unat (of_nat (length (ob_names ob) * SZ_IX) :: u32) = length (ob_names ob) * SZ_IX"
      by (intro unat_of_nat_u32) (simp add: SZ_IX_def)
    then have "x_syms (linked_exec ob) = 0 \<longleftrightarrow> length (ob_names ob) * SZ_IX = 0"
      by (metis linked_exec_def cv_exec.select_convs(7) unat_eq_zero)
    then show ?thesis by (simp add: SZ_IX_def)
  qed
  then have sy: "(if x_syms (linked_exec ob) \<noteq> 0 then cv_symtab (ob_head ob) s5 else Inr []) = Inr (ix_list ob 0 (ob_names ob))"
    by (simp add: y5)
  have al: "\<not> (oh_nchar (ob_head ob) \<noteq> 0 \<and> \<not> alloc (unat (oh_nchar (ob_head ob))))"
    using a obj_at_wf(1) [OF ob] by (auto simp: wf_obj_def unat_eq_zero)
  have h: "\<not> BADMAGIC (ob_head ob)" "oh_flags (ob_head ob) AND HF_LINK = 0"
    using l by (simp_all add: cv_linked_def BADMAGIC_def)
  have k: "\<not> (unat (oh_nsect (ob_head ob)) \<noteq> LSECT \<and> unat (oh_nsect (ob_head ob)) \<noteq> NSECT)"
    using n obj_at_counts(1) [OF ob] by auto
  show ?thesis
    unfolding cv_convert_def s1(1) cv_lib_def map_sum.simps id_apply bindE.simps prod.case if_not_P [OF h(1)] h(2) if_not_P [OF k]
      obj_at_counts(1) [OF ob] s2(1) y(1) Let_def if_not_P [OF al] s3(1) s4(1) s5(1) sy cv_image_def
    using n by simp
qed

end
