(* ===== verification/Pdp_State.thy ===== *)
theory Pdp_State
  imports Emu_Dis
begin

text \<open>
  The PDP-11 of the emulator (\<open>7run/PDP11\<close>): operands and instructions (\<open>Operand\<close>, \<open>OpCode\<close>), the
  disassembler (\<open>disasm.cpp\<close>), and the machine with its addressing modes (\<open>VM.h\<close>, \<open>VM.cpp\<close>).

  Memories, errors and conversions are those of the 8086 machine. A word at an odd address is read
  and written like any other, as the program does. Where C++ leaves the order of evaluation open,
  the operands are evaluated from left to right.
\<close>

section \<open>Operands and instructions\<close>

record pdp_opr =
  po_len :: int
  po_mode :: nat
  po_reg :: nat
  po_value :: int
  po_w :: bool

record pdp_op =
  pp_len :: nat
  pp_mne :: string
  pp_1 :: pdp_opr
  pp_2 :: pdp_opr

definition pdp_opr :: "int \<Rightarrow> nat \<Rightarrow> nat \<Rightarrow> int \<Rightarrow> pdp_opr" where
  "pdp_opr len mode reg value = \<lparr>po_len = len, po_mode = mode, po_reg = reg, po_value = value, po_w = True\<rparr>"

definition pdp_noopr :: pdp_opr where "pdp_noopr = pdp_opr (-1) 0 0 0"
definition pdp_reg :: "nat \<Rightarrow> pdp_opr" where "pdp_reg r = pdp_opr 0 0 (r mod 8) 0"
definition pdp_imm :: "int \<Rightarrow> pdp_opr" where "pdp_imm v = pdp_opr 0 8 7 v"
definition pdp_address :: "int \<Rightarrow> pdp_opr" where "pdp_address v = pdp_opr 0 9 7 v"

definition po_empty :: "pdp_opr \<Rightarrow> bool" where "po_empty p \<longleftrightarrow> po_len p = -1"

definition po_diff :: "pdp_opr \<Rightarrow> int" where
  "po_diff p = (if po_w p \<or> po_mode p \<noteq> 0 \<and> po_reg p \<ge> 6 \<or> po_mode p = 3 \<or> po_mode p = 5 then 2 else 1)"

definition po_isaddr :: "pdp_opr \<Rightarrow> bool" where
  "po_isaddr p \<longleftrightarrow> po_reg p = 7 \<and> (po_mode p = 3 \<or> po_mode p = 6)"

definition pdp_ins :: "nat \<Rightarrow> string \<Rightarrow> pdp_opr \<Rightarrow> pdp_opr \<Rightarrow> pdp_op" where
  "pdp_ins len mne o1 o2 = \<lparr>pp_len = len, pp_mne = mne, pp_1 = o1, pp_2 = o2\<rparr>"

definition pdp_ins0 :: "nat \<Rightarrow> string \<Rightarrow> pdp_op" where
  "pdp_ins0 len mne = pdp_ins len mne pdp_noopr pdp_noopr"

definition pdp_undefop :: pdp_op where
  "pdp_undefop = pdp_ins0 2 ''(undefined)''"

definition pp_undef :: "pdp_op \<Rightarrow> bool" where
  "pp_undef x \<longleftrightarrow> pp_mne x = pp_mne pdp_undefop"

text \<open>
  The operand of six bits \<open>m\<close>, whose further word is at \<open>p\<close>; the program counter is the same number
  in all calls.
\<close>

definition mk_pdp_opr :: "memory \<Rightarrow> int \<Rightarrow> u16 \<Rightarrow> vm_error + pdp_opr" where
  "mk_pdp_opr mem p m =
     (let mode = unat (drop_bit 3 m AND 7); reg = unat (m AND 7)
      in if reg = 7 \<and> mode = 0 then Inr (pdp_opr 0 mode reg p)
         else if reg = 7 \<and> mode = 1 then bindE (mem16 mem p) (\<lambda>x. Inr (pdp_opr 0 mode reg (uint x)))
         else if reg = 7 \<and> mode \<in> {2, 3} then bindE (mem16 mem p) (\<lambda>x. Inr (pdp_opr 2 mode reg (uint x)))
         else if reg = 7 \<and> mode \<in> {6, 7} then
           bindE (mem16 mem p) (\<lambda>x. Inr (pdp_opr 2 mode reg (take_bit 16 (p + 2 + uint x))))
         else if mode < 6 then Inr (pdp_opr 0 mode reg 0)
         else bindE (mem16 mem p) (\<lambda>x. Inr (pdp_opr 2 mode reg (sint x))))"

section \<open>The disassembler\<close>

definition pdp_srcdst :: "memory \<Rightarrow> int \<Rightarrow> u16 \<Rightarrow> string \<Rightarrow> vm_error + pdp_op" where
  "pdp_srcdst mem p w mne =
     bindE (mk_pdp_opr mem (p + 2) (drop_bit 6 w)) (\<lambda>o1.
     bindE (mk_pdp_opr mem (p + 2 + po_len o1) w) (\<lambda>o2.
       Inr (pdp_ins (nat (2 + po_len o1 + po_len o2)) mne o1 o2)))"

definition pdp_modr :: "memory \<Rightarrow> int \<Rightarrow> u16 \<Rightarrow> string \<Rightarrow> vm_error + pdp_op" where
  "pdp_modr mem p w mne =
     bindE (mk_pdp_opr mem (p + 2) w) (\<lambda>x. Inr (pdp_ins (nat (2 + po_len x)) mne x pdp_noopr))"

definition reg_of :: "u16 \<Rightarrow> pdp_opr" where
  "reg_of w = pdp_reg (unat (drop_bit 6 w))"

definition pdp_rdst :: "memory \<Rightarrow> int \<Rightarrow> u16 \<Rightarrow> string \<Rightarrow> vm_error + pdp_op" where
  "pdp_rdst mem p w mne =
     bindE (mk_pdp_opr mem (p + 2) w) (\<lambda>x. Inr (pdp_ins (nat (2 + po_len x)) mne (reg_of w) x))"

definition pdp_srcr :: "memory \<Rightarrow> int \<Rightarrow> u16 \<Rightarrow> string \<Rightarrow> vm_error + pdp_op" where
  "pdp_srcr mem p w mne =
     bindE (mk_pdp_opr mem (p + 2) w) (\<lambda>x. Inr (pdp_ins (nat (2 + po_len x)) mne x (reg_of w)))"

definition pdp_branch :: "int \<Rightarrow> u16 \<Rightarrow> string \<Rightarrow> vm_error + pdp_op" where
  "pdp_branch p w mne = Inr (pdp_ins 2 mne (pdp_address (p + 2 + sint (ucast w :: byte) * 2)) pdp_noopr)"

text \<open>The forms of bytes.\<close>

definition pdp_srcdstb :: "memory \<Rightarrow> int \<Rightarrow> u16 \<Rightarrow> string \<Rightarrow> vm_error + pdp_op" where
  "pdp_srcdstb mem p w mne =
     bindE (pdp_srcdst mem p w mne) (\<lambda>x. Inr (x\<lparr>pp_1 := (pp_1 x)\<lparr>po_w := False\<rparr>, pp_2 := (pp_2 x)\<lparr>po_w := False\<rparr>\<rparr>))"

definition pdp_modrb :: "memory \<Rightarrow> int \<Rightarrow> u16 \<Rightarrow> string \<Rightarrow> vm_error + pdp_op" where
  "pdp_modrb mem p w mne = bindE (pdp_modr mem p w mne) (\<lambda>x. Inr (x\<lparr>pp_1 := (pp_1 x)\<lparr>po_w := False\<rparr>\<rparr>))"

text \<open>The names of the instructions without operands, and the table of the condition codes.\<close>

definition pdp_control :: "string list" where
  "pdp_control = [''halt'', ''wait'', ''rti'', ''bpt'', ''iot'', ''reset'', ''rtt'']"

definition pdp_cc :: "string list" where
  "pdp_cc = [''nop'', ''clc'', ''clv'', ''clvc'', ''clz'', ''clzc'', ''clzv'', ''clzvc'',
     ''cln'', ''clnc'', ''clnv'', ''clnvc'', ''clnz'', ''clnzc'', ''clnzv'', ''ccc'',
     [], ''sec'', ''sev'', ''sevc'', ''sez'', ''sezc'', ''sezv'', ''sezvc'',
     ''sen'', ''senc'', ''senv'', ''senvc'', ''senz'', ''senzc'', ''senzv'', ''scc'']"

definition pdp_branches :: "string list" where
  "pdp_branches = [[], ''br'', ''bne'', ''beq'', ''bge'', ''blt'', ''bgt'', ''ble'']"

definition pdp_branches_b :: "string list" where
  "pdp_branches_b = [''bpl'', ''bmi'', ''bhi'', ''blos'', ''bvc'', ''bvs'', ''bcc'', ''bcs'']"

definition pdp_unary :: "string list" where
  "pdp_unary = [''clr'', ''com'', ''inc'', ''dec'', ''neg'', ''adc'', ''sbc'', ''tst'', ''ror'', ''rol'', ''asr'', ''asl'']"

text \<open>The four bits at the top of the word, and the six below.\<close>

definition top4 :: "u16 \<Rightarrow> nat" where "top4 w = unat (drop_bit 12 w)"
definition mid6 :: "u16 \<Rightarrow> nat" where "mid6 w = unat (drop_bit 6 w AND 63)"

definition pdp_dis_0 :: "memory \<Rightarrow> int \<Rightarrow> u16 \<Rightarrow> vm_error + pdp_op" where
  "pdp_dis_0 mem p w =
     (let k = mid6 w; lo = unat (w AND 63)
      in if k = 0 then Inr (if lo < 7 then pdp_ins0 2 (pdp_control ! lo) else pdp_undefop)
         else if k = 1 then pdp_modr mem p w ''jmp''
         else if k = 2 then
           Inr (if lo < 8 then pdp_ins 2 ''rts'' (pdp_reg lo) pdp_noopr
                else if lo < 24 then pdp_undefop
                else if lo < 32 then pdp_ins 2 ''spl'' (pdp_imm (int (lo mod 8))) pdp_noopr
                else if lo = 48 then pdp_undefop
                else pdp_ins0 2 (pdp_cc ! (lo - 32)))
         else if k = 3 then pdp_modr mem p w ''swab''
         else if k < 32 then pdp_branch p w (pdp_branches ! (k div 4))
         else if k < 40 then pdp_rdst mem p w ''jsr''
         else if k < 52 then pdp_modr mem p w (pdp_unary ! (k - 40))
         else if k = 52 then Inr (pdp_ins 2 ''mark'' (pdp_imm (int lo)) pdp_noopr)
         else if k = 53 then pdp_modr mem p w ''mfpi''
         else if k = 54 then pdp_modr mem p w ''mtpi''
         else if k = 55 then pdp_modr mem p w ''sxt''
         else Inr pdp_undefop)"

definition pdp_dis_7 :: "memory \<Rightarrow> int \<Rightarrow> u16 \<Rightarrow> vm_error + pdp_op" where
  "pdp_dis_7 mem p w =
     (let k = mid6 w div 8
      in if k = 0 then pdp_srcr mem p w ''mul''
         else if k = 1 then pdp_srcr mem p w ''div''
         else if k = 2 then pdp_srcr mem p w ''ash''
         else if k = 3 then pdp_srcr mem p w ''ashc''
         else if k = 4 then pdp_rdst mem p w ''xor''
         else if k = 7 then Inr (pdp_ins 2 ''sob'' (reg_of w) (pdp_imm (uint (w AND 63))))
         else Inr pdp_undefop)"

definition pdp_dis_8 :: "memory \<Rightarrow> int \<Rightarrow> u16 \<Rightarrow> vm_error + pdp_op" where
  "pdp_dis_8 mem p w =
     (let k = mid6 w
      in if k < 32 then pdp_branch p w (pdp_branches_b ! (k div 4))
         else if k < 36 then Inr (pdp_ins 2 ''emt'' (pdp_imm (uint (w AND 255))) pdp_noopr)
         else if k < 40 then Inr (pdp_ins 2 ''sys'' (pdp_imm (uint (w AND 255))) pdp_noopr)
         else if k < 52 then pdp_modrb mem p w (pdp_unary ! (k - 40) @ ''b'')
         else if k = 53 then pdp_modr mem p w ''mfpd''
         else if k = 54 then pdp_modr mem p w ''mtpd''
         else Inr pdp_undefop)"

definition pdp_disasm1 :: "memory \<Rightarrow> int \<Rightarrow> vm_error + pdp_op" where
  "pdp_disasm1 mem p = bindE (mem16 mem p) (\<lambda>w.
     if top4 w = 0 then pdp_dis_0 mem p w
     else if top4 w < 7 then pdp_srcdst mem p w ([[], ''mov'', ''cmp'', ''bit'', ''bic'', ''bis'', ''add''] ! top4 w)
     else if top4 w = 7 then pdp_dis_7 mem p w
     else if top4 w = 8 then pdp_dis_8 mem p w
     else if top4 w < 14 then pdp_srcdstb mem p w ([''movb'', ''cmpb'', ''bitb'', ''bicb'', ''bisb''] ! (top4 w - 9))
     else if top4 w = 14 then pdp_srcdst mem p w ''sub''
     else Inr (if w = 0xf009 then pdp_ins0 2 ''setd'' else pdp_undefop))"

section \<open>The listing\<close>

definition pdp_regs :: "string list" where
  "pdp_regs = [''r0'', ''r1'', ''r2'', ''r3'', ''r4'', ''r5'', ''sp'', ''pc'']"

definition po_str :: "pdp_opr \<Rightarrow> string" where
  "po_str p =
     (let m = po_mode p; v = po_value p; rn = pdp_regs ! po_reg p
      in if po_reg p = 7 \<and> m = 2 then ''$'' @ emu_hex v 0
         else if po_reg p = 7 \<and> m = 3 then ''*$'' @ emu_hex v 4
         else if po_reg p = 7 \<and> m = 6 then emu_hex v 4
         else if po_reg p = 7 \<and> m = 7 then ''*'' @ emu_hex v 4
         else if po_reg p = 7 \<and> m = 8 then emu_hex v 0
         else if po_reg p = 7 \<and> m = 9 then emu_hex v 4
         else if m = 0 then rn
         else if m = 1 then ''('' @ rn @ '')''
         else if m = 2 then ''('' @ rn @ '')+''
         else if m = 3 then ''*('' @ rn @ '')+''
         else if m = 4 then ''-('' @ rn @ '')''
         else if m = 5 then ''*-('' @ rn @ '')''
         else if m = 6 then emu_hex v 0 @ ''('' @ rn @ '')''
         else if m = 7 then ''*'' @ emu_hex v 0 @ ''('' @ rn @ '')''
         else ''?'')"

definition pp_str :: "pdp_op \<Rightarrow> string" where
  "pp_str x =
     (if po_empty (pp_1 x) then pp_mne x
      else if po_empty (pp_2 x) then pp_mne x @ '' '' @ po_str (pp_1 x)
      else pp_mne x @ '' '' @ po_str (pp_1 x) @ '', '' @ po_str (pp_2 x))"

text \<open>\<open>hexdump2\<close>: the words, those beyond the memory being an error.\<close>

fun hexdump2 :: "memory \<Rightarrow> int \<Rightarrow> nat \<Rightarrow> vm_error + string list" where
  "hexdump2 mem p 0 = Inr []"
| "hexdump2 mem p (Suc 0) = bindE (mem16 mem p) (\<lambda>x. Inr [fmt_x 4 (unat x)])"
| "hexdump2 mem p (Suc (Suc n)) = bindE (mem16 mem p) (\<lambda>x. bindE (hexdump2 mem (p + 2) n) (\<lambda>s. Inr (fmt_x 4 (unat x) # s)))"

fun join_words :: "string list \<Rightarrow> string" where
  "join_words [] = []"
| "join_words [s] = s"
| "join_words (s # t # ss) = s @ '' '' @ join_words (t # ss)"

definition pad14 :: "string \<Rightarrow> string" where
  "pad14 s = s @ replicate (14 - length s) (CHR '' '')"

function pdp_disout_from :: "memory \<Rightarrow> int \<Rightarrow> nat \<Rightarrow> string \<Rightarrow> nat \<Rightarrow> vm_error + string" where
  "pdp_disout_from mem p len ops i =
     (if len \<le> i then Inr []
      else bindE (hexdump2 mem (p + int i) (min 6 (len - i))) (\<lambda>h.
           bindE (pdp_disout_from mem p len ops (i + 6)) (\<lambda>s.
             Inr ((if i = 0 then fmt_x 4 (nat p) @ '': '' @ pad14 (join_words h) @ ''  '' @ ops @ [NL]
                   else ''      '' @ pad14 (join_words h) @ [NL]) @ s))))"
  by pat_completeness auto
termination by (relation "measure (\<lambda>(_, _, len, _, i). len - i)") auto

declare pdp_disout_from.simps [simp del]

definition pdp_disout :: "memory \<Rightarrow> int \<Rightarrow> nat \<Rightarrow> string \<Rightarrow> vm_error + string" where
  "pdp_disout mem p len ops = pdp_disout_from mem p len ops 0"

definition pdp_disstr :: "symbols \<Rightarrow> pdp_op \<Rightarrow> string" where
  "pdp_disstr s1 x =
     (let note = (\<lambda>p. if po_isaddr p then (case s1 (po_value p) of None \<Rightarrow> [] | Some n \<Rightarrow> '' ; '' @ n) else [])
      in pp_str x @ note (pp_1 x) @ note (pp_2 x))"

fun pdp_disasm_loop :: "nat \<Rightarrow> symbols \<Rightarrow> symbols \<Rightarrow> memory \<Rightarrow> nat \<Rightarrow> nat \<Rightarrow> vm_error + string \<times> nat" where
  "pdp_disasm_loop 0 s0 s1 mem sz a = (if a < sz then Inl Vm_loops else Inr ([], 0))"
| "pdp_disasm_loop (Suc n) s0 s1 mem sz a =
     (if a < sz then
        let p = int (a mod 0x10000)
        in bindE (pdp_disasm1 mem p) (\<lambda>x.
           bindE (pdp_disout mem p (pp_len x) (pdp_disstr s1 x)) (\<lambda>line.
           bindE (pdp_disasm_loop n s0 s1 mem sz (a + pp_len x)) (\<lambda>(s, k).
             Inr (showsym s0 s1 (of_nat a) @ line @ s, k + of_bool (pp_undef x)))))
      else Inr ([], 0))"

text \<open>\<open>VM::disasm\<close>; \<open>PDP11::disasm\<close> is the one without symbols.\<close>

definition pdp_vm_disasm :: "symbols \<Rightarrow> symbols \<Rightarrow> memory \<Rightarrow> nat \<Rightarrow> vm_error + string" where
  "pdp_vm_disasm s0 s1 mem sz =
     bindE (pdp_disasm_loop sz s0 s1 mem sz 0) (\<lambda>(s, k).
       Inr (s @ (if k > 0 then ''undefined: '' @ fmt_d (int k) @ [NL] else [])))"

definition pdp_disasm :: "memory \<Rightarrow> nat \<Rightarrow> vm_error + string" where
  "pdp_disasm = pdp_vm_disasm no_symbols no_symbols"

end
