(* ===== verification/Pdp_Run.thy ===== *)
theory Pdp_Run
  imports Pdp_State
begin

text \<open>
  The PDP-11 machine: registers, flags, memory and addressing modes (\<open>7run/PDP11/VM.h\<close>, \<open>VM.cpp\<close>), and
  its interpreter (\<open>VM.inst.cpp\<close>). A group of opcodes yields whether its case returned (\<open>True\<close>) or
  fell out of the \<open>switch\<close> (\<open>False\<close>), where the instruction is reported as not implemented.

  The conversions of an \<open>int\<close> to narrower types are written out; left shifts are those of two's
  complement. The trace of the instructions is not modelled.
\<close>

section \<open>The machine\<close>

text \<open>\<open>p_cache\<close> is \<open>None\<close> while the vector is empty, and maps an address to the instruction decoded there.\<close>

record pdp =
  p_r :: "nat \<Rightarrow> u16"
  p_Z :: bool
  p_N :: bool
  p_C :: bool
  p_V :: bool
  p_start_sp :: u16
  p_cache :: "(u16 \<Rightarrow> pdp_op option) option"
  p_text :: memory
  p_data :: memory
  p_shared :: bool
  p_brksize :: u16
  p_exited :: bool
  p_exitcode :: int

definition p_mem :: "pdp \<Rightarrow> memory" where
  "p_mem st = (if p_shared st then p_data st else p_text st)"

definition p_set :: "nat \<Rightarrow> u16 \<Rightarrow> pdp \<Rightarrow> pdp" where
  "p_set i x st = st\<lparr>p_r := (p_r st)(i := x)\<rparr>"

definition setZNCV :: "bool \<Rightarrow> bool \<Rightarrow> bool \<Rightarrow> bool \<Rightarrow> pdp \<Rightarrow> pdp" where
  "setZNCV z n c v st = st\<lparr>p_Z := z, p_N := n, p_C := c, p_V := v\<rparr>"

definition p_read8 :: "int \<Rightarrow> pdp \<Rightarrow> byte" where
  "p_read8 a st = p_data st (word_of_int a)"

definition p_read16 :: "int \<Rightarrow> pdp \<Rightarrow> vm_error + u16" where
  "p_read16 a st = mem16 (p_data st) (take_bit 16 a)"

definition p_write8 :: "int \<Rightarrow> byte \<Rightarrow> pdp \<Rightarrow> pdp" where
  "p_write8 a x st = st\<lparr>p_data := (p_data st)(word_of_int a := x)\<rparr>"

definition p_write16 :: "int \<Rightarrow> u16 \<Rightarrow> pdp \<Rightarrow> vm_error + pdp" where
  "p_write16 a x st =
     (if take_bit 16 a = 0xffff then Inl Out_of_memory
      else Inr (p_write8 (a + 1) (ucast (drop_bit 8 x)) (p_write8 a (ucast x) st)))"

text \<open>A register pair as a number of 32 bits.\<close>

definition next_reg :: "nat \<Rightarrow> nat" where
  "next_reg i = (i + 1) mod 8"

definition getReg32 :: "nat \<Rightarrow> pdp \<Rightarrow> u32" where
  "getReg32 i st = push_bit 16 (ucast (p_r st i)) OR ucast (p_r st (next_reg i))"

definition setReg32 :: "nat \<Rightarrow> u32 \<Rightarrow> pdp \<Rightarrow> pdp" where
  "setReg32 i v st = p_set (next_reg i) (ucast v) (p_set i (ucast (drop_bit 16 v)) st)"

section \<open>Addressing modes\<close>

definition getInc :: "pdp_opr \<Rightarrow> pdp \<Rightarrow> u16 \<times> pdp" where
  "getInc p st = (p_r st (po_reg p), p_set (po_reg p) (p_r st (po_reg p) + word_of_int (po_diff p)) st)"

definition getDec :: "pdp_opr \<Rightarrow> pdp \<Rightarrow> u16 \<times> pdp" where
  "getDec p st = (let x = p_r st (po_reg p) - word_of_int (po_diff p) in (x, p_set (po_reg p) x st))"

text \<open>The address of an operand, \<open>-1\<close> for none; with \<open>nomove\<close> the register stays as it is.\<close>

definition p_addr :: "pdp_opr \<Rightarrow> bool \<Rightarrow> pdp \<Rightarrow> vm_error + int \<times> pdp" where
  "p_addr p nomove st =
     (let m = po_mode p; r = p_r st (po_reg p); here = (\<lambda>x. Inr (uint x, st));
          at = (\<lambda>a st. bindE (p_read16 a st) (\<lambda>x. Inr (uint x, st)))
      in if po_reg p = 7 then
           if m = 3 \<or> m = 6 then Inr (po_value p, st) else if m = 7 then at (po_value p) st else Inr (-1, st)
         else if m = 1 then here r
         else if m = 2 then if nomove then here r else (let (x, st) = getInc p st in Inr (uint x, st))
         else if m = 3 then if nomove then at (uint r) st else (let (x, st) = getInc p st in at (uint x) st)
         else if m = 4 then if nomove then here (r - word_of_int (po_diff p)) else (let (x, st) = getDec p st in Inr (uint x, st))
         else if m = 5 then if nomove then at (uint r - po_diff p) st else (let (x, st) = getDec p st in at (uint x) st)
         else if m = 6 then here (r + word_of_int (po_value p))
         else if m = 7 then at (uint r + po_value p) st
         else Inr (-1, st))"

definition p_get8 :: "pdp_opr \<Rightarrow> bool \<Rightarrow> pdp \<Rightarrow> vm_error + byte \<times> pdp" where
  "p_get8 p nomove st =
     (if po_mode p = 0 \<and> po_reg p \<noteq> 7 then Inr (ucast (p_r st (po_reg p)), st)
      else bindE (p_addr p nomove st) (\<lambda>(a, st). Inr (if a < 0 then word_of_int (po_value p) else p_read8 a st, st)))"

definition p_get16 :: "pdp_opr \<Rightarrow> bool \<Rightarrow> pdp \<Rightarrow> vm_error + u16 \<times> pdp" where
  "p_get16 p nomove st =
     (if po_mode p = 0 \<and> po_reg p \<noteq> 7 then Inr (p_r st (po_reg p), st)
      else bindE (p_addr p nomove st) (\<lambda>(a, st).
        if a < 0 then Inr (word_of_int (po_value p), st) else bindE (p_read16 a st) (\<lambda>x. Inr (x, st))))"

definition p_set8 :: "pdp_opr \<Rightarrow> byte \<Rightarrow> bool \<Rightarrow> pdp \<Rightarrow> vm_error + pdp" where
  "p_set8 p x ext st =
     (if po_mode p = 0 then
        Inr (p_set (po_reg p) (if ext then scast x else (p_r st (po_reg p) AND 0xff00) OR ucast x) st)
      else bindE (p_addr p False st) (\<lambda>(a, st). Inr (if a \<ge> 0 then p_write8 a x st else st)))"

definition p_set16 :: "pdp_opr \<Rightarrow> u16 \<Rightarrow> pdp \<Rightarrow> vm_error + pdp" where
  "p_set16 p x st =
     (if po_mode p = 0 then Inr (p_set (po_reg p) x st)
      else bindE (p_addr p False st) (\<lambda>(a, st). if a \<ge> 0 then p_write16 a x st else Inr st))"

text \<open>
  Both widths, as the interpreter uses them: the value of an operand as an unsigned \<open>int\<close>, and the
  store of an \<open>int\<close>.
\<close>

definition p_get :: "bool \<Rightarrow> pdp_opr \<Rightarrow> bool \<Rightarrow> pdp \<Rightarrow> vm_error + int \<times> pdp" where
  "p_get w p nomove st =
     (if w then bindE (p_get16 p nomove st) (\<lambda>(x, st). Inr (uint x, st))
      else bindE (p_get8 p nomove st) (\<lambda>(x, st). Inr (uint x, st)))"

definition p_put :: "bool \<Rightarrow> pdp_opr \<Rightarrow> int \<Rightarrow> pdp \<Rightarrow> vm_error + pdp" where
  "p_put w p v st = (if w then p_set16 p (word_of_int v) st else p_set8 p (word_of_int v) False st)"

section \<open>Instructions with one operand\<close>

text \<open>The bit of the sign, and the largest number plus one, of both widths.\<close>

definition p_msb :: "bool \<Rightarrow> int" where
  "p_msb w = (if w then 0x8000 else 0x80)"

definition p_clr :: "bool \<Rightarrow> pdp_opr \<Rightarrow> pdp \<Rightarrow> vm_error + pdp" where
  "p_clr w p st = bindE (p_put w p 0 st) (\<lambda>st. Inr (setZNCV True False False False st))"

definition p_com :: "bool \<Rightarrow> pdp_opr \<Rightarrow> pdp \<Rightarrow> vm_error + pdp" where
  "p_com w p st = bindE (p_get w p True st) (\<lambda>(x, st).
     let v = NOT x in bindE (p_put w p v st) (\<lambda>st. Inr (setZNCV (v = 0) (v AND p_msb w \<noteq> 0) True False st)))"

definition p_inc :: "bool \<Rightarrow> pdp_opr \<Rightarrow> pdp \<Rightarrow> vm_error + pdp" where
  "p_inc w p st = bindE (p_get w p True st) (\<lambda>(x, st).
     let v = sx w x + 1 in bindE (p_put w p v st) (\<lambda>st. Inr (setZNCV (v = 0) (v < 0) (p_C st) (v = p_msb w) st)))"

definition p_dec :: "bool \<Rightarrow> pdp_opr \<Rightarrow> pdp \<Rightarrow> vm_error + pdp" where
  "p_dec w p st = bindE (p_get w p True st) (\<lambda>(x, st).
     let v = sx w x - 1 in bindE (p_put w p v st) (\<lambda>st. Inr (setZNCV (v = 0) (v < 0) (p_C st) (v = - p_msb w - 1) st)))"

definition p_neg :: "bool \<Rightarrow> pdp_opr \<Rightarrow> pdp \<Rightarrow> vm_error + pdp" where
  "p_neg w p st = bindE (p_get w p True st) (\<lambda>(x, st).
     let v = - sx w x in bindE (p_put w p v st) (\<lambda>st. Inr (setZNCV (v = 0) (v < 0) (v \<noteq> 0) (v = p_msb w) st)))"

definition p_adc :: "bool \<Rightarrow> pdp_opr \<Rightarrow> pdp \<Rightarrow> vm_error + pdp" where
  "p_adc w p st = bindE (p_get w p True st) (\<lambda>(x, st).
     let v = sx w x + of_bool (p_C st)
     in bindE (p_put w p v st) (\<lambda>st. Inr (setZNCV (v = 0) (v < 0) (p_C st \<and> v = 0) (v = p_msb w) st)))"

definition p_sbc :: "bool \<Rightarrow> pdp_opr \<Rightarrow> pdp \<Rightarrow> vm_error + pdp" where
  "p_sbc w p st = bindE (p_get w p True st) (\<lambda>(x, st).
     let v = sx w x - of_bool (p_C st)
     in bindE (p_put w p v st) (\<lambda>st. Inr (setZNCV (v = 0) (v < 0) (p_C st \<and> v = -1) (v = - p_msb w - 1) st)))"

definition p_tst :: "bool \<Rightarrow> pdp_opr \<Rightarrow> pdp \<Rightarrow> vm_error + pdp" where
  "p_tst w p st = bindE (p_get w p False st) (\<lambda>(x, st).
     let v = sx w x in Inr (setZNCV (v = 0) (v < 0) False False st))"

definition p_ror :: "bool \<Rightarrow> pdp_opr \<Rightarrow> pdp \<Rightarrow> vm_error + pdp" where
  "p_ror w p st = bindE (p_get w p True st) (\<lambda>(x, st).
     let v = drop_bit 1 x + (if p_C st then p_msb w else 0)
     in bindE (p_put w p v st) (\<lambda>st.
          Inr (setZNCV (v = 0) (p_C st) (x AND 1 \<noteq> 0) (p_C st \<noteq> (x AND 1 \<noteq> 0)) st)))"

definition p_rol :: "bool \<Rightarrow> pdp_opr \<Rightarrow> pdp \<Rightarrow> vm_error + pdp" where
  "p_rol w p st = bindE (p_get w p True st) (\<lambda>(x, st).
     let v = ux w (x * 2) + of_bool (p_C st); m0 = (x AND p_msb w \<noteq> 0); m1 = (v AND p_msb w \<noteq> 0)
     in bindE (p_put w p v st) (\<lambda>st. Inr (setZNCV (v = 0) m1 m0 (m1 \<noteq> m0) st)))"

definition p_asr :: "bool \<Rightarrow> pdp_opr \<Rightarrow> pdp \<Rightarrow> vm_error + pdp" where
  "p_asr w p st = bindE (p_get w p True st) (\<lambda>(x, st).
     let v = drop_bit 1 (sx w x); l0 = (x AND 1 \<noteq> 0); m1 = v < 0
     in bindE (p_put w p v st) (\<lambda>st. Inr (setZNCV (v = 0) m1 l0 (m1 \<noteq> l0) st)))"

definition p_asl :: "bool \<Rightarrow> pdp_opr \<Rightarrow> pdp \<Rightarrow> vm_error + pdp" where
  "p_asl w p st = bindE (p_get w p True st) (\<lambda>(x, st).
     let v = ux w (x * 2); m0 = (x AND p_msb w \<noteq> 0); m1 = v < 0
     in bindE (p_put w p v st) (\<lambda>st. Inr (setZNCV (v = 0) m1 m0 (m1 \<noteq> m0) st)))"

text \<open>By the number of the instruction, from octal 50 to 63.\<close>

definition p_unary :: "nat \<Rightarrow> bool \<Rightarrow> pdp_opr \<Rightarrow> pdp \<Rightarrow> vm_error + pdp" where
  "p_unary k = (if k = 40 then p_clr else if k = 41 then p_com else if k = 42 then p_inc else if k = 43 then p_dec
     else if k = 44 then p_neg else if k = 45 then p_adc else if k = 46 then p_sbc else if k = 47 then p_tst
     else if k = 48 then p_ror else if k = 49 then p_rol else if k = 50 then p_asr else p_asl)"

section \<open>Control\<close>

definition p_swab :: "pdp_opr \<Rightarrow> pdp \<Rightarrow> vm_error + pdp" where
  "p_swab p st = bindE (p_get16 p True st) (\<lambda>(x, st).
     let v = push_bit 8 (x AND 0xff) OR drop_bit 8 x
     in bindE (p_set16 p v st) (\<lambda>st. Inr (setZNCV (v = 0) (v AND 0x8000 \<noteq> 0) False False st)))"

text \<open>The conditions of the branches: octal 004 to 037 with the sign bit clear (\<open>p_cond\<close>) and set (\<open>p_cond_b\<close>).\<close>

definition p_cond :: "nat \<Rightarrow> pdp \<Rightarrow> bool" where
  "p_cond k st =
     (let n = (p_N st \<noteq> p_V st)
      in if k = 1 then True else if k = 2 then \<not> p_Z st else if k = 3 then p_Z st
         else if k = 4 then \<not> n else if k = 5 then n else if k = 6 then \<not> (p_Z st \<or> n) else p_Z st \<or> n)"

definition p_cond_b :: "nat \<Rightarrow> pdp \<Rightarrow> bool" where
  "p_cond_b k st =
     (if k = 0 then \<not> p_N st else if k = 1 then p_N st else if k = 2 then \<not> (p_C st \<or> p_Z st)
      else if k = 3 then p_C st \<or> p_Z st else if k = 4 then \<not> p_V st else if k = 5 then p_V st
      else if k = 6 then \<not> p_C st else p_C st)"

definition p_branch :: "bool \<Rightarrow> pdp_op \<Rightarrow> pdp \<Rightarrow> pdp" where
  "p_branch c x st = (if c then p_set 7 (word_of_int (po_value (pp_1 x))) st else st)"

definition p_rts :: "pdp_op \<Rightarrow> pdp \<Rightarrow> vm_error + pdp" where
  "p_rts x st =
     (let i = po_reg (pp_1 x); st = p_set 7 (p_r st i) st
      in bindE (p_read16 (uint (p_r st 6)) st) (\<lambda>v. let st = p_set i v st in Inr (p_set 6 (p_r st 6 + 2) st)))"

definition p_flags :: "u16 \<Rightarrow> pdp \<Rightarrow> pdp" where
  "p_flags w st =
     (let f = bit w 4; set = (\<lambda>i old. if bit w i then f else old)
      in st\<lparr>p_N := set 3 (p_N st), p_Z := set 2 (p_Z st), p_V := set 1 (p_V st), p_C := set 0 (p_C st)\<rparr>)"

definition p_jmp :: "pdp_op \<Rightarrow> pdp \<Rightarrow> vm_error + pdp" where
  "p_jmp x st = bindE (p_addr (pp_1 x) False st) (\<lambda>(a, st). Inr (p_set 7 (word_of_int a) st))"

definition p_jsr :: "pdp_op \<Rightarrow> pdp \<Rightarrow> vm_error + pdp" where
  "p_jsr x st =
     bindE (p_addr (pp_2 x) False st) (\<lambda>(a, st).
       let i = po_reg (pp_1 x); st = p_set 6 (p_r st 6 - 2) st
       in bindE (p_write16 (uint (p_r st 6)) (p_r st i) st) (\<lambda>st.
            Inr (p_set 7 (word_of_int a) (p_set i (p_r st 7) st))))"

definition p_mark :: "u16 \<Rightarrow> pdp \<Rightarrow> vm_error + pdp" where
  "p_mark w st =
     (let st = p_set 6 (p_r st 6 + 2 * (w AND 63)) st; st = p_set 7 (p_r st 5) st
      in bindE (p_read16 (uint (p_r st 6)) st) (\<lambda>v. let st = p_set 5 v st in Inr (p_set 6 (p_r st 6 + 2) st)))"

definition p_sxt :: "pdp_opr \<Rightarrow> pdp \<Rightarrow> vm_error + pdp" where
  "p_sxt p st = bindE (p_set16 p (if p_N st then - 1 else 0) st) (\<lambda>st. Inr (setZNCV (\<not> p_N st) (p_N st) (p_C st) (p_V st) st))"

definition p_ret :: "vm_error + pdp \<Rightarrow> vm_error + bool \<times> pdp" where
  "p_ret m = bindE m (\<lambda>st. Inr (True, st))"

text \<open>The instructions that begin with four zero bits.\<close>

definition p_run_0 :: "u16 \<Rightarrow> pdp_op \<Rightarrow> pdp \<Rightarrow> vm_error + bool \<times> pdp" where
  "p_run_0 w x st =
     (let k = mid6 w; lo = unat (w AND 63)
      in if k = 1 then p_ret (p_jmp x st)
         else if k = 2 \<and> lo < 8 then p_ret (p_rts x st)
         else if k = 2 \<and> 32 \<le> lo then Inr (True, p_flags w st)
         else if k = 3 then p_ret (p_swab (pp_1 x) st)
         else if 4 \<le> k \<and> k < 32 then Inr (True, p_branch (p_cond (k div 4) st) x st)
         else if 32 \<le> k \<and> k < 40 then p_ret (p_jsr x st)
         else if 40 \<le> k \<and> k < 52 then p_ret (p_unary k True (pp_1 x) st)
         else if k = 52 then p_ret (p_mark w st)
         else if k = 55 then p_ret (p_sxt (pp_1 x) st)
         else Inr (False, st))"

section \<open>Instructions with two operands\<close>

definition p_mov :: "pdp_op \<Rightarrow> pdp \<Rightarrow> vm_error + pdp" where
  "p_mov x st = bindE (p_get16 (pp_1 x) False st) (\<lambda>(s, st).
     bindE (p_set16 (pp_2 x) s st) (\<lambda>st. Inr (setZNCV (s = 0) (sint s < 0) (p_C st) False st)))"

definition p_movb :: "pdp_op \<Rightarrow> pdp \<Rightarrow> vm_error + pdp" where
  "p_movb x st = bindE (p_get8 (pp_1 x) False st) (\<lambda>(s, st).
     bindE (p_set8 (pp_2 x) s True st) (\<lambda>st. Inr (setZNCV (s = 0) (sint s < 0) (p_C st) False st)))"

definition p_cmp :: "bool \<Rightarrow> pdp_op \<Rightarrow> pdp \<Rightarrow> vm_error + pdp" where
  "p_cmp w x st = bindE (p_get w (pp_1 x) False st) (\<lambda>(s, st). bindE (p_get w (pp_2 x) False st) (\<lambda>(d, st).
     let v = sx w s - sx w d; v' = sx w v in Inr (setZNCV (v' = 0) (v' < 0) (s < d) (v \<noteq> v') st)))"

definition p_bit :: "bool \<Rightarrow> pdp_op \<Rightarrow> pdp \<Rightarrow> vm_error + pdp" where
  "p_bit w x st = bindE (p_get w (pp_1 x) False st) (\<lambda>(s, st). bindE (p_get w (pp_2 x) False st) (\<lambda>(d, st).
     let v = s AND d in Inr (setZNCV (v = 0) (v AND p_msb w \<noteq> 0) (p_C st) False st)))"

text \<open>\<open>bic\<close> and \<open>bis\<close>.\<close>

definition p_bits :: "(int \<Rightarrow> int \<Rightarrow> int) \<Rightarrow> bool \<Rightarrow> pdp_op \<Rightarrow> pdp \<Rightarrow> vm_error + pdp" where
  "p_bits f w x st = bindE (p_get w (pp_1 x) False st) (\<lambda>(s, st). bindE (p_get w (pp_2 x) True st) (\<lambda>(d, st).
     let v = f s d
     in bindE (p_put w (pp_2 x) v st) (\<lambda>st. Inr (setZNCV (v = 0) (v AND p_msb w \<noteq> 0) (p_C st) False st))))"

definition p_bic :: "bool \<Rightarrow> pdp_op \<Rightarrow> pdp \<Rightarrow> vm_error + pdp" where
  "p_bic = p_bits (\<lambda>s d. NOT s AND d)"

definition p_bis :: "bool \<Rightarrow> pdp_op \<Rightarrow> pdp \<Rightarrow> vm_error + pdp" where
  "p_bis = p_bits (\<lambda>s d. s OR d)"

definition p_add :: "pdp_op \<Rightarrow> pdp \<Rightarrow> vm_error + pdp" where
  "p_add x st = bindE (p_get16 (pp_1 x) False st) (\<lambda>(s, st). bindE (p_get16 (pp_2 x) True st) (\<lambda>(d, st).
     let v = sint s + sint d; v' = sx True v
     in bindE (p_set16 (pp_2 x) (word_of_int v') st) (\<lambda>st.
          Inr (setZNCV (v' = 0) (v' < 0) (uint s + uint d \<ge> 0x10000) (v \<noteq> v') st))))"

definition p_sub :: "pdp_op \<Rightarrow> pdp \<Rightarrow> vm_error + pdp" where
  "p_sub x st = bindE (p_get16 (pp_1 x) False st) (\<lambda>(s, st). bindE (p_get16 (pp_2 x) False st) (\<lambda>(d, st).
     let v = sint d - sint s; v' = sx True v
     in bindE (p_set16 (pp_2 x) (word_of_int v') st) (\<lambda>st.
          Inr (setZNCV (v' = 0) (v' < 0) (uint d < uint s) (v \<noteq> v') st))))"

text \<open>The extended instructions.\<close>

definition p_mul :: "pdp_op \<Rightarrow> pdp \<Rightarrow> vm_error + pdp" where
  "p_mul x st = bindE (p_get16 (pp_1 x) False st) (\<lambda>(s, st).
     let i = po_reg (pp_2 x); v = uint (p_r st i) * sint s;
         st = (if even i then setReg32 i (word_of_int v) st else p_set i (word_of_int v) st)
     in Inr (setZNCV (v = 0) (v < 0) (v < -0x8000 \<or> v \<ge> 0x8000) False st))"

text \<open>The quotient of the least number by \<open>-1\<close> is beyond an \<open>int\<close>.\<close>

definition p_div :: "pdp_op \<Rightarrow> pdp \<Rightarrow> vm_error + pdp" where
  "p_div x st = bindE (p_get16 (pp_1 x) False st) (\<lambda>(s, st).
     let s = sint s; i = po_reg (pp_2 x)
     in if s = 0 \<or> \<bar>sint (p_r st i)\<bar> > \<bar>s\<bar> then Inr (setZNCV False False (s = 0) True st)
        else let v = sint (getReg32 i st); q = v sdiv s;
                 st = p_set (next_reg i) (word_of_int (v smod s)) (p_set i (word_of_int q) st)
             in if v = - (2 ^ 31) \<and> s = -1 then Inl Divide_trap else Inr (setZNCV (q = 0) (q < 0) False False st))"

text \<open>\<open>ash\<close> and \<open>ashc\<close>: the value shifted up to the last place but one, and once more.\<close>

definition p_shift :: "nat \<Rightarrow> int \<Rightarrow> int \<Rightarrow> int \<times> int" where
  "p_shift n v0 s =
     (if s < 32 then
        let v1 = signed_take_bit n (v0 * 2 ^ nat (s - 1)) in (v1, signed_take_bit n (v1 * 2))
      else let v1 = drop_bit (nat (63 - s)) v0 in (v1, drop_bit 1 v1))"

definition shift_flags :: "int \<Rightarrow> int \<Rightarrow> int \<Rightarrow> int \<Rightarrow> pdp \<Rightarrow> pdp" where
  "shift_flags s v0 v1 v2 st =
     setZNCV (v2 = 0) (v2 < 0) (if s < 32 then v1 < 0 else v1 AND 1 \<noteq> 0) ((v0 < 0) \<noteq> (v2 < 0)) st"

definition p_ash :: "pdp_op \<Rightarrow> pdp \<Rightarrow> vm_error + pdp" where
  "p_ash x st = bindE (p_get16 (pp_1 x) False st) (\<lambda>(s, st).
     let s = uint (s AND 63); i = po_reg (pp_2 x); v0 = sint (p_r st i)
     in if s = 0 then Inr (setZNCV (v0 = 0) (v0 < 0) (p_C st) False st)
        else let (v1, v2) = p_shift 15 v0 s in Inr (shift_flags s v0 v1 v2 (p_set i (word_of_int v2) st)))"

definition p_ashc :: "pdp_op \<Rightarrow> pdp \<Rightarrow> vm_error + pdp" where
  "p_ashc x st = bindE (p_get16 (pp_1 x) False st) (\<lambda>(s, st).
     let s = uint (s AND 63); i = po_reg (pp_2 x); v0 = sint (getReg32 i st)
     in if s = 0 then Inr (setZNCV (v0 = 0) (v0 < 0) (p_C st) False st)
        else let (v1, v2) = p_shift 31 v0 s in Inr (shift_flags s v0 v1 v2 (setReg32 i (word_of_int v2) st)))"

definition p_xor :: "pdp_op \<Rightarrow> pdp \<Rightarrow> vm_error + pdp" where
  "p_xor x st = bindE (p_get16 (pp_2 x) True st) (\<lambda>(d, st).
     let v = p_r st (po_reg (pp_1 x)) XOR d
     in bindE (p_set16 (pp_2 x) v st) (\<lambda>st. Inr (setZNCV (v = 0) (v AND 0x8000 \<noteq> 0) (p_C st) False st)))"

definition p_sob :: "pdp_op \<Rightarrow> pdp \<Rightarrow> pdp" where
  "p_sob x st =
     (let i = po_reg (pp_1 x); st = p_set i (p_r st i - 1) st
      in if p_r st i \<noteq> 0 then p_set 7 (p_r st 7 - word_of_int (po_value (pp_2 x) * 2)) st else st)"

definition p_run_7 :: "u16 \<Rightarrow> pdp_op \<Rightarrow> pdp \<Rightarrow> vm_error + bool \<times> pdp" where
  "p_run_7 w x st =
     (let k = mid6 w div 8
      in if k = 0 then p_ret (p_mul x st) else if k = 1 then p_ret (p_div x st)
         else if k = 2 then p_ret (p_ash x st) else if k = 3 then p_ret (p_ashc x st)
         else if k = 4 then p_ret (p_xor x st) else if k = 7 then Inr (True, p_sob x st)
         else Inr (False, st))"

text \<open>The instructions on bytes with one operand, and the other branches; \<open>sys\<close> is the system call.\<close>

definition p_run_8 :: "(byte \<Rightarrow> pdp \<Rightarrow> pdp) \<Rightarrow> u16 \<Rightarrow> pdp_op \<Rightarrow> pdp \<Rightarrow> vm_error + bool \<times> pdp" where
  "p_run_8 sys w x st =
     (let k = mid6 w
      in if k < 32 then Inr (True, p_branch (p_cond_b (k div 4) st) x st)
         else if 36 \<le> k \<and> k < 40 then Inr (True, sys (ucast w) st)
         else if 40 \<le> k \<and> k < 52 then p_ret (p_unary k False (pp_1 x) st)
         else Inr (False, st))"

section \<open>One instruction\<close>

definition p_switch :: "(byte \<Rightarrow> pdp \<Rightarrow> pdp) \<Rightarrow> u16 \<Rightarrow> pdp_op \<Rightarrow> pdp \<Rightarrow> vm_error + bool \<times> pdp" where
  "p_switch sys w x st =
     (let k = top4 w
      in if k = 0 then p_run_0 w x st
         else if k = 1 then p_ret (p_mov x st) else if k = 2 then p_ret (p_cmp True x st)
         else if k = 3 then p_ret (p_bit True x st) else if k = 4 then p_ret (p_bic True x st)
         else if k = 5 then p_ret (p_bis True x st) else if k = 6 then p_ret (p_add x st)
         else if k = 7 then p_run_7 w x st
         else if k = 8 then p_run_8 sys w x st
         else if k = 9 then p_ret (p_movb x st) else if k = 10 then p_ret (p_cmp False x st)
         else if k = 11 then p_ret (p_bit False x st) else if k = 12 then p_ret (p_bic False x st)
         else if k = 13 then p_ret (p_bis False x st) else if k = 14 then p_ret (p_sub x st)
         else Inr (w = 0xf009, st))"

text \<open>The instruction at \<open>PC\<close>: it is decoded where the cache does not hold it.\<close>

definition p_fetch :: "pdp \<Rightarrow> vm_error + pdp_op \<times> pdp" where
  "p_fetch st =
     (let pc = p_r st 7; dec = pdp_disasm1 (p_mem st) (uint pc)
      in case p_cache st of
           None \<Rightarrow> bindE dec (\<lambda>x. Inr (x, st))
         | Some c \<Rightarrow> (case c pc of
             Some x \<Rightarrow> Inr (x, st)
           | None \<Rightarrow> bindE dec (\<lambda>x. Inr (x, st\<lparr>p_cache := Some (c(pc \<mapsto> x))\<rparr>))))"

definition p_run1 :: "(byte \<Rightarrow> pdp \<Rightarrow> pdp) \<Rightarrow> pdp \<Rightarrow> vm_error + pdp" where
  "p_run1 sys st =
     bindE (p_fetch st) (\<lambda>(x, st).
       let pc = p_r st 7
       in if uint pc + int (pp_len x) > 0x10000 then Inr (st\<lparr>p_exited := True\<rparr>)
          else if p_r st 6 < p_brksize st then Inr (st\<lparr>p_exited := True\<rparr>)
          else bindE (mem16 (p_mem st) (uint pc)) (\<lambda>w.
               bindE (p_switch sys w x (p_set 7 (pc + of_nat (pp_len x)) st)) (\<lambda>(done, st).
                 Inr (if done then st else st\<lparr>p_exitcode := -1, p_exited := True\<rparr>))))"

text \<open>\<open>run2\<close>, for at most \<open>n\<close> instructions.\<close>

fun p_run2 :: "nat \<Rightarrow> (byte \<Rightarrow> pdp \<Rightarrow> pdp) \<Rightarrow> pdp \<Rightarrow> vm_error + pdp" where
  "p_run2 0 sys st = (if p_exited st then Inr st else Inl Vm_loops)"
| "p_run2 (Suc n) sys st = (if p_exited st then Inr st else bindE (p_run1 sys st) (p_run2 n sys))"

text \<open>Loading a raw binary: text and data are one memory, and the cache is empty.\<close>

definition p_load :: "bytes \<Rightarrow> pdp \<Rightarrow> pdp option" where
  "p_load bs st =
     (if length bs > 0xffff then None
      else Some (p_set 7 0 (st\<lparr>p_data := (\<lambda>a. if unat a < length bs then bs ! unat a else 0), p_shared := True,
        p_brksize := of_nat (length bs), p_cache := None\<rparr>)))"

end
