(* ===== verification/Emu_Load.thy ===== *)
theory Emu_Load
  imports Pdp_Run
begin

text \<open>
  How the emulator starts a program: the command line (\<open>7run/main.cpp\<close>), paths and strings (\<open>utils.cpp\<close>), the loaders
  of the three systems (\<open>Minix2/OS.cpp\<close>, \<open>UnixV6/OSi8086.cpp\<close>, \<open>OSPDP11.cpp\<close>, \<open>OS.cpp\<close>), the arguments on the
  stack (\<open>setArgs\<close>) and their way back (\<open>v6_exec\<close>), the listing with the system calls, and the limit of
  \<open>brk\<close> (\<open>UnixBase.sys.cpp\<close>).

  A file is the bytes it holds. What \<open>fread\<close> stores beyond the 64 kilobytes of a memory is the error
  \<open>Out_of_memory\<close>.
\<close>

section \<open>Paths and strings\<close>

definition readstr :: "bytes \<Rightarrow> nat \<Rightarrow> string" where
  "readstr mem n = map (\<lambda>b. char_of (unat b)) (takeWhile (\<lambda>b. b \<noteq> 0) (take n mem))"

definition ends_with :: "string \<Rightarrow> string \<Rightarrow> bool" where
  "ends_with s suffix \<longleftrightarrow> length suffix \<le> length s \<and> drop (length s - length suffix) s = suffix"

function set_root :: "string \<Rightarrow> string" where
  "set_root root = (if ends_with root ''/'' then set_root (take (length root - 1) root) else root)"
  by pat_completeness auto
termination by (relation "measure length") (auto simp: ends_with_def)

declare set_root.simps [simp del]

text \<open>\<open>exists\<close> tells whether \<open>stat\<close> finds the path.\<close>

definition conv_path :: "(string \<Rightarrow> bool) \<Rightarrow> string \<Rightarrow> string \<Rightarrow> string" where
  "conv_path exists root path =
     (if starts_with path ''/usr/tmp/'' then drop 4 path
      else if root \<noteq> [] \<and> starts_with path ''/'' \<and> exists (root @ path) then root @ path
      else path)"

section \<open>The command line\<close>

record emu_opts =
  e_dis :: bool
  e_pdp11 :: bool
  e_i8086 :: bool
  e_ver :: int
  e_trace :: int
  e_root :: string
  e_args :: "string list"

text \<open>The first argument that is no option ends the options; \<open>-s\<close> is one only where nothing is traced yet.\<close>

fun main_args :: "string list \<Rightarrow> emu_opts \<Rightarrow> emu_opts" where
  "main_args [] opt = opt"
| "main_args (a # as) opt =
     (if a = ''-r'' then (case as of [] \<Rightarrow> opt | r # as' \<Rightarrow> main_args as' (opt\<lparr>e_root := set_root r\<rparr>))
      else if a = ''-m'' then main_args as (opt\<lparr>e_trace := 3\<rparr>)
      else if a = ''-v'' then main_args as (opt\<lparr>e_trace := 2\<rparr>)
      else if a = ''-s'' \<and> e_trace opt = 0 then main_args as (opt\<lparr>e_trace := 1\<rparr>)
      else if a = ''-d'' then main_args as (opt\<lparr>e_dis := True\<rparr>)
      else if a = ''-p'' then main_args as (opt\<lparr>e_pdp11 := True\<rparr>)
      else if a = ''-8'' then main_args as (opt\<lparr>e_i8086 := True\<rparr>)
      else if a = ''-2'' then main_args as (opt\<lparr>e_ver := 2\<rparr>)
      else if a = ''-7'' then main_args as (opt\<lparr>e_ver := 7\<rparr>)
      else opt\<lparr>e_args := e_args opt @ a # as\<rparr>)"

definition word16 :: "bytes \<Rightarrow> nat \<Rightarrow> u16" where
  "word16 h i = ucast (h ! i) OR push_bit 8 (ucast (h ! (i + 1)))"

definition word32 :: "bytes \<Rightarrow> nat \<Rightarrow> u32" where
  "word32 h i = ucast (word16 h i) OR push_bit 16 (ucast (word16 h (i + 2)))"

definition pdp_check :: "bytes \<Rightarrow> bool" where
  "pdp_check h \<longleftrightarrow> word16 h 0 \<in> {0x107, 0x108, 0x109}"

definition v6_check :: "bytes \<Rightarrow> bool" where
  "v6_check h \<longleftrightarrow> h ! 0 = 0xeb \<and> h ! 1 \<in> {0x0e, 0x10, 0x12}"

datatype machine = Unix_PDP11 | Unix_8086 | Minix_8086

definition choose_machine :: "emu_opts \<Rightarrow> bytes \<Rightarrow> machine" where
  "choose_machine opt buf =
     (if e_pdp11 opt \<or> pdp_check buf then Unix_PDP11 else if e_i8086 opt \<or> v6_check buf then Unix_8086 else Minix_8086)"

section \<open>Symbols\<close>

text \<open>
  The kind of a symbol is a letter where its type has one. \<open>buf\<close> is what the buffer of twelve bytes holds
  before, since a read at the end of the file leaves the rest of it as it was.
\<close>

definition sym_kind :: "nat \<Rightarrow> nat" where
  "sym_kind t = (if t < 6 then of_char (''uatdbc'' ! t) else if 0x20 \<le> t \<and> t < 0x26 then of_char (''UATDBC'' ! (t - 0x20)) else t)"

definition add_sym :: "int \<Rightarrow> bytes \<Rightarrow> symbols \<times> symbols \<Rightarrow> symbols \<times> symbols" where
  "add_sym base buf s =
     (let name = readstr buf 8; t = sym_kind (unat (word16 buf 8)); a = uint (word16 buf 10) + base
      in if t = of_char (CHR ''t'') \<or> t = of_char (CHR ''T'') then
           if name \<noteq> [] \<and> \<not> starts_with name ''~'' then (fst s, (snd s)(a \<mapsto> name)) else s
         else if t = 0x1f then ((fst s)(a \<mapsto> name), snd s)
         else s)"

fun readsym_loop :: "nat \<Rightarrow> int \<Rightarrow> bytes \<Rightarrow> bytes \<Rightarrow> symbols \<times> symbols \<Rightarrow> symbols \<times> symbols" where
  "readsym_loop 0 base buf bs s = s"
| "readsym_loop (Suc n) base buf bs s =
     (let buf = take 12 bs @ drop (length bs) buf in readsym_loop n base buf (drop 12 bs) (add_sym base buf s))"

definition readsym :: "int \<Rightarrow> nat \<Rightarrow> bytes \<Rightarrow> bytes \<Rightarrow> symbols \<times> symbols \<Rightarrow> symbols \<times> symbols" where
  "readsym base ssize buf bs s = readsym_loop ((ssize + 11) div 12) base buf bs s"

section \<open>Loading\<close>

definition zero_mem :: memory where "zero_mem = (\<lambda>_. 0)"

definition store_at :: "memory \<Rightarrow> nat \<Rightarrow> bytes \<Rightarrow> memory" where
  "store_at mem off bs = (\<lambda>a. if off \<le> unat a \<and> unat a < off + length bs then bs ! (unat a - off) else mem a)"

text \<open>\<open>fread(mem + off, 1, n, f)\<close>, where the file has the bytes \<open>bs\<close> left.\<close>

definition fread_at :: "memory \<Rightarrow> nat \<Rightarrow> nat \<Rightarrow> bytes \<Rightarrow> vm_error + memory" where
  "fread_at mem off n bs =
     (if take n bs \<noteq> [] \<and> off + length (take n bs) > 0x10000 then Inl Out_of_memory
      else Inr (store_at mem off (take n bs)))"

text \<open>What a loader leaves: the machine, the sizes of text and data, the symbols. \<open>None\<close> is the result \<open>false\<close>.\<close>

record 'm loaded =
  l_vm :: 'm
  l_tsize :: nat
  l_dsize :: nat
  l_syms :: "symbols \<times> symbols"

definition i_load :: "bytes \<Rightarrow> vm loaded \<Rightarrow> vm loaded option" where
  "i_load f l =
     (if length f > 0xffff then None
      else Some (l\<lparr>l_vm := (l_vm l)\<lparr>v_data := store_at zero_mem 0 f, v_shared := True, v_brksize := of_nat (length f), v_IP := 0\<rparr>,
        l_tsize := length f, l_dsize := 0\<rparr>))"

definition minix_load2 :: "bytes \<Rightarrow> vm loaded \<Rightarrow> vm_error + vm loaded option" where
  "minix_load2 f l =
     (if length f < 0x20 \<or> \<not> (f ! 0 = 1 \<and> f ! 1 = 3) then Inr (i_load f l)
      else if f ! 3 \<noteq> 4 then Inr None
      else
        let bs = drop (unat (f ! 4)) f; ts = unat (word32 f 8); ds = unat (word32 f 12);
            bss = ucast (word32 f 16) :: u16;
            l = l\<lparr>l_tsize := ts, l_dsize := ds\<rparr>; st = (l_vm l)\<lparr>v_IP := ucast (word32 f 20)\<rparr>
        in if f ! 2 AND 0x20 \<noteq> 0 then
             bindE (fread_at zero_mem 0 ts bs) (\<lambda>t.
             bindE (fread_at zero_mem 0 ds (drop ts bs)) (\<lambda>d.
               Inr (Some (l\<lparr>l_vm := st\<lparr>v_text := t, v_data := d, v_shared := False, v_brksize := of_nat ds + bss\<rparr>\<rparr>))))
           else
             bindE (fread_at zero_mem 0 (ts + ds) bs) (\<lambda>d.
               Inr (Some (l\<lparr>l_vm := st\<lparr>v_data := d, v_shared := True, v_brksize := of_nat (ts + ds) + bss\<rparr>\<rparr>))))"

text \<open>The start of the data, at the next 8 kilobytes, in a variable of sixteen bits.\<close>

definition data_off :: "nat \<Rightarrow> u16" where
  "data_off ts = of_nat ((ts + 0x1fff) div 0x2000 * 0x2000)"

text \<open>
  The images of the sixth edition, whose first bytes are a jump on the 8086. The test for the second kind looks
  at the first byte of the file.
\<close>

definition i_load2 :: "bytes \<Rightarrow> bytes \<Rightarrow> vm loaded \<Rightarrow> vm_error + vm loaded option" where
  "i_load2 buf f l =
     (if length f < 0x10 \<or> \<not> v6_check f then Inr (i_load f l)
      else
        let bs = drop 0x10 f; ts = unat (word16 f 2); ds = unat (word16 f 4); bss = word16 f 6; ssize = unat (word16 f 8);
            st = (l_vm l)\<lparr>v_r := (\<lambda>i. if i < 8 then 0 else v_r (l_vm l) i), v_IP := word16 f 10\<rparr>
        in bindE (if f ! 1 = 0x12 then
                    bindE (fread_at zero_mem 0 ts bs) (\<lambda>t.
                    bindE (fread_at zero_mem 0 ds (drop ts bs)) (\<lambda>d.
                      Inr (st\<lparr>v_text := t, v_data := d, v_shared := False, v_brksize := of_nat ds + bss\<rparr>)))
                  else if f ! 0 = 0x10 then
                    bindE (fread_at zero_mem 0 ts bs) (\<lambda>t.
                    bindE (fread_at t (unat (data_off ts)) ds (drop ts bs)) (\<lambda>d.
                      Inr (st\<lparr>v_data := d, v_shared := True, v_brksize := data_off ts + of_nat ds + bss\<rparr>)))
                  else
                    bindE (fread_at zero_mem 0 (ts + ds) bs) (\<lambda>d.
                      Inr (st\<lparr>v_data := d, v_shared := True, v_brksize := of_nat (ts + ds) + bss\<rparr>))) (\<lambda>st.
           Inr (Some (l\<lparr>l_vm := st, l_tsize := ts, l_dsize := ds,
             l_syms := readsym 0 ssize buf (drop (if word16 f 14 = 0 then ts + ds + (ts + ds) else ts + ds) bs) (l_syms l)\<rparr>))))"

definition pdp_load :: "bytes \<Rightarrow> pdp loaded \<Rightarrow> pdp loaded option" where
  "pdp_load f l =
     (case p_load f (l_vm l) of None \<Rightarrow> None
      | Some st \<Rightarrow> Some (l\<lparr>l_vm := st, l_tsize := length f, l_dsize := 0\<rparr>))"

text \<open>
  On the PDP-11: \<open>base\<close> is \<open>textbase\<close>. The result has the version too, which a program of the seventh
  edition changes by its first instructions.
\<close>

definition p_load2 :: "u16 \<Rightarrow> int \<Rightarrow> bytes \<Rightarrow> bytes \<Rightarrow> pdp loaded \<Rightarrow> vm_error + (pdp loaded \<times> int) option" where
  "p_load2 base ver buf f l =
     (if length f < 0x10 \<or> \<not> pdp_check f then Inr (map_option (\<lambda>l. (l, ver)) (pdp_load f l))
      else
        let bs = drop 0x10 f; ts = unat (word16 f 2); ds = unat (word16 f 4); bss = word16 f 6; ssize = unat (word16 f 8);
            st = (l_vm l)\<lparr>p_r := (\<lambda>i. if i < 7 then 0 else if i = 7 then word16 f 10 else p_r (l_vm l) i),
                           p_cache := Some (\<lambda>_. None)\<rparr>;
            len = (if unat base + (ts + ds) > 0x10000 then 0x10000 - unat base else ts + ds);
            took = (if word16 f 0 = 0x107 then len else ts + ds)
        in bindE (if word16 f 0 = 0x109 then
                    bindE (fread_at zero_mem 0 ts bs) (\<lambda>t.
                    bindE (fread_at zero_mem 0 ds (drop ts bs)) (\<lambda>d.
                      Inr (st\<lparr>p_text := t, p_data := d, p_shared := False, p_brksize := of_nat ds + bss\<rparr>)))
                  else if word16 f 0 = 0x108 then
                    bindE (fread_at zero_mem 0 ts bs) (\<lambda>t.
                    bindE (fread_at t (unat (data_off ts)) ds (drop ts bs)) (\<lambda>d.
                      Inr (st\<lparr>p_data := d, p_shared := True, p_brksize := data_off ts + of_nat ds + bss\<rparr>)))
                  else
                    bindE (fread_at zero_mem (unat base) len bs) (\<lambda>d.
                      Inr ((if base \<noteq> 0 then p_set 7 base else id)
                        (st\<lparr>p_data := d, p_shared := True, p_brksize := base + of_nat len + bss\<rparr>)))) (\<lambda>st.
           bindE (mem16 (p_mem st) 2) (\<lambda>w.
             Inr (Some (l\<lparr>l_vm := st, l_tsize := ts, l_dsize := ds,
                 l_syms := readsym (uint base) ssize buf (drop (if word16 f 14 = 0 then took + (ts + ds) else took) bs) (l_syms l)\<rparr>,
               if w = 0x1d80 then 7 else ver)))))"

section \<open>The arguments\<close>

definition mem_put16 :: "u16 \<Rightarrow> u16 \<Rightarrow> memory \<Rightarrow> vm_error + memory" where
  "mem_put16 a x mem =
     (if a = 0xffff then Inl Out_of_memory else Inr (mem(a := ucast x, a + 1 := ucast (drop_bit 8 x))))"

text \<open>\<open>strcpy\<close> of a \<open>std::string\<close>, up to its first zero.\<close>

definition mem_strcpy :: "u16 \<Rightarrow> bytes \<Rightarrow> memory \<Rightarrow> vm_error + memory" where
  "mem_strcpy a s mem = fread_at mem (unat a) (length (c_str s) + 1) (c_str s @ [0])"

fun put_args :: "bytes list \<Rightarrow> u16 \<Rightarrow> u16 \<Rightarrow> memory \<Rightarrow> vm_error + u16 \<times> u16 \<times> memory" where
  "put_args [] ad1 ad2 mem = Inr (ad1, ad2, mem)"
| "put_args (s # ss) ad1 ad2 mem =
     bindE (mem_put16 (ad2 + 2) ad1 mem) (\<lambda>mem.
     bindE (mem_strcpy ad1 s mem) (\<lambda>mem. put_args ss (ad1 + of_nat (length s + 1)) (ad2 + 2) mem))"

definition args_size :: "bytes list \<Rightarrow> nat" where
  "args_size ss = sum_list (map (\<lambda>s. length s + 1) ss)"

definition even_up :: "nat \<Rightarrow> nat" where
  "even_up n = (n + 1) div 2 * 2"

text \<open>The stack pointer and the memory: the sixth edition, and Minix, which has the environment too.\<close>

definition v6_set_args :: "bytes list \<Rightarrow> u16 \<Rightarrow> memory \<Rightarrow> vm_error + u16 \<times> memory" where
  "v6_set_args args sp mem =
     (let ad1 = sp - of_nat (even_up (args_size args)); sp = ad1 - of_nat ((1 + length args + 1) * 2)
      in bindE (mem_put16 sp (of_nat (length args)) mem) (\<lambda>mem.
         bindE (put_args args ad1 sp mem) (\<lambda>(_, _, mem). Inr (sp, mem))))"

definition minix_set_args :: "bytes list \<Rightarrow> bytes list \<Rightarrow> u16 \<Rightarrow> memory \<Rightarrow> vm_error + u16 \<times> memory" where
  "minix_set_args args envs sp mem =
     (let ad1 = sp - of_nat (even_up (args_size args + args_size envs));
          sp = ad1 - of_nat ((1 + length args + 1 + length envs + 1) * 2)
      in bindE (mem_put16 sp (of_nat (length args)) mem) (\<lambda>mem.
         bindE (put_args args ad1 sp mem) (\<lambda>(ad1, ad2, mem).
         bindE (mem_put16 (ad2 + 2) 0 mem) (\<lambda>mem.
         bindE (put_args envs ad1 (ad2 + 2) mem) (\<lambda>(_, ad2, mem).
         bindE (mem_put16 (ad2 + 2) 0 mem) (\<lambda>mem. Inr (sp, mem)))))))"

definition i_set_args :: "bytes list \<Rightarrow> vm \<Rightarrow> vm_error + vm" where
  "i_set_args args st =
     bindE (v6_set_args args (v_r st SP) (v_data st)) (\<lambda>(sp, mem).
       Inr ((set_r SP sp st)\<lparr>v_data := mem, v_start_sp := sp\<rparr>))"

definition m_set_args :: "bytes list \<Rightarrow> bytes list \<Rightarrow> vm \<Rightarrow> vm_error + vm" where
  "m_set_args args envs st =
     bindE (minix_set_args args envs (v_r st SP) (v_data st)) (\<lambda>(sp, mem).
       Inr ((set_r SP sp st)\<lparr>v_data := mem, v_start_sp := sp\<rparr>))"

definition p_set_args :: "bytes list \<Rightarrow> pdp \<Rightarrow> vm_error + pdp" where
  "p_set_args args st =
     bindE (v6_set_args args (p_r st 6) (p_data st)) (\<lambda>(sp, mem).
       Inr ((p_set 6 sp st)\<lparr>p_data := mem, p_start_sp := sp\<rparr>))"

section \<open>A program that runs another\<close>

text \<open>The string at an address, and the arguments of \<open>exec\<close>; words that are never zero run for ever.\<close>

function mem_str :: "nat \<Rightarrow> memory \<Rightarrow> vm_error + bytes" where
  "mem_str a mem =
     (if a \<ge> 0x10000 then Inl Out_of_memory
      else if mem (of_nat a) = 0 then Inr []
      else bindE (mem_str (a + 1) mem) (\<lambda>s. Inr (mem (of_nat a) # s)))"
  by pat_completeness auto
termination by (relation "measure (\<lambda>(a, mem). 0x10000 - a)") auto

declare mem_str.simps [simp del]

fun exec_args :: "nat \<Rightarrow> u16 \<Rightarrow> memory \<Rightarrow> vm_error + bytes list" where
  "exec_args 0 a mem = Inl Vm_loops"
| "exec_args (Suc n) a mem =
     bindE (mem16 mem (uint a)) (\<lambda>p.
       if p = 0 then Inr []
       else bindE (mem_str (unat p) mem) (\<lambda>s. bindE (exec_args n (a + 2) mem) (\<lambda>ss. Inr (s # ss))))"

text \<open>
  \<open>v6_exec\<close> with the file of the path, which may be none. The arguments are read before the memory is replaced;
  \<open>None\<close> is the result \<open>-1\<close>. The handlers of signals are not modelled.
\<close>

definition i_exec :: "bytes \<Rightarrow> bytes option \<Rightarrow> u16 \<Rightarrow> vm loaded \<Rightarrow> vm_error + vm loaded option" where
  "i_exec buf file argp l =
     bindE (exec_args 0x8001 argp (v_data (l_vm l))) (\<lambda>args.
       case file of None \<Rightarrow> Inr None
       | Some f \<Rightarrow> bindE (i_load2 buf f l) (\<lambda>r.
           case r of None \<Rightarrow> Inr None
           | Some l \<Rightarrow> bindE (i_set_args args (l_vm l)) (\<lambda>st. Inr (Some (l\<lparr>l_vm := st\<rparr>)))))"

definition p_exec :: "u16 \<Rightarrow> int \<Rightarrow> bytes \<Rightarrow> bytes option \<Rightarrow> u16 \<Rightarrow> pdp loaded \<Rightarrow> vm_error + (pdp loaded \<times> int) option" where
  "p_exec base ver buf file argp l =
     bindE (exec_args 0x8001 argp (p_data (l_vm l))) (\<lambda>args.
       case file of None \<Rightarrow> Inr None
       | Some f \<Rightarrow> bindE (p_load2 base ver buf f l) (\<lambda>r.
           case r of None \<Rightarrow> Inr None
           | Some (l, ver) \<Rightarrow> bindE (p_set_args args (l_vm l)) (\<lambda>st. Inr (Some (l\<lparr>l_vm := st\<rparr>, ver)))))"

text \<open>\<open>sys_brk\<close>, on \<open>int\<close>s: the new limit, or none.\<close>

definition sys_brk :: "u16 \<Rightarrow> u16 \<Rightarrow> nat \<Rightarrow> u16 option" where
  "sys_brk nd sp dsize =
     (if uint nd < int dsize \<or> uint nd \<ge> ((uint sp - 0x400) AND NOT 0x3ff) then None else Some nd)"

end
