(* ===== verification/Load_Lemmas.thy ===== *)
theory Load_Lemmas
  imports Emu_Load
begin

text \<open>
  Lemmas on the memories of the emulator: bytes stored and found again (\<open>mem_holds\<close>), the words and strings in
  them, and what \<open>setArgs\<close> and \<open>exec\<close> do with those.
\<close>

section \<open>Bytes in a memory\<close>

text \<open>The byte at an address below 64 kilobytes.\<close>

definition cell :: "memory \<Rightarrow> nat \<Rightarrow> byte" where
  "cell mem n = mem (of_nat n)"

definition mem_holds :: "memory \<Rightarrow> nat \<Rightarrow> bytes \<Rightarrow> bool" where
  "mem_holds mem a bs \<longleftrightarrow> a + length bs \<le> 0x10000 \<and> (\<forall>i < length bs. cell mem (a + i) = bs ! i)"

lemma unat_of_nat_u16: "n < 0x10000 \<Longrightarrow> unat (of_nat n :: u16) = n"
  by (simp add: unat_of_nat)

lemma uint_of_nat_u16: "n < 0x10000 \<Longrightarrow> uint (of_nat n :: u16) = int n"
  by (simp only: uint_nat unat_of_nat_u16)

lemma unat_address: "unat (a :: u16) < 0x10000"
proof -
  have "unat a < 2 ^ LENGTH(16)" by (rule unsigned_less)
  then show ?thesis by simp
qed

lemma cell_store:
  "n < 0x10000 \<Longrightarrow> cell (store_at mem off bs) n = (if off \<le> n \<and> n < off + length bs then bs ! (n - off) else cell mem n)"
  by (simp add: cell_def store_at_def unat_of_nat_u16)

lemma mem_holds_store: "a + length bs \<le> 0x10000 \<Longrightarrow> mem_holds (store_at mem a bs) a bs"
  by (simp add: mem_holds_def cell_store)

lemma mem_holds_other:
  assumes "mem_holds mem a bs" "a + length bs \<le> b \<or> b + length cs \<le> a"
  shows "mem_holds (store_at mem b cs) a bs"
  using assms by (auto simp: mem_holds_def cell_store)

lemma mem_holds_append:
  "mem_holds mem a (bs @ cs) \<longleftrightarrow> mem_holds mem a bs \<and> mem_holds mem (a + length bs) cs"
proof
  assume h: "mem_holds mem a (bs @ cs)"
  have "cell mem (a + i) = bs ! i" if "i < length bs" for i
    using h that by (auto simp: mem_holds_def nth_append)
  moreover have "cell mem (a + length bs + i) = cs ! i" if "i < length cs" for i
  proof -
    have "cell mem (a + (length bs + i)) = (bs @ cs) ! (length bs + i)"
      using h that unfolding mem_holds_def by (metis length_append nat_add_left_cancel_less)
    then show ?thesis by (simp add: add.assoc)
  qed
  ultimately show "mem_holds mem a bs \<and> mem_holds mem (a + length bs) cs"
    using h by (simp add: mem_holds_def)
next
  assume h: "mem_holds mem a bs \<and> mem_holds mem (a + length bs) cs"
  have "cell mem (a + i) = (bs @ cs) ! i" if "i < length bs + length cs" for i
  proof (cases "i < length bs")
    case False
    then obtain j where j: "i = length bs + j" "j < length cs" using \<open>i < length bs + length cs\<close> by (metis le_Suc_ex nat_add_left_cancel_less not_less)
    then show ?thesis using h by (simp add: mem_holds_def nth_append add.assoc)
  qed (use h in \<open>simp add: mem_holds_def nth_append\<close>)
  then show "mem_holds mem a (bs @ cs)" using h by (simp add: mem_holds_def)
qed

lemma mem_holds_Cons: "mem_holds mem a (b # bs) \<longleftrightarrow> a < 0x10000 \<and> cell mem a = b \<and> mem_holds mem (a + 1) bs"
  using mem_holds_append [of mem a "[b]" bs] by (auto simp: mem_holds_def)

lemma fread_at_eq: "off + length (take n bs) \<le> 0x10000 \<Longrightarrow> fread_at mem off n bs = Inr (store_at mem off (take n bs))"
  by (simp add: fread_at_def)

section \<open>Words and strings\<close>

definition bytes16 :: "u16 \<Rightarrow> bytes" where
  "bytes16 x = [ucast x, ucast (drop_bit 8 x)]"

lemma length_bytes16 [simp]: "length (bytes16 x) = 2"
  by (simp add: bytes16_def)

lemma mem_put16_store: "a + 2 \<le> 0x10000 \<Longrightarrow> mem_put16 (of_nat a) x mem = Inr (store_at mem a (bytes16 x))"
proof -
  assume a: "a + 2 \<le> 0x10000"
  have n: "(of_nat a :: u16) \<noteq> 0xffff"
  proof
    assume "(of_nat a :: u16) = 0xffff"
    then have "unat (of_nat a :: u16) = 0xffff" by simp
    with a show False by (simp add: unat_of_nat_u16)
  qed
  have "(mem(of_nat a := ucast x, of_nat a + 1 := ucast (drop_bit 8 x))) b = store_at mem a (bytes16 x) b" for b :: u16
  proof -
    have e: "b = of_nat m \<longleftrightarrow> unat b = m" if "m < 0x10000" for m
      using that by (metis of_nat_unat ucast_id unat_of_nat_u16)
    have "b = of_nat a + 1 \<longleftrightarrow> unat b = a + 1" using e [of "a + 1"] a by (simp add: add.commute)
    moreover have "b = of_nat a \<longleftrightarrow> unat b = a" using e [of a] a by simp
    ultimately show ?thesis by (auto simp: store_at_def bytes16_def nth_Cons split: nat.splits)
  qed
  with n show ?thesis by (simp add: mem_put16_def fun_eq_iff)
qed

lemma mem16_holds: "mem_holds mem a (bytes16 x) \<Longrightarrow> mem16 mem (int a) = Inr x"
proof -
  assume h: "mem_holds mem a (bytes16 x)"
  have "(ucast (ucast x :: byte) OR push_bit 8 (ucast (ucast (drop_bit 8 x) :: byte)) :: u16) = x"
    by (rule bit_word_eqI) (auto simp: bit_simps)
  moreover have "mem (word_of_int (int a)) = ucast x" "mem (word_of_int (int a + 1)) = ucast (drop_bit 8 x)" "a + 2 \<le> 0x10000"
    using h by (auto simp: mem_holds_def bytes16_def cell_def All_less_Suc)
  ultimately show ?thesis by (simp add: mem16_def mem8_def)
qed

lemma mem_str_holds: "mem_holds mem a (s @ [0]) \<Longrightarrow> 0 \<notin> set s \<Longrightarrow> mem_str a mem = Inr s"
proof (induction s arbitrary: a)
  case Nil
  then show ?case by (subst mem_str.simps) (simp add: mem_holds_def cell_def)
next
  case (Cons b s)
  then have "a < 0x10000" "cell mem a = b" "b \<noteq> 0" "mem_holds mem (a + 1) (s @ [0])"
    by (simp_all add: mem_holds_Cons)
  then show ?case using Cons.IH [of "a + 1"] Cons.prems(2) by (subst mem_str.simps) (simp add: cell_def)
qed

section \<open>Arguments\<close>

definition strings :: "bytes list \<Rightarrow> bytes" where
  "strings ss = concat (map (\<lambda>s. s @ [0]) ss)"

fun pointers :: "nat \<Rightarrow> bytes list \<Rightarrow> bytes" where
  "pointers a [] = []"
| "pointers a (s # ss) = bytes16 (of_nat a) @ pointers (a + length s + 1) ss"

lemma strings_simps [simp]: "strings [] = []" "strings (s # ss) = s @ 0 # strings ss"
  by (simp_all add: strings_def)

lemma length_strings: "length (strings ss) = args_size ss"
  by (induction ss) (simp_all add: args_size_def)

lemma length_pointers [simp]: "length (pointers a ss) = 2 * length ss"
  by (induction ss arbitrary: a) simp_all

lemma args_size_simps [simp]: "args_size [] = 0" "args_size (s # ss) = length s + 1 + args_size ss"
  by (simp_all add: args_size_def)

lemma c_str_id: "0 \<notin> set s \<Longrightarrow> c_str s = s"
  unfolding c_str_def by (simp add: takeWhile_eq_all_conv) auto

text \<open>The arguments go to two places, and nothing else changes.\<close>

lemma put_args_store:
  assumes "\<forall>s \<in> set ss. 0 \<notin> set s" "d + 2 + 2 * length ss \<le> a" "a + args_size ss \<le> 0x10000"
  shows "\<exists>mem'. put_args ss (of_nat a) (of_nat d) mem = Inr (of_nat (a + args_size ss), of_nat (d + 2 * length ss), mem') \<and>
    mem_holds mem' (d + 2) (pointers a ss) \<and> mem_holds mem' a (strings ss) \<and>
    (\<forall>n < 0x10000. (n < d + 2 \<or> d + 2 + 2 * length ss \<le> n) \<and> (n < a \<or> a + args_size ss \<le> n) \<longrightarrow> cell mem' n = cell mem n)"
  using assms
proof (induction ss arbitrary: a d mem)
  case Nil
  then show ?case by (simp add: mem_holds_def)
next
  case (Cons s ss)
  let ?m1 = "store_at mem (d + 2) (bytes16 (of_nat a))" let ?m2 = "store_at ?m1 a (s @ [0])"
  let ?a = "a + length s + 1"
  have p: "mem_put16 (of_nat d + 2) (of_nat a) mem = Inr ?m1"
    using mem_put16_store [of "d + 2" "of_nat a" mem] Cons.prems(2,3) by (simp add: add.commute)
  have c: "mem_strcpy (of_nat a) s ?m1 = Inr ?m2"
    using Cons.prems by (simp add: mem_strcpy_def c_str_id fread_at_eq unat_of_nat_u16)
  obtain m where m: "put_args ss (of_nat ?a) (of_nat (d + 2)) ?m2 = Inr (of_nat (?a + args_size ss), of_nat (d + 2 + 2 * length ss), m)"
      "mem_holds m (d + 2 + 2) (pointers ?a ss)" "mem_holds m ?a (strings ss)"
      "\<forall>n < 0x10000. (n < d + 2 + 2 \<or> d + 2 + 2 + 2 * length ss \<le> n) \<and> (n < ?a \<or> ?a + args_size ss \<le> n) \<longrightarrow>
        cell m n = cell ?m2 n"
    using Cons.IH [of "d + 2" ?a ?m2] Cons.prems by auto
  have same: "mem_holds m b bs" if "mem_holds ?m2 b bs"
      "\<forall>i < length bs. (b + i < d + 2 + 2 \<or> d + 2 + 2 + 2 * length ss \<le> b + i) \<and> (b + i < ?a \<or> ?a + args_size ss \<le> b + i)" for b bs
    using that m(4) by (simp add: mem_holds_def)
  have h1: "mem_holds m (d + 2) (bytes16 (of_nat a))"
  proof (rule same)
    show "mem_holds ?m2 (d + 2) (bytes16 (of_nat a))"
      using Cons.prems by (intro mem_holds_other mem_holds_store) simp_all
  qed (use Cons.prems in auto)
  have h2: "mem_holds m a (s @ [0])"
  proof (rule same)
    show "mem_holds ?m2 a (s @ [0])" using Cons.prems by (intro mem_holds_store) simp
  qed (use Cons.prems in auto)
  have "put_args (s # ss) (of_nat a) (of_nat d) mem = Inr (of_nat (a + args_size (s # ss)), of_nat (d + 2 * length (s # ss)), m)"
    using p c m(1) by (simp add: algebra_simps)
  moreover have "mem_holds m (d + 2) (pointers a (s # ss))" "mem_holds m a (strings (s # ss))"
    using h1 h2 m(2,3) by (simp_all add: mem_holds_append mem_holds_Cons add.assoc)
  moreover have "cell m n = cell mem n"
    if "n < 0x10000" "n < d + 2 \<or> d + 2 + 2 * length (s # ss) \<le> n" "n < a \<or> a + args_size (s # ss) \<le> n" for n
    using that m(4) [rule_format, of n] Cons.prems(2) by (auto simp: cell_store)
  ultimately show ?case by blast
qed

text \<open>Reading them back: the pointers, ended by a zero word, and the strings.\<close>

lemma exec_args_ok:
  assumes "mem_holds mem d (pointers a ss @ [0, 0])" "mem_holds mem a (strings ss)" "\<forall>s \<in> set ss. 0 \<notin> set s" "0 < a"
    "length ss < k"
  shows "exec_args k (of_nat d) mem = Inr ss"
  using assms
proof (induction ss arbitrary: d a k)
  case Nil
  have "mem_holds mem d (bytes16 0)" using Nil.prems(1) by (simp add: bytes16_def)
  moreover from this have "uint (of_nat d :: u16) = int d" by (intro uint_of_nat_u16) (simp add: mem_holds_def)
  ultimately have "mem16 mem (uint (of_nat d :: u16)) = Inr 0" using mem16_holds by metis
  then show ?case using Nil.prems(5) by (cases k) simp_all
next
  case (Cons s ss)
  have h: "mem_holds mem d (bytes16 (of_nat a))" "mem_holds mem (d + 2) (pointers (a + length s + 1) ss @ [0, 0])"
    "mem_holds mem a (s @ [0])" "mem_holds mem (a + length s + 1) (strings ss)"
  proof -
    have "mem_holds mem d (bytes16 (of_nat a) @ (pointers (a + length s + 1) ss @ [0, 0]))" "mem_holds mem a ((s @ [0]) @ strings ss)"
      using Cons.prems(1,2) by (simp_all only: pointers.simps strings_simps append_assoc append_Cons append_Nil)
    then show "mem_holds mem d (bytes16 (of_nat a))" "mem_holds mem (d + 2) (pointers (a + length s + 1) ss @ [0, 0])"
      "mem_holds mem a (s @ [0])" "mem_holds mem (a + length s + 1) (strings ss)"
      unfolding mem_holds_append [of mem d "bytes16 (of_nat a)"] mem_holds_append [of mem a "s @ [0]"]
      by (simp_all add: add.assoc)
  qed
  have d: "uint (of_nat d :: u16) = int d" "(of_nat d + 2 :: u16) = of_nat (d + 2)"
  proof -
    show "uint (of_nat d :: u16) = int d" using h(1) by (intro uint_of_nat_u16) (simp add: mem_holds_def)
  qed simp
  have a: "unat (of_nat a :: u16) = a" using h(3) by (intro unat_of_nat_u16) (simp add: mem_holds_def)
  then have n: "(of_nat a :: u16) \<noteq> 0" using Cons.prems(4) by auto
  obtain j where j: "k = Suc j" "length ss < j" using Cons.prems(5) by (cases k) auto
  have "mem_str a mem = Inr s" using mem_str_holds [OF h(3)] Cons.prems(3) by simp
  moreover have "exec_args j (of_nat (d + 2)) mem = Inr ss"
    using Cons.IH [OF h(2,4)] Cons.prems(3) j(2) by simp
  ultimately show ?case
    unfolding j(1) exec_args.simps d mem16_holds [OF h(1)] bindE.simps if_not_P [OF n] a by simp
qed

section \<open>The stack of a new program\<close>

lemma of_nat_minus_u16: "b \<le> a \<Longrightarrow> (of_nat a :: u16) - of_nat b = of_nat (a - b)"
  by (simp add: of_nat_diff)

lemma top_minus: "b \<le> 0x10000 \<Longrightarrow> (0 :: u16) - of_nat b = of_nat (0x10000 - b)"
proof -
  assume "b \<le> 0x10000"
  then have "(of_nat 0x10000 :: u16) - of_nat b = of_nat (0x10000 - b)" by (rule of_nat_minus_u16)
  moreover have "(of_nat 0x10000 :: u16) = 0" by simp
  ultimately show ?thesis by metis
qed

lemma even_up_ge: "n \<le> even_up n"
  by (simp add: even_up_def)

lemma v6_set_args_ok:
  assumes "\<forall>s \<in> set args. 0 \<notin> set s" and top: "d + 2 * (length args + 2) + even_up (args_size args) = 0x10000"
    and z: "\<forall>n < 0x10000. d \<le> n \<longrightarrow> cell mem n = 0"
  shows "\<exists>mem'. v6_set_args args 0 mem = Inr (of_nat d, mem') \<and> mem_holds mem' d (bytes16 (of_nat (length args))) \<and>
    exec_args 0x8001 (of_nat d + 2) mem' = Inr args \<and> (\<forall>n < d. cell mem' n = cell mem n)"
proof -
  let ?n = "length args" let ?e = "even_up (args_size args)" let ?a = "0x10000 - ?e"
  let ?m1 = "store_at mem d (bytes16 (of_nat ?n))"
  have a: "?a = d + 2 * (?n + 2)" "?e \<le> 0x10000" using top by simp_all
  have sz: "?a + args_size args \<le> 0x10000" using even_up_ge [of "args_size args"] a by simp
  have w: "(0 :: u16) - of_nat ?e = of_nat ?a" using a(2) by (rule top_minus)
  have w2: "(of_nat ?a :: u16) - of_nat ((1 + ?n + 1) * 2) = of_nat d"
    using of_nat_minus_u16 [of "(1 + ?n + 1) * 2" ?a] unfolding a(1) by simp
  have p: "mem_put16 (of_nat d) (of_nat ?n) mem = Inr ?m1" using a by (intro mem_put16_store) simp
  obtain m where m: "put_args args (of_nat ?a) (of_nat d) ?m1 = Inr (of_nat (?a + args_size args), of_nat (d + 2 * ?n), m)"
      "mem_holds m (d + 2) (pointers ?a args)" "mem_holds m ?a (strings args)"
      "\<forall>n < 0x10000. (n < d + 2 \<or> d + 2 + 2 * ?n \<le> n) \<and> (n < ?a \<or> ?a + args_size args \<le> n) \<longrightarrow> cell m n = cell ?m1 n"
    using put_args_store [OF assms(1), of d ?a ?m1] a sz by auto
  have run: "v6_set_args args 0 mem = Inr (of_nat d, m)"
    unfolding v6_set_args_def Let_def w w2 p bindE.simps m(1) prod.case by (rule refl)
  have h: "mem_holds m d (bytes16 (of_nat ?n))"
    using mem_holds_store [of d "bytes16 (of_nat ?n)" mem] m(4) a by (auto simp: mem_holds_def)
  have "cell m (d + 2 + 2 * ?n) = 0" "cell m (d + 2 + 2 * ?n + 1) = 0"
    using m(4) z a by (simp_all add: cell_store)
  then have "mem_holds m (d + 2) (pointers ?a args @ [0, 0])"
    using m(2) a top by (simp add: mem_holds_append mem_holds_Cons) (simp add: mem_holds_def)
  moreover have "0 < ?a" "?n < 0x8001" using a by simp_all
  ultimately have "exec_args 0x8001 (of_nat (d + 2)) m = Inr args"
    using exec_args_ok m(3) assms(1) by blast
  moreover have "cell m n = cell mem n" if "n < d" for n
    using m(4) [rule_format, of n] that a by (simp add: cell_store)
  ultimately show ?thesis using run h by (auto simp: add.commute)
qed

lemma minix_set_args_ok:
  assumes nz: "\<forall>s \<in> set (args @ envs). 0 \<notin> set s"
    and top: "d + 2 * (length args + length envs + 3) + even_up (args_size args + args_size envs) = 0x10000"
  shows "\<exists>mem'. minix_set_args args envs 0 mem = Inr (of_nat d, mem') \<and> mem_holds mem' d (bytes16 (of_nat (length args))) \<and>
    exec_args 0x8001 (of_nat d + 2) mem' = Inr args \<and>
    exec_args 0x8001 (of_nat d + 2 + of_nat (2 * (length args + 1))) mem' = Inr envs \<and> (\<forall>n < d. cell mem' n = cell mem n)"
proof -
  let ?n = "length args" let ?k = "length envs" let ?e = "even_up (args_size args + args_size envs)"
  let ?a = "0x10000 - ?e" let ?b = "?a + args_size args"
  have a: "?a = d + 2 * (?n + ?k + 3)" "?e \<le> 0x10000" using top by simp_all
  have sz: "?b + args_size envs \<le> 0x10000" using even_up_ge [of "args_size args + args_size envs"] a by simp
  have w: "(0 :: u16) - of_nat ?e = of_nat ?a" using a(2) by (rule top_minus)
  have w2: "(of_nat ?a :: u16) - of_nat ((1 + ?n + 1 + ?k + 1) * 2) = of_nat d"
    using of_nat_minus_u16 [of "(1 + ?n + 1 + ?k + 1) * 2" ?a] unfolding a(1) by simp
  let ?m1 = "store_at mem d (bytes16 (of_nat ?n))"
  have p: "mem_put16 (of_nat d) (of_nat ?n) mem = Inr ?m1" using a by (intro mem_put16_store) simp
  obtain m where m: "put_args args (of_nat ?a) (of_nat d) ?m1 = Inr (of_nat ?b, of_nat (d + 2 * ?n), m)"
      "mem_holds m (d + 2) (pointers ?a args)" "mem_holds m ?a (strings args)"
      "\<forall>n < 0x10000. (n < d + 2 \<or> d + 2 + 2 * ?n \<le> n) \<and> (n < ?a \<or> ?b \<le> n) \<longrightarrow> cell m n = cell ?m1 n"
    using put_args_store [of args d ?a ?m1] nz a sz by auto
  let ?d = "d + 2 + 2 * ?n" let ?m2 = "store_at m ?d (bytes16 0)"
  have d: "(of_nat (d + 2 * ?n) + 2 :: u16) = of_nat ?d" by simp
  have p2: "mem_put16 (of_nat ?d) 0 m = Inr ?m2" using a by (intro mem_put16_store) simp
  obtain q where q: "put_args envs (of_nat ?b) (of_nat ?d) ?m2 = Inr (of_nat (?b + args_size envs), of_nat (?d + 2 * ?k), q)"
      "mem_holds q (?d + 2) (pointers ?b envs)" "mem_holds q ?b (strings envs)"
      "\<forall>n < 0x10000. (n < ?d + 2 \<or> ?d + 2 + 2 * ?k \<le> n) \<and> (n < ?b \<or> ?b + args_size envs \<le> n) \<longrightarrow> cell q n = cell ?m2 n"
    using put_args_store [of envs ?d ?b ?m2] nz a sz by auto
  let ?f = "?d + 2 + 2 * ?k" let ?m3 = "store_at q ?f (bytes16 0)"
  have f: "(of_nat (?d + 2 * ?k) + 2 :: u16) = of_nat ?f" by simp
  have p3: "mem_put16 (of_nat ?f) 0 q = Inr ?m3" using a by (intro mem_put16_store) simp
  have run: "minix_set_args args envs 0 mem = Inr (of_nat d, ?m3)"
    unfolding minix_set_args_def Let_def w w2 p bindE.simps m(1) prod.case d p2 q(1) f p3 by (rule refl)
  have keep: "mem_holds ?m3 x bs" if "mem_holds ?m1 x bs \<and> (x + length bs \<le> d + 2) \<or> mem_holds m x bs \<and> d + 2 \<le> x \<and> x + length bs \<le> ?d \<or>
      mem_holds ?m2 x bs \<and> ?d \<le> x \<and> x + length bs \<le> ?d + 2 \<or> mem_holds q x bs \<and> ?d + 2 \<le> x \<and> x + length bs \<le> ?f \<or>
      mem_holds m x bs \<and> ?a \<le> x \<and> x + length bs \<le> ?b \<or> mem_holds q x bs \<and> ?b \<le> x" for x bs
    using that m(4) q(4) a sz by (auto simp: mem_holds_def cell_store)
  have h: "mem_holds ?m3 d (bytes16 (of_nat ?n))" by (rule keep) (use a in \<open>simp add: mem_holds_store\<close>)
  have z: "bytes16 0 = [0, 0]" by (simp add: bytes16_def)
  have "mem_holds ?m3 ?d [0, 0]" unfolding z [symmetric] by (rule keep) (use a in \<open>simp add: mem_holds_store\<close>)
  moreover have "mem_holds ?m3 (d + 2) (pointers ?a args)" by (rule keep) (use m(2) a in simp)
  ultimately have ha: "mem_holds ?m3 (d + 2) (pointers ?a args @ [0, 0])" by (simp add: mem_holds_append)
  have "mem_holds ?m3 ?f [0, 0]" unfolding z [symmetric] using a by (intro mem_holds_store) simp
  moreover have "mem_holds ?m3 (?d + 2) (pointers ?b envs)" by (rule keep) (use q(2) a in simp)
  ultimately have he: "mem_holds ?m3 (?d + 2) (pointers ?b envs @ [0, 0])" by (simp add: mem_holds_append)
  have s: "mem_holds ?m3 ?a (strings args)" "mem_holds ?m3 ?b (strings envs)"
    by (rule keep; use m(3) q(3) in \<open>simp add: length_strings\<close>)+
  have "exec_args 0x8001 (of_nat (d + 2)) ?m3 = Inr args"
    using exec_args_ok [OF ha s(1)] nz a by simp
  moreover have "exec_args 0x8001 (of_nat (?d + 2)) ?m3 = Inr envs"
    using exec_args_ok [OF he s(2)] nz a by simp
  moreover have "cell ?m3 n = cell mem n" if "n < d" for n
    using m(4) [rule_format, of n] q(4) [rule_format, of n] that a by (simp add: cell_store)
  moreover have "(of_nat d + 2 + of_nat (2 * (?n + 1)) :: u16) = of_nat (?d + 2)" "(of_nat d + 2 :: u16) = of_nat (d + 2)"
    by simp_all
  ultimately show ?thesis using run h by metis
qed

end
