(* ===== verification/Pdp_Cache.thy ===== *)
theory Pdp_Cache
  imports Pdp_Run
begin

text \<open>
  The instructions of the PDP-11 leave the text and the cache of decoded instructions alone, and do
  not look at them: each commutes with a change of these fields (\<open>keeping\<close>). From this follow what a
  cache has to satisfy, and that it stays that way.
\<close>

section \<open>What the instructions leave alone\<close>

named_theorems frame_simps

definition keeping :: "memory \<Rightarrow> bool \<Rightarrow> (u16 \<Rightarrow> pdp_op option) option \<Rightarrow> pdp \<Rightarrow> pdp" where
  "keeping t s c st = st\<lparr>p_text := t, p_shared := s, p_cache := c\<rparr>"

lemma keeping_fields [frame_simps]:
  "p_r (keeping t s c st) = p_r st" "p_data (keeping t s c st) = p_data st"
  "p_N (keeping t s c st) = p_N st" "p_Z (keeping t s c st) = p_Z st" "p_C (keeping t s c st) = p_C st" "p_V (keeping t s c st) = p_V st"
  by (simp_all add: keeping_def)

text \<open>Commuting with such a change, for steps that yield a state, and a value and a state.\<close>

abbreviation kept :: "memory \<Rightarrow> bool \<Rightarrow> (u16 \<Rightarrow> pdp_op option) option \<Rightarrow> 'e + pdp \<Rightarrow> 'e + pdp" where
  "kept t s c \<equiv> map_sum id (keeping t s c)"

abbreviation kept2 :: "memory \<Rightarrow> bool \<Rightarrow> (u16 \<Rightarrow> pdp_op option) option \<Rightarrow> 'e + 'a \<times> pdp \<Rightarrow> 'e + 'a \<times> pdp" where
  "kept2 t s c \<equiv> map_sum id (map_prod id (keeping t s c))"

lemma bind_map_sum [frame_simps]: "bindE (map_sum id h m) f = bindE m (\<lambda>x. f (h x))"
  by (cases m) simp_all

lemma map_sum_bind [frame_simps]: "map_sum id h (bindE m f) = bindE m (\<lambda>x. map_sum id h (f x))"
  by (cases m) simp_all

lemma map_sum_if [frame_simps]: "map_sum f g (if b then x else y) = (if b then map_sum f g x else map_sum f g y)"
  by simp

lemma map_sum_case_prod [frame_simps]: "map_sum f g (case x of (a, b) \<Rightarrow> h a b) = (case x of (a, b) \<Rightarrow> map_sum f g (h a b))"
  by (simp split: prod.split)

lemma keeping_set [frame_simps]:
  "p_set i x (keeping t s c st) = keeping t s c (p_set i x st)"
  "setZNCV z n cc v (keeping t s c st) = keeping t s c (setZNCV z n cc v st)"
  "p_write8 a y (keeping t s c st) = keeping t s c (p_write8 a y st)"
  by (simp_all add: keeping_def p_set_def setZNCV_def p_write8_def)

lemma keeping_if [frame_simps]:
  "keeping t s c (if b then x else y) = (if b then keeping t s c x else keeping t s c y)"
  "setZNCV z n cc v (if b then x else y) = (if b then setZNCV z n cc v x else setZNCV z n cc v y)"
  by simp_all

lemma keeping_mem [frame_simps]:
  "p_read8 a (keeping t s c st) = p_read8 a st"
  "p_read16 a (keeping t s c st) = p_read16 a st"
  "p_write16 a x (keeping t s c st) = kept t s c (p_write16 a x st)"
  "getReg32 i (keeping t s c st) = getReg32 i st"
  "setReg32 i v (keeping t s c st) = keeping t s c (setReg32 i v st)"
  by (simp_all add: p_read8_def p_read16_def p_write16_def getReg32_def setReg32_def frame_simps)

lemma keeping_addr [frame_simps]: "p_addr p m (keeping t s c st) = kept2 t s c (p_addr p m st)"
  by (simp add: p_addr_def getInc_def getDec_def Let_def frame_simps)

lemma keeping_opr [frame_simps]:
  "p_get8 p m (keeping t s c st) = kept2 t s c (p_get8 p m st)"
  "p_get16 p m (keeping t s c st) = kept2 t s c (p_get16 p m st)"
  "p_set8 p x e (keeping t s c st) = kept t s c (p_set8 p x e st)"
  "p_set16 p y (keeping t s c st) = kept t s c (p_set16 p y st)"
  by (simp_all add: p_get8_def p_get16_def p_set8_def p_set16_def frame_simps case_prod_unfold cong: if_cong)

lemma keeping_widths [frame_simps]:
  "p_get w p m (keeping t s c st) = kept2 t s c (p_get w p m st)"
  "p_put w p v (keeping t s c st) = kept t s c (p_put w p v st)"
  by (simp_all add: p_get_def p_put_def frame_simps case_prod_unfold cong: if_cong)

lemma keeping_unary [frame_simps]: "p_unary k w p (keeping t s c st) = kept t s c (p_unary k w p st)"
  by (simp add: p_unary_def p_clr_def p_com_def p_inc_def p_dec_def p_neg_def p_adc_def p_sbc_def p_tst_def
      p_ror_def p_rol_def p_asr_def p_asl_def frame_simps case_prod_unfold Let_def cong: if_cong)

lemma keeping_cond [frame_simps]:
  "p_cond k (keeping t s c st) = p_cond k st" "p_cond_b k (keeping t s c st) = p_cond_b k st"
  "p_branch b x (keeping t s c st) = keeping t s c (p_branch b x st)"
  "p_flags w (keeping t s c st) = keeping t s c (p_flags w st)"
  "p_sob x (keeping t s c st) = keeping t s c (p_sob x st)"
  by (simp_all add: p_cond_def p_cond_b_def p_branch_def p_sob_def Let_def frame_simps)
    (simp add: p_flags_def keeping_def Let_def)

lemma keeping_ret [frame_simps]: "p_ret (kept t s c m) = kept2 t s c (p_ret m)"
  by (cases m) (simp_all add: p_ret_def)

lemma keeping_0 [frame_simps]: "p_run_0 w x (keeping t s c st) = kept2 t s c (p_run_0 w x st)"
proof -
  have "p_jmp x (keeping t s c st) = kept t s c (p_jmp x st)" "p_rts x (keeping t s c st) = kept t s c (p_rts x st)"
    "p_swab p (keeping t s c st) = kept t s c (p_swab p st)" "p_jsr x (keeping t s c st) = kept t s c (p_jsr x st)"
    "p_mark w (keeping t s c st) = kept t s c (p_mark w st)" "p_sxt p (keeping t s c st) = kept t s c (p_sxt p st)" for p
    by (simp_all add: p_jmp_def p_rts_def p_swab_def p_jsr_def p_mark_def p_sxt_def frame_simps case_prod_unfold Let_def cong: if_cong)
  then show ?thesis by (simp add: p_run_0_def Let_def frame_simps)
qed

lemma keeping_7 [frame_simps]: "p_run_7 w x (keeping t s c st) = kept2 t s c (p_run_7 w x st)"
proof -
  have "p_mul x (keeping t s c st) = kept t s c (p_mul x st)" "p_div x (keeping t s c st) = kept t s c (p_div x st)"
    "p_ash x (keeping t s c st) = kept t s c (p_ash x st)" "p_ashc x (keeping t s c st) = kept t s c (p_ashc x st)"
    "p_xor x (keeping t s c st) = kept t s c (p_xor x st)"
    by (simp_all add: p_mul_def p_div_def p_ash_def p_ashc_def p_xor_def shift_flags_def frame_simps case_prod_unfold Let_def cong: if_cong)
  then show ?thesis by (simp add: p_run_7_def Let_def frame_simps)
qed

lemma keeping_binary [frame_simps]:
  "p_mov x (keeping t s c st) = kept t s c (p_mov x st)" "p_movb x (keeping t s c st) = kept t s c (p_movb x st)"
  "p_cmp w x (keeping t s c st) = kept t s c (p_cmp w x st)" "p_bit w x (keeping t s c st) = kept t s c (p_bit w x st)"
  "p_bic w x (keeping t s c st) = kept t s c (p_bic w x st)" "p_bis w x (keeping t s c st) = kept t s c (p_bis w x st)"
  "p_add x (keeping t s c st) = kept t s c (p_add x st)" "p_sub x (keeping t s c st) = kept t s c (p_sub x st)"
  by (simp_all add: p_mov_def p_movb_def p_cmp_def p_bit_def p_bic_def p_bis_def p_bits_def p_add_def p_sub_def
      frame_simps case_prod_unfold Let_def cong: if_cong)

text \<open>The system calls have to commute, too.\<close>

definition sys_keeps :: "(byte \<Rightarrow> pdp \<Rightarrow> pdp) \<Rightarrow> bool" where
  "sys_keeps sys \<longleftrightarrow> (\<forall>n t s c st. sys n (keeping t s c st) = keeping t s c (sys n st))"

lemma keeping_switch: "sys_keeps sys \<Longrightarrow> p_switch sys w x (keeping t s c st) = kept2 t s c (p_switch sys w x st)"
  by (simp add: p_switch_def p_run_8_def sys_keeps_def Let_def frame_simps)

section \<open>Decoding with a cache\<close>

text \<open>Every entry is what the disassembler makes of the text.\<close>

definition cache_ok :: "pdp \<Rightarrow> bool" where
  "cache_ok st \<longleftrightarrow> (\<forall>c a x. p_cache st = Some c \<longrightarrow> c a = Some x \<longrightarrow> pdp_disasm1 (p_mem st) (uint a) = Inr x)"

text \<open>The machine without its cache.\<close>

definition uncached :: "pdp \<Rightarrow> pdp" where
  "uncached st = st\<lparr>p_cache := None\<rparr>"

lemma uncached_keeping: "uncached st = keeping (p_text st) (p_shared st) None st"
  by (simp add: uncached_def keeping_def)

lemma keeping_self: "keeping (p_text st) (p_shared st) (p_cache st) st = st"
  by (simp add: keeping_def)

text \<open>The instruction leaves the text, its place and the cache alone.\<close>

lemma switch_keeps:
  assumes "sys_keeps sys" "p_switch sys w x st = Inr (d, st')"
  shows "p_text st' = p_text st" "p_shared st' = p_shared st" "p_cache st' = p_cache st"
proof -
  have "Inr (d, st') = map_sum id (map_prod id (keeping (p_text st) (p_shared st) (p_cache st))) (Inr (d, st'))"
    using keeping_switch [OF assms(1), of w x "p_text st" "p_shared st" "p_cache st" st] assms(2) by (simp add: keeping_self)
  then have "st' = keeping (p_text st) (p_shared st) (p_cache st) st'" by simp
  then show "p_text st' = p_text st" "p_shared st' = p_shared st" "p_cache st' = p_cache st"
    by (auto simp: keeping_def dest: arg_cong [where f = p_text] arg_cong [where f = p_shared] arg_cong [where f = p_cache])
qed

lemma switch_uncached:
  assumes "sys_keeps sys"
  shows "p_switch sys w x (uncached st) = map_sum id (map_prod id uncached) (p_switch sys w x st)"
proof (cases "p_switch sys w x st")
  case (Inl e)
  then show ?thesis using keeping_switch [OF assms] by (simp add: uncached_keeping)
next
  case (Inr p)
  obtain d st' where p: "p = (d, st')" by (cases p)
  have "p_switch sys w x (uncached st) = Inr (d, keeping (p_text st) (p_shared st) None st')"
    using keeping_switch [OF assms] Inr p by (simp add: uncached_keeping)
  then show ?thesis using Inr p switch_keeps [OF assms Inr [unfolded p]] by (simp add: uncached_keeping)
qed

lemma uncached_fields [simp]:
  "p_r (uncached st) = p_r st" "p_mem (uncached st) = p_mem st" "p_brksize (uncached st) = p_brksize st"
  "p_exited (uncached st) = p_exited st" "p_cache (uncached st) = None" "p_set i x (uncached st) = uncached (p_set i x st)"
  "(uncached st)\<lparr>p_exited := b\<rparr> = uncached (st\<lparr>p_exited := b\<rparr>)"
  "(uncached st)\<lparr>p_exitcode := k, p_exited := b\<rparr> = uncached (st\<lparr>p_exitcode := k, p_exited := b\<rparr>)"
  by (simp_all add: uncached_def p_mem_def p_set_def)

lemma fetch_cached:
  assumes "cache_ok st"
  shows "p_fetch (uncached st) = map_sum id (map_prod id uncached) (p_fetch st)"
    and "p_fetch st = Inr (x, st') \<Longrightarrow> cache_ok st' \<and> uncached st' = uncached st \<and> p_text st' = p_text st \<and> p_shared st' = p_shared st"
proof -
  let ?pc = "p_r st 7" let ?dec = "pdp_disasm1 (p_mem st) (uint ?pc)"
  have c: "p_fetch (uncached st) = bindE ?dec (\<lambda>x. Inr (x, uncached st))" by (simp add: p_fetch_def Let_def)
  have s: "p_fetch st = bindE ?dec (\<lambda>x. Inr (x, st)) \<or>
      (\<exists>c. p_cache st = Some c \<and> p_fetch st = bindE ?dec (\<lambda>x. Inr (x, st\<lparr>p_cache := Some (c(?pc \<mapsto> x))\<rparr>)))"
  proof (cases "p_cache st")
    case (Some c)
    show ?thesis
    proof (cases "c ?pc")
      case (Some x)
      then have "?dec = Inr x" using assms \<open>p_cache st = Some c\<close> by (simp add: cache_ok_def)
      then show ?thesis using Some \<open>p_cache st = Some c\<close> by (simp add: p_fetch_def)
    qed (use Some in \<open>simp add: p_fetch_def Let_def\<close>)
  qed (simp add: p_fetch_def Let_def)
  then show "p_fetch (uncached st) = map_sum id (map_prod id uncached) (p_fetch st)"
    using c by (cases ?dec) (auto simp: uncached_def)
  show "p_fetch st = Inr (x, st') \<Longrightarrow> cache_ok st' \<and> uncached st' = uncached st \<and> p_text st' = p_text st \<and> p_shared st' = p_shared st"
    using s assms by (cases ?dec) (auto simp: uncached_def cache_ok_def p_mem_def split: if_splits)
qed

lemma run1_cached:
  assumes "sys_keeps sys" "cache_ok st" "\<not> p_shared st"
  shows "p_run1 sys (uncached st) = map_sum id uncached (p_run1 sys st)"
    and "p_run1 sys st = Inr st' \<Longrightarrow> cache_ok st' \<and> \<not> p_shared st'"
proof -
  have *: "p_run1 sys (uncached st) = map_sum id uncached (p_run1 sys st) \<and>
    (p_run1 sys st = Inr st' \<longrightarrow> cache_ok st' \<and> \<not> p_shared st')"
  proof (cases "p_fetch st")
    case (Inl e)
    then show ?thesis using fetch_cached(1) [OF assms(2)] by (simp add: p_run1_def)
  next
    case (Inr p)
    obtain x s where p: "p = (x, s)" by (cases p)
    have s: "cache_ok s" "uncached s = uncached st" "p_text s = p_text st" "p_shared s = p_shared st"
      using fetch_cached(2) [OF assms(2)] Inr p by auto
    have eq: "p_r s = p_r st" "p_mem s = p_mem st" "p_brksize s = p_brksize st"
      using uncached_fields(1-3) [where st = s] uncached_fields(1-3) [where st = st] unfolding s(2) by simp_all
    have f: "p_fetch (uncached st) = Inr (x, uncached s)" using fetch_cached(1) [OF assms(2)] Inr p by simp
    let ?s = "p_set 7 (p_r st 7 + of_nat (pp_len x)) s"
    have keep: "cache_ok t \<and> \<not> p_shared t" if "p_text t = p_text s" "p_shared t = p_shared s" "p_cache t = p_cache s" for t
      using s(1,4) that assms(3) by (simp add: cache_ok_def p_mem_def)
    have set: "p_text ?s = p_text s" "p_shared ?s = p_shared s" "p_cache ?s = p_cache s" by (simp_all add: p_set_def)
    show ?thesis
    proof (cases "mem16 (p_mem st) (uint (p_r st 7))")
      case (Inl e)
      then show ?thesis using Inr p f eq keep [of "s\<lparr>p_exited := True\<rparr>"]
        by (auto simp: p_run1_def Let_def)
    next
      case w: (Inr w)
      show ?thesis
      proof (cases "p_switch sys w x ?s")
        case (Inl e)
        then show ?thesis using Inr p f eq w switch_uncached [OF assms(1), of w x ?s] keep [of "s\<lparr>p_exited := True\<rparr>"]
          by (auto simp: p_run1_def Let_def)
      next
        case q: (Inr q)
        obtain d t where t: "q = (d, t)" by (cases q)
        note k = switch_keeps [OF assms(1) q [unfolded t]]
        have "cache_ok t \<and> \<not> p_shared t" using k set by (intro keep) simp_all
        then have "cache_ok (t\<lparr>p_exitcode := -1, p_exited := True\<rparr>) \<and> \<not> p_shared (t\<lparr>p_exitcode := -1, p_exited := True\<rparr>)"
          by (auto simp: cache_ok_def p_mem_def)
        then show ?thesis
          using Inr p f eq w q t switch_uncached [OF assms(1), of w x ?s] keep [of "s\<lparr>p_exited := True\<rparr>"]
            \<open>cache_ok t \<and> \<not> p_shared t\<close>
          by (auto simp: p_run1_def Let_def)
      qed
    qed
  qed
  then show "p_run1 sys (uncached st) = map_sum id uncached (p_run1 sys st)" by blast
  show "p_run1 sys st = Inr st' \<Longrightarrow> cache_ok st' \<and> \<not> p_shared st'" using * by blast
qed

lemma run2_cached:
  assumes "sys_keeps sys"
  shows "cache_ok st \<Longrightarrow> \<not> p_shared st \<Longrightarrow> p_run2 n sys (uncached st) = map_sum id uncached (p_run2 n sys st)"
proof (induction n arbitrary: st)
  case (Suc n)
  show ?case
  proof (cases "p_run1 sys st")
    case (Inr st')
    then show ?thesis using run1_cached [OF assms Suc.prems] Suc.IH [of st'] by simp
  qed (use run1_cached(1) [OF assms Suc.prems] in simp)
qed simp

end
