(* ===== verification/Pdp_Type.thy ===== *)
theory Pdp_Type
  imports Pdp_Run
begin

text \<open>
  The types of the PDP-11: what a decoded instruction may be, that the disassembler yields nothing
  else, and that running such an instruction stays within the arrays of the machine.
\<close>

section \<open>Instructions\<close>

definition typed_opr :: "pdp_opr \<Rightarrow> bool" where
  "typed_opr p \<longleftrightarrow> po_reg p < 8 \<and> (po_mode p < 8 \<or> po_mode p < 10 \<and> po_reg p = 7) \<and> po_len p \<in> {-1, 0, 2} \<and>
     (po_reg p = 7 \<and> po_mode p \<in> {3, 6} \<longrightarrow> 0 \<le> po_value p \<and> po_value p < 0x10000)"

definition typed_op :: "pdp_op \<Rightarrow> bool" where
  "typed_op x \<longleftrightarrow> pp_len x \<in> {2, 4, 6} \<and> typed_opr (pp_1 x) \<and> typed_opr (pp_2 x) \<and>
     int (pp_len x) = 2 + max 0 (po_len (pp_1 x)) + max 0 (po_len (pp_2 x))"

text \<open>A step that yields a result of which \<open>Q\<close> holds, or an access beyond the memory.\<close>

definition stays :: "('a \<Rightarrow> bool) \<Rightarrow> vm_error + 'a \<Rightarrow> bool" where
  "stays Q m \<longleftrightarrow> (case m of Inl e \<Rightarrow> e = Out_of_memory | Inr x \<Rightarrow> Q x)"

lemma stays_simps [simp]:
  "stays Q (Inr x) = Q x" "stays Q (Inl e) = (e = Out_of_memory)"
  "stays Q (bindE m f) = stays (\<lambda>x. stays Q (f x)) m"
  by (cases m; simp add: stays_def)+

lemma stays_if [simp]: "stays Q (if b then x else y) = (if b then stays Q x else stays Q y)"
  by simp

lemma stays_mono: "stays P m \<Longrightarrow> (\<And>x. P x \<Longrightarrow> Q x) \<Longrightarrow> stays Q m"
  by (cases m) (auto simp: stays_def)

lemma stays_mem [intro!]: "(\<And>x. Q x) \<Longrightarrow> stays Q (mem8 mem i)" "(\<And>x. R x) \<Longrightarrow> stays R (mem16 mem i)"
  by (simp_all add: mem8_def mem16_def)

lemma typed_pdp_opr:
  "typed_opr (pdp_opr len mode reg v) \<longleftrightarrow> reg < 8 \<and> (mode < 8 \<or> mode < 10 \<and> reg = 7) \<and> len \<in> {-1, 0, 2} \<and>
     (reg = 7 \<and> mode \<in> {3, 6} \<longrightarrow> 0 \<le> v \<and> v < 0x10000)"
  by (simp add: typed_opr_def pdp_opr_def)

lemma and_7: "unat (x AND 7 :: u16) < 8"
  using word_and_le1 [of x 7] by (simp add: word_le_nat_alt)

lemma mk_opr_typed: "stays (\<lambda>p. typed_opr p \<and> po_len p \<in> {0, 2}) (mk_pdp_opr mem p m)"
proof -
  have v: "(0 :: int) \<le> take_bit 16 x" "take_bit 16 x < (65536 :: int)" for x :: int
    by (simp_all add: take_bit_eq_mod)
  have u: "uint (x :: u16) < 65536" for x using uint_lt2p [of x] by simp
  show ?thesis
    by (auto simp: mk_pdp_opr_def Let_def typed_pdp_opr and_7 v u) (auto simp: pdp_opr_def)
qed

lemma typed_consts [simp]:
  "typed_opr pdp_noopr" "typed_opr (pdp_reg n)" "typed_opr (pdp_imm k)" "typed_opr (pdp_address k)" "typed_opr (reg_of w)"
  "po_len pdp_noopr = -1" "po_len (pdp_reg n) = 0" "po_len (pdp_imm k) = 0" "po_len (pdp_address k) = 0" "po_len (reg_of w) = 0"
  by (simp_all add: pdp_noopr_def pdp_reg_def pdp_imm_def pdp_address_def reg_of_def typed_pdp_opr)
    (simp_all add: pdp_opr_def)

lemma typed_ins:
  "typed_op (pdp_ins len mne o1 o2) \<longleftrightarrow> len \<in> {2, 4, 6} \<and> typed_opr o1 \<and> typed_opr o2 \<and>
     int len = 2 + max 0 (po_len o1) + max 0 (po_len o2)"
  by (simp add: typed_op_def pdp_ins_def)

lemma typed_undefop [simp]: "typed_op pdp_undefop" "typed_op (pdp_ins0 2 mne)"
  by (simp_all add: pdp_undefop_def pdp_ins0_def typed_ins)

lemma forms_typed [intro!]:
  "stays typed_op (pdp_srcdst mem p w mne)" "stays typed_op (pdp_modr mem p w mne)" "stays typed_op (pdp_rdst mem p w mne)"
  "stays typed_op (pdp_srcr mem p w mne)" "stays typed_op (pdp_branch p w mne)"
  by (auto simp: pdp_srcdst_def pdp_modr_def pdp_rdst_def pdp_srcr_def pdp_branch_def typed_ins
      intro!: stays_mono [OF mk_opr_typed])

lemma forms_typed_b [intro!]: "stays typed_op (pdp_srcdstb mem p w mne)" "stays typed_op (pdp_modrb mem p w mne)"
  by (auto simp: pdp_srcdstb_def pdp_modrb_def typed_op_def typed_opr_def
      intro!: stays_mono [OF forms_typed(1)] stays_mono [OF forms_typed(2)])

lemma decode_parts_typed: "stays typed_op (pdp_dis_0 mem p w)" "stays typed_op (pdp_dis_7 mem p w)" "stays typed_op (pdp_dis_8 mem p w)"
  by (simp_all add: pdp_dis_0_def pdp_dis_7_def pdp_dis_8_def typed_ins Let_def forms_typed forms_typed_b cong: if_cong)

lemma decode_typed: "stays typed_op (pdp_disasm1 mem p)"
  unfolding pdp_disasm1_def stays_simps
  by (rule stays_mem(2)) (simp add: decode_parts_typed forms_typed forms_typed_b)

section \<open>Running them\<close>

text \<open>The registers beyond the eight are not there: an access to one would change \<open>h\<close>.\<close>

definition within :: "(nat \<Rightarrow> u16) \<Rightarrow> pdp \<Rightarrow> bool" where
  "within h st \<longleftrightarrow> (\<forall>i \<ge> 8. p_r st i = h i)"

lemma within_set [simp]:
  "i < 8 \<Longrightarrow> within h (p_set i x st) = within h st" "within h (setZNCV z n c v st) = within h st"
  "within h (p_write8 a y st) = within h st"
  by (auto simp: within_def p_set_def setZNCV_def p_write8_def)

lemma next_reg_less [simp]: "next_reg i < 8"
  by (simp add: next_reg_def)

lemma within_reg32 [simp]: "i < 8 \<Longrightarrow> within h (setReg32 i v st) = within h st"
  by (simp add: setReg32_def)

lemma stays_read [simp]: "(\<And>x. Q x) \<Longrightarrow> stays Q (p_read16 a st)"
  by (simp add: p_read16_def stays_mem)

lemma stays_write [simp]: "within h st \<Longrightarrow> stays (within h) (p_write16 a x st)"
  by (simp add: p_write16_def)

lemma addr_within: "typed_opr p \<Longrightarrow> within h st \<Longrightarrow> stays (\<lambda>(a, st'). within h st') (p_addr p m st)"
  by (auto simp: p_addr_def typed_opr_def getInc_def getDec_def Let_def)

lemma get_within:
  assumes "typed_opr p" "within h st"
  shows "stays (\<lambda>(x, st'). within h st') (p_get8 p m st)" "stays (\<lambda>(x, st'). within h st') (p_get16 p m st)"
    "stays (\<lambda>(x, st'). within h st') (p_get w p m st)"
proof -
  show 8: "stays (\<lambda>(x, st'). within h st') (p_get8 p m st)"
    using assms by (auto simp: p_get8_def intro!: stays_mono [OF addr_within [OF assms]])
  show 16: "stays (\<lambda>(x, st'). within h st') (p_get16 p m st)"
    using assms by (auto simp: p_get16_def intro!: stays_mono [OF addr_within [OF assms]])
  show "stays (\<lambda>(x, st'). within h st') (p_get w p m st)"
    by (auto simp: p_get_def intro!: stays_mono [OF 8] stays_mono [OF 16])
qed

lemma put_within:
  assumes "typed_opr p" "within h st"
  shows "stays (within h) (p_set8 p x e st)" "stays (within h) (p_set16 p y st)" "stays (within h) (p_put w p v st)"
proof -
  have r: "po_reg p < 8" using assms(1) by (simp add: typed_opr_def)
  show 8: "stays (within h) (p_set8 p x e st)" for x e
    using assms r by (auto simp: p_set8_def intro!: stays_mono [OF addr_within [OF assms]])
  show 16: "stays (within h) (p_set16 p y st)" for y
    using assms r by (auto simp: p_set16_def intro!: stays_mono [OF addr_within [OF assms]])
  show "stays (within h) (p_put w p v st)" by (simp add: p_put_def 8 16)
qed

text \<open>The steps as rules for what comes after them.\<close>

lemma get_rule:
  assumes "typed_opr p" "within h st" "\<And>x st'. within h st' \<Longrightarrow> Q (x, st')"
  shows "stays Q (p_get w p m st)"
  by (rule stays_mono [OF get_within(3) [OF assms(1,2)]]) (auto simp: assms(3))

lemma get8_rule:
  "typed_opr p \<Longrightarrow> within h st \<Longrightarrow> (\<And>x st'. within h st' \<Longrightarrow> Q (x, st')) \<Longrightarrow> stays Q (p_get8 p m st)"
  by (rule stays_mono [OF get_within(1)]) auto

lemma get16_rule:
  "typed_opr p \<Longrightarrow> within h st \<Longrightarrow> (\<And>x st'. within h st' \<Longrightarrow> Q (x, st')) \<Longrightarrow> stays Q (p_get16 p m st)"
  by (rule stays_mono [OF get_within(2)]) auto

lemma addr_rule:
  "typed_opr p \<Longrightarrow> within h st \<Longrightarrow> (\<And>x st'. within h st' \<Longrightarrow> Q (x, st')) \<Longrightarrow> stays Q (p_addr p m st)"
  by (rule stays_mono [OF addr_within]) auto

lemma put_rule: "typed_opr p \<Longrightarrow> within h st \<Longrightarrow> (\<And>st'. within h st' \<Longrightarrow> Q st') \<Longrightarrow> stays Q (p_put w p v st)"
  by (rule stays_mono [OF put_within(3)])

lemma set16_rule: "typed_opr p \<Longrightarrow> within h st \<Longrightarrow> (\<And>st'. within h st' \<Longrightarrow> Q st') \<Longrightarrow> stays Q (p_set16 p y st)"
  by (rule stays_mono [OF put_within(2)])

lemma set8_rule: "typed_opr p \<Longrightarrow> within h st \<Longrightarrow> (\<And>st'. within h st' \<Longrightarrow> Q st') \<Longrightarrow> stays Q (p_set8 p x e st)"
  by (rule stays_mono [OF put_within(1)])

lemma write_rule: "within h st \<Longrightarrow> (\<And>st'. within h st' \<Longrightarrow> Q st') \<Longrightarrow> stays Q (p_write16 a x st)"
  by (rule stays_mono [OF stays_write])

lemmas step_rules = get_rule get8_rule get16_rule addr_rule put_rule set16_rule set8_rule write_rule

lemma unary_within: "typed_opr p \<Longrightarrow> within h st \<Longrightarrow> stays (within h) (p_unary k w p st)"
  by (auto simp: p_unary_def p_clr_def p_com_def p_inc_def p_dec_def p_neg_def p_adc_def p_sbc_def p_tst_def
      p_ror_def p_rol_def p_asr_def p_asl_def Let_def intro!: step_rules)

lemma control_within:
  assumes "typed_op x" "within h st"
  shows "stays (within h) (p_jmp x st)" "stays (within h) (p_rts x st)" "stays (within h) (p_swab (pp_1 x) st)"
    "stays (within h) (p_jsr x st)" "stays (within h) (p_mark w st)" "stays (within h) (p_sxt (pp_1 x) st)"
    "within h (p_flags w st)" "within h (p_branch b x st)"
proof -
  have t: "typed_opr (pp_1 x)" "typed_opr (pp_2 x)" "po_reg (pp_1 x) < 8" using assms(1) by (simp_all add: typed_op_def typed_opr_def)
  show "within h (p_flags w st)" using assms(2) by (simp add: p_flags_def within_def Let_def)
  show "within h (p_branch b x st)" using assms(2) by (simp add: p_branch_def)
  show "stays (within h) (p_jmp x st)" "stays (within h) (p_rts x st)" "stays (within h) (p_swab (pp_1 x) st)"
    "stays (within h) (p_jsr x st)" "stays (within h) (p_mark w st)" "stays (within h) (p_sxt (pp_1 x) st)"
    using t assms(2)
    by (auto simp: p_jmp_def p_rts_def p_swab_def p_jsr_def p_mark_def p_sxt_def Let_def intro!: step_rules)
qed

lemma ret_within: "stays (within h) m \<Longrightarrow> stays (\<lambda>(d, st'). within h st') (p_ret m)"
  by (simp add: p_ret_def)

lemma run_0_within:
  assumes "typed_op x" "within h st"
  shows "stays (\<lambda>(d, st'). within h st') (p_run_0 w x st)"
proof -
  have "typed_opr (pp_1 x)" using assms(1) by (simp add: typed_op_def)
  then show ?thesis using assms
    by (simp add: p_run_0_def Let_def control_within unary_within ret_within)
qed

lemma binary_within:
  assumes "typed_op x" "within h st"
  shows "stays (within h) (p_mov x st)" "stays (within h) (p_movb x st)" "stays (within h) (p_cmp w x st)" "stays (within h) (p_bit w x st)"
    "stays (within h) (p_bits f w x st)" "stays (within h) (p_add x st)" "stays (within h) (p_sub x st)"
proof -
  have t: "typed_opr (pp_1 x)" "typed_opr (pp_2 x)" using assms(1) by (simp_all add: typed_op_def)
  show "stays (within h) (p_mov x st)" "stays (within h) (p_movb x st)" "stays (within h) (p_cmp w x st)" "stays (within h) (p_bit w x st)"
    "stays (within h) (p_bits f w x st)" "stays (within h) (p_add x st)" "stays (within h) (p_sub x st)"
    using t assms(2)
    by (auto simp: p_mov_def p_movb_def p_cmp_def p_bit_def p_bits_def p_add_def p_sub_def Let_def intro!: step_rules)
qed

text \<open>The guard of the division: the least number has the least upper half.\<close>

lemma least_upper: "sint (getReg32 i st) = - 2147483648 \<Longrightarrow> sint (p_r st i) = - 32768"
proof -
  assume a: "sint (getReg32 i st) = - 2147483648"
  have "getReg32 i st = 0x80000000" using arg_cong [OF a, of "word_of_int :: int \<Rightarrow> u32"] by simp
  moreover have "p_r st i = ucast (drop_bit 16 (getReg32 i st))"
    by (rule bit_word_eqI) (auto simp: getReg32_def bit_simps dest: bit_imp_le_length)
  ultimately show ?thesis by simp
qed

lemma extended_within:
  assumes "typed_op x" "within h st"
  shows "stays (within h) (p_mul x st)" "stays (within h) (p_div x st)" "stays (within h) (p_ash x st)" "stays (within h) (p_ashc x st)"
    "stays (within h) (p_xor x st)" "within h (p_sob x st)"
proof -
  have t: "typed_opr (pp_1 x)" "typed_opr (pp_2 x)" "po_reg (pp_1 x) < 8" "po_reg (pp_2 x) < 8"
    using assms(1) by (simp_all add: typed_op_def typed_opr_def)
  show "stays (within h) (p_div x st)"
    using t assms(2) by (auto simp: p_div_def Let_def least_upper intro!: step_rules)
  show "stays (within h) (p_mul x st)" "stays (within h) (p_ash x st)" "stays (within h) (p_ashc x st)"
    "stays (within h) (p_xor x st)" "within h (p_sob x st)"
    using t assms(2)
    by (auto simp: p_mul_def p_ash_def p_ashc_def p_shift_def shift_flags_def p_xor_def p_sob_def Let_def intro!: step_rules)
qed

definition sys_typed :: "(byte \<Rightarrow> pdp \<Rightarrow> pdp) \<Rightarrow> bool" where
  "sys_typed sys \<longleftrightarrow> (\<forall>n h st. within h st \<longrightarrow> within h (sys n st))"

lemma switch_within:
  assumes "typed_op x" "within h st" "sys_typed sys"
  shows "stays (\<lambda>(d, st'). within h st') (p_switch sys w x st)"
proof -
  have t: "typed_opr (pp_1 x)" using assms(1) by (simp add: typed_op_def)
  have 7: "stays (\<lambda>(d, st'). within h st') (p_run_7 w x st)"
    using extended_within [OF assms(1,2)] assms(2) by (simp add: p_run_7_def Let_def ret_within)
  have 8: "stays (\<lambda>(d, st'). within h st') (p_run_8 sys w x st)"
    using control_within(8) [OF assms(1,2)] assms(2,3) unary_within [OF t assms(2)]
    by (simp add: p_run_8_def Let_def ret_within sys_typed_def)
  show ?thesis
    using run_0_within [OF assms(1,2)] 7 8 binary_within [OF assms(1,2)] assms(2)
    by (simp add: p_switch_def Let_def p_bic_def p_bis_def ret_within)
qed

text \<open>The cache holds instructions, and the registers stay the same beyond the eight.\<close>

definition typed_cache :: "pdp \<Rightarrow> bool" where
  "typed_cache st \<longleftrightarrow> (\<forall>c a x. p_cache st = Some c \<longrightarrow> c a = Some x \<longrightarrow> typed_op x)"

lemma fetch_typed:
  assumes "typed_cache st" "within h st"
  shows "stays (\<lambda>(x, st'). typed_op x \<and> typed_cache st' \<and> within h st' \<and> p_r st' = p_r st) (p_fetch st)"
  using assms
  by (auto simp: p_fetch_def typed_cache_def within_def Let_def split: option.splits intro!: stays_mono [OF decode_typed])

end
