(* ===== verification/Pdp_Arith.thy ===== *)
theory Pdp_Arith
  imports Pdp_Cache Pdp_Type Emu_Alu
begin

text \<open>
  Lemmas on the arithmetic of the PDP-11: numbers read as signed ones, the flags of a comparison and of
  the instructions with one operand, and the operands that are read and written in place.
\<close>

section \<open>Signed numbers\<close>

text \<open>A number that misses the range by less than its size is brought back by one turn.\<close>

lemma sx_cases:
  assumes "- 2 * p_msb w \<le> v" "v < 2 * p_msb w"
  shows "sx w v = (if v < - p_msb w then v + 2 * p_msb w else if v < p_msb w then v else v - 2 * p_msb w)"
proof -
  have "signed_take_bit n v = (if v < - (2 ^ n) then v + 2 * 2 ^ n else if v < 2 ^ n then v else v - 2 * 2 ^ n)"
    if "- 2 * 2 ^ n \<le> v" "v < 2 * 2 ^ n" for n
  proof -
    have s: "signed_take_bit n v = (v + 2 ^ n) mod (2 * 2 ^ n) - 2 ^ n"
      by (simp add: signed_take_bit_eq_take_bit_shift take_bit_eq_mod)
    consider "v < - (2 ^ n)" | "- (2 ^ n) \<le> v" "v < 2 ^ n" | "2 ^ n \<le> v" by linarith
    then show ?thesis
    proof cases
      case 1
      have "(v + 2 ^ n) mod (2 * 2 ^ n) = (v + 2 ^ n + 2 * 2 ^ n) mod (2 * 2 ^ n)" by (rule mod_add_self2 [symmetric])
      also have "\<dots> = v + 2 ^ n + 2 * 2 ^ n" using 1 that by (intro mod_pos_pos_trivial) linarith+
      finally show ?thesis using 1 s by simp
    next
      case 2
      then have "(v + 2 ^ n) mod (2 * 2 ^ n) = v + 2 ^ n" by (intro mod_pos_pos_trivial) linarith+
      then show ?thesis using 2 s by simp
    next
      case 3
      then have "(v + 2 ^ n) mod (2 * 2 ^ n) = (v + 2 ^ n - 2 * 2 ^ n) mod (2 * 2 ^ n)"
        by (metis minus_mod_self2)
      also have "\<dots> = v + 2 ^ n - 2 * 2 ^ n" using 3 that by (intro mod_pos_pos_trivial) linarith+
      moreover have "\<not> v < - (2 ^ n)" using 3 zero_less_power [of "2 :: int" n] by linarith
      ultimately show ?thesis using 3 s by simp
    qed
  qed
  from this [of 15] this [of 7] show ?thesis using assms by (cases w) (simp_all add: sx_def p_msb_def)
qed

lemma p_msb_pos: "0 < p_msb w" by (simp add: p_msb_def)

lemma sx_range: "- p_msb w \<le> sx w x" "sx w x < p_msb w"
  using signed_take_bit_int_greater_eq_minus_exp [of 15 x] signed_take_bit_int_greater_eq_minus_exp [of 7 x]
    signed_take_bit_int_less_exp [of 15 x] signed_take_bit_int_less_exp [of 7 x]
  by (simp_all add: sx_def p_msb_def)

lemma sx_unsigned: "0 \<le> x \<Longrightarrow> x < 2 * p_msb w \<Longrightarrow> sx w x = (if x < p_msb w then x else x - 2 * p_msb w)"
  using sx_cases [where w = w and v = x] p_msb_pos [of w] by auto

text \<open>What is read is an unsigned number.\<close>

lemma p_get_range: "p_get w p m st = Inr (x, st') \<Longrightarrow> 0 \<le> x \<and> x < 2 * p_msb w"
proof -
  have "uint (a :: u16) < 65536" "uint (b :: byte) < 256" for a b using uint_lt2p [of a] uint_lt2p [of b] by simp_all
  then show "p_get w p m st = Inr (x, st') \<Longrightarrow> 0 \<le> x \<and> x < 2 * p_msb w"
    by (auto simp: p_get_def p_msb_def error_simps split: if_splits prod.splits)
qed

text \<open>The difference of two signed numbers: its sign and the overflow decide the order.\<close>

lemma signed_order:
  fixes s d :: int and w :: bool
  defines "v \<equiv> sx w s - sx w d"
  assumes "0 \<le> s" "s < 2 * p_msb w" "0 \<le> d" "d < 2 * p_msb w"
  shows "(sx w v < 0) \<noteq> (v \<noteq> sx w v) \<longleftrightarrow> sx w s < sx w d" "sx w v = 0 \<longleftrightarrow> s = d"
proof -
  have v: "- 2 * p_msb w < v" "v < 2 * p_msb w"
    using sx_range [of w s] sx_range [of w d] by (simp_all add: v_def)
  have c: "sx w v = (if v < - p_msb w then v + 2 * p_msb w else if v < p_msb w then v else v - 2 * p_msb w)"
    using v by (intro sx_cases) simp_all
  show "(sx w v < 0) \<noteq> (v \<noteq> sx w v) \<longleftrightarrow> sx w s < sx w d"
    using c v p_msb_pos [of w] by (auto simp: v_def split: if_splits)
  have "sx w v = 0 \<longleftrightarrow> sx w s = sx w d" using c v p_msb_pos [of w] by (auto simp: v_def split: if_splits)
  also have "\<dots> \<longleftrightarrow> s = d" using assms(2-5) by (auto simp: sx_unsigned split: if_splits)
  finally show "sx w v = 0 \<longleftrightarrow> s = d" .
qed

section \<open>Instructions with one operand\<close>

lemma ux_mod: "ux w v = v mod (2 * p_msb w)"
  by (simp add: ux_def p_msb_def take_bit_eq_mod)

lemma p_put_ux: "p_put w p (ux w v) st = p_put w p v st"
proof -
  have "(word_of_int (take_bit 16 v) :: u16) = word_of_int v" "(word_of_int (take_bit 8 v) :: byte) = word_of_int v"
    by (simp_all only: word_of_int_eq_iff) simp_all
  then show ?thesis by (simp add: p_put_def ux_def)
qed

text \<open>The bit of the sign.\<close>

lemma msb_set: "v AND p_msb w \<noteq> 0 \<longleftrightarrow> p_msb w \<le> ux w v"
proof -
  define n :: nat where "n = (if w then 15 else 7)"
  have m: "p_msb w = 2 ^ n" by (simp add: n_def p_msb_def)
  have y: "ux w v = take_bit (Suc n) v" by (simp add: ux_def n_def)
  have b: "0 \<le> take_bit (Suc n) v" "take_bit (Suc n) v < 2 * 2 ^ n"
    using take_bit_int_less_exp [of "Suc n" v] by simp_all
  have "v AND p_msb w \<noteq> 0 \<longleftrightarrow> bit (take_bit (Suc n) v) n"
    by (simp add: m and_exp_eq_0_iff_not_bit bit_take_bit_iff)
  also have "\<dots> \<longleftrightarrow> odd (take_bit (Suc n) v div 2 ^ n)" by (simp add: bit_iff_odd)
  also have "\<dots> \<longleftrightarrow> 2 ^ n \<le> take_bit (Suc n) v"
  proof (cases "2 ^ n \<le> take_bit (Suc n) v")
    case True
    then have "take_bit (Suc n) v div 2 ^ n = 1" using b by (intro int_div_pos_eq [where r = "take_bit (Suc n) v - 2 ^ n"]) simp_all
    then show ?thesis using True by simp
  next
    case False
    then show ?thesis using b by (simp add: div_pos_pos_trivial)
  qed
  finally show ?thesis by (simp only: y m)
qed

text \<open>The processor: the result, carry and overflow of the instructions that read and write their operand.\<close>

definition u_value :: "nat \<Rightarrow> bool \<Rightarrow> bool \<Rightarrow> int \<Rightarrow> int" where
  "u_value k w c x =
     (let r = (if k = 41 then - x - 1 else if k = 42 then x + 1 else if k = 43 then x - 1 else if k = 44 then - x
               else if k = 45 then x + of_bool c else if k = 46 then x - of_bool c
               else if k = 48 then x div 2 + of_bool c * p_msb w else if k = 49 then 2 * x + of_bool c
               else if k = 50 then x div 2 + of_bool (p_msb w \<le> x) * p_msb w else 2 * x)
      in r mod (2 * p_msb w))"

definition u_carry :: "nat \<Rightarrow> bool \<Rightarrow> bool \<Rightarrow> int \<Rightarrow> bool" where
  "u_carry k w c x =
     (if k = 41 then True else if k = 42 \<or> k = 43 then c else if k = 44 then x \<noteq> 0
      else if k = 45 then c \<and> x = 2 * p_msb w - 1 else if k = 46 then c \<and> x = 0
      else if k = 48 \<or> k = 50 then odd x else p_msb w \<le> x)"

definition u_over :: "nat \<Rightarrow> bool \<Rightarrow> bool \<Rightarrow> int \<Rightarrow> bool" where
  "u_over k w c x =
     (if k = 41 then False else if k = 42 then x = p_msb w - 1 else if k = 43 then x = p_msb w else if k = 44 then x = p_msb w
      else if k = 45 then c \<and> x = p_msb w - 1 else if k = 46 then c \<and> x = p_msb w
      else (p_msb w \<le> u_value k w c x) \<noteq> u_carry k w c x)"

text \<open>Operands have no effect on the flags.\<close>

lemma addr_carry: "p_addr p m st = Inr (a, st') \<Longrightarrow> p_C st' = p_C st"
  by (auto simp: p_addr_def getInc_def getDec_def p_set_def Let_def error_simps split: if_splits)

lemma get_carry: "p_get w p m st = Inr (x, st') \<Longrightarrow> p_C st' = p_C st"
  by (auto simp: p_get_def p_get8_def p_get16_def error_simps split: if_splits prod.splits dest: addr_carry)

lemma put_carry: "p_put w p v st = Inr st' \<Longrightarrow> p_C st' = p_C st"
  by (auto simp: p_put_def p_set8_def p_set16_def p_write16_def p_write8_def p_set_def error_simps
      split: if_splits prod.splits dest: addr_carry)

lemma bind_put:
  assumes "y = ux w v" "\<And>s. p_C s = p_C st \<Longrightarrow> f s = g s"
  shows "bindE (p_put w p v st) f = bindE (p_put w p y st) g"
  using assms(2) put_carry [of w p v st] by (cases "p_put w p v st") (simp_all add: assms(1) p_put_ux)

lemma ux_range: "0 \<le> ux w v" "ux w v < 2 * p_msb w"
  using p_msb_pos [of w] by (simp_all add: ux_mod)

lemma mod_turn:
  fixes y n :: int
  shows "0 \<le> y \<Longrightarrow> y < n \<Longrightarrow> y mod n = y" "- n \<le> y \<Longrightarrow> y < 0 \<Longrightarrow> y mod n = y + n" "n \<le> y \<Longrightarrow> y < 2 * n \<Longrightarrow> y mod n = y - n"
  using mod_pos_pos_trivial [of y n] mod_pos_pos_trivial [of "y + n" n] mod_pos_pos_trivial [of "y - n" n]
    mod_add_self2 [of y n] minus_mod_self2 [of y n] by simp_all

text \<open>A number that is beyond the range by at most one.\<close>

lemma ux_wrap:
  assumes "- p_msb w - 1 \<le> v" "v \<le> p_msb w"
  shows "ux w v = 0 \<longleftrightarrow> v = 0" "p_msb w \<le> ux w v \<longleftrightarrow> (v < 0) \<noteq> (v = p_msb w \<or> v = - p_msb w - 1)"
proof -
  have M: "1 < p_msb w" by (simp add: p_msb_def)
  have "ux w v = (if v < 0 then v + 2 * p_msb w else v)"
    using assms M mod_turn(1) [of v "2 * p_msb w"] mod_turn(2) [of "2 * p_msb w" v] by (simp add: ux_mod)
  then show "ux w v = 0 \<longleftrightarrow> v = 0" "p_msb w \<le> ux w v \<longleftrightarrow> (v < 0) \<noteq> (v = p_msb w \<or> v = - p_msb w - 1)"
    using assms M by (auto split: if_splits)
qed

text \<open>Reading a number as a signed one is a turn, which the width forgets.\<close>

lemma ux_sx: "ux w (sx w x + e) = ux w (x + e)" "ux w (- sx w x) = ux w (- x)"
proof -
  have s: "ux w (sx w x) = ux w x" by (simp add: ux_def sx_def take_bit_signed_take_bit)
  have "(sx w x + e) mod (2 * p_msb w) = (x + e) mod (2 * p_msb w)"
    using s unfolding ux_mod by (rule mod_add_cong) (rule refl)
  then show "ux w (sx w x + e) = ux w (x + e)" by (simp add: ux_mod)
  have "(- sx w x) mod (2 * p_msb w) = (- x) mod (2 * p_msb w)"
    using s unfolding ux_mod by (metis mod_minus_eq)
  then show "ux w (- sx w x) = ux w (- x)" by (simp add: ux_mod)
qed

text \<open>
  The result is that of the processor, and so are the flags, except that \<open>com\<close> never sets \<open>Z\<close>,
  \<open>asl\<close> never sets \<open>N\<close>, and where a sum or difference overflows, \<open>N\<close> is the sign it would have
  without the overflow.
\<close>

definition unary_result :: "nat \<Rightarrow> bool \<Rightarrow> pdp_opr \<Rightarrow> bool \<Rightarrow> int \<Rightarrow> pdp \<Rightarrow> vm_error + pdp" where
  "unary_result k w p c x st = bindE (p_put w p (u_value k w c x) st) (\<lambda>s. Inr (setZNCV
    (u_value k w c x = 0 \<and> k \<noteq> 41)
    (if k \<in> {42, 43, 44, 45, 46} then (p_msb w \<le> u_value k w c x) \<noteq> u_over k w c x
     else k \<noteq> 51 \<and> p_msb w \<le> u_value k w c x)
    (u_carry k w c x) (if k = 51 then u_carry k w c x else u_over k w c x) s))"

lemma double_mod:
  fixes x e :: int
  assumes "0 \<le> x" "x < 2 * M" "0 \<le> e" "e \<le> 1"
  shows "(2 * x + e) mod (2 * M) = (if x < M then 2 * x + e else 2 * x + e - 2 * M)"
  using assms mod_turn(1) [of "2 * x + e" "2 * M"] mod_turn(3) [of "2 * M" "2 * x + e"] by simp

text \<open>What the proofs below know of the operand.\<close>

lemma operand_read:
  assumes g: "p_get w p True st = Inr (x, st1)"
  shows "0 \<le> x" "x < 2 * p_msb w" "p_C st1 = p_C st" "sx w x = (if x < p_msb w then x else x - 2 * p_msb w)"
    "0 \<le> x div 2" "x div 2 < p_msb w" "drop_bit (Suc 0) x = x div 2" "(x AND 1 = 0) = even x"
proof -
  show x: "0 \<le> x" "x < 2 * p_msb w" using p_get_range [OF g] by simp_all
  show "p_C st1 = p_C st" using get_carry [OF g] .
  show "sx w x = (if x < p_msb w then x else x - 2 * p_msb w)" using x by (rule sx_unsigned)
  show "0 \<le> x div 2" "x div 2 < p_msb w" using x by simp_all
  show "drop_bit (Suc 0) x = x div 2" "(x AND 1 = 0) = even x"
    by (simp_all add: drop_bit_eq_div and_one_eq even_iff_mod_2_eq_zero)
qed

lemma unary_com:
  assumes g: "p_get w p True st = Inr (x, st1)" and c: "p_C st = c"
  shows "p_unary 41 w p st = unary_result 41 w p c x st1"
proof -
  let ?M = "p_msb w"
  have M: "0 < ?M" by (rule p_msb_pos)
  note x = operand_read(1,2) [OF g] and c1 = operand_read(3) [OF g, unfolded c] and sx = operand_read(4) [OF g]
    and h = operand_read(5,6) [OF g] and d = operand_read(7,8) [OF g]
  note t = u_value_def u_carry_def u_over_def mod_turn sx and [simp] = ux_mod c1 g Let_def
  have n: "NOT x = - x - 1" by (simp add: not_int_def)
  show ?thesis unfolding unary_result_def using x M
    by (simp add: p_unary_def p_com_def) (rule bind_put; simp add: t n msb_set)
qed

lemma unary_inc:
  assumes g: "p_get w p True st = Inr (x, st1)" and c: "p_C st = c"
  shows "p_unary 42 w p st = unary_result 42 w p c x st1"
proof -
  let ?M = "p_msb w"
  have M: "0 < ?M" by (rule p_msb_pos)
  note x = operand_read(1,2) [OF g] and c1 = operand_read(3) [OF g, unfolded c] and sx = operand_read(4) [OF g]
    and h = operand_read(5,6) [OF g] and d = operand_read(7,8) [OF g]
  note t = u_value_def u_carry_def u_over_def mod_turn sx and [simp] = ux_mod c1 g Let_def
  let ?v = "sx w x + 1"
  have y: "u_value 42 w c x = ux w ?v" using ux_sx(1) [of w x 1] by (simp add: u_value_def)
  have r: "- ?M - 1 \<le> ?v" "?v \<le> ?M" using x M sx by (auto split: if_splits)
  have o: "u_over 42 w c x \<longleftrightarrow> ?v = ?M" using x M sx by (auto simp: u_over_def split: if_splits)
  have m: "?M \<le> u_value 42 w c x \<longleftrightarrow> (?v < 0) \<noteq> (?v = ?M)"
    unfolding y ux_wrap(2) [OF r] using x M sx by (auto split: if_splits)
  have z: "u_value 42 w c x = 0 \<longleftrightarrow> ?v = 0" unfolding y by (rule ux_wrap(1) [OF r])
  have cc: "u_carry 42 w c x \<longleftrightarrow> c" using x M sx by (auto simp: u_carry_def split: if_splits)
  show ?thesis unfolding unary_result_def
    by (simp add: p_unary_def p_inc_def) (rule bind_put [OF y], cases "?v = ?M"; simp add: y [symmetric] z m o cc)
qed

lemma unary_dec:
  assumes g: "p_get w p True st = Inr (x, st1)" and c: "p_C st = c"
  shows "p_unary 43 w p st = unary_result 43 w p c x st1"
proof -
  let ?M = "p_msb w"
  have M: "0 < ?M" by (rule p_msb_pos)
  note x = operand_read(1,2) [OF g] and c1 = operand_read(3) [OF g, unfolded c] and sx = operand_read(4) [OF g]
    and h = operand_read(5,6) [OF g] and d = operand_read(7,8) [OF g]
  note t = u_value_def u_carry_def u_over_def mod_turn sx and [simp] = ux_mod c1 g Let_def
  let ?v = "sx w x - 1"
  have y: "u_value 43 w c x = ux w ?v" using ux_sx(1) [of w x "- 1"] by (simp add: u_value_def)
  have r: "- ?M - 1 \<le> ?v" "?v \<le> ?M" using x M sx by (auto split: if_splits)
  have o: "u_over 43 w c x \<longleftrightarrow> ?v = - ?M - 1" using x M sx by (auto simp: u_over_def split: if_splits)
  have m: "?M \<le> u_value 43 w c x \<longleftrightarrow> (?v < 0) \<noteq> (?v = - ?M - 1)"
    unfolding y ux_wrap(2) [OF r] using x M sx by (auto split: if_splits)
  have z: "u_value 43 w c x = 0 \<longleftrightarrow> ?v = 0" unfolding y by (rule ux_wrap(1) [OF r])
  have cc: "u_carry 43 w c x \<longleftrightarrow> c" using x M sx by (auto simp: u_carry_def split: if_splits)
  show ?thesis unfolding unary_result_def
    by (simp add: p_unary_def p_dec_def) (rule bind_put [OF y], cases "?v = - ?M - 1"; simp add: y [symmetric] z m o cc)
qed

lemma unary_neg:
  assumes g: "p_get w p True st = Inr (x, st1)" and c: "p_C st = c"
  shows "p_unary 44 w p st = unary_result 44 w p c x st1"
proof -
  let ?M = "p_msb w"
  have M: "0 < ?M" by (rule p_msb_pos)
  note x = operand_read(1,2) [OF g] and c1 = operand_read(3) [OF g, unfolded c] and sx = operand_read(4) [OF g]
    and h = operand_read(5,6) [OF g] and d = operand_read(7,8) [OF g]
  note t = u_value_def u_carry_def u_over_def mod_turn sx and [simp] = ux_mod c1 g Let_def
  let ?v = "- sx w x"
  have y: "u_value 44 w c x = ux w ?v" using ux_sx(2) [of w x] by (simp add: u_value_def)
  have r: "- ?M - 1 \<le> ?v" "?v \<le> ?M" using x M sx by (auto split: if_splits)
  have o: "u_over 44 w c x \<longleftrightarrow> ?v = ?M" using x M sx by (auto simp: u_over_def split: if_splits)
  have m: "?M \<le> u_value 44 w c x \<longleftrightarrow> (?v < 0) \<noteq> (?v = ?M)"
    unfolding y ux_wrap(2) [OF r] using x M sx by (auto split: if_splits)
  have z: "u_value 44 w c x = 0 \<longleftrightarrow> ?v = 0" unfolding y by (rule ux_wrap(1) [OF r])
  have cc: "u_carry 44 w c x \<longleftrightarrow> ?v \<noteq> 0" using x M sx by (auto simp: u_carry_def split: if_splits)
  have e: "?v = ?M \<longleftrightarrow> sx w x = - ?M" by auto
  show ?thesis unfolding unary_result_def using M
    by (simp add: p_unary_def p_neg_def) (rule bind_put [OF y], cases "sx w x = - ?M"; simp add: y [symmetric] z m o cc e)
qed

lemma unary_adc:
  assumes g: "p_get w p True st = Inr (x, st1)" and c: "p_C st = c"
  shows "p_unary 45 w p st = unary_result 45 w p c x st1"
proof -
  let ?M = "p_msb w"
  have M: "0 < ?M" by (rule p_msb_pos)
  note x = operand_read(1,2) [OF g] and c1 = operand_read(3) [OF g, unfolded c] and sx = operand_read(4) [OF g]
    and h = operand_read(5,6) [OF g] and d = operand_read(7,8) [OF g]
  note t = u_value_def u_carry_def u_over_def mod_turn sx and [simp] = ux_mod c1 g Let_def
  define e where "e = (of_bool c :: int)"
  have e: "e = (if c then 1 else 0)" by (simp add: e_def)
  let ?v = "sx w x + e"
  have y: "u_value 45 w c x = ux w ?v" using ux_sx(1) [of w x e] by (simp add: u_value_def flip: e_def)
  have r: "- ?M - 1 \<le> ?v" "?v \<le> ?M" using x M sx e by (auto split: if_splits)
  have o: "u_over 45 w c x \<longleftrightarrow> ?v = ?M" using x M sx e by (auto simp: u_over_def split: if_splits)
  have m: "?M \<le> u_value 45 w c x \<longleftrightarrow> (?v < 0) \<noteq> (?v = ?M)"
    unfolding y ux_wrap(2) [OF r] using x M sx e by (auto split: if_splits)
  have z: "u_value 45 w c x = 0 \<longleftrightarrow> ?v = 0" unfolding y by (rule ux_wrap(1) [OF r])
  have cc: "u_carry 45 w c x \<longleftrightarrow> c \<and> ?v = 0" using x M sx e by (auto simp: u_carry_def split: if_splits)
  show ?thesis unfolding unary_result_def
    by (simp add: p_unary_def p_adc_def flip: e_def) (rule bind_put [OF y], cases "?v = ?M"; simp add: y [symmetric] z m o cc)
qed

lemma unary_sbc:
  assumes g: "p_get w p True st = Inr (x, st1)" and c: "p_C st = c"
  shows "p_unary 46 w p st = unary_result 46 w p c x st1"
proof -
  let ?M = "p_msb w"
  have M: "0 < ?M" by (rule p_msb_pos)
  note x = operand_read(1,2) [OF g] and c1 = operand_read(3) [OF g, unfolded c] and sx = operand_read(4) [OF g]
    and h = operand_read(5,6) [OF g] and d = operand_read(7,8) [OF g]
  note t = u_value_def u_carry_def u_over_def mod_turn sx and [simp] = ux_mod c1 g Let_def
  define e where "e = (of_bool c :: int)"
  have e: "e = (if c then 1 else 0)" by (simp add: e_def)
  let ?v = "sx w x - e"
  have y: "u_value 46 w c x = ux w ?v" using ux_sx(1) [of w x "- e"] by (simp add: u_value_def flip: e_def)
  have r: "- ?M - 1 \<le> ?v" "?v \<le> ?M" using x M sx e by (auto split: if_splits)
  have o: "u_over 46 w c x \<longleftrightarrow> ?v = - ?M - 1" using x M sx e by (auto simp: u_over_def split: if_splits)
  have m: "?M \<le> u_value 46 w c x \<longleftrightarrow> (?v < 0) \<noteq> (?v = - ?M - 1)"
    unfolding y ux_wrap(2) [OF r] using x M sx e by (auto split: if_splits)
  have z: "u_value 46 w c x = 0 \<longleftrightarrow> ?v = 0" unfolding y by (rule ux_wrap(1) [OF r])
  have cc: "u_carry 46 w c x \<longleftrightarrow> c \<and> ?v = -1" using x M sx e by (auto simp: u_carry_def split: if_splits)
  have s: "?v = - ?M - 1 \<longleftrightarrow> sx w x = e - ?M - 1" by auto
  show ?thesis unfolding unary_result_def using M
    by (simp add: p_unary_def p_sbc_def flip: e_def) (rule bind_put [OF y], cases "sx w x = e - ?M - 1"; simp add: y [symmetric] z m o cc s)
qed

lemma unary_ror:
  assumes g: "p_get w p True st = Inr (x, st1)" and c: "p_C st = c"
  shows "p_unary 48 w p st = unary_result 48 w p c x st1"
proof -
  let ?M = "p_msb w"
  have M: "0 < ?M" by (rule p_msb_pos)
  note x = operand_read(1,2) [OF g] and c1 = operand_read(3) [OF g, unfolded c] and sx = operand_read(4) [OF g]
    and h = operand_read(5,6) [OF g] and d = operand_read(7,8) [OF g]
  note t = u_value_def u_carry_def u_over_def mod_turn sx and [simp] = ux_mod c1 g Let_def
  have y: "u_value 48 w c x = x div 2 + of_bool c * ?M" using h M by (cases c) (simp_all add: u_value_def mod_turn)
  have f: "u_carry 48 w c x = odd x" "u_over 48 w c x = (c \<noteq> odd x)"
    using h M y by (cases c; simp add: u_carry_def u_over_def)+
  have u: "u_value 48 w True x = ux w (x div 2 + ?M)" "u_value 48 w False x = ux w (x div 2)"
    using h M by (simp_all add: u_value_def mod_turn)
  have z: "u_value 48 w True x = x div 2 + ?M" "u_value 48 w False x = x div 2"
    using h M by (simp_all add: u_value_def mod_turn)
  show ?thesis
  proof (cases c)
    case True
    then show ?thesis unfolding unary_result_def f using h M
      by (simp add: p_unary_def p_ror_def d del: ux_mod) (rule bind_put [OF u(1)], simp add: z)
  next
    case False
    then show ?thesis unfolding unary_result_def f using h M
      by (simp add: p_unary_def p_ror_def d del: ux_mod) (rule bind_put [OF u(2)], simp add: z)
  qed
qed

lemma unary_rol:
  assumes g: "p_get w p True st = Inr (x, st1)" and c: "p_C st = c"
  shows "p_unary 49 w p st = unary_result 49 w p c x st1"
proof -
  let ?M = "p_msb w"
  have M: "0 < ?M" by (rule p_msb_pos)
  note x = operand_read(1,2) [OF g] and c1 = operand_read(3) [OF g, unfolded c] and sx = operand_read(4) [OF g]
    and h = operand_read(5,6) [OF g] and d = operand_read(7,8) [OF g]
  note t = u_value_def u_carry_def u_over_def mod_turn sx and [simp] = ux_mod c1 g Let_def
  have y: "u_value 49 w c x = ux w (x * 2) + of_bool c"
    using double_mod [OF x, of "of_bool c"] double_mod [OF x, of 0]
    by (simp add: u_value_def ux_mod mult.commute del: mult_mod_left mult_mod_right mod_mult_mult1 mod_mult_mult2)
  have f: "u_carry 49 w c x = (?M \<le> x)" "u_over 49 w c x = ((?M \<le> u_value 49 w c x) \<noteq> (?M \<le> x))"
    by (simp_all add: u_carry_def u_over_def)
  have m: "(x AND ?M \<noteq> 0) = (?M \<le> x)" using msb_set [of x w] x by (simp add: mod_turn)
  have n: "(u_value 49 w c x AND ?M = 0) = (\<not> ?M \<le> u_value 49 w c x)"
  proof -
    have "ux w (u_value 49 w c x) = u_value 49 w c x" unfolding u_value_def Let_def ux_mod by (rule mod_mod_trivial)
    then show ?thesis using msb_set [of "u_value 49 w c x" w] by metis
  qed
  show ?thesis unfolding unary_result_def f
    by (simp add: p_unary_def p_rol_def y [symmetric] del: ux_mod) (rule bind_put, simp add: u_value_def, cases "?M \<le> x"; simp add: m n del: ux_mod)
qed

lemma unary_asr:
  assumes g: "p_get w p True st = Inr (x, st1)" and c: "p_C st = c"
  shows "p_unary 50 w p st = unary_result 50 w p c x st1"
proof -
  let ?M = "p_msb w"
  have M: "0 < ?M" by (rule p_msb_pos)
  note x = operand_read(1,2) [OF g] and c1 = operand_read(3) [OF g, unfolded c] and sx = operand_read(4) [OF g]
    and h = operand_read(5,6) [OF g] and d = operand_read(7,8) [OF g]
  note t = u_value_def u_carry_def u_over_def mod_turn sx and [simp] = ux_mod c1 g Let_def
  have y: "u_value 50 w c x = x div 2 + of_bool (?M \<le> x) * ?M" using h M by (simp add: u_value_def mod_turn)
  have v: "drop_bit 1 (sx w x) = (if x < ?M then x div 2 else x div 2 - ?M)"
    using sx by (simp add: drop_bit_eq_div) presburger
  have f: "u_carry 50 w c x = odd x" "u_over 50 w c x = ((?M \<le> x) \<noteq> odd x)"
    using h M y by (auto simp: u_carry_def u_over_def)
  have u: "u_value 50 w c x = ux w (drop_bit 1 (sx w x))" using h M y v x by (auto simp: mod_turn split: if_splits)
  have m: "sx w x < 0 \<longleftrightarrow> ?M \<le> x" "drop_bit 1 (sx w x) = 0 \<longleftrightarrow> u_value 50 w c x = 0" "?M \<le> u_value 50 w c x \<longleftrightarrow> ?M \<le> x"
    using h M y v sx x by (auto split: if_splits)
  show ?thesis unfolding unary_result_def f
    by (simp add: p_unary_def p_asr_def d del: ux_mod drop_bit_int_code) (rule bind_put [OF u [unfolded One_nat_def]], simp add: m [unfolded One_nat_def] del: ux_mod)
qed

lemma unary_asl:
  assumes g: "p_get w p True st = Inr (x, st1)" and c: "p_C st = c"
  shows "p_unary 51 w p st = unary_result 51 w p c x st1"
proof -
  let ?M = "p_msb w"
  have M: "0 < ?M" by (rule p_msb_pos)
  note x = operand_read(1,2) [OF g] and c1 = operand_read(3) [OF g, unfolded c] and sx = operand_read(4) [OF g]
    and h = operand_read(5,6) [OF g] and d = operand_read(7,8) [OF g]
  note t = u_value_def u_carry_def u_over_def mod_turn sx and [simp] = ux_mod c1 g Let_def
  have y: "u_value 51 w c x = ux w (x * 2)" by (simp add: u_value_def mult.commute)
  have f: "u_carry 51 w c x = (?M \<le> x)" by (simp add: u_carry_def)
  have m: "(x AND ?M \<noteq> 0) = (?M \<le> x)" using msb_set [of x w] x by (simp add: mod_turn)
  show ?thesis unfolding unary_result_def f using ux_range(1) [of w "x * 2"]
    by (simp add: p_unary_def p_asl_def y del: ux_mod) (rule bind_put; simp add: m)
qed

lemma unary_flags:
  assumes "p_get w p True st = Inr (x, st1)" "k \<in> {41, 42, 43, 44, 45, 46, 48, 49, 50, 51}"
  shows "p_unary k w p st = unary_result k w p (p_C st) x st1"
  using assms(2) unary_com [OF assms(1)] unary_inc [OF assms(1)] unary_dec [OF assms(1)] unary_neg [OF assms(1)] unary_adc [OF assms(1)]
    unary_sbc [OF assms(1)] unary_ror [OF assms(1)] unary_rol [OF assms(1)] unary_asr [OF assms(1)] unary_asl [OF assms(1)]
  by auto

section \<open>Operands in place\<close>

text \<open>Without the move, the address is the same and the machine stays as it is.\<close>

lemma addr_nomove: "p_addr p True st = map_sum id (map_prod id (\<lambda>_. st)) (p_addr p False st)"
proof -
  have at: "bindE (p_read16 a st) (\<lambda>x. Inr (uint x, st)) =
      map_sum id (map_prod id (\<lambda>_. st)) (bindE (p_read16 a' (p_set i y st)) (\<lambda>x. Inr (uint x, p_set i y st)))"
    if "take_bit 16 a = take_bit 16 a'" for a a' i y
    using that by (cases "mem16 (p_data st) (take_bit 16 a')") (simp_all add: p_read16_def p_set_def)
  have id: "map_sum id (map_prod id (\<lambda>_. st)) (bindE (p_read16 a st) (\<lambda>x. Inr (uint x, st))) =
      bindE (p_read16 a st) (\<lambda>x. Inr (uint x, st))" for a by (cases "p_read16 a st") simp_all
  have dec: "take_bit 16 (uint (r :: u16) - k) = take_bit 16 (uint (r - word_of_int k))" for r k
    by (simp add: uint_word_ariths unsigned_of_int take_bit_eq_mod mod_simps)
  show ?thesis
    using at [OF refl] at [OF dec]
    by (simp add: p_addr_def getInc_def getDec_def Let_def id)
qed

lemma addr_data: "p_addr p m st = Inr (a, st') \<Longrightarrow> p_data st' = p_data st"
  by (auto simp: p_addr_def getInc_def getDec_def p_set_def Let_def error_simps split: if_splits)

lemma in_place:
  assumes "po_mode p \<noteq> 0" "p_get16 p True st = Inr (x, st1)"
  shows "\<exists>a st2. st1 = st \<and> p_addr p False st = Inr (a, st2) \<and> p_data st2 = p_data st \<and>
    (a < 0 \<or> p_read16 a st = Inr x) \<and> (\<forall>y. p_set16 p y st1 = (if a < 0 then Inr st2 else p_write16 a y st2))"
proof -
  obtain a s where a: "p_addr p True st = Inr (a, s)"
    using assms by (cases "p_addr p True st") (auto simp: p_get16_def)
  then obtain st2 where st2: "p_addr p False st = Inr (a, st2)" "s = st"
    unfolding addr_nomove by (cases "p_addr p False st") auto
  have "st1 = st \<and> (a < 0 \<or> p_read16 a st = Inr x)"
    using assms a st2(2) by (auto simp: p_get16_def error_simps split: if_splits)
  then show ?thesis using st2(1) addr_data [OF st2(1)] assms(1)
    by (auto simp: p_set16_def not_less)
qed

text \<open>Where an operand is read with the move and written with the move, it is not the same operand.\<close>

lemma sub_moves_twice:
  assumes "pp_1 x = pdp_reg j" "pp_2 x = pdp_opr 0 2 i 0" "i < 7" "j < 7" "i \<noteq> j" "p_read16 (uint (p_r st i)) st = Inr d"
  shows "p_sub x st = bindE (p_write16 (uint (p_r st i + 2)) (d - p_r st j) (p_set i (p_r st i + 4) st)) (\<lambda>t.
      Inr (setZNCV (d = p_r st j) (sint (d - p_r st j) < 0) (d < p_r st j) (sint d - sint (p_r st j) \<noteq> sint (d - p_r st j)) t))"
    and "p_add x st = bindE (p_write16 (uint (p_r st i)) (p_r st j + d) (p_set i (p_r st i + 2) st)) (\<lambda>t.
      Inr (setZNCV (p_r st j + d = 0) (sint (p_r st j + d) < 0) (uint (p_r st j) + uint d \<ge> 0x10000)
        (sint (p_r st j) + sint d \<noteq> sint (p_r st j + d)) t))"
proof -
  let ?s = "p_r st j"
  have g: "p_get16 (pp_1 x) m st = Inr (?s, st)" for m using assms by (simp add: p_get16_def pdp_reg_def pdp_opr_def)
  have f: "p_get16 (pp_2 x) False st = Inr (d, p_set i (p_r st i + 2) st)" "p_get16 (pp_2 x) True st = Inr (d, st)"
    using assms by (simp_all add: p_get16_def pdp_opr_def p_addr_def getInc_def po_diff_def p_read16_def p_set_def Let_def)
  have w: "p_set16 (pp_2 x) y t = p_write16 (uint (p_r t i)) y (p_set i (p_r t i + 2) t)" for y t
    using assms by (simp add: p_set16_def pdp_opr_def p_addr_def getInc_def po_diff_def Let_def)
  have v: "sx True (sint d - sint ?s) = sint (d - ?s)" "sx True (sint ?s + sint d) = sint (?s + d)"
    by (simp_all add: sx_word [where ?'a = 16])
  have p: "p_r (p_set i y t) i = y" "p_set i y (p_set i z t) = p_set i y t" for y z t by (simp_all add: p_set_def)
  show "p_sub x st = bindE (p_write16 (uint (p_r st i + 2)) (d - ?s) (p_set i (p_r st i + 4) st)) (\<lambda>t.
      Inr (setZNCV (d = ?s) (sint (d - ?s) < 0) (d < ?s) (sint d - sint ?s \<noteq> sint (d - ?s)) t))"
    by (simp add: p_sub_def g f w v p Let_def word_less_def signed_eq_0_iff add.commute [of 4])
  show "p_add x st = bindE (p_write16 (uint (p_r st i)) (?s + d) (p_set i (p_r st i + 2) st)) (\<lambda>t.
      Inr (setZNCV (?s + d = 0) (sint (?s + d) < 0) (uint ?s + uint d \<ge> 0x10000) (sint ?s + sint d \<noteq> sint (?s + d)) t))"
    by (simp add: p_add_def g f w v p Let_def signed_eq_0_iff)
qed

end
