(* ===== verification/Pdp_Props.thy ===== *)
theory Pdp_Props
  imports Pdp_Arith
begin

text \<open>
  The properties of the PDP-11 machine (\<open>7run/PDP11\<close>).
\<close>

section \<open>A machine to run the witnesses on\<close>

definition pdp0 :: pdp where
  "pdp0 = \<lparr>p_r = (\<lambda>_. 0), p_Z = False, p_N = False, p_C = False, p_V = False, p_start_sp = 0, p_cache = None,
     p_text = (\<lambda>_. 0), p_data = (\<lambda>_. 0), p_shared = False, p_brksize = 0, p_exited = False, p_exitcode = 0\<rparr>"



section \<open>Types\<close>



section \<open>The cache\<close>



section \<open>Comparisons\<close>

text \<open>
  C31. \<open>cmp\<close> and \<open>cmpb\<close> change the flags only (and registers their operands move), and after them
  the conditional branches decide equality, the signed order and the unsigned order of the operands.
\<close>

theorem pdp_compare_branch:
  assumes "p_get w (pp_1 x) False st = Inr (s, st1)" "p_get w (pp_2 x) False st1 = Inr (d, st2)"
  shows "\<exists>t. p_cmp w x st = Inr t \<and> p_r t = p_r st2 \<and> p_data t = p_data st2 \<and>
    map (\<lambda>k. p_cond k t) [2, 3, 4, 5, 6, 7] =
      [s \<noteq> d, s = d, sx w s \<ge> sx w d, sx w s < sx w d, sx w s > sx w d, sx w s \<le> sx w d] \<and>
    map (\<lambda>k. p_cond_b k t) [2, 3, 6, 7] = [s > d, s \<le> d, s \<ge> d, s < d]"
proof -
  let ?v = "sx w s - sx w d" let ?t = "setZNCV (sx w ?v = 0) (sx w ?v < 0) (s < d) (?v \<noteq> sx w ?v) st2"
  have r: "0 \<le> s" "s < 2 * p_msb w" "0 \<le> d" "d < 2 * p_msb w"
    using p_get_range [OF assms(1)] p_get_range [OF assms(2)] by simp_all
  have e: "sx w s = sx w d \<longleftrightarrow> s = d" using r by (auto simp: sx_unsigned split: if_splits)
  have "p_cmp w x st = Inr ?t" using assms by (simp add: p_cmp_def Let_def)
  moreover have f: "(p_N ?t \<noteq> p_V ?t) = (sx w s < sx w d)" "p_Z ?t = (s = d)" "p_C ?t = (s < d)"
    using signed_order [OF r] by (simp_all add: setZNCV_def)
  have c: "map (\<lambda>k. p_cond k t) [2, 3, 4, 5, 6, 7] = [\<not> p_Z t, p_Z t, \<not> (p_N t \<noteq> p_V t), p_N t \<noteq> p_V t,
      \<not> (p_Z t \<or> (p_N t \<noteq> p_V t)), p_Z t \<or> (p_N t \<noteq> p_V t)]"
    "map (\<lambda>k. p_cond_b k t) [2, 3, 6, 7] = [\<not> (p_C t \<or> p_Z t), p_C t \<or> p_Z t, \<not> p_C t, p_C t]" for t
    by (simp_all add: p_cond_def p_cond_b_def Let_def)
  have o: "(\<not> (a = b \<or> a < b)) = (a > b)" "(a = b \<or> a < b) = (a \<le> b)" "(\<not> a < b) = (a \<ge> b)" for a b :: int by auto
  have "map (\<lambda>k. p_cond k ?t) [2, 3, 4, 5, 6, 7] =
      [s \<noteq> d, s = d, sx w s \<ge> sx w d, sx w s < sx w d, sx w s > sx w d, sx w s \<le> sx w d]"
    unfolding c f e [symmetric] o by (simp only: not_le)
  moreover have "map (\<lambda>k. p_cond_b k ?t) [2, 3, 6, 7] = [s > d, s \<le> d, s \<ge> d, s < d]"
    unfolding c f disj_commute [of "s < d"] o by (simp only: not_le not_less)
  moreover have "p_r ?t = p_r st2" "p_data ?t = p_data st2" by (simp_all add: setZNCV_def)
  ultimately show ?thesis by (intro exI [of _ ?t] conjI)
qed

theorem pdp_compare_branch_witness:
  "\<exists>t. p_cmp True (pdp_ins 2 ''cmp'' (pdp_reg 0) (pdp_reg 1)) (p_set 1 0x8000 pdp0) = Inr t \<and>
    p_cond 6 t \<and> \<not> p_cond_b 2 t"
proof -
  have "p_get True (pdp_reg 0) False (p_set 1 0x8000 pdp0) = Inr (0, p_set 1 0x8000 pdp0)"
    "p_get True (pdp_reg 1) False (p_set 1 0x8000 pdp0) = Inr (0x8000, p_set 1 0x8000 pdp0)"
    by (simp_all add: p_get_def p_get16_def pdp_reg_def pdp_opr_def p_set_def pdp0_def)
  then show ?thesis
    using pdp_compare_branch [of True "pdp_ins 2 ''cmp'' (pdp_reg 0) (pdp_reg 1)" "p_set 1 0x8000 pdp0" 0 "p_set 1 0x8000 pdp0" "0x8000" "p_set 1 0x8000 pdp0"]
    by (auto simp: pdp_ins_def sx_def)
qed

section \<open>Instructions with one operand\<close>

text \<open>
  C32. The instructions with one operand (\<open>com inc dec neg adc sbc ror rol asr asl\<close>, on words and bytes) put
  back the number the processor computes, and set its carry. Its overflow and the other two flags they set
  too, but for the cases \<open>unary_result\<close> names: \<open>com\<close> never sets \<open>Z\<close>, \<open>asl\<close> never
  sets \<open>N\<close>, and where a sum overflows \<open>N\<close> is the sign without the overflow.
\<close>

theorem pdp_one_operand:
  assumes "p_get w p True st = Inr (x, st1)" "k \<in> {41, 42, 43, 44, 45, 46, 48, 49, 50, 51}"
  shows "p_unary k w p st = bindE (p_put w p (u_value k w (p_C st) x) st1) (\<lambda>s. Inr (setZNCV
    (u_value k w (p_C st) x = 0 \<and> k \<noteq> 41)
    (if k \<in> {42, 43, 44, 45, 46} then (p_msb w \<le> u_value k w (p_C st) x) \<noteq> u_over k w (p_C st) x
     else k \<noteq> 51 \<and> p_msb w \<le> u_value k w (p_C st) x)
    (u_carry k w (p_C st) x) (if k = 51 then u_carry k w (p_C st) x else u_over k w (p_C st) x) s))"
  using unary_flags [OF assms] unfolding unary_result_def .

theorem pdp_one_operand_witness:
  "p_unary 42 True (pdp_reg 0) (p_set 0 0x7fff pdp0) = Inr (setZNCV False False False True (p_set 0 0x8000 pdp0))"
proof -
  have "p_get True (pdp_reg 0) True (p_set 0 0x7fff pdp0) = Inr (0x7fff, p_set 0 0x7fff pdp0)"
    by (simp add: p_get_def p_get16_def pdp_reg_def pdp_opr_def p_set_def)
  from pdp_one_operand [OF this, of 42] show ?thesis
    by (simp add: u_value_def u_over_def u_carry_def p_msb_def Let_def p_put_def p_set16_def pdp_reg_def pdp_opr_def p_set_def
        pdp0_def)
qed

section \<open>Operands in place\<close>

text \<open>
  C33. An operand in memory that is read without the move and then written is one place: the write goes to
  the address the read came from, and the register moves once (as in \<open>inc (r1)+\<close>).
\<close>

theorem pdp_in_place:
  assumes "po_mode p \<noteq> 0" "p_get16 p True st = Inr (x, st1)"
  shows "\<exists>a st2. st1 = st \<and> p_addr p False st = Inr (a, st2) \<and> p_data st2 = p_data st \<and>
    (a < 0 \<or> p_read16 a st = Inr x) \<and> (\<forall>y. p_set16 p y st1 = (if a < 0 then Inr st2 else p_write16 a y st2))"
  by (rule in_place [OF assms])

theorem pdp_in_place_witness:
  "\<exists>a st2. p_addr (pdp_opr 0 2 1 0) False pdp0 = Inr (a, st2) \<and> p_data st2 = p_data pdp0 \<and>
    (a < 0 \<or> p_read16 a pdp0 = Inr 0) \<and>
    (\<forall>y. p_set16 (pdp_opr 0 2 1 0) y pdp0 = (if a < 0 then Inr st2 else p_write16 a y st2))"
proof -
  have "p_get16 (pdp_opr 0 2 1 0) True pdp0 = Inr (0, pdp0)"
    by (simp add: p_get16_def pdp_opr_def p_addr_def p_read16_def pdp0_def mem16_def mem8_def Let_def)
  then show ?thesis using pdp_in_place [of "pdp_opr 0 2 1 0" pdp0 0 pdp0] by (simp add: pdp_opr_def)
qed

end
