(* ===== verification/Load_Props.thy ===== *)
theory Load_Props
  imports Load_Lemmas Pdp_Props Emu_Props
begin

text \<open>
  The properties of starting a program in the emulator: what the loaders of the sixth edition put where, and
  that a program finds its arguments.
\<close>

section \<open>Images of the sixth edition\<close>

text \<open>Two regions that do not meet.\<close>

lemma holds_two:
  assumes "length xs = n" "length ys = m" "a + n \<le> 0x10000" "b + m \<le> 0x10000" "a + n \<le> b \<or> b + m \<le> a"
  shows "mem_holds (store_at (store_at mem a xs) b ys) a xs" "mem_holds (store_at (store_at mem a xs) b ys) b ys"
  using assms by (auto intro!: mem_holds_other mem_holds_store)

text \<open>Where the data of an image go: behind the text, at the next 8 kilobytes, or in a memory of their own.\<close>

definition image_data :: "u16 \<Rightarrow> u16 \<Rightarrow> nat \<Rightarrow> nat" where
  "image_data magic base ts =
     (if magic = 0x109 then 0
      else if magic = 0x108 then (if ts mod 0x2000 = 0 then ts else ts + (0x2000 - ts mod 0x2000))
      else unat base + ts)"

definition image_text :: "u16 \<Rightarrow> u16 \<Rightarrow> nat" where
  "image_text magic base = (if magic = 0x107 then unat base else 0)"

text \<open>The next multiple, written as a sum.\<close>

lemma data_off_next:
  "(ts + 0x1fff) div 0x2000 * 0x2000 = (if ts mod 0x2000 = 0 then ts else ts + (0x2000 - ts mod 0x2000))" for ts :: nat
proof -
  obtain q r where ts: "ts = r + 0x2000 * q" "r < 0x2000"
    using that [of "ts mod 0x2000" "ts div 0x2000"] mod_less_divisor [of "0x2000" ts] by simp
  have "(r + 0x1fff) div 0x2000 = (if r = 0 then 0 else 1)"
    using ts(2) by (auto intro: div_nat_eqI)
  moreover have "(r + 0x1fff + 0x2000 * q) div 0x2000 = q + (r + 0x1fff) div 0x2000" by (rule div_mult_self2) simp
  then have "(ts + 0x1fff) div 0x2000 = q + (r + 0x1fff) div 0x2000" by (simp add: ts(1) algebra_simps)
  ultimately show ?thesis using ts by simp
qed

lemma unat_data_off: "image_data 0x108 base ts < 0x10000 \<Longrightarrow> unat (data_off ts) = image_data 0x108 base ts"
  unfolding data_off_def data_off_next by (simp add: image_data_def unat_of_nat_u16)

text \<open>A machine with an image: text and data at their places, zeros behind the data.\<close>

definition image_in :: "nat \<Rightarrow> bytes \<Rightarrow> nat \<Rightarrow> bytes \<Rightarrow> bool \<Rightarrow> memory \<Rightarrow> memory \<Rightarrow> bool" where
  "image_in a t d bs shared text data \<longleftrightarrow>
     mem_holds (if shared then data else text) a t \<and> mem_holds data d bs \<and> (shared \<longrightarrow> a + length t \<le> d)"

definition zeros_from :: "nat \<Rightarrow> memory \<Rightarrow> bool" where
  "zeros_from n mem \<longleftrightarrow> (\<forall>i < 0x10000. n \<le> i \<longrightarrow> cell mem i = 0)"

lemma zeros_store: "zeros_from n mem \<Longrightarrow> a + length bs \<le> n \<Longrightarrow> zeros_from n (store_at mem a bs)"
  by (simp add: zeros_from_def cell_store)

lemma zeros_zero [simp]: "zeros_from n zero_mem"
  by (simp add: zeros_from_def zero_mem_def cell_def)

text \<open>The loader of the PDP-11, on an image that is whole and fits.\<close>

lemma pdp_image_ok:
  assumes "pdp_check f" "0x10 + (ts + ds) \<le> length f" "ts = unat (word16 f 2)" "ds = unat (word16 f 4)"
    and d: "d = image_data (word16 f 0) base ts"
    and fit: "d < 0x10000" "d + ds \<le> 0x10000"
  shows "\<exists>l' ver'. p_load2 base ver buf f l = Inr (Some (l', ver')) \<and>
    image_in (image_text (word16 f 0) base) (take ts (drop 0x10 f)) d (take ds (drop (0x10 + ts) f))
      (p_shared (l_vm l')) (p_text (l_vm l')) (p_data (l_vm l')) \<and>
    zeros_from (d + ds) (p_data (l_vm l')) \<and>
    p_brksize (l_vm l') = of_nat (d + ds) + word16 f 6 \<and>
    p_r (l_vm l') 7 = (if word16 f 0 = 0x107 \<and> base \<noteq> 0 then base else word16 f 10) \<and>
    (\<forall>i < 7. p_r (l_vm l') i = 0) \<and> p_cache (l_vm l') = Some (\<lambda>_. None) \<and> l_tsize l' = ts \<and> l_dsize l' = ds"
proof -
  let ?bs = "drop 0x10 f" let ?t = "take ts ?bs" let ?d = "take ds (drop ts ?bs)"
  have sz: "ts < 0x10000" "ds < 0x10000" unfolding assms(3,4) by (rule unat_address)+
  have len: "length ?t = ts" "length ?d = ds" using assms(2) by simp_all
  have dd: "drop (0x10 + ts) f = drop ts ?bs" by (simp add: add.commute)
  have td: "take (ts + ds) ?bs = ?t @ ?d" by (rule take_add)
  have m16: "\<exists>w. mem16 m 2 = Inr w" for m by (simp add: mem16_def mem8_def)
  note w = assms(3,4) [symmetric] and l = p_load2_def Let_def
  have nf: "\<not> (length f < 0x10 \<or> \<not> pdp_check f)" using assms(1,2) by simp
  note defs = p_mem_def p_set_def image_in_def image_text_def
  consider "word16 f 0 = 0x109" | "word16 f 0 = 0x108" | "word16 f 0 = 0x107"
    using assms(1) by (auto simp: pdp_check_def)
  then show ?thesis
  proof cases
    case 1
    have "fread_at zero_mem 0 ts ?bs = Inr (store_at zero_mem 0 ?t)"
      "fread_at zero_mem 0 ds (drop ts ?bs) = Inr (store_at zero_mem 0 ?d)"
      using len sz by (simp_all add: fread_at_def)
    moreover have "mem_holds (store_at zero_mem 0 ?t) 0 ?t" "mem_holds (store_at zero_mem 0 ?d) 0 ?d"
      "zeros_from ds (store_at zero_mem 0 ?d)"
      using len sz by (simp_all add: mem_holds_store zeros_store)
    moreover obtain k where "mem16 (store_at zero_mem 0 ?t) 2 = Inr k" using m16 by blast
    ultimately show ?thesis
      unfolding l if_not_P [OF nf] dd d using 1 by (simp add: w image_data_def defs)
  next
    case 2
    then have o: "unat (data_off ts) = d" "(of_nat d :: u16) = data_off ts"
    proof -
      show "unat (data_off ts) = d" using 2 d fit(1) unat_data_off [of base ts] by simp
      then show "(of_nat d :: u16) = data_off ts" by auto
    qed
    have a: "ts \<le> d" using d 2 mod_less_divisor [of "0x2000" ts] by (auto simp: image_data_def)
    have "fread_at zero_mem 0 ts ?bs = Inr (store_at zero_mem 0 ?t)"
      "fread_at (store_at zero_mem 0 ?t) d ds (drop ts ?bs) = Inr (store_at (store_at zero_mem 0 ?t) d ?d)"
      using len sz a fit by (simp_all add: fread_at_def)
    moreover note holds_two [OF len, of 0 d zero_mem]
    moreover have "zeros_from (d + ds) (store_at (store_at zero_mem 0 ?t) d ?d)"
      using a len by (intro zeros_store) simp_all
    moreover obtain k where "mem16 (store_at (store_at zero_mem 0 ?t) d ?d) 2 = Inr k" using m16 by blast
    ultimately show ?thesis
      unfolding l if_not_P [OF nf] dd using 2 a sz fit
      by (simp add: w o defs len)
  next
    case 3
    then have a: "unat base + ts + ds \<le> 0x10000" "d = unat base + ts" using fit d by (simp_all add: image_data_def)
    let ?m = "store_at zero_mem (unat base) (?t @ ?d)"
    have "fread_at zero_mem (unat base) (ts + ds) ?bs = Inr ?m"
      unfolding td [symmetric] using a len by (intro fread_at_eq) (simp add: td)
    moreover have "mem_holds ?m (unat base) (?t @ ?d)"
      using a len by (intro mem_holds_store) simp
    then have "mem_holds ?m (unat base) ?t" "mem_holds ?m (unat base + ts) ?d"
      unfolding mem_holds_append len by simp_all
    moreover have "zeros_from (unat base + ts + ds) ?m" using len by (intro zeros_store) simp_all
    moreover obtain k where "mem16 ?m 2 = Inr k" using m16 by blast
    moreover have n: "\<not> unat base + (ts + ds) > 0x10000" using a by simp
    ultimately show ?thesis
      unfolding l if_not_P [OF nf] dd a(2) w if_not_P [OF n]
      by (cases "base = 0") (simp_all add: 3 defs len add.commute add.assoc)
  qed
qed

section \<open>Running another program\<close>

text \<open>What \<open>exec\<close> reads are strings: they have no zero inside.\<close>

lemma mem_str_nz: "mem_str a mem = Inr s \<Longrightarrow> 0 \<notin> set s"
proof (induction a mem arbitrary: s rule: mem_str.induct)
  case (1 a mem)
  from 1(2) show ?case
    unfolding mem_str.simps [of a mem] using 1(1) by (auto simp: bindE_Inr_iff split: if_splits)
qed

lemma exec_args_nz: "exec_args k a mem = Inr ss \<Longrightarrow> \<forall>s \<in> set ss. 0 \<notin> set s"
proof (induction k arbitrary: a ss)
  case (Suc k)
  then show ?case by (auto simp: bindE_Inr_iff split: if_splits dest: mem_str_nz)
qed simp

text \<open>The room the arguments take at the top of the memory.\<close>

definition args_room :: "bytes list \<Rightarrow> nat" where
  "args_room args = 2 * (length args + 2) + even_up (args_size args)"

lemma set_args_room:
  assumes "\<forall>s \<in> set args. 0 \<notin> set s" "n + args_room args \<le> 0x10000" "zeros_from n mem"
  shows "\<exists>sp mem'. v6_set_args args 0 mem = Inr (sp, mem') \<and> unat sp = 0x10000 - args_room args \<and>
    mem16 mem' (uint sp) = Inr (of_nat (length args)) \<and> exec_args 0x8001 (sp + 2) mem' = Inr args \<and>
    (\<forall>i < n. cell mem' i = cell mem i)"
proof -
  let ?d = "0x10000 - args_room args"
  have d: "?d + 2 * (length args + 2) + even_up (args_size args) = 0x10000" "?d < 0x10000" "n \<le> ?d"
    using assms(2) by (simp_all add: args_room_def)
  have z: "\<forall>n < 0x10000. ?d \<le> n \<longrightarrow> cell mem n = 0" using assms(3) d(3) by (simp add: zeros_from_def)
  obtain mem' where m: "v6_set_args args 0 mem = Inr (of_nat ?d, mem')" "mem_holds mem' ?d (bytes16 (of_nat (length args)))"
    "exec_args 0x8001 (of_nat ?d + 2) mem' = Inr args" "\<forall>n < ?d. cell mem' n = cell mem n"
    using v6_set_args_ok [OF assms(1) d(1) z] by blast
  have "mem16 mem' (uint (of_nat ?d :: u16)) = Inr (of_nat (length args))"
    unfolding uint_of_nat_u16 [OF d(2)] using m(2) by (rule mem16_holds)
  moreover have "\<forall>i < n. cell mem' i = cell mem i" using m(4) d(3) by simp
  ultimately show ?thesis using m(1,3) unat_of_nat_u16 [OF d(2)] by blast
qed

lemma mem_holds_cong: "mem_holds mem a bs \<Longrightarrow> a + length bs \<le> n \<Longrightarrow> \<forall>i < n. cell mem' i = cell mem i \<Longrightarrow> mem_holds mem' a bs"
  by (simp add: mem_holds_def)

lemma image_in_args:
  assumes "image_in a t d bs shared text data" "\<forall>i < d + length bs. cell data' i = cell data i"
  shows "image_in a t d bs shared text data'"
  using assms mem_holds_cong [of data a t "d + length bs" data'] mem_holds_cong [of data d bs "d + length bs" data']
  by (auto simp: image_in_def)

text \<open>The loader of the 8086: the data are behind the text unless the memories are separate.\<close>

lemma i_image_ok:
  assumes "v6_check f" "0x10 + (ts + ds) \<le> length f" "ts = unat (word16 f 2)" "ds = unat (word16 f 4)"
    and d: "d = (if f ! 1 = 0x12 then 0 else ts)" and fit: "d + ds \<le> 0x10000"
  shows "\<exists>l'. i_load2 buf f l = Inr (Some l') \<and>
    image_in 0 (take ts (drop 0x10 f)) d (take ds (drop (0x10 + ts) f)) (v_shared (l_vm l')) (v_text (l_vm l')) (v_data (l_vm l')) \<and>
    zeros_from (d + ds) (v_data (l_vm l')) \<and>
    v_brksize (l_vm l') = of_nat (d + ds) + word16 f 6 \<and> v_IP (l_vm l') = word16 f 10 \<and>
    (\<forall>i < 8. v_r (l_vm l') i = 0) \<and> l_tsize l' = ts \<and> l_dsize l' = ds"
proof -
  let ?bs = "drop 0x10 f" let ?t = "take ts ?bs" let ?d = "take ds (drop ts ?bs)"
  have sz: "ts < 0x10000" "ds < 0x10000" unfolding assms(3,4) by (rule unat_address)+
  have len: "length ?t = ts" "length ?d = ds" using assms(2) by simp_all
  have dd: "drop (0x10 + ts) f = drop ts ?bs" by (simp add: add.commute)
  have td: "take (ts + ds) ?bs = ?t @ ?d" by (rule take_add)
  note w = assms(3,4) [symmetric] and l = i_load2_def Let_def
  have nf: "\<not> (length f < 0x10 \<or> \<not> v6_check f)" using assms(1,2) by simp
  have e: "f ! 0 \<noteq> 0x10" using assms(1) by (simp add: v6_check_def)
  show ?thesis
  proof (cases "f ! 1 = 0x12")
    case True
    have "fread_at zero_mem 0 ts ?bs = Inr (store_at zero_mem 0 ?t)"
      "fread_at zero_mem 0 ds (drop ts ?bs) = Inr (store_at zero_mem 0 ?d)"
      using len sz by (simp_all add: fread_at_def)
    moreover have "mem_holds (store_at zero_mem 0 ?t) 0 ?t" "mem_holds (store_at zero_mem 0 ?d) 0 ?d"
      "zeros_from ds (store_at zero_mem 0 ?d)"
      using len sz by (simp_all add: mem_holds_store zeros_store)
    ultimately show ?thesis
      unfolding l if_not_P [OF nf] dd d using True by (simp add: w image_in_def)
  next
    case False
    then have a: "ts + ds \<le> 0x10000" "d = ts" using d fit by simp_all
    let ?m = "store_at zero_mem 0 (?t @ ?d)"
    have "fread_at zero_mem 0 (ts + ds) ?bs = Inr ?m"
      unfolding td [symmetric] using a len by (intro fread_at_eq) (simp add: td)
    moreover have "mem_holds ?m 0 (?t @ ?d)" using a len by (intro mem_holds_store) simp
    then have "mem_holds ?m 0 ?t" "mem_holds ?m ts ?d" unfolding mem_holds_append len by simp_all
    moreover have "zeros_from (ts + ds) ?m" using len by (intro zeros_store) simp_all
    ultimately show ?thesis
      unfolding l if_not_P [OF nf] dd a(2) using False e by (simp add: w image_in_def len)
  qed
qed

section \<open>Small programs\<close>

text \<open>A memory with the arguments of \<open>exec\<close> at \<open>0x20\<close>, and an image of two bytes of text and two of data.\<close>

definition argv_mem :: memory where
  "argv_mem = store_at zero_mem 0x20 [0x24, 0, 0, 0, 0x61, 0]"

definition tiny_image :: "byte \<Rightarrow> byte \<Rightarrow> bytes" where
  "tiny_image m0 m1 = [m0, m1, 2, 0, 2, 0, 4, 0, 0, 0, 0, 0, 0, 0, 1, 0, 0xaa, 0xbb, 1, 2]"

lemma argv_mem_args: "exec_args 0x8001 0x20 argv_mem = Inr [[0x61]]"
proof -
  have "mem_holds argv_mem 0x20 ([0x24, 0, 0, 0] @ [0x61, 0])" unfolding argv_mem_def by (simp add: mem_holds_store)
  then have "mem_holds argv_mem 0x20 (pointers 0x24 [[0x61]] @ [0, 0])" "mem_holds argv_mem 0x24 (strings [[0x61]])"
    unfolding mem_holds_append [of argv_mem "0x20" "[0x24, 0, 0, 0]"] by (simp_all add: bytes16_def)
  from exec_args_ok [OF this, of "0x8001"] show ?thesis by simp
qed

lemma tiny_words:
  "word16 (tiny_image m0 m1) 0 = ucast m0 OR push_bit 8 (ucast m1)" "word16 (tiny_image m0 m1) 2 = 2" "word16 (tiny_image m0 m1) 4 = 2"
  "word16 (tiny_image m0 m1) 6 = 4" "word16 (tiny_image m0 m1) 10 = 0" "length (tiny_image m0 m1) = 20"
  by (simp_all add: word16_def tiny_image_def)

lemma tiny_parts: "take 2 (drop 0x10 (tiny_image m0 m1)) = [0xaa, 0xbb]" "take 2 (drop (0x10 + 2) (tiny_image m0 m1)) = [1, 2]"
  by (simp_all add: tiny_image_def)

lemma tiny_room: "args_room [[0x61]] = 8"
  by (simp add: args_room_def even_up_def)

text \<open>
  C34. A PDP-11 program that runs another (\<open>v6_exec\<close>): the arguments at \<open>argp\<close> are read before the memory is
  replaced, and the new program finds the same strings through the pointers above its stack pointer, with their number
  below. The image is at its place: the text where the program starts, the data behind it (magic
  0407), at the next 8 kilobytes (0410) or in a memory of their own (0411); the limit of the data is behind data and
  bss. The cache of decoded instructions is empty, so none of the old program is run.
\<close>

theorem pdp_exec_image:
  assumes args: "exec_args 0x8001 argp (p_data (l_vm l)) = Inr args"
    and f: "pdp_check f" "0x10 + (ts + ds) \<le> length f" "ts = unat (word16 f 2)" "ds = unat (word16 f 4)"
    and d: "d = image_data (word16 f 0) base ts" "d < 0x10000" "d + ds + args_room args \<le> 0x10000"
  shows "\<exists>l' ver'. p_exec base ver buf (Some f) argp l = Inr (Some (l', ver')) \<and>
    image_in (image_text (word16 f 0) base) (take ts (drop 0x10 f)) d (take ds (drop (0x10 + ts) f))
      (p_shared (l_vm l')) (p_text (l_vm l')) (p_data (l_vm l')) \<and>
    unat (p_r (l_vm l') 6) = 0x10000 - args_room args \<and>
    mem16 (p_data (l_vm l')) (uint (p_r (l_vm l') 6)) = Inr (of_nat (length args)) \<and>
    exec_args 0x8001 (p_r (l_vm l') 6 + 2) (p_data (l_vm l')) = Inr args \<and>
    p_r (l_vm l') 7 = (if word16 f 0 = 0x107 \<and> base \<noteq> 0 then base else word16 f 10) \<and>
    p_brksize (l_vm l') = of_nat (d + ds) + word16 f 6 \<and> cache_ok (l_vm l')"
proof -
  have "d + ds \<le> 0x10000" using d(3) by simp
  from pdp_image_ok [OF f d(1,2) this, of ver buf l] obtain m ver' where
    m: "p_load2 base ver buf f l = Inr (Some (m, ver'))"
      "image_in (image_text (word16 f 0) base) (take ts (drop 0x10 f)) d (take ds (drop (0x10 + ts) f))
         (p_shared (l_vm m)) (p_text (l_vm m)) (p_data (l_vm m))"
      "zeros_from (d + ds) (p_data (l_vm m))" "p_brksize (l_vm m) = of_nat (d + ds) + word16 f 6"
      "p_r (l_vm m) 7 = (if word16 f 0 = 0x107 \<and> base \<noteq> 0 then base else word16 f 10)" "p_r (l_vm m) 6 = 0"
      "p_cache (l_vm m) = Some (\<lambda>_. None)"
    by auto
  obtain sp mem where a: "v6_set_args args 0 (p_data (l_vm m)) = Inr (sp, mem)" "unat sp = 0x10000 - args_room args"
    "mem16 mem (uint sp) = Inr (of_nat (length args))" "exec_args 0x8001 (sp + 2) mem = Inr args"
    "\<forall>i < d + ds. cell mem i = cell (p_data (l_vm m)) i"
    using set_args_room [OF exec_args_nz [OF args] d(3) m(3)] by blast
  have len: "length (take ds (drop (0x10 + ts) f)) = ds" using f(2) by simp
  have "p_set_args args (l_vm m) = Inr ((p_set 6 sp (l_vm m))\<lparr>p_data := mem, p_start_sp := sp\<rparr>)"
    unfolding p_set_args_def m(6) a(1) by simp
  then have "p_exec base ver buf (Some f) argp l =
      Inr (Some (m\<lparr>l_vm := (p_set 6 sp (l_vm m))\<lparr>p_data := mem, p_start_sp := sp\<rparr>\<rparr>, ver'))"
    unfolding p_exec_def args by (simp add: m(1))
  then show ?thesis
    using image_in_args [OF m(2), of mem] a m(4,5,7) len by (simp add: p_set_def cache_ok_def)
qed

lemma pdp_exec_image_witness:
  "\<exists>l' ver'. p_exec 0 6 [] (Some (tiny_image 8 1)) 0x20 \<lparr>l_vm = pdp0\<lparr>p_data := argv_mem\<rparr>, l_tsize = 0, l_dsize = 0, l_syms = (Map.empty, Map.empty)\<rparr> =
      Inr (Some (l', ver')) \<and>
    image_in 0 [0xaa, 0xbb] 0x2000 [1, 2] (p_shared (l_vm l')) (p_text (l_vm l')) (p_data (l_vm l')) \<and>
    unat (p_r (l_vm l') 6) = 0xfff8 \<and> exec_args 0x8001 (p_r (l_vm l') 6 + 2) (p_data (l_vm l')) = Inr [[0x61]]"
proof -
  let ?l = "\<lparr>l_vm = pdp0\<lparr>p_data := argv_mem\<rparr>, l_tsize = 0, l_dsize = 0, l_syms = (Map.empty, Map.empty)\<rparr>"
  have a: "exec_args 0x8001 0x20 (p_data (l_vm ?l)) = Inr [[0x61]]" by (simp add: argv_mem_args)
  have i: "pdp_check (tiny_image 8 1)" "0x10 + (2 + 2) \<le> length (tiny_image 8 1)" "2 = unat (word16 (tiny_image 8 1) 2)"
    "2 = unat (word16 (tiny_image 8 1) 4)" "0x2000 = image_data (word16 (tiny_image 8 1) 0) 0 2"
    "image_text (word16 (tiny_image 8 1) 0) 0 = 0"
    by (simp_all add: pdp_check_def tiny_words image_data_def image_text_def)
  have r: "(0x2000 :: nat) < 0x10000" "0x2000 + 2 + args_room [[0x61]] \<le> 0x10000" "0x10000 - args_room [[0x61]] = 0xfff8"
    by (simp_all add: tiny_room)
  show ?thesis
    using pdp_exec_image [OF a i(1-5) r(1,2), of 6 "[]"] unfolding tiny_parts i(6) r(3) by blast
qed

text \<open>
  C35. The same on the 8086 (\<open>OSi8086.cpp\<close>): only the magic number 0411 has a memory of its own for the data, the
  other two have them behind the text, and all registers but the stack pointer are zero.
\<close>

theorem i_exec_image:
  assumes args: "exec_args 0x8001 argp (v_data (l_vm l)) = Inr args"
    and f: "v6_check f" "0x10 + (ts + ds) \<le> length f" "ts = unat (word16 f 2)" "ds = unat (word16 f 4)"
    and d: "d = (if f ! 1 = 0x12 then 0 else ts)" "d + ds + args_room args \<le> 0x10000"
  shows "\<exists>l'. i_exec buf (Some f) argp l = Inr (Some l') \<and>
    image_in 0 (take ts (drop 0x10 f)) d (take ds (drop (0x10 + ts) f)) (v_shared (l_vm l')) (v_text (l_vm l')) (v_data (l_vm l')) \<and>
    unat (v_r (l_vm l') SP) = 0x10000 - args_room args \<and> (\<forall>i < 8. i \<noteq> SP \<longrightarrow> v_r (l_vm l') i = 0) \<and>
    mem16 (v_data (l_vm l')) (uint (v_r (l_vm l') SP)) = Inr (of_nat (length args)) \<and>
    exec_args 0x8001 (v_r (l_vm l') SP + 2) (v_data (l_vm l')) = Inr args \<and>
    v_IP (l_vm l') = word16 f 10 \<and> v_brksize (l_vm l') = of_nat (d + ds) + word16 f 6"
proof -
  have "d + ds \<le> 0x10000" using d(2) by simp
  from i_image_ok [OF f d(1) this, of buf l] obtain m where
    m: "i_load2 buf f l = Inr (Some m)"
      "image_in 0 (take ts (drop 0x10 f)) d (take ds (drop (0x10 + ts) f)) (v_shared (l_vm m)) (v_text (l_vm m)) (v_data (l_vm m))"
      "zeros_from (d + ds) (v_data (l_vm m))" "v_brksize (l_vm m) = of_nat (d + ds) + word16 f 6"
      "v_IP (l_vm m) = word16 f 10" "\<forall>i < 8. v_r (l_vm m) i = 0"
    by auto
  obtain sp mem where a: "v6_set_args args 0 (v_data (l_vm m)) = Inr (sp, mem)" "unat sp = 0x10000 - args_room args"
    "mem16 mem (uint sp) = Inr (of_nat (length args))" "exec_args 0x8001 (sp + 2) mem = Inr args"
    "\<forall>i < d + ds. cell mem i = cell (v_data (l_vm m)) i"
    using set_args_room [OF exec_args_nz [OF args] d(2) m(3)] by blast
  have len: "length (take ds (drop (0x10 + ts) f)) = ds" using f(2) by simp
  have z: "v_r (l_vm m) SP = 0" using m(6) by (simp add: SP_def)
  have "i_set_args args (l_vm m) = Inr ((set_r SP sp (l_vm m))\<lparr>v_data := mem, v_start_sp := sp\<rparr>)"
    unfolding i_set_args_def z a(1) by simp
  then have "i_exec buf (Some f) argp l = Inr (Some (m\<lparr>l_vm := (set_r SP sp (l_vm m))\<lparr>v_data := mem, v_start_sp := sp\<rparr>\<rparr>))"
    unfolding i_exec_def args by (simp add: m(1))
  then show ?thesis
    using image_in_args [OF m(2), of mem] a m(4-6) len by (simp add: set_r_def)
qed

lemma i_exec_image_witness:
  "\<exists>l'. i_exec [] (Some (tiny_image 0xeb 0x12)) 0x20 \<lparr>l_vm = vm0\<lparr>v_data := argv_mem\<rparr>, l_tsize = 0, l_dsize = 0, l_syms = (Map.empty, Map.empty)\<rparr> =
      Inr (Some l') \<and>
    image_in 0 [0xaa, 0xbb] 0 [1, 2] (v_shared (l_vm l')) (v_text (l_vm l')) (v_data (l_vm l')) \<and>
    unat (v_r (l_vm l') SP) = 0xfff8 \<and> exec_args 0x8001 (v_r (l_vm l') SP + 2) (v_data (l_vm l')) = Inr [[0x61]]"
proof -
  let ?l = "\<lparr>l_vm = vm0\<lparr>v_data := argv_mem\<rparr>, l_tsize = 0, l_dsize = 0, l_syms = (Map.empty, Map.empty)\<rparr>"
  have a: "exec_args 0x8001 0x20 (v_data (l_vm ?l)) = Inr [[0x61]]" by (simp add: argv_mem_args)
  have i: "v6_check (tiny_image 0xeb 0x12)" "0x10 + (2 + 2) \<le> length (tiny_image 0xeb 0x12)"
    "2 = unat (word16 (tiny_image 0xeb 0x12) 2)" "2 = unat (word16 (tiny_image 0xeb 0x12) 4)"
    "0 = (if tiny_image 0xeb 0x12 ! 1 = 0x12 then 0 else 2)"
    by (simp_all add: v6_check_def tiny_words) (simp_all add: tiny_image_def)
  have r: "0 + 2 + args_room [[0x61]] \<le> 0x10000" "0x10000 - args_room [[0x61]] = 0xfff8" by (simp_all add: tiny_room)
  show ?thesis
    using i_exec_image [OF a i r(1), of "[]"] unfolding tiny_parts r(2) by blast
qed

end
