(* ===== verification/Cv_Props.thy ===== *)
theory Cv_Props
  imports Cv_Lemmas Load_Props Dis_Main
begin

text \<open>
  The converter with the programs that read its output: the loader of Minix in the emulator and the disassembler. The two
  decode the header with routines of their own, and both find what the linker put into the object file.
\<close>

section \<open>The file\<close>

lemma cv_main_image:
  assumes "cv_linked ob" "length (obj_bytes ob @ post) < 2 ^ 31" "ob_chars ob \<noteq> [] \<longrightarrow> alloc (length (ob_chars ob))"
    "files f = Some (obj_bytes ob @ post)" "\<not> (f \<noteq> [] \<and> hd f = CHR ''-'')"
  shows "cv_main alloc [f] files can_create stdin = Inr (None, cv_image ob)"
proof -
  let ?r = "rd_init\<lparr>rd_outfile := open_at (obj_bytes ob @ post) 0\<rparr>"
  have len: "length (rd_offset ?r) = MAXSECT" by (simp add: rd_init_def)
  obtain s' where s': "rd_fdopen (open_at (obj_bytes ob @ post) 0) ?r = (1, s')" "rd_inv s'"
    "rd_content s' = obj_bytes ob @ post" "rd_base s' = int 0" "rd_offcnt s' = 0" "rd_cur s' RD_PARTEMIT = 0"
    using rd_fdopen_ok [OF assms(2) _ len, of 0] by auto
  have "obj_at ob 0 s'" using s' assms(1) by (simp add: obj_at_def cv_linked_def)
  then have c: "cv_convert alloc s' = Inr (cv_image ob)" using s' assms(1,3) by (intro cv_convert_ok) simp_all
  have "rd_open (files f) rd_init = (1, s')" using s'(1) by (simp add: rd_open_def assms(4))
  then show ?thesis using assms(5) c by (auto simp: cv_main_def)
qed

text \<open>A number of the header, as the emulator reads it, and as the object library does.\<close>

lemma word16_uget2: "k + 2 \<le> length c \<Longrightarrow> (ucast (word16 c k) :: u32) = uget2 (drop k c)"
  by (simp add: word16_def uget2_def) (rule bit_word_eqI, auto simp: bit_simps dest: bit_imp_le_length)

lemma word32_get4: "i + 4 \<le> length f \<Longrightarrow> word32 f i = get4 (drop i f)"
  by (simp add: word32_def word16_uget2 get4_def add.commute)

lemma word32_at: "drop i f = put4 x @ rest \<Longrightarrow> word32 f i = x"
proof -
  assume d: "drop i f = put4 x @ rest"
  then have "length f - i = 4 + length rest" by (metis length_append length_drop length_put4)
  then show "word32 f i = x" by (subst word32_get4) (simp_all add: d get4_put4)
qed

definition image_bytes :: "obj \<Rightarrow> bytes" where
  "image_bytes ob = padded (sect_base ob DATASG - sect_base ob ROMSG) (ob_emits ob ! ROMSG) @
     padded (sect_base ob BSSSG - sect_base ob DATASG) (ob_emits ob ! DATASG)"

lemma cv_image_eq: "cv_image ob = cv_header (linked_exec ob) @ padded (text_size ob) (ob_emits ob ! TEXTSG) @ image_bytes ob @ ix_list ob 0 (ob_names ob)"
  by (simp add: cv_image_def image_bytes_def)

lemma image_fields:
  "word32 (cv_image ob) 8 = x_text (linked_exec ob)" "word32 (cv_image ob) 12 = x_data (linked_exec ob)"
  "word32 (cv_image ob) 16 = x_bss (linked_exec ob)" "word32 (cv_image ob) 20 = 0"
  "cv_image ob ! 0 = 1" "cv_image ob ! 1 = 3" "cv_image ob ! 2 = x_flags (linked_exec ob)" "cv_image ob ! 3 = 4" "cv_image ob ! 4 = 32"
  by (rule word32_at, simp add: cv_image_def cv_header_def cv_put linked_exec_def)+
    (simp_all add: cv_image_def cv_header_def)

section \<open>The loader\<close>

text \<open>A section, and the zeros behind it, where the linker wants them.\<close>

lemma mem_holds_padded: "mem_holds mem a (padded n bs) \<Longrightarrow> mem_holds mem a bs"
  by (simp add: padded_def mem_holds_append)

lemma length_image_bytes:
  assumes "cv_linked ob"
  shows "length (padded (text_size ob) (ob_emits ob ! TEXTSG)) = text_size ob" "length (image_bytes ob) = sect_base ob BSSSG - sect_base ob ROMSG"
  using linked_sizes [OF assms] by (simp_all add: image_bytes_def)

lemma image_bytes_held:
  assumes "cv_linked ob" "mem_holds mem (sect_base ob ROMSG) (image_bytes ob)"
  shows "mem_holds mem (sect_base ob ROMSG) (ob_emits ob ! ROMSG)" "mem_holds mem (sect_base ob DATASG) (ob_emits ob ! DATASG)"
proof -
  note sz = linked_sizes [OF assms(1)]
  have "mem_holds mem (sect_base ob ROMSG) (padded (sect_base ob DATASG - sect_base ob ROMSG) (ob_emits ob ! ROMSG))"
    "mem_holds mem (sect_base ob DATASG) (padded (sect_base ob BSSSG - sect_base ob DATASG) (ob_emits ob ! DATASG))"
    using assms(2) sz by (simp_all add: image_bytes_def mem_holds_append)
  from this [THEN mem_holds_padded]
  show "mem_holds mem (sect_base ob ROMSG) (ob_emits ob ! ROMSG)" "mem_holds mem (sect_base ob DATASG) (ob_emits ob ! DATASG)" .
qed

definition linked_in :: "obj \<Rightarrow> vm \<Rightarrow> bool" where
  "linked_in ob st \<longleftrightarrow> mem_holds (text_mem st) 0 (ob_emits ob ! TEXTSG) \<and>
     mem_holds (v_data st) (sect_base ob ROMSG) (ob_emits ob ! ROMSG) \<and>
     mem_holds (v_data st) (sect_base ob DATASG) (ob_emits ob ! DATASG)"

lemma unat_sizes:
  assumes "cv_linked ob" "text_size ob \<le> 0x10000" "sect_base ob BSSSG \<le> 0x10000"
  shows "unat (x_text (linked_exec ob)) = text_size ob" "unat (x_data (linked_exec ob)) = sect_base ob BSSSG - sect_base ob ROMSG"
  using assms by (simp_all add: linked_exec_def unat_of_nat_u32)

lemma converted_loads:
  assumes ob: "cv_linked ob" and fit: "text_size ob \<le> 0x10000" "sect_base ob BSSSG \<le> 0x10000"
  shows "\<exists>l'. minix_load2 (cv_image ob) l = Inr (Some l') \<and> linked_in ob (l_vm l') \<and> v_IP (l_vm l') = 0 \<and>
    v_r (l_vm l') = v_r (l_vm l) \<and> v_shared (l_vm l') = (sect_base ob ROMSG \<noteq> 0) \<and>
    v_brksize (l_vm l') = of_nat (sect_base ob BSSSG + sect_size ob BSSSG)"
proof -
  let ?f = "cv_image ob" let ?t = "padded (text_size ob) (ob_emits ob ! TEXTSG)" let ?i = "image_bytes ob"
  let ?ts = "text_size ob" let ?ds = "sect_base ob BSSSG - sect_base ob ROMSG"
  have dle: "?ds \<le> 0x10000" using fit by simp
  note fl = image_fields [of ob] and sz = unat_sizes [OF ob fit] and len = length_image_bytes [OF ob] and ord = linked_sizes [OF ob]
  have h: "\<not> (length ?f < 0x20 \<or> \<not> (?f ! 0 = 1 \<and> ?f ! 1 = 3))" using fl by (simp add: cv_image_def)
  have bs: "drop (unat (?f ! 4)) ?f = ?t @ ?i @ ix_list ob 0 (ob_names ob)" by (simp add: fl(9)) (simp add: cv_image_eq)
  have bss: "(ucast (x_bss (linked_exec ob)) :: u16) = of_nat (sect_size ob BSSSG)"
    by (simp only: linked_exec_def cv_exec.simps sect_size_def of_nat_unat)
  have ht: "mem_holds m a (ob_emits ob ! TEXTSG)" if "mem_holds m a ?t" for m a using that by (rule mem_holds_padded)
  show ?thesis
  proof (cases "sect_base ob ROMSG = 0")
    case True
    let ?mt = "store_at zero_mem 0 ?t" let ?md = "store_at zero_mem 0 ?i"
    have r: "fread_at zero_mem 0 ?ts (?t @ ?i @ ix_list ob 0 (ob_names ob)) = Inr ?mt"
      "drop ?ts (?t @ ?i @ ix_list ob 0 (ob_names ob)) = ?i @ ix_list ob 0 (ob_names ob)"
      "fread_at zero_mem 0 ?ds (?i @ ix_list ob 0 (ob_names ob)) = Inr ?md"
      using len fit dle by (simp_all add: fread_at_def)
    have "mem_holds ?mt 0 ?t" "mem_holds ?md 0 ?i" using len fit by (simp_all add: mem_holds_store)
    then have "mem_holds ?mt 0 (ob_emits ob ! TEXTSG)" "mem_holds ?md 0 (ob_emits ob ! ROMSG)"
      "mem_holds ?md (sect_base ob DATASG) (ob_emits ob ! DATASG)"
      using image_bytes_held [OF ob, of ?md] True ht by simp_all
    moreover have "?f ! 2 AND 0x20 \<noteq> 0" using True by (simp add: fl(7) linked_exec_def)
    ultimately show ?thesis
      unfolding minix_load2_def if_not_P [OF h] Let_def bs
      unfolding fl(1-4) sz unfolding r bss using True by (simp add: fl(8) linked_in_def text_mem_def)
  next
    case False
    then have e: "?ts = sect_base ob ROMSG" by (simp add: text_size_def)
    let ?m = "store_at zero_mem 0 (?t @ ?i)"
    have n: "?ts + ?ds = sect_base ob BSSSG" using e ord by simp
    have r: "fread_at zero_mem 0 (?ts + ?ds) (?t @ ?i @ ix_list ob 0 (ob_names ob)) = Inr ?m"
      using len fit n by (simp add: fread_at_def)
    note r = r [unfolded n]
    have "mem_holds ?m 0 (?t @ ?i)" using len fit n by (simp add: mem_holds_store)
    then have "mem_holds ?m 0 ?t" "mem_holds ?m (sect_base ob ROMSG) ?i" unfolding mem_holds_append len by (simp_all add: e)
    then have "mem_holds ?m 0 (ob_emits ob ! TEXTSG)" "mem_holds ?m (sect_base ob ROMSG) (ob_emits ob ! ROMSG)"
      "mem_holds ?m (sect_base ob DATASG) (ob_emits ob ! DATASG)"
      using image_bytes_held [OF ob, of ?m] ht by simp_all
    moreover have "\<not> (?f ! 2 AND 0x20 \<noteq> 0)" using False by (simp add: fl(7) linked_exec_def)
    ultimately show ?thesis
      unfolding minix_load2_def if_not_P [OF h] Let_def bs
      unfolding fl(1-4) sz n r bss using False by (simp add: fl(8) linked_in_def text_mem_def)
  qed
qed

section \<open>The name list\<close>






section \<open>Properties\<close>

definition minix_room :: "bytes list \<Rightarrow> bytes list \<Rightarrow> nat" where
  "minix_room args envs = 2 * (length args + length envs + 3) + even_up (args_size args + args_size envs)"

text \<open>The arguments do not touch the program below them.\<close>

lemma linked_in_args:
  assumes ob: "cv_linked ob" and l: "linked_in ob st" "v_shared st = (sect_base ob ROMSG \<noteq> 0)"
    and nz: "\<forall>s \<in> set (args @ envs). 0 \<notin> set s" and room: "sect_base ob BSSSG + minix_room args envs \<le> 0x10000"
    and sp: "v_r st SP = 0"
  shows "\<exists>st'. m_set_args args envs st = Inr st' \<and> linked_in ob st' \<and>
    unat (v_r st' SP) = 0x10000 - minix_room args envs \<and> mem16 (v_data st') (uint (v_r st' SP)) = Inr (of_nat (length args)) \<and>
    exec_args 0x8001 (v_r st' SP + 2) (v_data st') = Inr args \<and>
    exec_args 0x8001 (v_r st' SP + 2 + of_nat (2 * (length args + 1))) (v_data st') = Inr envs"
proof -
  let ?d = "0x10000 - minix_room args envs"
  have d: "?d + 2 * (length args + length envs + 3) + even_up (args_size args + args_size envs) = 0x10000" "?d < 0x10000"
    "sect_base ob BSSSG \<le> ?d"
    using room by (simp_all add: minix_room_def)
  obtain mem where m: "minix_set_args args envs 0 (v_data st) = Inr (of_nat ?d, mem)" "mem_holds mem ?d (bytes16 (of_nat (length args)))"
    "exec_args 0x8001 (of_nat ?d + 2) mem = Inr args" "exec_args 0x8001 (of_nat ?d + 2 + of_nat (2 * (length args + 1))) mem = Inr envs"
    "\<forall>n < ?d. cell mem n = cell (v_data st) n"
    using minix_set_args_ok [OF nz d(1), of "v_data st"] by blast
  have n: "mem16 mem (uint (of_nat ?d :: u16)) = Inr (of_nat (length args))"
    unfolding uint_of_nat_u16 [OF d(2)] using m(2) by (rule mem16_holds)
  let ?st = "(set_r SP (of_nat ?d) st)\<lparr>v_data := mem, v_start_sp := of_nat ?d\<rparr>"
  have r: "m_set_args args envs st = Inr ?st" by (simp add: m_set_args_def sp m(1))
  note sz = linked_sizes [OF ob]
  have e: "sect_base ob ROMSG + length (ob_emits ob ! ROMSG) \<le> ?d" "sect_base ob DATASG + length (ob_emits ob ! DATASG) \<le> ?d"
    "sect_base ob ROMSG \<noteq> 0 \<Longrightarrow> length (ob_emits ob ! TEXTSG) \<le> ?d"
    using sz d(3) by (simp_all add: text_size_def)
  have "linked_in ob ?st"
    using l e m(5) mem_holds_cong [of "v_data st" _ _ ?d mem] by (auto simp: linked_in_def text_mem_def set_r_def)
  then show ?thesis using r n m(3,4) unat_of_nat_u16 [OF d(2)]
    by (intro exI [of _ ?st] conjI) (simp_all add: set_r_def)
qed

text \<open>An object of four sections and a name, with text and data in one memory.\<close>

definition linked_obj :: obj where
  "linked_obj =
     \<lparr>ob_head = \<lparr>oh_magic = O_MAGIC, oh_stamp = O_STAMP, oh_flags = 0, oh_nsect = 4, oh_nrelo = 0, oh_nname = 1,
        oh_nemit = 6, oh_nchar = 3\<rparr>,
      ob_sects =
        [\<lparr>os_base = 0, os_size = 3, os_foff = 100, os_flen = 3, os_lign = 1\<rparr>,
         \<lparr>os_base = 4, os_size = 1, os_foff = 103, os_flen = 1, os_lign = 2\<rparr>,
         \<lparr>os_base = 6, os_size = 2, os_foff = 104, os_flen = 2, os_lign = 2\<rparr>,
         \<lparr>os_base = 8, os_size = 4, os_foff = 106, os_flen = 0, os_lign = 2\<rparr>],
      ob_emits = [[1, 2, 3], [4], [5, 6], []], ob_relos = [],
      ob_names = [\<lparr>on_foff = 118, on_type = 0x82, on_desc = 0, on_valu = 2\<rparr>], ob_chars = [95, 102, 0]\<rparr>"

lemma linked_obj_ok: "cv_linked linked_obj"
proof -
  have "wf_obj linked_obj" by code_simp
  moreover have "after linked_obj BSSSG DATASG" "after linked_obj DATASG ROMSG" "after linked_obj ROMSG TEXTSG"
    by (simp_all add: after_def sect_defs align_up_def linked_obj_def SG_defs)
  moreover have "length (ob_emits linked_obj ! i) \<le> sect_size linked_obj i" if "i < BSSSG" for i
  proof -
    have "i = 0 \<or> i = 1 \<or> i = 2" using that by (auto simp: SG_defs)
    then show ?thesis by (auto simp: sect_defs linked_obj_def)
  qed
  moreover have "\<forall>n \<in> set (ob_names linked_obj). name_ok linked_obj n"
    by (simp add: linked_obj_def name_ok_def name_str_def char_off_def name_off_def relo_off_def emit_off_def SZ_defs)
  moreover have "sect_base linked_obj TEXTSG = 0" "sect_base linked_obj ROMSG \<noteq> 0" "length (ob_sects linked_obj) = LSECT" "ob_emits linked_obj ! BSSSG = []"
    "oh_magic (ob_head linked_obj) = O_MAGIC" "oh_flags (ob_head linked_obj) AND HF_LINK = 0"
    by (simp_all add: sect_defs linked_obj_def SG_defs)
  ultimately show ?thesis by (simp add: cv_linked_def SG_defs)
qed

text \<open>The emulator without options, and its new machine.\<close>

definition no_opts :: emu_opts where
  "no_opts = \<lparr>e_dis = False, e_pdp11 = False, e_i8086 = False, e_ver = 6, e_trace = 0, e_root = [], e_args = []\<rparr>"

definition new_vm :: "vm loaded" where
  "new_vm = \<lparr>l_vm = vm0, l_tsize = 0, l_dsize = 0, l_syms = (Map.empty, Map.empty)\<rparr>"

lemma linked_obj_sizes: "text_size linked_obj = 4" "sect_base linked_obj BSSSG = 8" "length (obj_bytes linked_obj) = 121"
  by (simp_all add: text_size_def sect_defs linked_obj_def SG_defs obj_bytes_def outhead.length_enc outsect.length_enc
      outrelo.length_enc outname.length_enc SZ_defs)

text \<open>
  C36. From the linker to a running program: the converter makes an image of a linked object; the emulator takes it for a
  program of Minix, loads it, and puts the arguments and the environment on the stack. The contents of every section then
  are at the address the linker gave it, the execution starts at the text, the limit of the data is behind the bss, and
  the program finds its arguments and its environment. The sizes have to leave room for all of it in 64
  kilobytes.
\<close>

theorem converted_program:
  assumes ob: "cv_linked ob" "length (obj_bytes ob @ post) < 2 ^ 31" "ob_chars ob \<noteq> [] \<longrightarrow> alloc (length (ob_chars ob))"
    and f: "files f = Some (obj_bytes ob @ post)" "\<not> (f \<noteq> [] \<and> hd f = CHR ''-'')"
    and opt: "\<not> e_pdp11 opt" "\<not> e_i8086 opt" and sp: "v_r (l_vm l) SP = 0"
    and fit: "text_size ob \<le> 0x10000" "sect_base ob BSSSG + minix_room args envs \<le> 0x10000"
    and nz: "\<forall>s \<in> set (args @ envs). 0 \<notin> set s"
  shows "\<exists>image l' st. cv_main alloc [f] files can_create stdin = Inr (None, image) \<and> choose_machine opt image = Minix_8086 \<and>
    minix_load2 image l = Inr (Some l') \<and> v_IP (l_vm l') = 0 \<and>
    v_brksize (l_vm l') = of_nat (sect_base ob BSSSG + sect_size ob BSSSG) \<and>
    m_set_args args envs (l_vm l') = Inr st \<and> linked_in ob st \<and>
    mem16 (v_data st) (uint (v_r st SP)) = Inr (of_nat (length args)) \<and>
    exec_args 0x8001 (v_r st SP + 2) (v_data st) = Inr args \<and>
    exec_args 0x8001 (v_r st SP + 2 + of_nat (2 * (length args + 1))) (v_data st) = Inr envs"
proof -
  have b: "sect_base ob BSSSG \<le> 0x10000" using fit(2) by simp
  obtain l' where l': "minix_load2 (cv_image ob) l = Inr (Some l')" "linked_in ob (l_vm l')" "v_IP (l_vm l') = 0"
    "v_r (l_vm l') = v_r (l_vm l)" "v_shared (l_vm l') = (sect_base ob ROMSG \<noteq> 0)"
    "v_brksize (l_vm l') = of_nat (sect_base ob BSSSG + sect_size ob BSSSG)"
    using converted_loads [OF ob(1) fit(1) b] by blast
  have c: "choose_machine opt (cv_image ob) = Minix_8086"
    using opt image_fields(5,6) [of ob] by (simp add: choose_machine_def pdp_check_def v6_check_def word16_def)
  have m: "cv_main alloc [f] files can_create stdin = Inr (None, cv_image ob)"
    by (rule cv_main_image [where post = post]) (fact ob f)+
  show ?thesis
    using m c l' linked_in_args [OF ob(1) l'(2,5) nz fit(2)] sp by auto
qed

lemma converted_program_witness:
  "\<exists>image l' st. cv_main (\<lambda>_. True) [''f''] [''f'' \<mapsto> obj_bytes linked_obj @ []] (\<lambda>_. True) None = Inr (None, image) \<and>
    choose_machine no_opts image = Minix_8086 \<and> minix_load2 image new_vm = Inr (Some l') \<and> v_IP (l_vm l') = 0 \<and>
    v_brksize (l_vm l') = of_nat (sect_base linked_obj BSSSG + sect_size linked_obj BSSSG) \<and>
    m_set_args [[0x61]] [[0x62]] (l_vm l') = Inr st \<and> linked_in linked_obj st \<and>
    mem16 (v_data st) (uint (v_r st SP)) = Inr (of_nat (length [[0x61 :: byte]])) \<and>
    exec_args 0x8001 (v_r st SP + 2) (v_data st) = Inr [[0x61]] \<and>
    exec_args 0x8001 (v_r st SP + 2 + of_nat (2 * (length [[0x61 :: byte]] + 1))) (v_data st) = Inr [[0x62]]"
  by (rule converted_program [OF linked_obj_ok])
    (simp_all add: linked_obj_sizes no_opts_def new_vm_def vm0_def minix_room_def even_up_def)



end
