(* ===== verification/Ar_Arch.thy ===== *)
theory Ar_Arch
  imports Obj_Write
begin

text \<open>
  The archiver \<open>Ack-5.5/ar/archiver.c\<close>, as its makefile builds it (without \<open>AAL\<close>, which would add
  a table of contents, and without \<open>DISTRIBUTION\<close>): the files of the host by their names, the open
  descriptors as positions in them, and the routines in the order of the program.

  \<open>error(TRUE, ...)\<close> removes the temporary archive and ends the program; it yields the state it ends
  in; a name that is too long for its buffer of 256 bytes is not modelled. The modification times of the files that the program writes are the clock's and are not
  modelled; nor is a file that changes while it is read, other than by the program itself.
\<close>

section \<open>Files and descriptors\<close>

record hfile =
  h_dir :: bool
  h_read :: bool
  h_write :: bool
  h_bytes :: bytes
  h_date :: u32
  h_uid :: u32
  h_gid :: u32
  h_mode :: u32

text \<open>The archive, the temporary archive, the file that is added and the one that is extracted.\<close>

datatype handle = Arch | Temp | Source | Target

datatype dest = To handle | To_stdout | To_none

text \<open>\<open>as_new\<close> is the file that \<open>creat\<close> makes of a new name, \<open>None\<close> where it fails.\<close>

record ar =
  as_files :: "bytes \<Rightarrow> hfile option"
  as_limit :: nat
  as_new :: "bytes \<Rightarrow> hfile option"
  as_temp :: bytes
  as_fd :: "handle \<Rightarrow> bytes \<times> nat"
  as_buf :: bytes
  as_added :: ar_hdr
  as_out :: bytes
  as_err :: bytes

record ar_opts =
  f_progname :: bytes
  f_verbose :: bool
  f_app :: bool
  f_ex :: bool
  f_show :: bool
  f_pr :: bool
  f_u :: bool
  f_rep :: bool
  f_del :: bool
  f_nocr :: bool
  f_local :: bool

datatype ar_stop = Ar_exit ar | Ar_loops | Ar_undefined

definition IO_SIZE :: nat where "IO_SIZE = 10240"

text \<open>The constant strings.\<close>

definition lit :: "string \<Rightarrow> bytes" where
  "lit s = map of_char s"

definition NEWLINE :: bytes where
  "NEWLINE = [10]"

definition ar_put :: "bytes \<Rightarrow> ar \<Rightarrow> ar" where
  "ar_put s st = st\<lparr>as_out := as_out st @ s\<rparr>"

definition unlink :: "bytes \<Rightarrow> ar \<Rightarrow> ar" where
  "unlink nm st = st\<lparr>as_files := (as_files st)(nm := None)\<rparr>"

text \<open>\<open>error\<close>, without and with the end of the program.\<close>

definition ar_warn :: "bytes \<Rightarrow> ar \<Rightarrow> ar" where
  "ar_warn s st = st\<lparr>as_err := as_err st @ s\<rparr>"

definition ar_fatal :: "bytes \<Rightarrow> ar \<Rightarrow> ar_stop + 'a" where
  "ar_fatal s st = Inl (Ar_exit (unlink (as_temp st) (ar_warn s st)))"

definition content :: "bytes \<Rightarrow> ar \<Rightarrow> bytes" where
  "content nm st = (case as_files st nm of None \<Rightarrow> [] | Some f \<Rightarrow> h_bytes f)"

definition set_content :: "bytes \<Rightarrow> bytes \<Rightarrow> ar \<Rightarrow> ar" where
  "set_content nm bs st =
     st\<lparr>as_files := (as_files st)(nm := map_option (\<lambda>f. f\<lparr>h_bytes := bs\<rparr>) (as_files st nm))\<rparr>"

definition set_fd :: "handle \<Rightarrow> bytes \<Rightarrow> nat \<Rightarrow> ar \<Rightarrow> ar" where
  "set_fd h nm pos st = st\<lparr>as_fd := (as_fd st)(h := (nm, pos))\<rparr>"

text \<open>\<open>lseek(fd, n, 1)\<close>\<close>

definition skip :: "handle \<Rightarrow> nat \<Rightarrow> ar \<Rightarrow> ar" where
  "skip h n st = set_fd h (fst (as_fd st h)) (snd (as_fd st h) + n) st"

text \<open>\<open>read\<close> into \<open>io_buffer\<close>\<close>

definition ar_read :: "handle \<Rightarrow> nat \<Rightarrow> ar \<Rightarrow> bytes \<times> ar" where
  "ar_read h n st =
     (let bs = seg (content (fst (as_fd st h)) st) (snd (as_fd st h)) n
      in (bs, skip h (length bs) (st\<lparr>as_buf := blit (as_buf st) 0 bs\<rparr>)))"

text \<open>The readers of the object library; \<open>rd_fatal\<close> is the one of this program.\<close>

definition ar_rd :: "(fd \<Rightarrow> obj_error + 'a \<times> fd) \<Rightarrow> handle \<Rightarrow> ar \<Rightarrow> ar_stop + 'a \<times> ar" where
  "ar_rd f h st =
     (let (nm, pos) = as_fd st h
      in case f (Some \<lparr>fd_bytes = content nm st, fd_pos = int pos\<rparr>) of
           Inl e \<Rightarrow> ar_fatal (lit ''read error'' @ NEWLINE) st
         | Inr (x, fd') \<Rightarrow> Inr (x, case fd' of None \<Rightarrow> st | Some f' \<Rightarrow> set_fd h nm (nat (fd_pos f')) st))"

text \<open>\<open>mwrite\<close>; the writers of the object library write once and stop with the same message.\<close>

definition mwrite :: "dest \<Rightarrow> bytes \<Rightarrow> ar \<Rightarrow> ar_stop + ar" where
  "mwrite d bs st = (case d of
     To_stdout \<Rightarrow> Inr (ar_put bs st)
   | To_none \<Rightarrow> Inr st
   | To h \<Rightarrow>
       let (nm, pos) = as_fd st h; (r, f, k) = write_fd (as_limit st) bs (content nm st, Some (int pos));
           st = set_fd h nm (pos + nat r) (set_content nm f st)
       in if r = int (length bs) then Inr st else ar_fatal (lit ''write error'' @ NEWLINE) st)"

definition creat :: "bytes \<Rightarrow> ar \<Rightarrow> ar option" where
  "creat nm st = (case as_files st nm of
     None \<Rightarrow> (case as_new st nm of None \<Rightarrow> None | Some f \<Rightarrow> Some (st\<lparr>as_files := (as_files st)(nm \<mapsto> f\<lparr>h_bytes := []\<rparr>)\<rparr>))
   | Some f \<Rightarrow> if h_dir f \<or> \<not> h_write f then None else Some (set_content nm [] st))"

section \<open>Names\<close>

definition SLASH :: byte where "SLASH = 0x2f"

text \<open>\<open>basename\<close> cuts slashes off the end of its argument, in place: the path left, and its last component.\<close>

function basename :: "bytes \<Rightarrow> bytes \<times> bytes" where
  "basename path =
     (if SLASH \<notin> set path then (path, path)
      else if last path = SLASH then basename (butlast path)
      else (path, rev (takeWhile (\<lambda>c. c \<noteq> SLASH) (rev path))))"
  by pat_completeness auto
termination by (relation "measure length") (auto dest: length_pos_if_in_set)

declare basename.simps [simp del]

text \<open>The name in a field of 14 bytes, and \<open>equal\<close>.\<close>

definition name14 :: "bytes \<Rightarrow> bytes" where
  "name14 nm = c_str (take 14 nm)"

definition ar_equal :: "bytes \<Rightarrow> bytes \<Rightarrow> bool" where
  "ar_equal a b \<longleftrightarrow> name14 a = name14 b"

definition strncpy14 :: "bytes \<Rightarrow> bytes" where
  "strncpy14 s = take 14 (s @ replicate 14 0)"

text \<open>\<open>show\<close>, with the text before and after the name.\<close>

definition ar_show :: "string \<Rightarrow> bytes \<Rightarrow> ar \<Rightarrow> ar" where
  "ar_show s nm st = ar_put (lit s @ name14 nm @ NEWLINE) st"

section \<open>Opening an archive\<close>

datatype open_mode = READ | APPEND | CREATE

definition can_open :: "open_mode \<Rightarrow> bytes \<Rightarrow> ar \<Rightarrow> bool" where
  "can_open mode nm st = (case as_files st nm of
     None \<Rightarrow> False
   | Some f \<Rightarrow> h_read f \<and> (mode = APPEND \<longrightarrow> h_write f \<and> \<not> h_dir f))"

definition open_create :: "handle \<Rightarrow> bytes \<Rightarrow> ar \<Rightarrow> ar_stop + ar" where
  "open_create h nm st = (case creat nm st of
     None \<Rightarrow> ar_fatal (lit ''cannot creat '' @ nm @ NEWLINE) st
   | Some st \<Rightarrow> mwrite (To h) (put2 (ucast ARMAG)) (set_fd h nm 0 st))"

text \<open>The magic number of a file that was opened.\<close>

definition open_check :: "handle \<Rightarrow> bytes \<Rightarrow> ar \<Rightarrow> ar_stop + ar" where
  "open_check h nm st =
     bindE (ar_rd rd_unsigned2 h (set_fd h nm 0 st)) (\<lambda>(magic, st).
       if (ucast magic :: u16) \<notin> {AALMAG, ARMAG} then ar_fatal (nm @ lit '' is not in ar format'' @ NEWLINE) st
       else Inr st)"

text \<open>
  An archive that cannot be opened to append is created and opened again; if that failed too, the
  routine would call itself without end.
\<close>

definition open_archive :: "ar_opts \<Rightarrow> handle \<Rightarrow> bytes \<Rightarrow> open_mode \<Rightarrow> ar \<Rightarrow> ar_stop + ar" where
  "open_archive opt h nm mode st =
     (if mode = CREATE then open_create h nm st
      else if can_open mode nm st then open_check h nm st
      else if mode = APPEND then
        bindE (open_create h nm st) (\<lambda>st.
          let st = (if f_nocr opt then st else ar_warn (f_progname opt @ lit '': creating '' @ nm @ NEWLINE) st)
          in if can_open APPEND nm st then open_check h nm st else Inl Ar_loops)
      else ar_fatal (lit ''cannot open '' @ nm @ NEWLINE) st)"

section \<open>Members\<close>

definition even_size :: "nat \<Rightarrow> nat" where
  "even_size n = (if odd n then n + 1 else n)"

text \<open>\<open>get_member\<close>: the next header, over tables of contents; a header has 26 bytes, so that the search ends.\<close>

fun get_member :: "nat \<Rightarrow> ar \<Rightarrow> ar_stop + ar_hdr option \<times> ar" where
  "get_member 0 st = Inl Ar_loops"
| "get_member (Suc n) st =
     bindE (ar_rd rd_arhdr Arch st) (\<lambda>(m, st). case m of
       None \<Rightarrow> Inr (None, st)
     | Some h \<Rightarrow>
         if sint (ar_size h) < 0 then ar_fatal (lit ''archive has member with negative size'' @ NEWLINE) st
         else if ar_equal SYMDEF (ar_name h) then get_member n (skip Arch (unat (ar_size h)) st)
         else Inr (Some h, st))"

text \<open>\<open>copy_member\<close>, from the archive; \<open>sz\<close> is what is left of the member.\<close>

function copy_loop :: "ar_hdr \<Rightarrow> dest \<Rightarrow> nat \<Rightarrow> ar \<Rightarrow> ar_stop + ar" where
  "copy_loop h d sz st =
     (let rest = min sz IO_SIZE; (bs, st) = ar_read Arch rest st
      in if length bs \<noteq> rest then ar_fatal (lit ''read error on '' @ name14 (ar_name h) @ NEWLINE) st
         else bindE (mwrite d bs st) (\<lambda>st. if sz - rest > 0 then copy_loop h d (sz - rest) st else Inr st))"
  by pat_completeness auto
termination by (relation "measure (\<lambda>(_, _, sz, _). sz)") (auto simp: IO_SIZE_def)

declare copy_loop.simps [simp del]

definition copy_member :: "ar_hdr \<Rightarrow> dest \<Rightarrow> bool \<Rightarrow> ar \<Rightarrow> ar_stop + ar" where
  "copy_member h d extracting st =
     bindE (copy_loop h d (unat (ar_size h)) st) (\<lambda>st.
       if even (unat (ar_size h)) then Inr st
       else let st = skip Arch 1 st
            in Inr (case d of To t \<Rightarrow> if extracting then st else skip t 1 st | _ \<Rightarrow> st))"

definition ar_extract :: "ar_opts \<Rightarrow> ar_hdr \<Rightarrow> ar \<Rightarrow> ar_stop + ar" where
  "ar_extract opt h st =
     (let nm = name14 (ar_name h);
          (d, st) =
            (if f_pr opt then (To_stdout, st)
             else case creat nm st of
               None \<Rightarrow> (To_none, ar_warn (lit ''cannot create '' @ nm @ NEWLINE) st)
             | Some st \<Rightarrow> (To Target, set_fd Target nm 0 st));
          st = (if \<not> f_verbose opt then st
                else if f_pr opt then ar_put (NEWLINE @ lit ''<'' @ nm @ lit ''>'' @ NEWLINE @ NEWLINE) st
                else ar_show ''x - '' nm st)
      in bindE (copy_member h d True st) (\<lambda>st.
           Inr (if f_pr opt then st
                else st\<lparr>as_files := (as_files st)(nm := map_option (\<lambda>f. f\<lparr>h_mode := scast (ar_mode h)\<rparr>) (as_files st nm))\<rparr>)))"

text \<open>
  The loop of \<open>add\<close>; \<open>sz\<close> is \<open>status.st_size\<close>. The last block is written with an even length, with the
  byte that happens to be behind it in the buffer.
\<close>

function add_loop :: "bytes \<Rightarrow> handle \<Rightarrow> nat \<Rightarrow> ar \<Rightarrow> ar_stop + ar" where
  "add_loop nm h sz st =
     (if sz = 0 then Inr st
      else let n = min sz IO_SIZE; x = (if sz < IO_SIZE then even_size sz else IO_SIZE); (bs, st) = ar_read Source n st
           in if length bs \<noteq> n then Inr (ar_warn (nm @ lit '' seems to shrink'' @ NEWLINE) st)
              else bindE (mwrite (To h) (take x (as_buf st)) st) (add_loop nm h (sz - n)))"
  by pat_completeness auto
termination by (relation "measure (\<lambda>(_, _, sz, _). sz)") (auto simp: IO_SIZE_def)

declare add_loop.simps [simp del]

text \<open>
  \<open>add\<close>. With the flag \<open>u\<close> the date is compared with that of the member added before, in a static
  variable, and a newer one is given to the routines as a struct where they expect its address.
\<close>

definition ar_add :: "ar_opts \<Rightarrow> bytes \<Rightarrow> handle \<Rightarrow> string \<Rightarrow> ar \<Rightarrow> ar_stop + ar" where
  "ar_add opt nm h mess st = (case as_files st nm of
     None \<Rightarrow> Inr (ar_warn (lit ''cannot find '' @ nm @ NEWLINE) st)
   | Some f \<Rightarrow>
       if h_dir f then Inr (ar_warn (nm @ lit '' is a directory (ignored)'' @ NEWLINE) st)
       else if f_u opt \<and> sint (h_date f) \<le> sint (ar_date (as_added st)) then Inl Ar_undefined
       else if \<not> h_read f then Inr (ar_warn (lit ''cannot open '' @ nm @ NEWLINE) st)
       else
         let m = \<lparr>ar_name = strncpy14 (snd (basename nm)), ar_date = h_date f, ar_uid = ucast (h_uid f),
                  ar_gid = ucast (h_gid f), ar_mode = ucast (h_mode f), ar_size = of_nat (length (h_bytes f))\<rparr>
         in bindE (mwrite (To h) (enc_ar_hdr m) (set_fd Source nm 0 (st\<lparr>as_added := m\<rparr>))) (\<lambda>st.
            bindE (add_loop (fst (basename nm)) h (length (h_bytes f)) st) (\<lambda>st.
            Inr (if f_verbose opt then ar_show mess (ar_name m) st else st))))"

section \<open>The listing\<close>

definition get_mode :: "u16 \<Rightarrow> bytes" where
  "get_mode mode =
     (let m = (scast mode :: u32);
          rwx = concat (map (\<lambda>i. [if push_bit (3 * i) m AND 0x100 \<noteq> 0 then 0x72 else 0x2d,
                                  if push_bit (3 * i) m AND 0x80 \<noteq> 0 then 0x77 else 0x2d,
                                  if push_bit (3 * i) m AND 0x40 \<noteq> 0 then 0x78 else 0x2d]) [0, 1, 2]);
          rwx = (if m AND 0x800 \<noteq> 0 then rwx[2 := 0x73] else rwx);
          rwx = (if m AND 0x400 \<noteq> 0 then rwx[5 := 0x73] else rwx)
      in rwx @ [0x20])"

definition pad_left :: "nat \<Rightarrow> string \<Rightarrow> bytes" where
  "pad_left n s = lit (replicate (n - length s) CHR '' '' @ s)"

text \<open>
  One line of the table of contents; \<open>ctime\<close> is the routine of the C library. Without \<open>v\<close> the name
  is itself the format of \<open>printf\<close>.
\<close>

definition ar_line :: "(u32 \<Rightarrow> bytes) \<Rightarrow> ar_opts \<Rightarrow> ar_hdr \<Rightarrow> ar \<Rightarrow> ar_stop + ar" where
  "ar_line ctime opt h st =
     (let buf = name14 (ar_name h) @ NEWLINE; date = ctime (ar_date h)
      in if f_verbose opt then
           Inr (ar_put (get_mode (ar_mode h) @ pad_left 3 (fmt_d (uint (ar_uid h))) @ lit ''/'' @ lit (fmt_d (uint (ar_gid h))) @
             pad_left 7 (fmt_d (sint (ar_size h))) @ lit '' '' @ drop 4 (take 16 date) @ lit '' '' @ drop 20 (take 24 date) @
             lit '' '' @ buf) st)
         else if 0x25 \<in> set buf then Inl Ar_undefined
         else Inr (ar_put buf st))"

section \<open>The passes\<close>

text \<open>The argument a member is named by: its index, and the arguments as \<open>basename\<close> leaves them.\<close>

fun find_arg :: "bytes \<Rightarrow> bytes list \<Rightarrow> bytes list \<times> nat" where
  "find_arg nm [] = ([], 0)"
| "find_arg nm (a # as) =
     (let (a, b) = basename a
      in if ar_equal b nm then (a # as, 0) else let (as, i) = find_arg nm as in (a # as, Suc i))"

text \<open>A member that is not named, or any member when appending: it is kept.\<close>

definition keep_member :: "ar_opts \<Rightarrow> bytes list \<Rightarrow> nat \<Rightarrow> ar_hdr \<Rightarrow> ar \<Rightarrow> ar_stop + bytes list \<times> ar" where
  "keep_member opt args i h st =
     (if f_rep opt \<or> f_del opt then
        bindE (mwrite (To Temp) (enc_ar_hdr h) st) (\<lambda>st.
        bindE (copy_member h (To Temp) False st) (\<lambda>st. Inr (args, st)))
      else
        let named = (f_app opt \<and> i \<noteq> length args);
            st = (if named then ar_put (args ! i @ lit '': already in archive'' @ NEWLINE) st else st)
        in Inr (if named then args[i := []] else args, skip Arch (even_size (unat (ar_size h))) st))"

text \<open>A member that is named.\<close>

definition take_member :: "(u32 \<Rightarrow> bytes) \<Rightarrow> ar_opts \<Rightarrow> bytes list \<Rightarrow> nat \<Rightarrow> ar_hdr \<Rightarrow> ar \<Rightarrow> ar_stop + ar" where
  "take_member ctime opt args i h st =
     (if f_ex opt \<or> f_pr opt then ar_extract opt h st
      else bindE (if f_rep opt then ar_add opt (args ! i) Temp ''r - '' st
                  else if f_show opt then ar_line ctime opt h st
                  else if f_del opt then Inr (ar_show ''d - '' (ar_name h) st)
                  else Inr st)
             (\<lambda>st. Inr (skip Arch (even_size (unat (ar_size h))) st)))"

text \<open>The loop over the members, one round for each header.\<close>

fun get_loop :: "(u32 \<Rightarrow> bytes) \<Rightarrow> ar_opts \<Rightarrow> nat \<Rightarrow> bytes list \<Rightarrow> ar \<Rightarrow> ar_stop + bytes list \<times> ar" where
  "get_loop ctime opt 0 args st = Inl Ar_loops"
| "get_loop ctime opt (Suc n) args st =
     bindE (get_member (Suc n) st) (\<lambda>(m, st). case m of
       None \<Rightarrow> Inr (args, st)
     | Some h \<Rightarrow>
         let (args, i) = find_arg (ar_name h) args
         in if args \<noteq> [] \<and> (i = length args \<or> f_app opt) then
              bindE (keep_member opt args i h st) (\<lambda>(args, st). get_loop ctime opt n args st)
            else bindE (take_member ctime opt args i h st) (\<lambda>st. get_loop ctime opt n (args[i := []]) st))"

text \<open>The arguments that are left.\<close>

fun rest_loop :: "ar_opts \<Rightarrow> bytes list \<Rightarrow> ar \<Rightarrow> ar_stop + ar" where
  "rest_loop opt [] st = Inr st"
| "rest_loop opt (a # as) st =
     bindE (if a = [] then Inr st
            else if f_app opt then ar_add opt a Arch ''a - '' st
            else if f_rep opt then ar_add opt a Temp ''a - '' st
            else Inr (ar_put (a @ lit '': not found'' @ NEWLINE) st))
       (rest_loop opt as)"

text \<open>The temporary archive is copied over the archive; \<open>n\<close> bounds the blocks.\<close>

fun copy_back :: "nat \<Rightarrow> ar \<Rightarrow> ar_stop + ar" where
  "copy_back 0 st = Inl Ar_loops"
| "copy_back (Suc n) st =
     (let (bs, st) = ar_read Temp IO_SIZE st
      in if bs = [] then Inr st else bindE (mwrite (To Arch) bs st) (copy_back n))"

definition rewrite_archive :: "ar_opts \<Rightarrow> bytes \<Rightarrow> ar \<Rightarrow> ar_stop + ar" where
  "rewrite_archive opt archive st =
     bindE (open_archive opt Arch archive CREATE st) (\<lambda>st.
     bindE (open_archive opt Temp (as_temp st) APPEND st) (\<lambda>st.
     bindE (copy_back (Suc (length (content (as_temp st) st))) st) (\<lambda>st.
       Inr (unlink (as_temp st) st))))"

definition ar_get :: "(u32 \<Rightarrow> bytes) \<Rightarrow> ar_opts \<Rightarrow> bytes \<Rightarrow> bytes list \<Rightarrow> ar \<Rightarrow> ar_stop + ar" where
  "ar_get ctime opt archive args st =
     (let edit = f_rep opt \<or> f_del opt
      in bindE (open_archive opt Arch archive (if f_show opt \<or> f_pr opt \<or> f_ex opt then READ else APPEND) st) (\<lambda>st.
         bindE (if edit then open_archive opt Temp (as_temp st) CREATE st else Inr st) (\<lambda>st.
         bindE (get_loop ctime opt (Suc (length (content archive st))) args st) (\<lambda>(args, st).
         bindE (rest_loop opt args st) (\<lambda>st.
           if edit then rewrite_archive opt archive st else Inr st)))))"

section \<open>The command line\<close>

definition ar_usage :: "ar_opts \<Rightarrow> ar \<Rightarrow> ar_stop + 'a" where
  "ar_usage opt st = ar_fatal (lit ''usage: '' @ f_progname opt @ lit '' [qdprtxl][vlc] archive [file] ...'' @ NEWLINE) st"

definition no_opts :: "bytes \<Rightarrow> ar_opts" where
  "no_opts progname = \<lparr>f_progname = progname, f_verbose = False, f_app = False, f_ex = False, f_show = False, f_pr = False,
     f_u = False, f_rep = False, f_del = False, f_nocr = False, f_local = False\<rparr>"

text \<open>The letters of the first argument; the second component is \<open>needs_arg\<close>.\<close>

fun ar_letters :: "string \<Rightarrow> ar_opts \<times> bool \<Rightarrow> (ar_opts \<times> bool) option" where
  "ar_letters [] x = Some x"
| "ar_letters (c # cs) (opt, need) =
     (if c = CHR ''t'' then ar_letters cs (opt\<lparr>f_show := True\<rparr>, need)
      else if c = CHR ''v'' then ar_letters cs (opt\<lparr>f_verbose := True\<rparr>, need)
      else if c = CHR ''x'' then ar_letters cs (opt\<lparr>f_ex := True\<rparr>, need)
      else if c = CHR ''q'' then ar_letters cs (opt\<lparr>f_app := True\<rparr>, True)
      else if c = CHR ''c'' then ar_letters cs (opt\<lparr>f_nocr := True\<rparr>, need)
      else if c = CHR ''u'' then ar_letters cs (opt\<lparr>f_u := True\<rparr>, need)
      else if c = CHR ''p'' then ar_letters cs (opt\<lparr>f_pr := True\<rparr>, True)
      else if c = CHR ''d'' then ar_letters cs (opt\<lparr>f_del := True\<rparr>, True)
      else if c = CHR ''r'' then ar_letters cs (opt\<lparr>f_rep := True\<rparr>, True)
      else if c = CHR ''l'' then ar_letters cs (opt\<lparr>f_local := True\<rparr>, need)
      else None)"

text \<open>
  \<open>main\<close>: program name, letters, archive and files. \<open>mktemp\<close> completes the template of the temporary
  name, which it is given only where one is needed.
\<close>

definition ar_main :: "(u32 \<Rightarrow> bytes) \<Rightarrow> (bytes \<Rightarrow> bytes) \<Rightarrow> bytes \<Rightarrow> (string \<times> bytes \<times> bytes list) option \<Rightarrow> ar \<Rightarrow> ar_stop + ar" where
  "ar_main ctime mktemp progname argv st = (case argv of
     None \<Rightarrow> ar_usage (no_opts progname) st
   | Some (letters, archive, args) \<Rightarrow>
       (case ar_letters letters (no_opts progname, False) of
          None \<Rightarrow> ar_usage (no_opts progname) st
        | Some (opt, need) \<Rightarrow>
            if need \<and> args = [] then ar_usage opt st
            else
              let template = (if f_local opt then lit ''ar.XXXXXX'' else lit ''/tmp/ar.XXXXXX'');
                  st = st\<lparr>as_temp := template\<rparr>
              in if length (filter id [f_app opt, f_ex opt, f_del opt, f_rep opt, f_show opt, f_pr opt]) \<noteq> 1 then ar_usage opt st
                 else if f_u opt \<and> \<not> f_rep opt then ar_usage opt st
                 else ar_get ctime opt archive args
                   (if f_rep opt \<or> f_del opt then st\<lparr>as_temp := mktemp template\<rparr> else st)))"

end
