(* ===== verification/Ar_Edit.thy ===== *)
theory Ar_Edit
  imports Ar_Arch
begin

text \<open>
  Lemmas on the archiver: what it is for a file to hold a list of members, the routines that copy a
  member or add a file as writers of a stream, and the loop over the members.
\<close>

section \<open>Archives as lists of members\<close>

type_synonym member = "ar_hdr \<times> bytes"

definition wf_member :: "member \<Rightarrow> bool" where
  "wf_member m \<longleftrightarrow> length (ar_name (fst m)) = 14 \<and> unat (ar_size (fst m)) = length (snd m) \<and> length (snd m) < 2 ^ 31 \<and>
     \<not> ar_equal SYMDEF (ar_name (fst m))"

text \<open>The file holds the members from position \<open>k\<close> to its end; the byte that pads the last one may be missing.\<close>

fun holds :: "bytes \<Rightarrow> nat \<Rightarrow> member list \<Rightarrow> bool" where
  "holds f k [] \<longleftrightarrow> length f \<le> k"
| "holds f k (m # ms) \<longleftrightarrow> wf_member m \<and> k + AR_TOTAL + length (snd m) \<le> length f \<and> seg f k AR_TOTAL = enc_ar_hdr (fst m) \<and>
     seg f (k + AR_TOTAL) (length (snd m)) = snd m \<and> holds f (k + AR_TOTAL + even_size (length (snd m))) ms"

definition is_archive :: "bytes \<Rightarrow> member list \<Rightarrow> bool" where
  "is_archive f ms \<longleftrightarrow> 2 \<le> length f \<and> seg f 0 2 = put2 (ucast ARMAG) \<and> holds f 2 ms"

text \<open>The bytes of a member, with a byte to pad it.\<close>

definition member_image :: "member \<times> byte \<Rightarrow> bytes" where
  "member_image x = enc_ar_hdr (fst (fst x)) @ snd (fst x) @ (if odd (length (snd (fst x))) then [snd x] else [])"

lemma AR_TOTAL_26: "AR_TOTAL = 26" by (simp add: SZ_defs)

lemma length_enc_member: "wf_member m \<Longrightarrow> length (enc_ar_hdr (fst m)) = AR_TOTAL"
  using ar_hdr.length_enc [of "fst m"] by (simp add: wf_member_def valid_ar_hdr_def)

lemma length_member_image: "wf_member (fst x) \<Longrightarrow> length (member_image x) = AR_TOTAL + even_size (length (snd (fst x)))"
  using length_enc_member [of "fst x"] by (simp add: member_image_def even_size_def)

lemma holds_image:
  assumes "z \<le> 1" "z = 1 \<longrightarrow> xs \<noteq> [] \<and> odd (length (snd (fst (last xs))))"
  shows "\<forall>x \<in> set xs. wf_member (fst x) \<Longrightarrow> T @ replicate z 0 = u @ concat (map member_image xs) \<Longrightarrow> holds T (length u) (map fst xs)"
  using assms(2)
proof (induction xs arbitrary: u)
  case Nil
  then have "length (T @ replicate z 0) = length u" by simp
  then show ?case by simp
next
  case (Cons x xs)
  let ?m = "fst x"
  have wf: "wf_member ?m" using Cons.prems by simp
  let ?u = "u @ member_image x"
  have len: "length ?u = length u + AR_TOTAL + even_size (length (snd ?m))" using length_member_image [OF wf] by simp
  have "holds T (length ?u) (map fst xs)" (is ?rest)
  proof (cases xs)
    case Nil
    then have "length T + z = length ?u" using arg_cong [OF Cons.prems(2), of length] by simp
    with Nil show ?thesis by simp
  next
    case c: (Cons y ys)
    then show ?thesis using Cons.prems by (intro Cons.IH) auto
  qed
  have eq: "T @ replicate z 0 = u @ enc_ar_hdr (fst ?m) @ snd ?m @
      ((if odd (length (snd ?m)) then [snd x] else []) @ concat (map member_image xs))"
    using Cons.prems(2) by (simp add: member_image_def [of x])
  have short: "length u + AR_TOTAL + length (snd ?m) \<le> length T"
  proof -
    have "length T + z = length u + AR_TOTAL + length (snd ?m) + (if odd (length (snd ?m)) then 1 else 0) + length (concat (map member_image xs))"
      using arg_cong [OF eq, of length] length_enc_member [OF wf] by simp
    moreover have "z \<le> (if odd (length (snd ?m)) then 1 else 0) + length (concat (map member_image xs))"
    proof (cases "z = 1 \<and> even (length (snd ?m))")
      case True
      then obtain y ys where "xs = y # ys" using Cons.prems(3) by (cases xs) auto
      then show ?thesis using assms(1) Cons.prems(1) length_member_image [of y] by (simp add: AR_TOTAL_26)
    next
      case False
      then show ?thesis using assms(1) by auto
    qed
    ultimately show ?thesis by linarith
  qed
  have s1: "seg (T @ replicate z 0) (length u) AR_TOTAL = enc_ar_hdr (fst ?m)"
    unfolding eq by (rule seg_append_exact) (simp_all add: length_enc_member [OF wf])
  have s2: "seg (T @ replicate z 0) (length u + AR_TOTAL) (length (snd ?m)) = snd ?m"
    using seg_append_exact [of "u @ enc_ar_hdr (fst ?m)" _ "snd ?m"] length_enc_member [OF wf] unfolding eq by simp
  have "seg T (length u) AR_TOTAL = enc_ar_hdr (fst ?m)" "seg T (length u + AR_TOTAL) (length (snd ?m)) = snd ?m"
    using s1 s2 short by (simp_all add: seg_append_left)
  with \<open>?rest\<close> short wf len show ?case by (simp add: add.assoc)
qed

lemma holds_wf: "holds f k ms \<Longrightarrow> \<forall>m \<in> set ms. wf_member m"
  by (induction ms arbitrary: k) auto

section \<open>The header that is read\<close>

lemma get_member_Some:
  assumes "holds f k (m # ms)" "as_fd st Arch = (a, k)" "content a st = f"
  shows "get_member (Suc n) st = Inr (Some (fst m), set_fd Arch a (k + AR_TOTAL) st)"
proof -
  have m: "wf_member m" "k + AR_TOTAL \<le> length f" "seg f k AR_TOTAL = enc_ar_hdr (fst m)" using assms(1) by simp_all
  have "read_fd (int AR_TOTAL) (Some \<lparr>fd_bytes = f, fd_pos = int k\<rparr>) =
      (int AR_TOTAL, enc_ar_hdr (fst m), Some \<lparr>fd_bytes = f, fd_pos = int (k + AR_TOTAL)\<rparr>)"
    using m length_enc_member [OF m(1)] by (simp add: read_fd_def)
  moreover have "dec_ar_hdr (enc_ar_hdr (fst m)) = fst m"
    using m(1) by (intro ar_hdr.dec_enc) (simp add: valid_ar_hdr_def wf_member_def)
  ultimately have r: "ar_rd rd_arhdr Arch st = Inr (Some (fst m), set_fd Arch a (k + AR_TOTAL) st)"
    using assms(2,3) by (simp add: ar_rd_def rd_arhdr_def AR_TOTAL_26 nat_add_distrib)
  have "unat (ar_size (fst m)) < 2 ^ 31" using m(1) by (simp add: wf_member_def)
  then have "0 \<le> sint (ar_size (fst m))" by (subst sint_u32_small) simp_all
  then show ?thesis using m(1) by (simp add: r wf_member_def)
qed

lemma get_member_None:
  assumes "holds f k []" "as_fd st Arch = (a, k)" "content a st = f"
  shows "get_member (Suc n) st = Inr (None, st)"
proof -
  have "read_fd (int AR_TOTAL) (Some \<lparr>fd_bytes = f, fd_pos = int k\<rparr>) = (0, [], Some \<lparr>fd_bytes = f, fd_pos = int k\<rparr>)"
    using assms(1) by (simp add: read_fd_def seg_def)
  then show ?thesis using assms(2,3)
    by (simp add: ar_rd_def rd_arhdr_def set_fd_def fun_upd_idem)
qed

section \<open>Streams\<close>

text \<open>
  A run that started in \<open>st0\<close> has the file \<open>nm\<close> open on \<open>h\<close>, and what is written to it is \<open>w\<close>, except
  that a last byte that was skipped (where \<open>gap\<close>) is not in the file yet. Nothing else changed.
\<close>

definition out_state :: "ar \<Rightarrow> handle \<Rightarrow> bytes \<Rightarrow> hfile \<Rightarrow> bool \<Rightarrow> bytes \<Rightarrow> ar \<Rightarrow> bool" where
  "out_state st0 h nm f gap w st \<longleftrightarrow> (\<exists>T z. z \<le> of_bool gap \<and> w = T @ replicate z 0 \<and>
     as_files st = (as_files st0)(nm \<mapsto> f\<lparr>h_bytes := T\<rparr>)) \<and> as_fd st h = (nm, length w) \<and>
     as_limit st = as_limit st0 \<and> as_new st = as_new st0 \<and> as_temp st = as_temp st0 \<and> length (as_buf st) = IO_SIZE"

lemma out_state_gap: "out_state st0 h nm f g w st \<Longrightarrow> out_state st0 h nm f True w st"
  unfolding out_state_def by (cases g) fastforce+

text \<open>What the other fields are does not matter.\<close>

lemma out_state_other [simp]:
  "out_state st0 h nm f g w (st\<lparr>as_added := m\<rparr>) = out_state st0 h nm f g w st"
  "out_state st0 h nm f g w (st\<lparr>as_out := s\<rparr>) = out_state st0 h nm f g w st"
  "out_state st0 h nm f g w (st\<lparr>as_err := s\<rparr>) = out_state st0 h nm f g w st"
  "h' \<noteq> h \<Longrightarrow> out_state st0 h nm f g w (set_fd h' n p st) = out_state st0 h nm f g w st"
  by (simp_all add: out_state_def set_fd_def)

lemma out_state_put [simp]:
  "out_state st0 h nm f g w (ar_put s st) = out_state st0 h nm f g w st"
  "out_state st0 h nm f g w (ar_warn s st) = out_state st0 h nm f g w st"
  "out_state st0 h nm f g w (ar_show t n st) = out_state st0 h nm f g w st"
  by (simp_all add: ar_put_def ar_warn_def ar_show_def)

lemma put_at_gap: "put_at T (length T + z) bs = (if bs = [] then T else T @ replicate z 0 @ bs)"
  by (simp add: put_at_def)

lemma out_write:
  assumes "out_state st0 h nm f g w st" "length w + length bs \<le> as_limit st0"
  shows "\<exists>st'. mwrite (To h) bs st = Inr st' \<and> out_state st0 h nm f (g \<and> bs = []) (w @ bs) st' \<and>
    (\<forall>h'. h' \<noteq> h \<longrightarrow> as_fd st' h' = as_fd st h') \<and> as_buf st' = as_buf st"
proof -
  obtain T z where T: "z \<le> of_bool g" "w = T @ replicate z 0" "as_files st = (as_files st0)(nm \<mapsto> f\<lparr>h_bytes := T\<rparr>)"
    "as_fd st h = (nm, length w)" "as_limit st = as_limit st0"
    and st: "as_new st = as_new st0" "as_temp st = as_temp st0" "length (as_buf st) = IO_SIZE"
    using assms(1) by (auto simp: out_state_def)
  have c: "content nm st = T" using T(3) by (simp add: content_def)
  have w: "write_fd (as_limit st) bs (content nm st, Some (int (length w))) =
      (int (length bs), put_at T (length w) bs, Some (int (length w + length bs)))"
    using assms(2) T(5) by (simp add: write_fd_def c Let_def)
  let ?st = "set_fd h nm (length w + length bs) (set_content nm (put_at T (length w) bs) st)"
  have "mwrite (To h) bs st = Inr ?st"
    by (simp add: mwrite_def T(4) w)
  moreover have "out_state st0 h nm f (g \<and> bs = []) (w @ bs) ?st"
  proof -
    obtain T' z' where "z' \<le> of_bool (g \<and> bs = [])" "w @ bs = T' @ replicate z' 0" "put_at T (length w) bs = T'"
      using T(1,2) put_at_gap [of T z bs]
      by (cases "bs = []") (auto intro!: exI [of _ T] exI [of _ z] exI [of _ "w @ bs"] exI [of _ 0])
    moreover have "length w + length bs = length T' + z'"
      using arg_cong [OF calculation(2), of length] by simp
    moreover from calculation have "as_files ?st = (as_files st0)(nm \<mapsto> f\<lparr>h_bytes := T'\<rparr>)"
      using T(3) by (simp add: set_fd_def set_content_def)
    ultimately show ?thesis unfolding out_state_def using T(5) st
      by (intro conjI exI [of _ T'] exI [of _ z']) (simp_all add: set_fd_def set_content_def)
  qed
  ultimately show ?thesis by (auto simp: set_fd_def set_content_def)
qed

text \<open>A byte is skipped behind what was written.\<close>

lemma out_skip:
  assumes "out_state st0 h nm f False w st"
  shows "out_state st0 h nm f True (w @ [0]) (skip h 1 st)"
  using assms by (auto simp: out_state_def skip_def set_fd_def intro!: exI [of _ 1])

text \<open>The contents of a file that is not the one written.\<close>

lemma out_content: "out_state st0 h nm f g w st \<Longrightarrow> a \<noteq> nm \<Longrightarrow> content a st = content a st0"
  by (auto simp: out_state_def content_def)

lemma ar_read_eq:
  assumes "as_fd st h = (a, k)" "content a st = c" "k + n \<le> length c" "n \<le> length (as_buf st)"
  shows "ar_read h n st = (seg c k n, set_fd h a (k + n) (st\<lparr>as_buf := blit (as_buf st) 0 (seg c k n)\<rparr>))"
  using assms by (simp add: ar_read_def skip_def length_seg Let_def set_fd_def content_def)

text \<open>
  Copying a member, for any destination that takes its bytes piece by piece: \<open>P k w\<close> holds when the
  archive has been read to \<open>k\<close> and \<open>w\<close> was written.
\<close>

lemma copy_loop_inv:
  assumes step: "\<And>k w st n. P k w st \<Longrightarrow> k + n \<le> K \<Longrightarrow> n \<le> IO_SIZE \<Longrightarrow>
      \<exists>st' st''. ar_read Arch n st = (seg c k n, st') \<and> mwrite d (seg c k n) st' = Inr st'' \<and> P (k + n) (w @ seg c k n) st''"
    and K: "K \<le> length c"
  shows "P k w st \<Longrightarrow> k + sz \<le> K \<Longrightarrow> \<exists>st'. copy_loop h d sz st = Inr st' \<and> P (k + sz) (w @ seg c k sz) st'"
proof (induction sz arbitrary: k w st rule: less_induct)
  case (less sz)
  let ?n = "min sz IO_SIZE"
  obtain st' st'' where s: "ar_read Arch ?n st = (seg c k ?n, st')" "mwrite d (seg c k ?n) st' = Inr st''"
    "P (k + ?n) (w @ seg c k ?n) st''"
    using step [OF less.prems(1), of ?n] less.prems(2) by (auto simp: min_le_iff_disj intro: order_trans [OF add_left_mono [OF min.cobounded1]])
  have l: "length (seg c k ?n) = ?n" using K less.prems(2) by (simp add: length_seg)
  have u: "copy_loop h d sz st = (if sz - ?n > 0 then copy_loop h d (sz - ?n) st'' else Inr st'')"
    by (subst copy_loop.simps) (simp add: s l Let_def)
  show ?case
  proof (cases "sz - ?n > 0")
    case True
    then have n: "?n = IO_SIZE" "IO_SIZE < sz" "0 < IO_SIZE" by (auto simp: IO_SIZE_def)
    then obtain st3 where st3: "copy_loop h d (sz - ?n) st'' = Inr st3" "P (k + ?n + (sz - ?n)) ((w @ seg c k ?n) @ seg c (k + ?n) (sz - ?n)) st3"
      using less.IH [OF _ s(3), of "sz - ?n"] less.prems(2) by auto
    moreover have "seg c k ?n @ seg c (k + ?n) (sz - ?n) = seg c k sz" using seg_split [of c k ?n "sz - ?n"] n by simp
    ultimately show ?thesis using u True n by simp
  next
    case False
    then show ?thesis using u s(3) by (simp add: min_def split: if_splits)
  qed
qed

lemma out_state_read:
  assumes "out_state st0 h nm f g w st" "h' \<noteq> h" "length bs \<le> IO_SIZE"
  shows "out_state st0 h nm f g w (set_fd h' a k (st\<lparr>as_buf := blit (as_buf st) 0 bs\<rparr>))"
  using assms by (simp add: out_state_def set_fd_def length_blit)

lemma copy_loop_temp:
  assumes o: "out_state st0 Temp t f False w st" and a: "as_fd st Arch = (a, k)" "a \<noteq> t" "content a st0 = c"
    and k: "k + sz \<le> length c" "length w + sz \<le> as_limit st0"
  shows "\<exists>st'. copy_loop h (To Temp) sz st = Inr st' \<and> out_state st0 Temp t f False (w @ seg c k sz) st' \<and> as_fd st' Arch = (a, k + sz)"
proof -
  define P where "P = (\<lambda>k' w' st'. out_state st0 Temp t f False (w @ w') st' \<and> as_fd st' Arch = (a, k') \<and> length w' = k' - k \<and> k \<le> k')"
  have "\<exists>st'. copy_loop h (To Temp) sz st = Inr st' \<and> P (k + sz) ([] @ seg c k sz) st'"
  proof (rule copy_loop_inv [where K = "k + sz"])
    fix k' w' st' n
    assume p: "P k' w' st'" "k' + n \<le> k + sz" "n \<le> IO_SIZE"
    have buf: "length (as_buf st') = IO_SIZE" using p(1) by (simp add: P_def out_state_def)
    have r: "ar_read Arch n st' = (seg c k' n, set_fd Arch a (k' + n) (st'\<lparr>as_buf := blit (as_buf st') 0 (seg c k' n)\<rparr>))"
      using p k(1) a out_content [of st0 Temp t f False "w @ w'" st' a] buf by (intro ar_read_eq) (auto simp: P_def)
    have l: "length (seg c k' n) = n" using p(2) k(1) by (simp add: length_seg)
    have os: "out_state st0 Temp t f False (w @ w') (set_fd Arch a (k' + n) (st'\<lparr>as_buf := blit (as_buf st') 0 (seg c k' n)\<rparr>))"
      using p l by (intro out_state_read) (simp_all add: P_def)
    have lim: "length (w @ w') + length (seg c k' n) \<le> as_limit st0" using p k(2) l by (simp add: P_def)
    obtain st'' where "mwrite (To Temp) (seg c k' n) (set_fd Arch a (k' + n) (st'\<lparr>as_buf := blit (as_buf st') 0 (seg c k' n)\<rparr>)) = Inr st''"
      "out_state st0 Temp t f False ((w @ w') @ seg c k' n) st''" "as_fd st'' Arch = (a, k' + n)"
      using out_write [OF os lim] by (auto simp: set_fd_def)
    then show "\<exists>st'' st3. ar_read Arch n st' = (seg c k' n, st'') \<and> mwrite (To Temp) (seg c k' n) st'' = Inr st3 \<and> P (k' + n) (w' @ seg c k' n) st3"
      using r p l by (auto simp: P_def)
  qed (use k o a in \<open>auto simp: P_def\<close>)
  then show ?thesis by (auto simp: P_def)
qed

lemma even_size_le: "n \<le> even_size n" "even_size n \<le> n + 1" "even (even_size n)"
  by (auto simp: even_size_def)

text \<open>A member that is kept.\<close>

lemma keep_temp:
  assumes o: "out_state st0 Temp t f g w st" and a: "as_fd st Arch = (a, k + AR_TOTAL)" "a \<noteq> t" "content a st0 = c"
    and h: "holds c k (m # ms)" and lim: "length w + AR_TOTAL + even_size (length (snd m)) \<le> as_limit st0"
  shows "\<exists>st'. bindE (mwrite (To Temp) (enc_ar_hdr (fst m)) st) (copy_member (fst m) (To Temp) False) = Inr st' \<and>
    out_state st0 Temp t f (odd (length (snd m))) (w @ member_image (m, 0)) st' \<and>
    as_fd st' Arch = (a, k + AR_TOTAL + even_size (length (snd m)))"
proof -
  let ?n = "length (snd m)"
  have m: "wf_member m" "k + AR_TOTAL + ?n \<le> length c" "seg c (k + AR_TOTAL) ?n = snd m" "unat (ar_size (fst m)) = ?n"
    using h by (simp_all add: wf_member_def)
  have e: "length (enc_ar_hdr (fst m)) = AR_TOTAL" "enc_ar_hdr (fst m) \<noteq> []"
    using length_enc_member [OF m(1)] by (auto simp: AR_TOTAL_26)
  obtain st1 where st1: "mwrite (To Temp) (enc_ar_hdr (fst m)) st = Inr st1" "out_state st0 Temp t f False (w @ enc_ar_hdr (fst m)) st1"
    "as_fd st1 Arch = (a, k + AR_TOTAL)"
    using out_write [OF o, of "enc_ar_hdr (fst m)"] e lim even_size_le(1) [of ?n] a(1) by auto
  obtain st2 where st2: "copy_loop (fst m) (To Temp) ?n st1 = Inr st2" "as_fd st2 Arch = (a, k + AR_TOTAL + ?n)"
    "out_state st0 Temp t f False ((w @ enc_ar_hdr (fst m)) @ snd m) st2"
    using copy_loop_temp [OF st1(2,3) a(2,3), of ?n "fst m"] m(2,3) e(1) lim even_size_le(1) [of ?n] by auto
  show ?thesis
  proof (cases "odd ?n")
    case True
    have "out_state st0 Temp t f True (((w @ enc_ar_hdr (fst m)) @ snd m) @ [0]) (skip Temp 1 (skip Arch 1 st2))"
      using st2(3) by (intro out_skip) (simp add: skip_def [of Arch])
    with True st1(1) st2(1,2) m(4) show ?thesis
      by (simp add: copy_member_def member_image_def even_size_def skip_def set_fd_def)
  next
    case False
    with st1(1) st2 m(4) show ?thesis by (simp add: copy_member_def member_image_def even_size_def)
  qed
qed

text \<open>A file that is added: its member, with the byte that pads it.\<close>

definition new_header :: "bytes \<Rightarrow> hfile \<Rightarrow> ar_hdr" where
  "new_header nm f = \<lparr>ar_name = strncpy14 (snd (basename nm)), ar_date = h_date f, ar_uid = ucast (h_uid f),
     ar_gid = ucast (h_gid f), ar_mode = ucast (h_mode f), ar_size = of_nat (length (h_bytes f))\<rparr>"

definition new_member :: "bytes \<Rightarrow> hfile \<Rightarrow> member" where
  "new_member nm f = (new_header nm f, h_bytes f)"

lemma add_loop_out:
  assumes "out_state st0 h t f g w st" "as_fd st Source = (x, k)" "content x st0 = c" "x \<noteq> t" "h \<noteq> Source" "k + sz = length c"
    "length w + even_size sz \<le> as_limit st0"
  shows "\<exists>st' pad. add_loop y h sz st = Inr st' \<and> out_state st0 h t f (g \<and> sz = 0) (w @ drop k c @ (if odd sz then [pad] else [])) st' \<and>
    (\<forall>h'. h' \<noteq> h \<and> h' \<noteq> Source \<longrightarrow> as_fd st' h' = as_fd st h')"
  using assms
proof (induction sz arbitrary: k w st g rule: less_induct)
  case (less sz)
  show ?case
  proof (cases "sz = 0")
    case True
    then show ?thesis using less.prems by (subst add_loop.simps) simp
  next
    case False
    let ?n = "min sz IO_SIZE" let ?x = "if sz < IO_SIZE then even_size sz else IO_SIZE"
    let ?bs = "seg c k ?n"
    let ?st = "set_fd Source x (k + ?n) (st\<lparr>as_buf := blit (as_buf st) 0 ?bs\<rparr>)"
    have buf: "length (as_buf st) = IO_SIZE" using less.prems(1) by (simp add: out_state_def)
    have l: "length ?bs = ?n" using less.prems(6) by (simp add: length_seg)
    have r: "ar_read Source ?n st = (?bs, ?st)"
      using less.prems buf out_content [OF less.prems(1), of x] by (intro ar_read_eq) auto
    have even_IO: "even IO_SIZE" by (simp add: IO_SIZE_def)
    have x: "?n \<le> ?x" "?x \<le> IO_SIZE" "?x \<le> ?n + 1"
      using even_IO by (auto simp: even_size_def min_def elim!: oddE evenE)
    define out where "out = take ?x (as_buf ?st)"
    have bst: "as_buf ?st = ?bs @ drop ?n (as_buf st)" by (simp add: set_fd_def blit_def l)
    obtain pad where out: "out = ?bs @ (if odd ?n then [pad] else [])"
    proof (cases "?x = ?n")
      case True
      then have "even ?n" using even_IO by (auto simp: even_size_def min_def split: if_splits)
      moreover have "out = ?bs" unfolding out_def True bst using l by simp
      ultimately show ?thesis using that by simp
    next
      case False
      then have o: "odd ?n" "?x = ?n + 1" "?n < IO_SIZE"
        using even_IO by (auto simp: even_size_def min_def split: if_splits)
      have "take ?x (as_buf ?st) = ?bs @ take 1 (drop ?n (as_buf st))"
        using bst o(2) l by simp
      moreover obtain b where "take 1 (drop ?n (as_buf st)) = [b]"
        using o(3) buf by (cases "drop ?n (as_buf st)") auto
      ultimately show ?thesis using o(1) that by (simp add: out_def)
    qed
    have ne: "out \<noteq> []" using False out l by (auto simp: IO_SIZE_def)
    have lo: "length out = even_size ?n" using out l by (simp add: even_size_def)
    have os: "out_state st0 h t f g w ?st"
      using less.prems(1,5) l by (intro out_state_read) auto
    have "even_size ?n \<le> even_size sz" using even_IO by (auto simp: even_size_def min_def)
    then have lim: "length w + length out \<le> as_limit st0" using less.prems(7) lo by simp
    obtain st1 where st1: "mwrite (To h) out ?st = Inr st1" "out_state st0 h t f False (w @ out) st1"
      "\<forall>h'. h' \<noteq> h \<longrightarrow> as_fd st1 h' = as_fd ?st h'"
      using out_write [OF os lim] ne by auto
    have u: "add_loop y h sz st = add_loop y h (sz - ?n) st1"
      using False r l st1(1) by (subst add_loop.simps) (simp add: Let_def out_def)
    have n0: "0 < ?n" using False by (simp add: IO_SIZE_def)
    have fd: "as_fd st1 Source = (x, k + ?n)" using st1(3) less.prems(5) by (auto simp: set_fd_def)
    have "even_size ?n + even_size (sz - ?n) = even_size sz"
    proof (cases "sz \<le> IO_SIZE")
      case True
      then show ?thesis by (simp add: min_def even_size_def)
    next
      case False
      then show ?thesis using even_IO by (simp add: min_def even_size_def)
    qed
    then have lim1: "length (w @ out) + even_size (sz - ?n) \<le> as_limit st0"
      using less.prems(7) lo by simp
    have a1: "sz - ?n < sz" and a2: "k + ?n + (sz - ?n) = length c" using n0 False less.prems(6) by auto
    obtain st' pad' where st': "add_loop y h (sz - ?n) st1 = Inr st'"
      "out_state st0 h t f False ((w @ out) @ drop (k + ?n) c @ (if odd (sz - ?n) then [pad'] else [])) st'"
      "\<forall>h'. h' \<noteq> h \<and> h' \<noteq> Source \<longrightarrow> as_fd st' h' = as_fd st1 h'"
      using less.IH [OF a1 st1(2) fd less.prems(3,4,5) a2 lim1] unfolding simp_thms by blast
    have d: "?bs @ drop (k + ?n) c = drop k c"
      using append_take_drop_id [of ?n "drop k c"] by (simp add: seg_def add.commute)
    have w: "(w @ out) @ drop (k + ?n) c @ (if odd (sz - ?n) then [pad'] else []) =
        w @ drop k c @ (if odd sz then [if sz \<le> IO_SIZE then pad else pad'] else [])"
    proof (cases "sz \<le> IO_SIZE")
      case True
      then show ?thesis using out less.prems(6) d by (simp add: min_def)
    next
      case False
      then show ?thesis using out d even_IO by (auto simp: min_def)
    qed
    have "\<forall>h'. h' \<noteq> h \<and> h' \<noteq> Source \<longrightarrow> as_fd st' h' = as_fd st h'"
      using st'(3) st1(3) by (simp add: set_fd_def)
    then show ?thesis using u st'(1,2) False unfolding w by auto
  qed
qed

lemma length_enc_new: "length (enc_ar_hdr (new_header nm f)) = AR_TOTAL"
proof -
  have "length (strncpy14 s) = 14" for s by (simp add: strncpy14_def)
  then have "valid_ar_hdr (new_header nm f)" by (simp add: valid_ar_hdr_def new_header_def)
  then show ?thesis by (rule ar_hdr.length_enc)
qed

lemma add_out:
  assumes o: "out_state st0 h t f g w st" and x: "as_files st0 x = Some fx" "x \<noteq> t" "\<not> h_dir fx" "h_read fx"
    and n: "\<not> f_u opt" "h \<noteq> Source" "length w + AR_TOTAL + even_size (length (h_bytes fx)) \<le> as_limit st0"
  shows "\<exists>st' pad. ar_add opt x h mess st = Inr st' \<and> out_state st0 h t f False (w @ member_image (new_member x fx, pad)) st' \<and>
    (\<forall>h'. h' \<noteq> h \<and> h' \<noteq> Source \<longrightarrow> as_fd st' h' = as_fd st h')"
proof -
  let ?m = "new_header x fx"
  let ?st = "set_fd Source x 0 (st\<lparr>as_added := ?m\<rparr>)"
  have fx: "as_files st x = Some fx" using o x(1,2) by (auto simp: out_state_def)
  have e: "length (enc_ar_hdr ?m) = AR_TOTAL" "enc_ar_hdr ?m \<noteq> []"
    using length_enc_new [of x fx] by (auto simp: AR_TOTAL_26)
  have o': "out_state st0 h t f g w ?st" using o n(2) by simp
  obtain st1 where st1: "mwrite (To h) (enc_ar_hdr ?m) ?st = Inr st1" "out_state st0 h t f False (w @ enc_ar_hdr ?m) st1"
    "\<forall>h'. h' \<noteq> h \<longrightarrow> as_fd st1 h' = as_fd ?st h'"
    using out_write [OF o', of "enc_ar_hdr ?m"] e n(3) even_size_le(1) [of "length (h_bytes fx)"] by auto
  have "as_fd st1 Source = (x, 0)" using st1(3) n(2) by (auto simp: set_fd_def)
  moreover have "content x st0 = h_bytes fx" using x(1) by (simp add: content_def)
  ultimately obtain st2 pad where st2: "add_loop (fst (basename x)) h (length (h_bytes fx)) st1 = Inr st2"
    "out_state st0 h t f False ((w @ enc_ar_hdr ?m) @ h_bytes fx @ (if odd (length (h_bytes fx)) then [pad] else [])) st2"
    "\<forall>h'. h' \<noteq> h \<and> h' \<noteq> Source \<longrightarrow> as_fd st2 h' = as_fd st1 h'"
    using add_loop_out [OF st1(2), of x 0 "h_bytes fx" "length (h_bytes fx)" "fst (basename x)"] x(2) n(2,3) e(1) by auto
  let ?st' = "if f_verbose opt then ar_show mess (ar_name ?m) st2 else st2"
  have "ar_add opt x h mess st = Inr ?st'"
    using st1(1) st2(1) x(3,4) n(1) by (simp add: ar_add_def fx Let_def new_header_def)
  moreover have "out_state st0 h t f False (w @ member_image (new_member x fx, pad)) ?st'"
    using st2(2) by (cases "odd (length (h_bytes fx))") (simp_all add: member_image_def new_member_def)
  moreover have "\<forall>h'. h' \<noteq> h \<and> h' \<noteq> Source \<longrightarrow> as_fd ?st' h' = as_fd st h'"
    using st1(3) st2(3) by (simp add: ar_show_def ar_put_def set_fd_def)
  ultimately show ?thesis by blast
qed

section \<open>The loop that edits an archive\<close>

text \<open>
  What deleting (\<open>sub\<close> yields nothing) and replacing make of the members, with the arguments that are
  left: every member that an argument names is substituted, and the argument is used up.
\<close>

fun edit_members :: "(bytes \<Rightarrow> member list) \<Rightarrow> bytes list \<Rightarrow> member list \<Rightarrow> member list \<times> bytes list" where
  "edit_members sub args [] = ([], args)"
| "edit_members sub args (m # ms) =
     (let (args, i) = find_arg (ar_name (fst m)) args
      in if i = length args then let (r, left) = edit_members sub args ms in (m # r, left)
         else let (r, left) = edit_members sub (args[i := []]) ms in (sub (args ! i) @ r, left))"

lemma find_arg_le: "find_arg nm args = (args', i) \<Longrightarrow> length args' = length args \<and> i \<le> length args"
  by (induction args arbitrary: args' i) (auto split: prod.splits if_splits)

text \<open>
  What the routine \<open>add\<close> makes of a name: nothing, where there is no such file, it is a directory or
  it cannot be read.
\<close>

definition sub_for :: "ar_opts \<Rightarrow> ar \<Rightarrow> bytes \<Rightarrow> member list" where
  "sub_for opt st x = (case as_files st x of
     None \<Rightarrow> []
   | Some f \<Rightarrow> if (f_rep opt \<or> f_app opt) \<and> \<not> h_dir f \<and> h_read f then [new_member x f] else [])"

definition rest_members :: "(bytes \<Rightarrow> member list) \<Rightarrow> bytes list \<Rightarrow> member list" where
  "rest_members sub args = concat (map sub (filter (\<lambda>a. a \<noteq> []) args))"

text \<open>The members of the archive that \<open>d\<close> and \<open>r\<close> leave.\<close>

definition edited :: "(bytes \<Rightarrow> member list) \<Rightarrow> bytes list \<Rightarrow> member list \<Rightarrow> member list" where
  "edited sub args ms = (let (r, left) = edit_members sub args ms in r @ rest_members sub left)"

definition members_size :: "member list \<Rightarrow> nat" where
  "members_size ms = sum_list (map (\<lambda>m. AR_TOTAL + even_size (length (snd m))) ms)"

lemma members_size_simps [simp]:
  "members_size [] = 0"
  "members_size (m # ms) = AR_TOTAL + even_size (length (snd m)) + members_size ms"
  "members_size (ms @ ns) = members_size ms + members_size ns"
  by (simp_all add: members_size_def)

lemma length_images:
  "\<forall>x \<in> set xs. wf_member (fst x) \<Longrightarrow> length (concat (map member_image xs)) = members_size (map fst xs)"
  by (induction xs) (simp_all add: length_member_image)

text \<open>
  The archive under construction: on \<open>h\<close>, after the bytes \<open>w\<close>, the members \<open>xs\<close> with the bytes that
  pad them.
\<close>

definition building :: "ar \<Rightarrow> handle \<Rightarrow> bytes \<Rightarrow> hfile \<Rightarrow> bytes \<Rightarrow> (member \<times> byte) list \<Rightarrow> ar \<Rightarrow> bool" where
  "building st0 h t f w xs st \<longleftrightarrow> (\<forall>x \<in> set xs. wf_member (fst x)) \<and>
     (\<exists>g. out_state st0 h t f g (w @ concat (map member_image xs)) st \<and> (g \<longrightarrow> xs \<noteq> [] \<and> odd (length (snd (fst (last xs))))))"

lemma building_other [simp]:
  "building st0 h nm f w xs (ar_put s st) = building st0 h nm f w xs st"
  "building st0 h nm f w xs (ar_warn s st) = building st0 h nm f w xs st"
  "building st0 h nm f w xs (ar_show ms nm14 st) = building st0 h nm f w xs st"
  "h' \<noteq> h \<Longrightarrow> building st0 h nm f w xs (skip h' n st) = building st0 h nm f w xs st"
  by (simp_all add: building_def skip_def)

lemma building_add:
  assumes b: "building st0 h t f w xs st" and x: "x \<noteq> t" "\<forall>m \<in> set (sub_for opt st0 x). wf_member m"
    and n: "\<not> f_u opt" "f_rep opt \<or> f_app opt" "h \<noteq> Source" "length w + members_size (map fst xs @ sub_for opt st0 x) \<le> as_limit st0"
  shows "\<exists>st' ys. ar_add opt x h mess st = Inr st' \<and> building st0 h t f w (xs @ ys) st' \<and> map fst ys = sub_for opt st0 x \<and>
    (\<forall>h'. h' \<noteq> h \<and> h' \<noteq> Source \<longrightarrow> as_fd st' h' = as_fd st h')"
proof -
  obtain g where g: "out_state st0 h t f g (w @ concat (map member_image xs)) st" and wf: "\<forall>x \<in> set xs. wf_member (fst x)"
    using b by (auto simp: building_def)
  have fx: "as_files st x = as_files st0 x" using g x(1) by (auto simp: out_state_def)
  show ?thesis
  proof (cases "sub_for opt st0 x")
    case Nil
    then have "\<exists>s. ar_add opt x h mess st = Inr (ar_warn s st)"
      using n(1,2) fx by (auto simp: sub_for_def ar_add_def split: option.splits if_splits)
    then obtain s where s: "ar_add opt x h mess st = Inr (ar_warn s st)" by blast
    have "as_fd (ar_warn s st) = as_fd st" by (simp add: ar_warn_def)
    then show ?thesis using b Nil by (intro exI [of _ "ar_warn s st"] exI [of _ "[]"]) (simp add: s)
  next
    case (Cons m ms)
    then obtain fx where f: "as_files st0 x = Some fx" "\<not> h_dir fx" "h_read fx" "m = new_member x fx" "ms = []"
      by (auto simp: sub_for_def split: option.splits if_splits)
    have m: "wf_member m" using x(2) Cons by simp
    have "length (w @ concat (map member_image xs)) + AR_TOTAL + even_size (length (h_bytes fx)) \<le> as_limit st0"
      using n(4) f(4,5) Cons length_images [OF wf] by (simp add: new_member_def)
    then obtain st' pad where "ar_add opt x h mess st = Inr st'"
      "out_state st0 h t f False ((w @ concat (map member_image xs)) @ member_image (m, pad)) st'"
      "\<forall>h'. h' \<noteq> h \<and> h' \<noteq> Source \<longrightarrow> as_fd st' h' = as_fd st h'"
      using add_out [OF g f(1) x(1) f(2,3) n(1,3)] f(4) by blast
    then show ?thesis using Cons f(5) m wf
      by (intro exI [of _ st'] exI [of _ "[(m, pad)]"]) (auto simp: building_def)
  qed
qed

text \<open>The arguments that \<open>basename\<close> leaves as they are: those without slashes at the end.\<close>

definition trimmed :: "bytes list \<Rightarrow> bool" where
  "trimmed args \<longleftrightarrow> (\<forall>a \<in> set args. fst (basename a) = a)"

lemma find_arg_trimmed: "trimmed args \<Longrightarrow> fst (find_arg nm args) = args"
  by (induction args) (auto simp: trimmed_def Let_def split: prod.splits)

lemma trimmed_update: "trimmed args \<Longrightarrow> trimmed (args[i := []])"
  using set_update_subset_insert [of args i "[]"] by (auto simp: trimmed_def basename.simps [of "[]"])

lemma edit_members_left:
  assumes "trimmed args" "edit_members sub args ms = (r, left)"
  shows "set left \<subseteq> insert [] (set args)"
  using assms
proof (induction ms arbitrary: args r)
  case (Cons m ms)
  obtain i where i: "find_arg (ar_name (fst m)) args = (args, i)"
    using find_arg_trimmed [OF Cons.prems(1)] by (metis prod.collapse)
  have "set (args[i := []]) \<subseteq> insert [] (set args)" by (rule set_update_subset_insert)
  then show ?case using Cons.IH [OF Cons.prems(1)] Cons.IH [OF trimmed_update [OF Cons.prems(1)], of i] Cons.prems(2) i
    by (fastforce simp: Let_def split: prod.splits if_splits)
qed auto

text \<open>The loop that deletes or replaces.\<close>

definition editing :: "ar_opts \<Rightarrow> bool" where
  "editing opt \<longleftrightarrow> f_rep opt \<noteq> f_del opt \<and> \<not> f_app opt \<and> \<not> f_ex opt \<and> \<not> f_pr opt \<and> \<not> f_show opt \<and> \<not> f_u opt"

lemma edit_loop:
  assumes "editing opt" "args \<noteq> []" "holds c k ms" "as_fd st Arch = (a, k)" "a \<noteq> t" "content a st0 = c" "length ms < n"
    "trimmed args" "\<forall>x \<in> insert [] (set args). x \<noteq> t \<and> (\<forall>m \<in> set (sub_for opt st0 x). wf_member m)"
    "building st0 Temp t f w xs st" "edit_members (sub_for opt st0) args ms = (r, left)"
    "length w + members_size (map fst xs @ r) \<le> as_limit st0"
  shows "\<exists>st' ys. get_loop ctime opt n args st = Inr (left, st') \<and> building st0 Temp t f w (xs @ ys) st' \<and> map fst ys = r"
  using assms
proof (induction ms arbitrary: k st args xs n r)
  case Nil
  obtain g where "out_state st0 Temp t f g (w @ concat (map member_image xs)) st" using Nil.prems(10) by (auto simp: building_def)
  then have "content a st = c" using out_content Nil.prems(5,6) by metis
  moreover obtain n' where "n = Suc n'" using Nil.prems(7) by (cases n) auto
  ultimately have "get_loop ctime opt n args st = Inr (args, st)"
    using get_member_None [OF Nil.prems(3,4), of n'] by simp
  then show ?case using Nil.prems(10,11) by auto
next
  case (Cons m ms)
  let ?n = "length (snd m)" let ?k = "k + AR_TOTAL + even_size ?n"
  obtain g where o: "out_state st0 Temp t f g (w @ concat (map member_image xs)) st" and wfx: "\<forall>x \<in> set xs. wf_member (fst x)"
    using Cons.prems(10) by (auto simp: building_def)
  have ca: "content a st = c" using out_content [OF o] Cons.prems(5,6) by simp
  obtain n' where n: "n = Suc n'" "length ms < n'" using Cons.prems(7) by (cases n) auto
  have h: "holds c ?k ms" and wfm: "wf_member m" using Cons.prems(3) by simp_all
  let ?st = "set_fd Arch a (k + AR_TOTAL) st"
  have gm: "get_member n st = Inr (Some (fst m), ?st)"
    using get_member_Some [OF Cons.prems(3,4) ca] n(1) by simp
  obtain i where i: "find_arg (ar_name (fst m)) args = (args, i)"
    using find_arg_trimmed [OF Cons.prems(8)] by (metis prod.collapse)
  have il: "i \<le> length args" using find_arg_le [OF i] by simp
  have sz: "unat (ar_size (fst m)) = ?n" using wfm by (simp add: wf_member_def)
  have e: "f_rep opt \<or> f_del opt" "\<not> f_app opt" using Cons.prems(1) by (auto simp: editing_def)
  show ?case
  proof (cases "i = length args")
    case True
    obtain r' where r': "edit_members (sub_for opt st0) args ms = (r', left)" "r = m # r'"
      using Cons.prems(11) i True by (auto simp: Let_def split: prod.splits)
    have "length (w @ concat (map member_image xs)) + AR_TOTAL + even_size ?n \<le> as_limit st0"
      using Cons.prems(12) r'(2) length_images [OF wfx] by simp
    moreover have "out_state st0 Temp t f g (w @ concat (map member_image xs)) ?st" "as_fd ?st Arch = (a, k + AR_TOTAL)"
      using o by (simp_all add: set_fd_def out_state_def)
    ultimately obtain st' where st': "bindE (mwrite (To Temp) (enc_ar_hdr (fst m)) ?st) (copy_member (fst m) (To Temp) False) = Inr st'"
      "out_state st0 Temp t f (odd ?n) ((w @ concat (map member_image xs)) @ member_image (m, 0)) st'" "as_fd st' Arch = (a, ?k)"
      using keep_temp [OF _ _ Cons.prems(5,6,3)] by blast
    have b: "building st0 Temp t f w (xs @ [(m, 0)]) st'" using st'(2) wfx wfm by (auto simp: building_def)
    have "keep_member opt args i (fst m) ?st = Inr (args, st')"
      using e by (auto simp: keep_member_def bindE_assoc [symmetric] st'(1))
    then have "get_loop ctime opt n args st = get_loop ctime opt n' args st'"
      using gm n(1) i True Cons.prems(2) by simp
    moreover obtain st2 ys where "get_loop ctime opt n' args st' = Inr (left, st2)" "building st0 Temp t f w ((xs @ [(m, 0)]) @ ys) st2"
      "map fst ys = r'"
      using Cons.IH [OF Cons.prems(1,2) h st'(3) Cons.prems(5,6) n(2) Cons.prems(8,9) b r'(1)] Cons.prems(12) r'(2) by auto
    ultimately show ?thesis using r'(2) by (intro exI [of _ st2] exI [of _ "(m, 0) # ys"]) simp
  next
    case False
    then have x: "args ! i \<in> set args" using il by simp
    let ?x = "args ! i" let ?args = "args[i := []]"
    obtain r' where r': "edit_members (sub_for opt st0) ?args ms = (r', left)" "r = sub_for opt st0 ?x @ r'"
      using Cons.prems(11) i False by (auto simp: Let_def split: prod.splits)
    have b: "building st0 Temp t f w xs ?st" using Cons.prems(10) by (simp add: building_def)
    have "\<exists>st' ys. take_member ctime opt args i (fst m) ?st = Inr (skip Arch (even_size ?n) st') \<and> building st0 Temp t f w (xs @ ys) st' \<and>
      map fst ys = sub_for opt st0 ?x \<and> as_fd st' Arch = (a, k + AR_TOTAL)"
    proof (cases "f_rep opt")
      case True
      have "length w + members_size (map fst xs @ sub_for opt st0 ?x) \<le> as_limit st0" using Cons.prems(12) r'(2) by simp
      then obtain st' ys where "ar_add opt ?x Temp ''r - '' ?st = Inr st'" "building st0 Temp t f w (xs @ ys) st'"
        "map fst ys = sub_for opt st0 ?x" "\<forall>h'. h' \<noteq> Temp \<and> h' \<noteq> Source \<longrightarrow> as_fd st' h' = as_fd ?st h'"
        using building_add [OF b, of ?x opt "''r - ''"] Cons.prems(1,9) x True by (auto simp: editing_def)
      then show ?thesis using True Cons.prems(1) sz
        by (intro exI [of _ st'] exI [of _ ys]) (simp add: take_member_def editing_def set_fd_def)
    next
      case False
      then have "sub_for opt st0 ?x = []" using e(2) by (simp add: sub_for_def split: option.splits)
      moreover have "as_fd (ar_show ''d - '' (ar_name (fst m)) ?st) Arch = (a, k + AR_TOTAL)"
        by (simp add: ar_show_def ar_put_def set_fd_def)
      ultimately show ?thesis using False Cons.prems(1) sz b
        by (intro exI [of _ "ar_show ''d - '' (ar_name (fst m)) ?st"] exI [of _ "[]"]) (simp add: take_member_def editing_def)
    qed
    then obtain st' ys where st': "take_member ctime opt args i (fst m) ?st = Inr (skip Arch (even_size ?n) st')"
      "building st0 Temp t f w (xs @ ys) st'" "map fst ys = sub_for opt st0 ?x" "as_fd st' Arch = (a, k + AR_TOTAL)" by blast
    have u: "get_loop ctime opt n args st = get_loop ctime opt n' ?args (skip Arch (even_size ?n) st')"
      using gm n(1) i False e(2) st'(1) by simp
    have ne: "?args \<noteq> []" using Cons.prems(2) by simp
    have fd: "as_fd (skip Arch (even_size ?n) st') Arch = (a, ?k)" using st'(4) by (simp add: skip_def set_fd_def)
    have ok: "\<forall>x \<in> insert [] (set ?args). x \<noteq> t \<and> (\<forall>m \<in> set (sub_for opt st0 x). wf_member m)"
      using Cons.prems(9) set_update_subset_insert [of args i "[]"] by blast
    have b': "building st0 Temp t f w (xs @ ys) (skip Arch (even_size ?n) st')" using st'(2) by simp
    have lim: "length w + members_size (map fst (xs @ ys) @ r') \<le> as_limit st0" using Cons.prems(12) r'(2) st'(3) by simp
    obtain st2 zs where "get_loop ctime opt n' ?args (skip Arch (even_size ?n) st') = Inr (left, st2)"
      "building st0 Temp t f w ((xs @ ys) @ zs) st2" "map fst zs = r'"
      using Cons.IH [OF Cons.prems(1) ne h fd Cons.prems(5,6) n(2) trimmed_update [OF Cons.prems(8)] ok b' r'(1) lim] by blast
    then show ?thesis using u r'(2) st'(3) by (intro exI [of _ st2] exI [of _ "ys @ zs"]) simp
  qed
qed

definition appending :: "ar_opts \<Rightarrow> bool" where
  "appending opt \<longleftrightarrow> f_app opt \<and> \<not> f_rep opt \<and> \<not> f_del opt \<and> \<not> f_ex opt \<and> \<not> f_pr opt \<and> \<not> f_show opt \<and> \<not> f_u opt"

text \<open>The arguments that named no member.\<close>

lemma rest_loop_edit:
  assumes "editing opt \<and> h = Temp \<or> appending opt \<and> h = Arch" "\<forall>x \<in> set args. x \<noteq> t \<and> (\<forall>m \<in> set (sub_for opt st0 x). wf_member m)"
    "building st0 h t f w xs st" "length w + members_size (map fst xs @ rest_members (sub_for opt st0) args) \<le> as_limit st0"
  shows "\<exists>st' ys. rest_loop opt args st = Inr st' \<and> building st0 h t f w (xs @ ys) st' \<and>
    map fst ys = rest_members (sub_for opt st0) args"
  using assms
proof (induction args arbitrary: st xs)
  case Nil
  then show ?case by (auto simp: rest_members_def intro!: exI [of _ "[]"])
next
  case (Cons x args)
  have ok: "\<forall>x \<in> set args. x \<noteq> t \<and> (\<forall>m \<in> set (sub_for opt st0 x). wf_member m)" using Cons.prems(2) by simp
  consider (empty) "x = []" | (rep) "x \<noteq> []" "f_rep opt \<or> f_app opt" | (del) "x \<noteq> []" "\<not> (f_rep opt \<or> f_app opt)" by blast
  then show ?case
  proof cases
    case empty
    then show ?thesis using Cons.IH [OF Cons.prems(1) ok Cons.prems(3)] Cons.prems(4) by (simp add: rest_members_def)
  next
    case rep
    have l: "length w + members_size (map fst xs @ sub_for opt st0 x) \<le> as_limit st0"
      using Cons.prems(4) rep(1) by (simp add: rest_members_def)
    obtain st' ys where st': "ar_add opt x h ''a - '' st = Inr st'" "building st0 h t f w (xs @ ys) st'" "map fst ys = sub_for opt st0 x"
      using building_add [OF Cons.prems(3), of x opt "''a - ''"] Cons.prems(1,2) l rep(2) by (auto simp: editing_def appending_def)
    obtain st2 zs where "rest_loop opt args st' = Inr st2" "building st0 h t f w ((xs @ ys) @ zs) st2"
      "map fst zs = rest_members (sub_for opt st0) args"
      using Cons.IH [OF Cons.prems(1) ok st'(2)] Cons.prems(4) st'(3) rep(1) by (auto simp: rest_members_def)
    then show ?thesis using rep st'(1,3) Cons.prems(1)
      by (intro exI [of _ st2] exI [of _ "ys @ zs"]) (auto simp: rest_members_def editing_def appending_def)
  next
    case del
    then have "sub_for opt st0 x = []" by (simp add: sub_for_def split: option.splits)
    then show ?thesis using Cons.IH [OF Cons.prems(1) ok, of xs "ar_put (x @ lit '': not found'' @ NEWLINE) st"] Cons.prems(1,3,4) del
      by (auto simp: rest_members_def editing_def appending_def)
  qed
qed

section \<open>The archive that is written back\<close>

lemma put2_magic: "put2 (ucast ARMAG) = [0x65, 0xff]" by (simp add: put2_def ARMAG_def)

text \<open>The magic number is accepted.\<close>

lemma open_check_ok:
  assumes "content nm st = f" "2 \<le> length f" "seg f 0 2 = put2 (ucast ARMAG)"
  shows "open_check h nm st = Inr (set_fd h nm 2 st)"
proof -
  have "rd_bytes 2 (open_at f 0) = Inr (put2 (ucast ARMAG), open_at f 2)"
    using assms(2,3) rd_bytes_open_at [of 2 f 0] by simp
  moreover have "(ucast (uget2 (put2 (ucast ARMAG))) :: u16) = ARMAG"
    by (simp only: put2_magic) (simp add: uget2_def ARMAG_def)
  ultimately show ?thesis using assms(1)
    by (simp add: open_check_def ar_rd_def rd_unsigned2_def set_fd_def content_def)
qed

lemma copy_back_ok:
  assumes "as_fd st Temp = (t, k)" "as_fd st Arch = (a, k)" "content t st = T" "as_files st a = Some fa" "h_bytes fa = take k T"
    "k \<le> length T" "length T \<le> as_limit st" "length (as_buf st) = IO_SIZE" "a \<noteq> t" "length T - k < n"
  shows "\<exists>st'. copy_back n st = Inr st' \<and> as_files st' = (as_files st)(a \<mapsto> fa\<lparr>h_bytes := T\<rparr>) \<and> as_temp st' = as_temp st"
  using assms
proof (induction n arbitrary: k st fa)
  case 0
  then show ?case by simp
next
  case (Suc n)
  let ?m = "min IO_SIZE (length T - k)" let ?bs = "seg T k IO_SIZE"
  have l: "length ?bs = ?m" by (simp add: seg_def)
  let ?st = "set_fd Temp t (k + ?m) (st\<lparr>as_buf := blit (as_buf st) 0 ?bs\<rparr>)"
  have r: "ar_read Temp IO_SIZE st = (?bs, ?st)" using Suc.prems(1,3) l by (simp add: ar_read_def skip_def set_fd_def Let_def content_def)
  show ?case
  proof (cases "k = length T")
    case True
    then have "?bs = []" by (simp add: seg_def)
    with r have "copy_back (Suc n) st = Inr ?st" by simp
    moreover have "as_files ?st = (as_files st)(a \<mapsto> fa\<lparr>h_bytes := T\<rparr>)"
      using Suc.prems(4,5) True by (simp add: set_fd_def fun_upd_idem)
    ultimately show ?thesis by (simp add: set_fd_def)
  next
    case False
    then have m: "0 < ?m" using Suc.prems(6) by (simp add: IO_SIZE_def)
    then have ne: "?bs \<noteq> []" using l by auto
    let ?fa = "fa\<lparr>h_bytes := take (k + ?m) T\<rparr>"
    let ?st1 = "set_fd Arch a (k + ?m) (set_content a (take (k + ?m) T) ?st)"
    have p: "put_at (take k T) k ?bs = take (k + ?m) T"
      using Suc.prems(6) ne l by (simp add: put_at_def seg_def take_add min_def)
    have "mwrite (To Arch) ?bs ?st = Inr ?st1"
      using Suc.prems(2,4,5,6,7) m l p by (simp add: mwrite_def set_fd_def content_def write_fd_def Let_def)
    with r ne have u: "copy_back (Suc n) st = copy_back n ?st1" by simp
    have fd: "as_fd ?st1 Temp = (t, k + ?m)" "as_fd ?st1 Arch = (a, k + ?m)" by (simp_all add: set_fd_def set_content_def)
    have c: "content t ?st1 = T" "as_files ?st1 a = Some ?fa" "h_bytes ?fa = take (k + ?m) T"
      using Suc.prems(3,4,9) by (simp_all add: set_fd_def set_content_def content_def)
    have "?m \<le> length T - k" by simp
    then have o: "k + ?m \<le> length T" "length T - (k + ?m) < n" using Suc.prems(6,10) m by linarith+
    have o': "length T \<le> as_limit ?st1" "length (as_buf ?st1) = IO_SIZE"
      using Suc.prems(7,8) l by (simp_all add: set_fd_def set_content_def length_blit)
    obtain st' where "copy_back n ?st1 = Inr st'" "as_files st' = (as_files ?st1)(a \<mapsto> ?fa\<lparr>h_bytes := T\<rparr>)" "as_temp st' = as_temp ?st1"
      using Suc.IH [OF fd c o(1) o' Suc.prems(9) o(2)] by blast
    then show ?thesis using u by (auto simp: set_fd_def set_content_def fun_eq_iff)
  qed
qed

text \<open>What was built is an archive.\<close>

lemma building_archive:
  assumes b: "building st0 h t f (put2 (ucast ARMAG)) xs st"
  shows "\<exists>T. is_archive T (map fst xs) \<and> as_files st = (as_files st0)(t \<mapsto> f\<lparr>h_bytes := T\<rparr>) \<and>
    length T \<le> 2 + members_size (map fst xs)"
proof -
  let ?M = "put2 (ucast ARMAG)" let ?w = "?M @ concat (map member_image xs)"
  obtain g T z where T: "z \<le> of_bool g" "?w = T @ replicate z 0" "as_files st = (as_files st0)(t \<mapsto> f\<lparr>h_bytes := T\<rparr>)"
    and wf: "\<forall>x \<in> set xs. wf_member (fst x)" and g: "g \<longrightarrow> xs \<noteq> [] \<and> odd (length (snd (fst (last xs))))"
    using b by (auto simp: building_def out_state_def)
  have z1: "z \<le> 1" "z = 1 \<longrightarrow> xs \<noteq> [] \<and> odd (length (snd (fst (last xs))))" using T(1) g by (cases g; simp)+
  have h: "holds T 2 (map fst xs)" using holds_image [OF z1 wf T(2) [symmetric]] by (simp add: put2_magic numeral_2_eq_2)
  have lw: "length T + z = 2 + members_size (map fst xs)"
    using arg_cong [OF T(2), of length] length_images [OF wf] by (simp add: put2_magic)
  have T2: "2 \<le> length T"
  proof (cases xs)
    case Nil
    then show ?thesis using lw z1 by simp
  next
    case (Cons y ys)
    then show ?thesis using lw z1(1) by (simp add: AR_TOTAL_26)
  qed
  have "take 2 T = take 2 (T @ replicate z 0)" using T2 by simp
  then have "seg T 0 2 = ?M" using T(2) by (simp add: seg_def put2_magic flip: T(2))
  then show ?thesis using h T2 T(3) lw by (intro exI [of _ T]) (simp add: is_archive_def)
qed

lemma rewrite_ok:
  assumes b: "building st0 Temp t f (put2 (ucast ARMAG)) xs st" and t: "as_temp st = t" "h_read f" "h_write f" "\<not> h_dir f"
    and a: "as_files st a = Some fa" "h_write fa" "\<not> h_dir fa" "a \<noteq> t"
    and lim: "2 + members_size (map fst xs) \<le> as_limit st0"
  shows "\<exists>T st'. rewrite_archive opt a st = Inr st' \<and> is_archive T (map fst xs) \<and>
    as_files st' = (as_files st)(a \<mapsto> fa\<lparr>h_bytes := T\<rparr>, t := None)"
proof -
  let ?M = "put2 (ucast ARMAG)"
  obtain T where arch: "is_archive T (map fst xs)" and T: "as_files st = (as_files st0)(t \<mapsto> f\<lparr>h_bytes := T\<rparr>)"
    "length T \<le> 2 + members_size (map fst xs)" using building_archive [OF b] by blast
  have st: "as_limit st = as_limit st0" "length (as_buf st) = IO_SIZE" using b by (auto simp: building_def out_state_def)
  have T2: "2 \<le> length T" and mag: "seg T 0 2 = ?M" using arch by (simp_all add: is_archive_def)
  let ?st1 = "set_fd Arch a 2 (set_content a ?M (set_fd Arch a 0 (set_content a [] st)))"
  have o1: "open_archive opt Arch a CREATE st = Inr ?st1"
    using a st(1) lim by (simp add: open_archive_def open_create_def creat_def mwrite_def set_fd_def set_content_def content_def
      write_fd_def Let_def put2_magic put_at_def numeral_2_eq_2)
  have ft: "as_files ?st1 t = Some (f\<lparr>h_bytes := T\<rparr>)" using T(1) a(4) by (simp add: set_fd_def set_content_def)
  then have c: "content t ?st1 = T" by (simp add: content_def)
  have "open_archive opt Temp t APPEND ?st1 = open_check Temp t ?st1"
    using ft t by (simp add: open_archive_def can_open_def)
  also have "\<dots> = Inr (set_fd Temp t 2 ?st1)" using c T2 mag by (rule open_check_ok)
  finally have o2: "open_archive opt Temp t APPEND ?st1 = Inr (set_fd Temp t 2 ?st1)" .
  let ?st2 = "set_fd Temp t 2 ?st1"
  have p: "as_fd ?st2 Temp = (t, 2)" "as_fd ?st2 Arch = (a, 2)" "content t ?st2 = T"
    "as_files ?st2 a = Some (fa\<lparr>h_bytes := ?M\<rparr>)" "h_bytes (fa\<lparr>h_bytes := ?M\<rparr>) = take 2 T" "length T \<le> as_limit ?st2"
    "length (as_buf ?st2) = IO_SIZE" "length T - 2 < Suc (length (content t ?st2))" "as_temp ?st1 = t"
    using c mag a(1) st lim T(2) t(1) by (simp_all add: set_fd_def set_content_def content_def seg_def)
  obtain st3 where st3: "copy_back (Suc (length (content t ?st2))) ?st2 = Inr st3"
    "as_files st3 = (as_files ?st2)(a \<mapsto> fa\<lparr>h_bytes := ?M\<rparr>\<lparr>h_bytes := T\<rparr>)" "as_temp st3 = as_temp ?st2"
    using copy_back_ok [OF p(1-5) T2 p(6,7) a(4) p(8)] by blast
  have tt: "as_temp st3 = t" "as_temp ?st2 = t" using st3(3) t(1) by (simp_all add: set_fd_def set_content_def)
  have "rewrite_archive opt a st = Inr (unlink t st3)"
    unfolding rewrite_archive_def o1 bindE.simps p(9) o2 tt(2) st3(1) tt(1) ..
  moreover have "as_files (unlink t st3) = (as_files st)(a \<mapsto> fa\<lparr>h_bytes := T\<rparr>, t := None)"
    using st3(2) a(1) by (auto simp: unlink_def set_fd_def set_content_def fun_eq_iff)
  ultimately show ?thesis using arch by blast
qed

section \<open>Appending\<close>

text \<open>An archive is built of its members, but for the byte that pads the last one.\<close>

lemma holds_images:
  "holds f k ms \<Longrightarrow> k \<le> length f \<Longrightarrow> \<exists>xs z. map fst xs = ms \<and> (\<forall>x \<in> set xs. wf_member (fst x)) \<and>
     take k f @ concat (map member_image xs) = f @ replicate z 0 \<and> z \<le> 1 \<and>
     (z = 1 \<longrightarrow> xs \<noteq> [] \<and> odd (length (snd (fst (last xs)))))"
proof (induction ms arbitrary: k)
  case Nil
  then show ?case by (intro exI [of _ "[]"] exI [of _ 0]) simp
next
  case (Cons m ms)
  let ?n = "length (snd m)" let ?k = "k + AR_TOTAL + ?n"
  have m: "wf_member m" "?k \<le> length f" "seg f k AR_TOTAL = enc_ar_hdr (fst m)" "seg f (k + AR_TOTAL) ?n = snd m"
    "holds f (k + AR_TOTAL + even_size ?n) ms" using Cons.prems(1) by simp_all
  have t: "take ?k f = take k f @ enc_ar_hdr (fst m) @ snd m"
    using m(3,4) by (simp add: seg_def take_add)
  show ?case
  proof (cases "k + AR_TOTAL + even_size ?n \<le> length f")
    case True
    obtain xs z where xs: "map fst xs = ms" "\<forall>x \<in> set xs. wf_member (fst x)"
      "take (k + AR_TOTAL + even_size ?n) f @ concat (map member_image xs) = f @ replicate z 0" "z \<le> 1"
      "z = 1 \<longrightarrow> xs \<noteq> [] \<and> odd (length (snd (fst (last xs))))" using Cons.IH [OF m(5) True] by blast
    have "take (k + AR_TOTAL + even_size ?n) f = take k f @ member_image (m, f ! ?k)"
      using t True by (auto simp: member_image_def even_size_def take_Suc_conv_app_nth)
    then show ?thesis using xs m(1) by (intro exI [of _ "(m, f ! ?k) # xs"] exI [of _ z]) auto
  next
    case False
    then have o: "odd ?n" "?k = length f" using m(2) by (auto simp: even_size_def split: if_splits)
    have "ms = []" using m(5) False by (cases ms) auto
    moreover have "take k f @ member_image (m, 0) = f @ [0]" using t o by (simp add: member_image_def)
    ultimately show ?thesis using m(1) o(1) by (intro exI [of _ "[(m, 0)]"] exI [of _ 1]) auto
  qed
qed

lemma append_loop:
  assumes "appending opt" "args \<noteq> []" "holds c k ms" "as_fd st Arch = (a, k)" "content a st = c" "length ms < n"
    "trimmed args" "edit_members (\<lambda>_. []) args ms = (r, left)"
  shows "\<exists>out. get_loop ctime opt n args st = Inr (left, set_fd Arch a (k + members_size ms) (ar_put out st))"
  using assms
proof (induction ms arbitrary: k st args n r)
  case Nil
  obtain n' where "n = Suc n'" using Nil.prems(6) by (cases n) auto
  then have "get_loop ctime opt n args st = Inr (args, st)" using get_member_None [OF Nil.prems(3-5), of n'] by simp
  moreover have "set_fd Arch a k (ar_put [] st) = st" using Nil.prems(4) by (simp add: set_fd_def ar_put_def fun_upd_idem)
  ultimately show ?case using Nil.prems(8) by (auto intro!: exI [of _ "[]"])
next
  case (Cons m ms)
  let ?k = "k + AR_TOTAL + even_size (length (snd m))"
  obtain n' where n: "n = Suc n'" "length ms < n'" using Cons.prems(6) by (cases n) auto
  let ?st = "set_fd Arch a (k + AR_TOTAL) st"
  have gm: "get_member n st = Inr (Some (fst m), ?st)"
    using get_member_Some [OF Cons.prems(3-5)] n(1) by simp
  obtain i where i: "find_arg (ar_name (fst m)) args = (args, i)"
    using find_arg_trimmed [OF Cons.prems(7)] by (metis prod.collapse)
  have e: "f_app opt" "\<not> f_rep opt" "\<not> f_del opt" using Cons.prems(1) by (auto simp: appending_def)
  have sz: "unat (ar_size (fst m)) = length (snd m)" using Cons.prems(3) by (simp add: wf_member_def)
  define args' where "args' = (if i = length args then args else args[i := []])"
  obtain r' where r': "edit_members (\<lambda>_. []) args' ms = (r', left)"
    using Cons.prems(8) i by (auto simp: Let_def args'_def split: prod.splits if_splits)
  define out where "out = (if i = length args then [] else args ! i @ lit '': already in archive'' @ NEWLINE)"
  let ?st' = "set_fd Arch a ?k (ar_put out st)"
  have "keep_member opt args i (fst m) ?st = Inr (args', ?st')"
    using e sz by (auto simp: keep_member_def args'_def out_def skip_def set_fd_def ar_put_def add.assoc)
  then have u: "get_loop ctime opt n args st = get_loop ctime opt n' args' ?st'" using gm n(1) i Cons.prems(2) e by simp
  have p: "args' \<noteq> []" "trimmed args'" "content a ?st' = c" "as_fd ?st' Arch = (a, ?k)"
    using Cons.prems(2,5,7) trimmed_update by (auto simp: args'_def content_def set_fd_def ar_put_def)
  have h: "holds c ?k ms" using Cons.prems(3) by simp
  obtain out' where "get_loop ctime opt n' args' ?st' = Inr (left, set_fd Arch a (?k + members_size ms) (ar_put out' ?st'))"
    using Cons.IH [OF Cons.prems(1) p(1) h p(4,3) n(2) p(2) r'] by blast
  moreover have "set_fd Arch a (?k + members_size ms) (ar_put out' ?st') =
      set_fd Arch a (k + members_size (m # ms)) (ar_put (out @ out') st)"
    by (simp add: set_fd_def ar_put_def add.assoc)
  ultimately show ?case using u by auto
qed

section \<open>Printing\<close>

definition printing :: "ar_opts \<Rightarrow> bool" where
  "printing opt \<longleftrightarrow> f_pr opt \<and> \<not> f_app opt \<and> \<not> f_rep opt \<and> \<not> f_del opt \<and> \<not> f_ex opt \<and> \<not> f_show opt \<and>
     \<not> f_u opt \<and> \<not> f_verbose opt"

text \<open>The members that the arguments name, and the arguments that are left.\<close>

fun picked :: "bytes list \<Rightarrow> member list \<Rightarrow> member list \<times> bytes list" where
  "picked args [] = ([], args)"
| "picked args (m # ms) =
     (let (args, i) = find_arg (ar_name (fst m)) args
      in if i = length args then picked args ms
         else let (r, left) = picked (args[i := []]) ms in (m # r, left))"

definition not_found :: "bytes list \<Rightarrow> bytes" where
  "not_found args = concat (map (\<lambda>a. a @ lit '': not found'' @ NEWLINE) (filter (\<lambda>a. a \<noteq> []) args))"

text \<open>A state in which the archive is read at \<open>k\<close>, and \<open>w\<close> was printed.\<close>

definition shown_state :: "ar \<Rightarrow> bytes \<Rightarrow> nat \<Rightarrow> bytes \<Rightarrow> ar \<Rightarrow> bool" where
  "shown_state st0 a k w st \<longleftrightarrow> as_files st = as_files st0 \<and> as_out st = as_out st0 @ w \<and> as_fd st Arch = (a, k) \<and>
     length (as_buf st) = IO_SIZE"

lemma print_member:
  assumes "shown_state st0 a k w st" "content a st0 = c" "k + sz \<le> length c" "unat (ar_size h) = sz" "printing opt"
  shows "\<exists>st'. ar_extract opt h st = Inr st' \<and> shown_state st0 a (k + even_size sz) (w @ seg c k sz) st'"
proof -
  define P where "P = (\<lambda>k' w'. shown_state st0 a k' (w @ w'))"
  have "\<exists>st'. copy_loop h To_stdout sz st = Inr st' \<and> P (k + sz) ([] @ seg c k sz) st'"
  proof (rule copy_loop_inv [where K = "k + sz"])
    fix k' w' st' n
    assume p: "P k' w' st'" "k' + n \<le> k + sz" "n \<le> IO_SIZE"
    have "content a st' = c" using p(1) assms(2) by (simp add: P_def shown_state_def content_def)
    then have r: "ar_read Arch n st' = (seg c k' n, set_fd Arch a (k' + n) (st'\<lparr>as_buf := blit (as_buf st') 0 (seg c k' n)\<rparr>))"
      using p assms(3) by (intro ar_read_eq) (auto simp: P_def shown_state_def)
    have l: "length (seg c k' n) = n" using p(2) assms(3) by (simp add: length_seg)
    show "\<exists>st'' st3. ar_read Arch n st' = (seg c k' n, st'') \<and> mwrite To_stdout (seg c k' n) st'' = Inr st3 \<and>
        P (k' + n) (w' @ seg c k' n) st3"
      using r p l by (simp add: mwrite_def P_def shown_state_def set_fd_def ar_put_def length_blit)
  qed (use assms in \<open>auto simp: P_def\<close>)
  then obtain st' where "copy_loop h To_stdout sz st = Inr st'" "shown_state st0 a (k + sz) (w @ seg c k sz) st'"
    by (auto simp: P_def)
  then show ?thesis using assms(4,5)
    by (auto simp: ar_extract_def copy_member_def printing_def shown_state_def skip_def set_fd_def even_size_def)
qed

lemma print_loop:
  assumes "printing opt" "args \<noteq> []" "holds c k ms" "shown_state st0 a k w st" "content a st0 = c" "length ms < n"
    "trimmed args" "picked args ms = (r, left)"
  shows "\<exists>k' st'. get_loop ctime opt n args st = Inr (left, st') \<and> shown_state st0 a k' (w @ concat (map snd r)) st'"
  using assms
proof (induction ms arbitrary: k w st args n r)
  case Nil
  obtain n' where n: "n = Suc n'" using Nil.prems(6) by (cases n) auto
  have "content a st = c" "as_fd st Arch = (a, k)" using Nil.prems(4,5) by (simp_all add: shown_state_def content_def)
  then have "get_loop ctime opt n args st = Inr (args, st)" using get_member_None [OF Nil.prems(3)] n by simp
  then show ?case using Nil.prems(4,8) by auto
next
  case (Cons m ms)
  let ?n = "length (snd m)" let ?k = "k + AR_TOTAL + even_size ?n"
  obtain n' where n: "n = Suc n'" "length ms < n'" using Cons.prems(6) by (cases n) auto
  let ?st = "set_fd Arch a (k + AR_TOTAL) st"
  have ca: "content a st = c" "as_fd st Arch = (a, k)" using Cons.prems(4,5) by (simp_all add: shown_state_def content_def)
  have gm: "get_member n st = Inr (Some (fst m), ?st)"
    using get_member_Some [OF Cons.prems(3) ca(2,1)] n(1) by simp
  obtain i where i: "find_arg (ar_name (fst m)) args = (args, i)"
    using find_arg_trimmed [OF Cons.prems(7)] by (metis prod.collapse)
  have m: "unat (ar_size (fst m)) = ?n" "k + AR_TOTAL + ?n \<le> length c" "seg c (k + AR_TOTAL) ?n = snd m" "holds c ?k ms"
    using Cons.prems(3) by (simp_all add: wf_member_def)
  have e: "f_pr opt" "\<not> f_app opt" "\<not> f_rep opt" "\<not> f_del opt" using Cons.prems(1) by (auto simp: printing_def)
  have ps: "shown_state st0 a (k + AR_TOTAL) w ?st" using Cons.prems(4) by (simp add: shown_state_def set_fd_def)
  show ?case
  proof (cases "i = length args")
    case True
    let ?st' = "skip Arch (even_size ?n) ?st"
    have "keep_member opt args i (fst m) ?st = Inr (args, ?st')" using e m(1) by (simp add: keep_member_def)
    then have u: "get_loop ctime opt n args st = get_loop ctime opt n' args ?st'" using gm n(1) i True Cons.prems(2) by simp
    have "shown_state st0 a ?k w ?st'" using ps by (simp add: shown_state_def skip_def set_fd_def)
    moreover have "picked args ms = (r, left)" using Cons.prems(8) i True by simp
    ultimately show ?thesis using Cons.IH [OF Cons.prems(1,2) m(4) _ Cons.prems(5) n(2) Cons.prems(7)] u by simp
  next
    case False
    let ?args = "args[i := []]"
    obtain r' where r': "picked ?args ms = (r', left)" "r = m # r'"
      using Cons.prems(8) i False by (auto simp: Let_def split: prod.splits)
    obtain st' where st': "ar_extract opt (fst m) ?st = Inr st'" "shown_state st0 a ?k (w @ snd m) st'"
      using print_member [OF ps Cons.prems(5) m(2,1) Cons.prems(1)] m(3) by auto
    have u: "get_loop ctime opt n args st = get_loop ctime opt n' ?args st'"
      using gm n(1) i False e(1,2) st'(1) by (simp add: take_member_def)
    have "?args \<noteq> []" using Cons.prems(2) by simp
    then show ?thesis
      using Cons.IH [OF Cons.prems(1) _ m(4) st'(2) Cons.prems(5) n(2) trimmed_update [OF Cons.prems(7)] r'(1)] u r'(2) by simp
  qed
qed

lemma rest_loop_print:
  "printing opt \<Longrightarrow> rest_loop opt args st = Inr (ar_put (not_found args) st)"
  by (induction args arbitrary: st) (auto simp: printing_def not_found_def ar_put_def)

end
