(* ===== verification/Ar_Props.thy ===== *)
theory Ar_Props
  imports Ar_Edit
begin

text \<open>
  The properties of the archiver: what its commands make of an archive, over the whole program, and
  an example in which their hypotheses hold.
\<close>

lemma holds_length: "holds f k ms \<Longrightarrow> ms \<noteq> [] \<Longrightarrow> k + length ms \<le> length f"
proof (induction ms arbitrary: k)
  case (Cons m ms)
  then show ?case by (cases "ms = []") (fastforce simp: AR_TOTAL_26)+
qed simp

lemma is_archive_length: "is_archive f ms \<Longrightarrow> length ms < Suc (length f)"
  using holds_length [of f 2 ms] by (cases ms) (auto simp: is_archive_def)

lemma edit_get:
  assumes opt: "editing opt" and args: "args \<noteq> []" "trimmed args"
    and a: "as_files st a = Some fa" "h_read fa" "h_write fa" "\<not> h_dir fa" "is_archive (h_bytes fa) ms"
    and t: "as_temp st = t" "as_files st t = None" "as_new st t = Some f" "h_read f" "h_write f" "\<not> h_dir f"
    and ok: "\<forall>x \<in> insert [] (set args). x \<noteq> t \<and> (\<forall>m \<in> set (sub_for opt st x). wf_member m)"
    and lim: "2 + members_size (edited (sub_for opt st) args ms) \<le> as_limit st" "length (as_buf st) = IO_SIZE"
  shows "\<exists>T st'. ar_get ctime opt a args st = Inr st' \<and> is_archive T (edited (sub_for opt st) args ms) \<and>
    as_files st' = (as_files st)(a \<mapsto> fa\<lparr>h_bytes := T\<rparr>)"
proof -
  let ?c = "h_bytes fa" let ?M = "put2 (ucast ARMAG)"
  have at: "a \<noteq> t" using a(1) t(2) by auto
  have e: "f_rep opt \<or> f_del opt" "\<not> f_show opt" "\<not> f_pr opt" "\<not> f_ex opt" using opt by (auto simp: editing_def)
  have h: "holds ?c 2 ms" "2 \<le> length ?c" "seg ?c 0 2 = ?M" using a(5) by (auto simp: is_archive_def)
  have o1: "open_archive opt Arch a APPEND st = Inr (set_fd Arch a 2 st)"
    using a h open_check_ok [of a st ?c Arch] by (simp add: open_archive_def can_open_def content_def)
  let ?st2 = "set_fd Temp t 2 (set_fd Arch a 2 st\<lparr>as_files := (as_files st)(t \<mapsto> f\<lparr>h_bytes := ?M\<rparr>)\<rparr>)"
  have "open_archive opt Temp t CREATE (set_fd Arch a 2 st) = Inr ?st2"
    using t lim(1) by (simp add: open_archive_def open_create_def creat_def mwrite_def set_fd_def set_content_def content_def
      write_fd_def Let_def put2_magic put_at_def numeral_2_eq_2 fun_upd_twist)
  moreover have "as_temp (set_fd Arch a 2 st) = t" using t(1) by (simp add: set_fd_def)
  ultimately have o2: "open_archive opt Temp (as_temp (set_fd Arch a 2 st)) CREATE (set_fd Arch a 2 st) = Inr ?st2" by simp
  have b: "building st Temp t f ?M [] ?st2"
    using lim(2) by (auto simp: building_def out_state_def set_fd_def put2_magic intro!: exI [of _ False])
  have c: "content a st = ?c" "content a ?st2 = ?c" using a(1) at by (simp_all add: content_def set_fd_def)
  obtain r left where r: "edit_members (sub_for opt st) args ms = (r, left)" by fastforce
  then have ed: "edited (sub_for opt st) args ms = r @ rest_members (sub_for opt st) left" by (simp add: edited_def)
  have fd: "as_fd ?st2 Arch = (a, 2)" by (simp add: set_fd_def)
  have n: "length ms < Suc (length (content a ?st2))" using is_archive_length [OF a(5)] c(2) by simp
  have "length ?M + members_size (map fst [] @ r) \<le> as_limit st" using lim(1) ed by (simp add: put2_magic)
  then obtain st3 ys where st3: "get_loop ctime opt (Suc (length (content a ?st2))) args ?st2 = Inr (left, st3)"
    "building st Temp t f ?M ys st3" "map fst ys = r"
    using edit_loop [OF opt args(1) h(1) fd at c(1) n args(2) ok b r] unfolding append_Nil by blast
  have "set left \<subseteq> insert [] (set args)"
    using r args(2) by (intro edit_members_left)
  then have ok': "\<forall>x \<in> set left. x \<noteq> t \<and> (\<forall>m \<in> set (sub_for opt st x). wf_member m)" using ok by blast
  have "length ?M + members_size (map fst ys @ rest_members (sub_for opt st) left) \<le> as_limit st"
    using lim(1) ed st3(3) by (simp add: put2_magic)
  then obtain st4 zs where st4: "rest_loop opt left st3 = Inr st4" "building st Temp t f ?M (ys @ zs) st4"
    "map fst zs = rest_members (sub_for opt st) left"
    using rest_loop_edit [OF disjI1 [OF conjI [OF opt refl]] ok' st3(2)] by blast
  have files: "as_files st4 a = Some fa" "as_temp st4 = t" "\<And>x. x \<noteq> t \<Longrightarrow> as_files st4 x = as_files st x"
    using st4(2) a(1) at t(1) by (auto simp: building_def out_state_def)
  have "2 + members_size (map fst (ys @ zs)) \<le> as_limit st" using lim(1) ed st3(3) st4(3) by simp
  then obtain T st5 where st5: "rewrite_archive opt a st4 = Inr st5" "is_archive T (map fst (ys @ zs))"
    "as_files st5 = (as_files st4)(a \<mapsto> fa\<lparr>h_bytes := T\<rparr>, t := None)"
    using rewrite_ok [OF st4(2) files(2) t(4-6) files(1) a(3,4) at] by blast
  have "as_files st5 = (as_files st)(a \<mapsto> fa\<lparr>h_bytes := T\<rparr>)"
    using st5(3) files(3) t(2) at by (auto simp: fun_eq_iff)
  moreover have "ar_get ctime opt a args st = Inr st5"
    using o1 o2 st3(1) st4(1) st5(1) e by (simp add: ar_get_def)
  moreover have "is_archive T (edited (sub_for opt st) args ms)" using st5(2) st3(3) st4(3) ed by simp
  ultimately show ?thesis by blast
qed


lemma append_get:
  assumes opt: "appending opt" and args: "args \<noteq> []" "trimmed args"
    and a: "as_files st a = Some fa" "h_read fa" "h_write fa" "\<not> h_dir fa" "is_archive (h_bytes fa) ms"
    and ok: "\<forall>x \<in> insert [] (set args). x \<noteq> a \<and> (\<forall>m \<in> set (sub_for opt st x). wf_member m)"
    and left: "snd (edit_members (\<lambda>_. []) args ms) = left"
    and lim: "2 + members_size (ms @ rest_members (sub_for opt st) left) \<le> as_limit st" "length (as_buf st) = IO_SIZE"
  shows "\<exists>T st'. ar_get ctime opt a args st = Inr st' \<and> is_archive T (ms @ rest_members (sub_for opt st) left) \<and>
    as_files st' = (as_files st)(a \<mapsto> fa\<lparr>h_bytes := T\<rparr>)"
proof -
  let ?c = "h_bytes fa" let ?M = "put2 (ucast ARMAG)"
  have e: "\<not> f_rep opt" "\<not> f_del opt" "\<not> f_show opt" "\<not> f_pr opt" "\<not> f_ex opt" using opt by (auto simp: appending_def)
  have h: "holds ?c 2 ms" "2 \<le> length ?c" "seg ?c 0 2 = ?M" using a(5) by (auto simp: is_archive_def)
  have l2: "length ?M = 2" by (simp add: put2_magic)
  have o1: "open_archive opt Arch a APPEND st = Inr (set_fd Arch a 2 st)"
    using a h open_check_ok [of a st ?c Arch] by (simp add: open_archive_def can_open_def content_def)
  let ?st1 = "set_fd Arch a 2 st"
  have c: "content a ?st1 = ?c" "as_fd ?st1 Arch = (a, 2)" using a(1) by (simp_all add: content_def set_fd_def)
  have n: "length ms < Suc (length (content a ?st1))" using is_archive_length [OF a(5)] c(1) by simp
  obtain r where r: "edit_members (\<lambda>_. []) args ms = (r, left)" using left by (metis prod.collapse)
  obtain out where g: "get_loop ctime opt (Suc (length (content a ?st1))) args ?st1 =
      Inr (left, set_fd Arch a (2 + members_size ms) (ar_put out ?st1))"
    using append_loop [OF opt args(1) h(1) c(2,1) n args(2) r] by blast
  let ?st2 = "set_fd Arch a (2 + members_size ms) (ar_put out ?st1)"
  obtain xs z where xs: "map fst xs = ms" "\<forall>x \<in> set xs. wf_member (fst x)"
    "take 2 ?c @ concat (map member_image xs) = ?c @ replicate z 0" "z \<le> 1"
    "z = 1 \<longrightarrow> xs \<noteq> [] \<and> odd (length (snd (fst (last xs))))" using holds_images [OF h(1,2)] by blast
  have M: "take 2 ?c = ?M" using h(3) by (simp add: seg_def)
  have len: "length (?M @ concat (map member_image xs)) = 2 + members_size ms"
    using length_images [OF xs(2)] xs(1) l2 by simp
  have "out_state st Arch a fa (z = 1) (?M @ concat (map member_image xs)) ?st2"
    unfolding out_state_def using xs(3,4) M a(1) len lim(2)
    by (intro conjI exI [of _ ?c] exI [of _ z]) (auto simp: set_fd_def ar_put_def)
  then have b: "building st Arch a fa ?M xs ?st2" using xs(2,5) unfolding building_def by blast
  have "set left \<subseteq> insert [] (set args)" using r args(2) by (intro edit_members_left)
  then have ok': "\<forall>x \<in> set left. x \<noteq> a \<and> (\<forall>m \<in> set (sub_for opt st x). wf_member m)" using ok by blast
  have "length ?M + members_size (map fst xs @ rest_members (sub_for opt st) left) \<le> as_limit st" using lim(1) xs(1) l2 by simp
  then obtain st3 ys where st3: "rest_loop opt left ?st2 = Inr st3" "building st Arch a fa ?M (xs @ ys) st3"
    "map fst ys = rest_members (sub_for opt st) left"
    using rest_loop_edit [OF disjI2 [OF conjI [OF opt refl]] ok' b] by blast
  have "\<exists>T. is_archive T (map fst (xs @ ys)) \<and> as_files st3 = (as_files st)(a \<mapsto> fa\<lparr>h_bytes := T\<rparr>)"
    using building_archive [OF st3(2)] by blast
  moreover have "ar_get ctime opt a args st = Inr st3" using o1 g st3(1) e by (simp add: ar_get_def)
  ultimately show ?thesis using st3(3) xs(1) by auto
qed


lemma print_get:
  assumes opt: "printing opt" and args: "args \<noteq> []" "trimmed args"
    and a: "as_files st a = Some fa" "h_read fa" "is_archive (h_bytes fa) ms"
    and p: "picked args ms = (r, left)" "length (as_buf st) = IO_SIZE"
  shows "\<exists>st'. ar_get ctime opt a args st = Inr st' \<and> as_files st' = as_files st \<and>
    as_out st' = as_out st @ concat (map snd r) @ not_found left"
proof -
  let ?c = "h_bytes fa"
  have e: "\<not> f_rep opt" "\<not> f_del opt" "f_pr opt" using opt by (auto simp: printing_def)
  have h: "holds ?c 2 ms" "2 \<le> length ?c" "seg ?c 0 2 = put2 (ucast ARMAG)" using a(3) by (auto simp: is_archive_def)
  let ?st1 = "set_fd Arch a 2 st"
  have o1: "open_archive opt Arch a READ st = Inr ?st1"
    using a(1,2) h open_check_ok [of a st ?c Arch] by (simp add: open_archive_def can_open_def content_def)
  have c: "content a st = ?c" "content a ?st1 = ?c" using a(1) by (simp_all add: content_def set_fd_def)
  have n: "length ms < Suc (length (content a ?st1))" using is_archive_length [OF a(3)] c(2) by simp
  have "shown_state st a 2 [] ?st1" using p(2) by (simp add: shown_state_def set_fd_def)
  then obtain k' st2 where st2: "get_loop ctime opt (Suc (length (content a ?st1))) args ?st1 = Inr (left, st2)"
    "shown_state st a k' ([] @ concat (map snd r)) st2"
    using print_loop [OF opt args(1) h(1) _ c(1) n args(2) p(1)] by blast
  then have "ar_get ctime opt a args st = Inr (ar_put (not_found left) st2)"
    using o1 e rest_loop_print [OF opt] by (simp add: ar_get_def)
  then show ?thesis using st2(2) by (simp add: shown_state_def ar_put_def)
qed


section \<open>The command line\<close>

lemma sub_for_temp [simp]: "sub_for opt (st\<lparr>as_temp := t\<rparr>) = sub_for opt st"
  by (rule ext) (simp add: sub_for_def)

definition temp_name :: "(bytes \<Rightarrow> bytes) \<Rightarrow> ar_opts \<Rightarrow> bytes" where
  "temp_name mktemp opt = mktemp (if f_local opt then lit ''ar.XXXXXX'' else lit ''/tmp/ar.XXXXXX'')"

text \<open>A command that the program accepts, with its options.\<close>

definition command :: "bytes \<Rightarrow> string \<Rightarrow> ar_opts \<Rightarrow> bool" where
  "command progname letters opt \<longleftrightarrow> map_option fst (ar_letters letters (no_opts progname, False)) = Some opt"

lemma main_edit:
  assumes "command progname letters opt" "editing opt" "args \<noteq> []"
  shows "ar_main ctime mktemp progname (Some (letters, a, args)) st = ar_get ctime opt a args (st\<lparr>as_temp := temp_name mktemp opt\<rparr>)"
  using assms by (auto simp: command_def ar_main_def editing_def temp_name_def Let_def split: if_splits)

lemma main_other:
  assumes "command progname letters opt" "appending opt \<or> printing opt" "args \<noteq> []"
  shows "\<exists>t. ar_main ctime mktemp progname (Some (letters, a, args)) st = ar_get ctime opt a args (st\<lparr>as_temp := t\<rparr>)"
  using assms by (auto simp: command_def ar_main_def appending_def printing_def Let_def split: if_splits)

text \<open>An archive that can be read, with its members, and one that can be written too.\<close>

definition archive_of :: "ar \<Rightarrow> bytes \<Rightarrow> member list \<Rightarrow> bool" where
  "archive_of st a ms \<longleftrightarrow> (case as_files st a of None \<Rightarrow> False | Some f \<Rightarrow> h_read f \<and> is_archive (h_bytes f) ms)"

definition writable :: "(bytes \<Rightarrow> hfile option) \<Rightarrow> bytes \<Rightarrow> bool" where
  "writable files a \<longleftrightarrow> (case files a of None \<Rightarrow> False | Some f \<Rightarrow> h_read f \<and> h_write f \<and> \<not> h_dir f)"

text \<open>The files \<open>xs\<close> can become members, and none of them is the file \<open>t\<close> that is written.\<close>

definition sources :: "ar_opts \<Rightarrow> ar \<Rightarrow> bytes \<Rightarrow> bytes list \<Rightarrow> bool" where
  "sources opt st t xs \<longleftrightarrow> (\<forall>x \<in> insert [] (set xs). x \<noteq> t \<and> (\<forall>m \<in> set (sub_for opt st x). wf_member m))"

text \<open>The files are the same, but that the archive \<open>a\<close> has other members.\<close>

definition only_archive :: "ar \<Rightarrow> bytes \<Rightarrow> member list \<Rightarrow> ar \<Rightarrow> bool" where
  "only_archive st a ms st' \<longleftrightarrow> archive_of st' a ms \<and> (\<forall>x. x \<noteq> a \<longrightarrow> as_files st' x = as_files st x) \<and>
     map_option (\<lambda>f. f\<lparr>h_bytes := []\<rparr>) (as_files st' a) = map_option (\<lambda>f. f\<lparr>h_bytes := []\<rparr>) (as_files st a)"

lemma only_archiveI:
  assumes "as_files st a = Some fa" "h_read fa" "is_archive T ms" "as_files st' = (as_files st)(a \<mapsto> fa\<lparr>h_bytes := T\<rparr>)"
  shows "only_archive st a ms st'"
  using assms by (simp add: only_archive_def archive_of_def)

text \<open>
  C38. The commands \<open>d\<close> and \<open>r\<close>: the archive that is written back holds the members that no argument
  names as they were and in their order, those that are named deleted or replaced by the file of
  that name, and behind them, for \<open>r\<close>, the files that no member has the name of. A file that
  cannot be found or read adds nothing, so that \<open>r\<close> deletes the member it should replace. The
  temporary archive is gone, and no other file changes.
\<close>

theorem archive_edited:
  assumes "command progname letters opt" "editing opt" "args \<noteq> []" "trimmed args"
    and "archive_of st a ms" "writable (as_files st) a" "sources opt st (temp_name mktemp opt) args"
    and "as_files st (temp_name mktemp opt) = None" "writable (as_new st) (temp_name mktemp opt)"
    and "2 + members_size (edited (sub_for opt st) args ms) \<le> as_limit st" "length (as_buf st) = IO_SIZE"
  shows "\<exists>st'. ar_main ctime mktemp progname (Some (letters, a, args)) st = Inr st' \<and>
    only_archive st a (edited (sub_for opt st) args ms) st'"
proof -
  let ?t = "temp_name mktemp opt" let ?st = "st\<lparr>as_temp := ?t\<rparr>"
  obtain fa where fa: "as_files ?st a = Some fa" "h_read fa" "h_write fa" "\<not> h_dir fa" "is_archive (h_bytes fa) ms"
    using assms(5,6) by (auto simp: archive_of_def writable_def split: option.splits)
  obtain f where f: "as_new ?st ?t = Some f" "h_read f" "h_write f" "\<not> h_dir f"
    using assms(9) by (auto simp: writable_def split: option.splits)
  obtain T st' where "ar_get ctime opt a args ?st = Inr st'" "is_archive T (edited (sub_for opt st) args ms)"
    "as_files st' = (as_files st)(a \<mapsto> fa\<lparr>h_bytes := T\<rparr>)"
    using edit_get [OF assms(2-4) fa, of ?t f ctime] f assms(7,8,10,11) by (auto simp: sources_def)
  then show ?thesis using main_edit [OF assms(1-3)] fa(1,2) by (auto intro!: only_archiveI)
qed

text \<open>
  C39. The command \<open>q\<close>: the archive holds the members it held and behind them the files among the
  arguments that no member has the name of, even where the byte that pads its last member was
  missing; no other file changes.
\<close>

theorem archive_appended:
  assumes "command progname letters opt" "appending opt" "args \<noteq> []" "trimmed args"
    and "archive_of st a ms" "writable (as_files st) a" "sources opt st a args"
    and "new = rest_members (sub_for opt st) (snd (edit_members (\<lambda>_. []) args ms))"
    and "2 + members_size (ms @ new) \<le> as_limit st" "length (as_buf st) = IO_SIZE"
  shows "\<exists>st'. ar_main ctime mktemp progname (Some (letters, a, args)) st = Inr st' \<and> only_archive st a (ms @ new) st'"
proof -
  obtain t where t: "ar_main ctime mktemp progname (Some (letters, a, args)) st = ar_get ctime opt a args (st\<lparr>as_temp := t\<rparr>)"
    using main_other assms(1-3) by blast
  let ?st = "st\<lparr>as_temp := t\<rparr>"
  obtain fa where fa: "as_files ?st a = Some fa" "h_read fa" "h_write fa" "\<not> h_dir fa" "is_archive (h_bytes fa) ms"
    using assms(5,6) by (auto simp: archive_of_def writable_def split: option.splits)
  obtain T st' where "ar_get ctime opt a args ?st = Inr st'" "is_archive T (ms @ new)"
    "as_files st' = (as_files st)(a \<mapsto> fa\<lparr>h_bytes := T\<rparr>)"
    using append_get [OF assms(2-4) fa _ refl, of ctime] assms(7-10) by (auto simp: sources_def)
  then show ?thesis using t fa(1,2) by (auto intro!: only_archiveI)
qed

text \<open>
  C40. The command \<open>p\<close>: what is printed are the contents of the members that the arguments name, in
  the order of the archive and without the bytes that pad them, and then the arguments that name no
  member; no file changes.
\<close>

theorem archive_printed:
  assumes "command progname letters opt" "printing opt" "args \<noteq> []" "trimmed args"
    and "archive_of st a ms" "picked args ms = (r, left)" "length (as_buf st) = IO_SIZE"
  shows "\<exists>st'. ar_main ctime mktemp progname (Some (letters, a, args)) st = Inr st' \<and> as_files st' = as_files st \<and>
    as_out st' = as_out st @ concat (map snd r) @ not_found left"
proof -
  obtain t where t: "ar_main ctime mktemp progname (Some (letters, a, args)) st = ar_get ctime opt a args (st\<lparr>as_temp := t\<rparr>)"
    using main_other assms(1-3) by blast
  obtain fa where fa: "as_files (st\<lparr>as_temp := t\<rparr>) a = Some fa" "h_read fa" "is_archive (h_bytes fa) ms"
    using assms(5) by (auto simp: archive_of_def split: option.splits)
  then show ?thesis using print_get [OF assms(2-4) fa assms(6), of ctime] assms(7) t by simp
qed

section \<open>An example\<close>

text \<open>An archive \<open>a\<close> of the members \<open>x\<close> and \<open>y\<close>, and the files \<open>x\<close> and \<open>z\<close>.\<close>

definition sample_file :: "bytes \<Rightarrow> hfile" where
  "sample_file bs = \<lparr>h_dir = False, h_read = True, h_write = True, h_bytes = bs, h_date = 5, h_uid = 0, h_gid = 0, h_mode = 0x1a4\<rparr>"

definition sample_member :: "string \<Rightarrow> bytes \<Rightarrow> member" where
  "sample_member s bs = new_member (lit s) (sample_file bs)"

definition sample_members :: "member list" where
  "sample_members = [sample_member ''x'' [7], sample_member ''y'' [8, 9]]"

definition sample_ar :: ar where
  "sample_ar = \<lparr>as_files = [lit ''a'' \<mapsto> sample_file (put2 (ucast ARMAG) @ concat (map (\<lambda>m. member_image (m, 0)) sample_members)),
       lit ''x'' \<mapsto> sample_file [1, 2, 3], lit ''z'' \<mapsto> sample_file [4]],
     as_limit = 1000, as_new = (\<lambda>_. Some (sample_file [])), as_temp = [], as_fd = (\<lambda>_. ([], 0)), as_buf = replicate IO_SIZE 0,
     as_added = \<lparr>ar_name = [], ar_date = 0, ar_uid = 0, ar_gid = 0, ar_mode = 0, ar_size = 0\<rparr>, as_out = [], as_err = []\<rparr>"

lemma basename_plain: "SLASH \<notin> set p \<Longrightarrow> basename p = (p, p)"
  by (simp add: basename.simps [of p])

lemma lit_sample: "lit [] = []" "lit ''a'' = [0x61]" "lit ''x'' = [0x78]" "lit ''y'' = [0x79]" "lit ''z'' = [0x7a]"
  by (simp_all add: lit_def)

lemma sample_basename [simp]: "basename [] = ([], [])" "basename [0x78] = ([0x78], [0x78])" "basename [0x79] = ([0x79], [0x79])"
  "basename [0x7a] = ([0x7a], [0x7a])"
  by (simp_all add: basename_plain SLASH_def)

lemma wf_sample [simp]:
  "length bs < 100 \<Longrightarrow> wf_member (sample_member ''x'' bs)" "length bs < 100 \<Longrightarrow> wf_member (sample_member ''y'' bs)"
  "length bs < 100 \<Longrightarrow> wf_member (sample_member ''z'' bs)"
  by (simp_all add: wf_member_def sample_member_def new_member_def new_header_def sample_file_def lit_sample strncpy14_def
      ar_equal_def name14_def SYMDEF_def c_str_def unat_of_nat take_bit_eq_mod)

lemma sample_archive: "archive_of sample_ar (lit ''a'') sample_members"
proof -
  let ?w = "put2 (ucast ARMAG) @ concat (map (\<lambda>m. member_image (m, 0)) sample_members)"
  have "holds ?w 2 (map fst (map (\<lambda>m. (m, 0 :: byte)) sample_members))"
    using holds_image [of 0 "map (\<lambda>m. (m, 0 :: byte)) sample_members" ?w "put2 (ucast ARMAG)"]
    by (simp add: sample_members_def put2_magic numeral_2_eq_2)
  then show ?thesis
    by (simp add: archive_of_def sample_ar_def lit_sample is_archive_def sample_file_def seg_def put2_magic o_def)
qed

lemma sample_name [simp]:
  "ar_name (fst (sample_member ''x'' bs)) = 0x78 # replicate 13 0" "ar_name (fst (sample_member ''y'' bs)) = 0x79 # replicate 13 0"
  by (simp_all add: sample_member_def new_member_def new_header_def lit_sample strncpy14_def)

lemma sample_snd [simp]: "snd (sample_member s bs) = bs"
  by (simp add: sample_member_def new_member_def sample_file_def)

lemmas sample_simps = lit_sample ar_equal_def name14_def c_str_def trimmed_def picked.simps rest_members_def edited_def not_found_def
  NEWLINE_def even_size_def AR_TOTAL_26

lemma sample_sub: "sub_for opt sample_ar [0x78] = (if f_rep opt \<or> f_app opt then [sample_member ''x'' [1, 2, 3]] else [])"
  "sub_for opt sample_ar [0x7a] = (if f_rep opt \<or> f_app opt then [sample_member ''z'' [4]] else [])" "sub_for opt sample_ar [] = []"
  by (simp_all add: sub_for_def sample_ar_def lit_sample sample_file_def sample_member_def)

theorem archive_edited_witness:
  "\<exists>st'. ar_main (\<lambda>_. []) (\<lambda>x. x) [] (Some (''r'', lit ''a'', [lit ''x'', lit ''z''])) sample_ar = Inr st' \<and>
    only_archive sample_ar (lit ''a'') [sample_member ''x'' [1, 2, 3], sample_member ''y'' [8, 9], sample_member ''z'' [4]] st'"
proof -
  let ?opt = "(no_opts [])\<lparr>f_rep := True\<rparr>" let ?args = "[lit ''x'', lit ''z'']"
  have e: "edited (sub_for ?opt sample_ar) ?args sample_members = [sample_member ''x'' [1, 2, 3], sample_member ''y'' [8, 9], sample_member ''z'' [4]]"
    by (simp add: sample_simps sample_members_def sample_sub Let_def)
  have "\<exists>st'. ar_main (\<lambda>_. []) (\<lambda>x. x) [] (Some (''r'', lit ''a'', ?args)) sample_ar = Inr st' \<and>
    only_archive sample_ar (lit ''a'') (edited (sub_for ?opt sample_ar) ?args sample_members) st'"
  proof (rule archive_edited)
    show "command [] ''r'' ?opt" by (simp add: command_def no_opts_def)
    show "editing ?opt" by (simp add: editing_def no_opts_def)
    show "archive_of sample_ar (lit ''a'') sample_members" by (rule sample_archive)
    show "sources ?opt sample_ar (temp_name (\<lambda>x. x) ?opt) ?args"
      by (simp add: sources_def temp_name_def sample_sub lit_def)
    show "2 + members_size (edited (sub_for ?opt sample_ar) ?args sample_members) \<le> as_limit sample_ar"
      unfolding e by (simp add: sample_simps sample_ar_def)
  qed (simp_all add: sample_simps writable_def sample_ar_def temp_name_def sample_file_def no_opts_def lit_def)
  then show ?thesis unfolding e .
qed

theorem archive_appended_witness:
  "\<exists>st'. ar_main (\<lambda>_. []) (\<lambda>x. x) [] (Some (''q'', lit ''a'', [lit ''z'', lit ''x''])) sample_ar = Inr st' \<and>
    only_archive sample_ar (lit ''a'') (sample_members @ [sample_member ''z'' [4]]) st'"
proof (rule archive_appended)
  let ?opt = "(no_opts [])\<lparr>f_app := True\<rparr>"
  show "command [] ''q'' ?opt" by (simp add: command_def no_opts_def)
  show "appending ?opt" by (simp add: appending_def no_opts_def)
  show "archive_of sample_ar (lit ''a'') sample_members" by (rule sample_archive)
  show "sources ?opt sample_ar (lit ''a'') [lit ''z'', lit ''x'']" by (simp add: sources_def sample_sub lit_def)
  show "[sample_member ''z'' [4]] = rest_members (sub_for ?opt sample_ar) (snd (edit_members (\<lambda>_. []) [lit ''z'', lit ''x''] sample_members))"
    by (simp add: sample_simps sample_members_def sample_sub Let_def)
qed (simp_all add: sample_simps writable_def sample_ar_def sample_file_def sample_members_def)

theorem archive_printed_witness:
  "\<exists>st'. ar_main (\<lambda>_. []) (\<lambda>x. x) [] (Some (''p'', lit ''a'', [lit ''y'', lit ''x''])) sample_ar = Inr st' \<and>
    as_files st' = as_files sample_ar \<and> as_out st' = as_out sample_ar @ concat (map snd sample_members) @ not_found [[], []]"
proof (rule archive_printed)
  let ?opt = "(no_opts [])\<lparr>f_pr := True\<rparr>"
  show "command [] ''p'' ?opt" by (simp add: command_def no_opts_def)
  show "printing ?opt" by (simp add: printing_def no_opts_def)
  show "archive_of sample_ar (lit ''a'') sample_members" by (rule sample_archive)
  show "picked [lit ''y'', lit ''x''] sample_members = (sample_members, [[], []])"
    by (simp add: sample_simps sample_members_def Let_def)
qed (simp_all add: sample_simps sample_ar_def)

end
