(* ===== verification/Spec2Isabelle.thy ===== *)
theory Spec2Isabelle
  imports Obj_Write Dis_Props V6_Props Emu_Props Cv_Props Ar_Props
begin

text \<open>
  A verification development for the repository \<open>i8086tools\<close>: tools of the eighties for the 8086
  (the archiver, disassembler, converter and object library of the Amsterdam Compiler Kit, \<open>Ack-5.5\<close>, and the link
  editor of Unix V6, \<open>v6\<close>), and an emulator of the 8086 and the PDP-11 to run the programs they make (\<open>7run\<close>).

  \<^bold>\<open>The program and its parts.\<close> The object library reads and writes the relocatable format of the
  kit (\<open>out.h\<close>), for its link editor. The disassembler \<open>dis88\<close> reads an executable of Minix
  from the standard input, with its symbol and relocation tables from the file, and writes assembly
  text. The archiver \<open>ar\<close> keeps object files as the members of a library, with the readers and writers
  of the object library. \<open>cv-i86\<close> makes an executable of Minix of a linked object file, which the emulator loads and
  the disassembler reads. \<open>v6/ld.c\<close> links object files and libraries of the sixth edition. The emulator loads a program
  of one of three systems, puts its arguments on the stack, interprets its instructions in two memories of
  64 kilobytes and passes system calls on.

  \<^bold>\<open>Theories.\<close>
  \<^item> \<open>Prelude\<close>: the machine types, errors as values of a sum type with \<open>bindE\<close>, byte strings and
    slices, lemmas on bits, and \<open>printf\<close>'s numbers. It holds the collections \<open>codec_simps\<close>, \<open>seg_simps\<close>,
    \<open>error_simps\<close>.
  \<^item> \<open>Out_Format\<close>: \<open>include/out.h\<close>, \<open>arch.h\<close>, \<open>ranlib.h\<close>, \<open>lib/obj.h\<close>: each struct is a record with
    its file image; the locale \<open>struct_codec\<close>, the contract of such an image, is interpreted for
    every struct.
  \<^item> \<open>Obj_Read\<close>: \<open>lib/rd*.c\<close>. The static variables are the record \<open>rd\<close>; every routine is a function
    on it with an error for \<open>rd_fatal\<close>. \<open>Obj_Write\<close>: \<open>lib/wr*.c\<close>, the record \<open>wr\<close>, with one buffer per
    part of the output file. The parts are the locales \<open>part_reader\<close> and \<open>part_writer\<close>, interpreted for the
    streams of the library.
  \<^item> \<open>Dis_Tables\<close> (\<open>distabs.c\<close>: \<open>optab\<close>, symbol lookup, the mode byte), \<open>Dis_Hand\<close> (\<open>dishand.c\<close>,
    \<open>disfp.c\<close>: one definition per handler), \<open>Dis_Main\<close> (\<open>dismain.c\<close>: header, tables, the passes).
    Static variables, input and output are the record \<open>dis\<close>; the width of \<open>int\<close> is a field.
    \<open>Dis_Props\<close> states the properties.
  \<^item> \<open>V6_Ld\<close>: \<open>v6/ld.c\<close> whole: record \<open>ld\<close>, pages and streams, \<open>dseek\<close>, \<open>get\<close>, \<open>lookup\<close>, \<open>load1\<close>, \<open>middle\<close>,
    \<open>load2\<close>, the output. \<open>V6_Read\<close>, \<open>V6_Stream\<close>, \<open>V6_Symtab\<close>, \<open>V6_Pass1\<close>, \<open>V6_Pass2\<close> hold the lemmas on
    the page cache, the streams, the hash table and the passes (with the locale \<open>merging_table\<close>,
    interpreted for \<open>symreloc\<close>), \<open>V6_Props\<close> the properties.
  \<^item> \<open>Emu_State\<close> (\<open>7run/i8086/VM.h\<close>, \<open>Operand.h\<close>, \<open>VMBase.h\<close>: record \<open>vm\<close>, memory, flags, operands), \<open>Emu_Run\<close>
    (\<open>VM.inst.cpp\<close>: every opcode, \<open>run1\<close>, \<open>run2\<close>), \<open>Emu_Dis\<close> (\<open>disasm.cpp\<close>, \<open>OpCode.cpp\<close>, \<open>Operand.cpp\<close>:
    instructions as records and as text, the listing). \<open>Emu_Alu\<close>, \<open>Emu_Shift\<close>, \<open>Emu_Mul\<close>, \<open>Emu_String\<close> and
    \<open>Emu_Agree\<close> hold the lemmas on arithmetic, shifts, products, string instructions, and on
    interpreter and disassembler; \<open>Emu_Props\<close> the properties.
  \<^item> \<open>Pdp_State\<close> (\<open>7run/PDP11/disasm.cpp\<close>, \<open>OpCode\<close>, \<open>Operand\<close>: instructions, their text, the listing), \<open>Pdp_Run\<close>
    (\<open>VM.h\<close>, \<open>VM.cpp\<close>, \<open>VM.inst.cpp\<close>: record \<open>pdp\<close>, addressing modes, every opcode, the cache of decoded instructions).
    \<open>Pdp_Cache\<close>, \<open>Pdp_Type\<close> and \<open>Pdp_Arith\<close> hold the lemmas on the cache, on well-formed instructions and on
    the flags; \<open>Pdp_Props\<close> the properties.
  \<^item> \<open>Emu_Load\<close> (\<open>main.cpp\<close>, \<open>utils.cpp\<close>, \<open>VMBase.cpp\<close>, and \<open>load2\<close>, \<open>readsym\<close>, \<open>setArgs\<close>, \<open>v6_exec\<close> of the systems:
    record \<open>loaded\<close>, a machine with the sizes and symbols), \<open>Load_Lemmas\<close> (bytes, words and strings in a memory),
    \<open>Load_Props\<close> the properties.
  \<^item> \<open>Cv_Ix\<close> (\<open>cv/cv-i86.c\<close> whole, over the record \<open>rd\<close>), \<open>Cv_Lemmas\<close> (the image as a function of a linked
    object), \<open>Cv_Props\<close> (the converter with its readers).
  \<^item> \<open>Ar_Arch\<close> (\<open>ar/archiver.c\<close> whole: record \<open>ar\<close>, the files of the host by their names, the descriptors
    that are open, every routine from \<open>open_archive\<close> to \<open>main\<close>), \<open>Ar_Edit\<close> (archives as lists of members,
    the files written as streams, the loops), \<open>Ar_Props\<close> the properties.

  \<^bold>\<open>What is shown.\<close>
  \<^item> Object library: reading gives back what was encoded, at any place of a file (C1); the calls of
    the writer leave the image of the object (C2), its parts being independent streams whatever the
    order of the calls and the buffering (C3); both together are a round trip (C4). \<open>wr_outsect_shared_buffer\<close>
    is the case in which the writer loses its position.
  \<^item> Disassembler: every handler ends, reads the bytes of its instruction and stays in the object
    buffer (C5, C6); targets of jumps, names and immediate operands, with the cases that come out wrong (C7, C8, C9); the
    data stand for the bytes of their segments, and the passes end (C10, C11); which files are accepted, and
    that the tables fit (C12).
  \<^item> Link editor: the page cache delivers the words of the file (C13, C14); the hash table
    implements a map (C15); symbols are resolved in order, the table stays well formed, members not
    needed leave it (C16, C17, C18); segments are relocated word by word (C19), common areas do not
    overlap (C20), and no run completes (C21).
  \<^item> Emulator, 8086: arithmetic, comparisons with jumps, shifts, products and quotients are those of words
    and integers (C22, C23, C26, C27), interpreter and disassembler agree on lengths and targets
    (C24), \<open>rep movsb\<close> copies a block (C25), and an instruction returns (C28).
  \<^item> Emulator, PDP-11: a machine of well-formed instructions stays one (C29); decoding once and for all is decoding
    every time, where the text is not written (C30); branches decide the orders, the instructions with one operand
    compute what the processor does, with the exceptions named, and an operand read and written is one place
    (C31, C32, C33).
  \<^item> Starting programs: \<open>exec\<close> puts an image where its header says and hands the arguments on (C34, C35).
  \<^item> From object file to process: the image of the converter is loaded with every section at its linked address (C36),
    and the disassembler finds its sizes and names (C37).
  \<^item> Archiver: an archive is a list of members (\<open>is_archive\<close>), which \<open>d\<close> and \<open>r\<close> edit by way of the
    temporary archive (C38) and \<open>q\<close> extends in place (C39), and of which \<open>p\<close> prints the contents (C40).

  \<^bold>\<open>Bounds and fuel.\<close> Files are shorter than \<open>2 ^ 31\<close> bytes (\<open>long\<close>) where a property says so.
  \<open>lookup\<close> of the link editor has \<open>NSYM + 3\<close> probes, one more than the slots of its table, and C15 and C17
  show that the search ends before. The loops of its passes have the number of bytes of the file as
  fuel; each round reads at least one word. The text pass of the disassembler has one round per byte
  of the segment, and every instruction takes at least one. A repeated string instruction has 65536
  rounds, and \<open>CX\<close> is at most 65535 (C25, C28); the fuel of \<open>run1\<close> counts repeat prefixes only, and C28
  says exactly when it does not suffice. \<open>p_run2\<close> counts instructions, and C30 holds for every number of them.
  The pointers of \<open>exec\<close> are read with \<open>0x8001\<close> rounds: after \<open>0x8000\<close> the address is the first one again, so that
  a list without an end within them has none. The loops of the archiver over headers and blocks have the
  length of the file as fuel, and each takes at least one byte (C38, C39, C40). Where the fuel runs out, the value is
  an error of its own, and the properties on termination show that it is not returned.

  \<^bold>\<open>Not modelled.\<close> The link editor of the kit (\<open>Ack-5.5/ld\<close>), whose memory manager moves its tables while they are in
  use; of the link editor of the sixth edition the deletion of temporary files; the variants \<open>cv.c\<close> and \<open>cv-pdp.c\<close> of
  the converter; \<open>nm\<close> and the file converters, which stand alone. The compiler driver and the
  system calls of the emulator consist of calls of the host's system; a system call is the
  parameter \<open>sys\<close> of the interpreters, so that its effects beyond \<open>exec\<close> and \<open>brk\<close>, signals and
  processes are not. Standard output is the string written; diagnostics that do
  not stop a program, temporary names and the trace of the emulator are left out.
  Accesses beyond an array, divisions by zero and shifts by the width of an \<open>int\<close>, which are
  undefined in C, are errors of the model.
\<close>

section \<open>Properties across components\<close>

text \<open>
  C4. What the writer leaves in the file, the reader reads back: an object written with the
  calls of \<open>wr.c\<close> and read with those of \<open>rd.c\<close> comes back unchanged.
\<close>

theorem write_read_object:
  assumes "wf_obj ob" "length (obj_bytes ob) \<le> limit" "limit < 2 ^ 31" "NPARTS \<le> avail"
    "length (rd_offset r) = MAXSECT"
  shows "\<exists>s1 s2 s3 r1 r2. wr_open avail (wr_init limit) = (1, s1) \<and> wr_object ob s1 = Inr s2 \<and>
    wr_close s2 = Inr s3 \<and> rd_open (Some (wr_file s3)) r = (1, r1) \<and> rd_object r1 = Inr (ob, r2)"
proof -
  obtain s1 s2 s3 where s: "wr_open avail (wr_init limit) = (1, s1)" "wr_object ob s1 = Inr s2"
    "wr_close s2 = Inr s3" "wr_file s3 = obj_bytes ob"
    using wr_object_run [OF assms(1-4)] by blast
  obtain r1 r2 where "rd_fdopen (open_at (obj_bytes ob) 0) (r\<lparr>rd_outfile := open_at (obj_bytes ob) 0\<rparr>) = (1, r1)"
    "rd_object r1 = Inr (ob, r2)"
    using rd_fdopen_run [OF assms(1), of "[]" "[]" "r\<lparr>rd_outfile := open_at (obj_bytes ob) 0\<rparr>"] assms(2,3,5)
    by auto
  then have "rd_open (Some (wr_file s3)) r = (1, r1)" "rd_object r1 = Inr (ob, r2)"
    by (simp_all add: rd_open_def s(4) Let_def)
  with s(1-3) show ?thesis by blast
qed

theorem write_read_object_witness:
  "\<exists>s1 s2 s3 r1 r2. wr_open 6 (wr_init 1000) = (1, s1) \<and> wr_object sample_obj s1 = Inr s2 \<and>
    wr_close s2 = Inr s3 \<and> rd_open (Some (wr_file s3)) rd_init = (1, r1) \<and>
    rd_object r1 = Inr (sample_obj, r2)"
  by (rule write_read_object [OF wf_sample_obj])
    (simp_all add: length_sample_obj PART_defs rd_init_def)

end
